(* ===== verification/Prelude.thy ===== *)
theory Prelude
  imports Complex_Main
begin

text \<open>
  Shared vocabulary of the development.

  \<^item> Ordered dictionaries (\<open>dget\<close>, \<open>dset\<close>, \<open>ddel\<close>): a JavaScript \<open>Record\<close>, \<open>Map\<close> or
    \<open>Set\<close> keeps its keys in insertion order, so it is an association list with one entry per
    key. The interface is the locale \<open>ordered_map\<close>, interpreted on these three functions.
  \<^item> Insertion-ordered sets (\<open>sadd\<close>, \<open>sdel\<close>) and \<open>uniq\<close>, which is \<open>[...new Set(xs)]\<close>.
  \<^item> \<open>trim\<close> and the few string operations the sources use.
  \<^item> The refinement interface, the locale \<open>simulation\<close>: one machine's steps as runs of another.
  \<^item> The error type: a thrown \<open>Error\<close> is \<open>Inl\<close> of its message.

  Strings are lists of 8-bit code units. Integer-like keys, which JavaScript objects list
  first, are not singled out.
\<close>

named_theorems dict_simps \<open>lookup laws of the ordered dictionaries\<close>
named_theorems inv_intros \<open>operations that keep a component invariant\<close>

type_synonym error = string
type_synonym 'a result = "error + 'a"
type_synonym ('k, 'v) dict = "('k \<times> 'v) list"

section \<open>Ordered dictionaries\<close>

definition dget :: "('k, 'v) dict \<Rightarrow> 'k \<Rightarrow> 'v option" where
  "dget d k = map_of d k"

fun dset :: "('k, 'v) dict \<Rightarrow> 'k \<Rightarrow> 'v \<Rightarrow> ('k, 'v) dict" where
  "dset [] k v = [(k, v)]"
| "dset ((k', v') # d) k v = (if k' = k then (k, v) # d else (k', v') # dset d k v)"

definition ddel :: "('k, 'v) dict \<Rightarrow> 'k \<Rightarrow> ('k, 'v) dict" where
  "ddel d k = filter (\<lambda>(k', _). k' \<noteq> k) d"

definition dkeys :: "('k, 'v) dict \<Rightarrow> 'k list" where
  "dkeys d = map fst d"

definition dvals :: "('k, 'v) dict \<Rightarrow> 'v list" where
  "dvals d = map snd d"

definition dict_wf :: "('k, 'v) dict \<Rightarrow> bool" where
  "dict_wf d \<longleftrightarrow> distinct (map fst d)"

section \<open>Insertion-ordered sets\<close>

definition sadd :: "'a list \<Rightarrow> 'a \<Rightarrow> 'a list" where
  "sadd xs x = (if x \<in> set xs then xs else xs @ [x])"

definition sdel :: "'a list \<Rightarrow> 'a \<Rightarrow> 'a list" where
  "sdel xs x = filter (\<lambda>y. y \<noteq> x) xs"

fun uniq :: "'a list \<Rightarrow> 'a list" where
  "uniq [] = []"
| "uniq (x # xs) = x # filter (\<lambda>y. y \<noteq> x) (uniq xs)"

text \<open>\<open>Array.prototype.indexOf\<close>, \<open>findIndex\<close> and one-element \<open>splice\<close>.\<close>

fun find_index :: "('a \<Rightarrow> bool) \<Rightarrow> 'a list \<Rightarrow> nat option" where
  "find_index P [] = None"
| "find_index P (x # xs) = (if P x then Some 0 else map_option Suc (find_index P xs))"

definition remove_at :: "nat \<Rightarrow> 'a list \<Rightarrow> 'a list" where
  "remove_at i xs = take i xs @ drop (Suc i) xs"

definition insert_at :: "nat \<Rightarrow> 'a \<Rightarrow> 'a list \<Rightarrow> 'a list" where
  "insert_at i x xs = take i xs @ x # drop i xs"

section \<open>Strings\<close>

definition is_space :: "char \<Rightarrow> bool" where
  "is_space c \<longleftrightarrow> of_char c \<in> {9, 10, 11, 12, 13, 32, 160 :: nat}"

definition trim :: "string \<Rightarrow> string" where
  "trim s = rev (dropWhile is_space (rev (dropWhile is_space s)))"

definition starts_with :: "string \<Rightarrow> string \<Rightarrow> bool" where
  "starts_with s p \<longleftrightarrow> take (length p) s = p"

definition ends_with :: "string \<Rightarrow> string \<Rightarrow> bool" where
  "ends_with s p \<longleftrightarrow> length p \<le> length s \<and> drop (length s - length p) s = p"

text \<open>\<open>value?.trim() ? value.trim() : undefined\<close>, an idiom the sources repeat.\<close>

definition trimmed :: "string option \<Rightarrow> string option" where
  "trimmed v = (case v of None \<Rightarrow> None | Some s \<Rightarrow> if trim s = [] then None else Some (trim s))"

section \<open>Results\<close>

text \<open>Sequencing of computations that may throw, and a loop whose body may throw.\<close>

definition rbind :: "'a result \<Rightarrow> ('a \<Rightarrow> 'b result) \<Rightarrow> 'b result" where
  "rbind m f = (case m of Inl e \<Rightarrow> Inl e | Inr a \<Rightarrow> f a)"

fun rfold :: "('s \<Rightarrow> 'x \<Rightarrow> 's result) \<Rightarrow> 's \<Rightarrow> 'x list \<Rightarrow> 's result" where
  "rfold f s [] = Inr s"
| "rfold f s (x # xs) = rbind (f s x) (\<lambda>s'. rfold f s' xs)"

lemma rbind_simps [simp]: "rbind (Inl e) f = Inl e" "rbind (Inr a) f = f a"
  by (simp_all add: rbind_def)

lemma rbind_Inr: "rbind m f = Inr b \<longleftrightarrow> (\<exists>a. m = Inr a \<and> f a = Inr b)"
  by (cases m) simp_all

lemma rbind_InrE: "rbind m f = Inr b \<Longrightarrow> (\<And>a. m = Inr a \<Longrightarrow> f a = Inr b \<Longrightarrow> P) \<Longrightarrow> P"
  by (cases m) simp_all

lemma rfold_invariant:
  assumes "rfold f s xs = Inr s'" and "P s" and "\<And>s x s'. P s \<Longrightarrow> x \<in> set xs \<Longrightarrow> f s x = Inr s' \<Longrightarrow> P s'"
  shows "P s'"
  using assms
proof (induction xs arbitrary: s)
  case (Cons x xs)
  from Cons.prems(1) obtain s1 where s1: "f s x = Inr s1" "rfold f s1 xs = Inr s'" by (auto simp: rbind_Inr)
  have "P s1" using Cons.prems(2,3) s1(1) by (meson list.set_intros(1))
  show ?case
  proof (rule Cons.IH [OF s1(2) \<open>P s1\<close>])
    fix s x' s' assume "P s" "x' \<in> set xs" "f s x' = Inr s'"
    then show "P s'" using Cons.prems(3) by (meson list.set_intros(2))
  qed
qed simp

lemma rfold_append: "rfold f s (xs @ ys) = rbind (rfold f s xs) (\<lambda>s'. rfold f s' ys)"
proof (induction xs arbitrary: s)
  case (Cons x xs)
  then show ?case by (cases "f s x") simp_all
qed simp

lemma rfold_map: "rfold f s (map g xs) = rfold (\<lambda>s x. f s (g x)) s xs"
proof (induction xs arbitrary: s)
  case (Cons x xs)
  then show ?case by (cases "f s (g x)") simp_all
qed simp

lemma rbind_right [simp]: "rbind m Inr = m"
  by (cases m) simp_all

lemma foldl_invariant:
  assumes "P s" and "\<And>s x. P s \<Longrightarrow> x \<in> set xs \<Longrightarrow> P (f s x)"
  shows "P (foldl f s xs)"
  using assms by (induction xs arbitrary: s) simp_all

section \<open>Laws\<close>

lemma dget_Nil [simp]: "dget [] k = None"
  by (simp add: dget_def)

lemma dget_Cons [simp]: "dget ((k', v) # d) k = (if k' = k then Some v else dget d k)"
  by (simp add: dget_def)

lemma dget_append [simp]: "dget (d @ e) k = (case dget d k of Some v \<Rightarrow> Some v | None \<Rightarrow> dget e k)"
  by (simp add: dget_def map_add_def split: option.splits)

lemma dget_dset [simp, dict_simps]: "dget (dset d k v) k' = (if k' = k then Some v else dget d k')"
  by (induction d k v rule: dset.induct) auto

lemma dset_fresh: "dget d k = None \<Longrightarrow> dset d k v = d @ [(k, v)]"
  by (induction d k v rule: dset.induct) (auto split: if_splits)

lemma dget_ddel [simp, dict_simps]: "dget (ddel d k) k' = (if k' = k then None else dget d k')"
  by (induction d) (auto simp: ddel_def)

lemma dkeys_dset: "dkeys (dset d k v) = sadd (dkeys d) k"
  by (induction d k v rule: dset.induct) (auto simp: dkeys_def sadd_def)

lemma dkeys_ddel: "dkeys (ddel d k) = sdel (dkeys d) k"
  by (induction d) (auto simp: dkeys_def sdel_def ddel_def)

lemma ddel_absent: "k \<notin> set (dkeys d) \<Longrightarrow> ddel d k = d"
  unfolding ddel_def dkeys_def by (rule filter_True) (force simp: image_iff)

lemma dget_None_iff: "dget d k = None \<longleftrightarrow> k \<notin> set (dkeys d)"
  by (simp add: dget_def dkeys_def map_of_eq_None_iff)

lemma dget_Some_in: "dget d k = Some v \<Longrightarrow> (k, v) \<in> set d"
  by (simp add: dget_def map_of_SomeD)

lemma dget_Some_val: "dget d k = Some v \<Longrightarrow> v \<in> set (dvals d)"
  by (force simp: dvals_def dest: dget_Some_in)

lemma dict_wf_dget: "dict_wf d \<Longrightarrow> (k, v) \<in> set d \<Longrightarrow> dget d k = Some v"
  by (simp add: dict_wf_def dget_def)

lemma dget_map: "dget (map (\<lambda>(k, v). (k, f k v)) d) k = map_option (f k) (dget d k)"
  by (induction d) auto

lemma set_sadd [simp]: "set (sadd xs x) = insert x (set xs)"
  by (auto simp: sadd_def)

lemma distinct_sadd [simp]: "distinct (sadd xs x) = distinct xs"
  by (auto simp: sadd_def)

lemma set_sdel [simp]: "set (sdel xs x) = set xs - {x}"
  by (auto simp: sdel_def)

lemma distinct_sdel [simp]: "distinct xs \<Longrightarrow> distinct (sdel xs x)"
  by (simp add: sdel_def)

lemma sdel_notin [simp]: "x \<notin> set xs \<Longrightarrow> sdel xs x = xs"
  unfolding sdel_def by (rule filter_True) auto

lemma length_sdel: "distinct xs \<Longrightarrow> length (sdel xs x) = length xs - (if x \<in> set xs then 1 else 0)"
proof (induction xs)
  case Nil
  then show ?case by (simp add: sdel_def)
next
  case (Cons y ys)
  then show ?case by (cases ys) (auto simp: sdel_def)
qed

lemma length_sadd: "length (sadd xs x) = length xs + (if x \<in> set xs then 0 else 1)"
  by (simp add: sadd_def)

lemma dict_wf_Nil [simp]: "dict_wf []"
  by (simp add: dict_wf_def)

lemma dict_wf_dset [simp, intro]: "dict_wf d \<Longrightarrow> dict_wf (dset d k v)"
  using dkeys_dset [of d k v] by (simp add: dict_wf_def dkeys_def)

lemma dict_wf_ddel [simp, intro]: "dict_wf d \<Longrightarrow> dict_wf (ddel d k)"
  using dkeys_ddel [of d k] by (simp add: dict_wf_def dkeys_def)

lemma set_uniq [simp]: "set (uniq xs) = set xs"
  by (induction xs) auto

lemma distinct_uniq [simp]: "distinct (uniq xs)"
  by (induction xs) auto

lemma uniq_id: "distinct xs \<Longrightarrow> uniq xs = xs"
  by (induction xs) (auto intro!: filter_True)

lemma find_index_None: "find_index P xs = None \<longleftrightarrow> (\<forall>x \<in> set xs. \<not> P x)"
  by (induction xs) auto

lemma find_index_Some:
  "find_index P xs = Some i \<Longrightarrow> i < length xs \<and> P (xs ! i) \<and> (\<forall>j < i. \<not> P (xs ! j))"
proof (induction xs arbitrary: i)
  case Nil
  then show ?case by simp
next
  case (Cons x xs)
  show ?case
  proof (cases "P x")
    case True
    with Cons.prems show ?thesis by simp
  next
    case False
    with Cons.prems obtain k where k: "find_index P xs = Some k" "i = Suc k" by auto
    from Cons.IH [OF k(1)] k(2) False show ?thesis
      by (auto simp: nth_Cons split: nat.splits)
  qed
qed

lemma find_index_None_iff: "find_index P xs = None \<longleftrightarrow> (\<forall>x \<in> set xs. \<not> P x)"
  by (induction xs) auto

lemma length_remove_at: "i < length xs \<Longrightarrow> length (remove_at i xs) = length xs - 1"
  by (simp add: remove_at_def)

lemma length_remove_at_less: "i < length xs \<Longrightarrow> length (remove_at i xs) < length xs"
  by (simp add: remove_at_def)

lemma split_at_nth: "i < length xs \<Longrightarrow> xs = take i xs @ (xs ! i) # drop (Suc i) xs"
  by (rule id_take_nth_drop)

lemma set_remove_at_subset: "set (remove_at i xs) \<subseteq> set xs"
  by (auto simp: remove_at_def dest: in_set_takeD in_set_dropD)

lemma set_insert_at [simp]: "set (insert_at i x xs) = insert x (set xs)"
proof -
  have "set (take i xs) \<union> set (drop i xs) = set xs"
    by (metis append_take_drop_id set_append)
  then show ?thesis by (auto simp: insert_at_def)
qed

lemma distinct_insert_at [simp]: "distinct (insert_at i x xs) \<longleftrightarrow> distinct xs \<and> x \<notin> set xs"
proof -
  have "distinct (take i xs @ x # drop i xs) \<longleftrightarrow> distinct (x # (take i xs @ drop i xs))"
    by (simp only: distinct.simps distinct_append set_append list.set) blast
  then show ?thesis unfolding insert_at_def append_take_drop_id by (metis distinct.simps(2))
qed

lemma length_insert_at [simp]: "length (insert_at i x xs) = Suc (length xs)"
  by (simp add: insert_at_def)

lemma dropWhile_idem: "dropWhile P (dropWhile P xs) = dropWhile P xs"
  by (induction xs) auto

lemma trim_trim [simp]: "trim (trim s) = trim s"
proof -
  let ?d = "dropWhile is_space s"
  have pre: "?d = trim s @ rev (takeWhile is_space (rev ?d))"
    unfolding trim_def by (metis rev_append rev_rev_ident takeWhile_dropWhile_id)
  have "dropWhile is_space (trim s) = trim s"
  proof (cases "trim s")
    case (Cons c cs)
    with pre obtain ds where "?d = c # ds" by (metis append_Cons)
    then have "\<not> is_space c" by (metis hd_dropWhile list.sel(1) list.discI)
    with Cons show ?thesis by simp
  qed simp
  moreover have "dropWhile is_space (rev (trim s)) = rev (trim s)" by (simp add: trim_def)
  ultimately show ?thesis by (simp add: trim_def [of "trim s"])
qed

section \<open>The dictionary interface\<close>

text \<open>
  What the clients of a dictionary rely on, and the consequences they share: two writes to
  different keys commute as lookups, and a sequence of writes leaves every other key alone.
\<close>

locale ordered_map =
  fixes get :: "'m \<Rightarrow> 'k \<Rightarrow> 'v option"
    and put :: "'m \<Rightarrow> 'k \<Rightarrow> 'v \<Rightarrow> 'm"
    and del :: "'m \<Rightarrow> 'k \<Rightarrow> 'm"
    and keys :: "'m \<Rightarrow> 'k list"
  assumes get_put: "get (put m k v) k' = (if k' = k then Some v else get m k')"
    and get_del: "get (del m k) k' = (if k' = k then None else get m k')"
    and keys_put: "keys (put m k v) = sadd (keys m) k"
    and keys_del: "keys (del m k) = sdel (keys m) k"
begin

lemma put_commute: "k \<noteq> l \<Longrightarrow> get (put (put m k v) l w) x = get (put (put m l w) k v) x"
  by (auto simp: get_put)

lemma fold_put_frame: "x \<notin> fst ` set ws \<Longrightarrow> get (fold (\<lambda>(k, v) m. put m k v) ws m) x = get m x"
  by (induction ws arbitrary: m) (auto simp: get_put)

lemma fold_del_get: "get (fold (\<lambda>k m. del m k) ks m) x = (if x \<in> set ks then None else get m x)"
  by (induction ks arbitrary: m) (auto simp: get_del)

lemma fold_put_distinct:
  "distinct (map fst ws) \<Longrightarrow> get (fold (\<lambda>(k, v) m. put m k v) ws m) x =
     (case map_of ws x of Some v \<Rightarrow> Some v | None \<Rightarrow> get m x)"
proof (induction ws arbitrary: m)
  case Nil
  then show ?case by simp
next
  case (Cons w ws)
  obtain k v where w: "w = (k, v)" by (cases w)
  show ?case
  proof (cases "x = k")
    case True
    with Cons.prems w have "x \<notin> fst ` set ws" by auto
    with True w show ?thesis by (simp add: fold_put_frame get_put)
  next
    case False
    with Cons w show ?thesis by (simp add: get_put split: option.splits)
  qed
qed

end

interpretation dict: ordered_map dget dset ddel dkeys
  by unfold_locales (simp_all add: dkeys_dset dkeys_ddel)

lemmas dict_frame = dict.fold_put_frame dict.fold_del_get dict.fold_put_distinct

section \<open>The refinement interface\<close>

text \<open>
  A machine refines another when each of its steps, from states of its invariant, keeps the invariant and is
  a run of the other machine on the abstracted states.
\<close>

locale simulation =
  fixes step :: "'s \<Rightarrow> 's \<Rightarrow> bool" and inv :: "'s \<Rightarrow> bool"
    and abs :: "'s \<Rightarrow> 'a" and astep :: "'a \<Rightarrow> 'a \<Rightarrow> bool"
  assumes keeps: "step s s' \<Longrightarrow> inv s \<Longrightarrow> inv s'"
    and simulates: "step s s' \<Longrightarrow> inv s \<Longrightarrow> astep\<^sup>*\<^sup>* (abs s) (abs s')"
begin

lemma runs_keep: "step\<^sup>*\<^sup>* s s' \<Longrightarrow> inv s \<Longrightarrow> inv s'"
  by (induction rule: rtranclp_induct) (auto intro: keeps)

lemma runs_simulate: "step\<^sup>*\<^sup>* s s' \<Longrightarrow> inv s \<Longrightarrow> astep\<^sup>*\<^sup>* (abs s) (abs s')"
proof (induction rule: rtranclp_induct)
  case (step s1 s2)
  have "inv s1" using step.hyps(1) step.prems by (rule runs_keep)
  then have "astep\<^sup>*\<^sup>* (abs s1) (abs s2)" by (rule simulates [OF step.hyps(2)])
  with step.IH [OF step.prems] show ?case by (rule rtranclp_trans)
qed simp

end

end
