(* ===== verification/Js_Value.thy ===== *)
theory Js_Value
  imports Prelude "HOL-Library.Char_ord" "HOL-Library.List_Lexorder"
begin

text \<open>
  JavaScript values as the sources use them.

  A number is \<open>NaN\<close>, an infinity, or a finite value kept as an exact rational: rounding to
  IEEE doubles and the sign of zero are not modelled. \<open>undefined\<close> is a value of its own, because
  the sources distinguish an absent property from one that is \<open>null\<close>.

  \<^item> \<open>stableEquals\<close>: equality of \<open>JSON.stringify(stableValue(x))\<close>, by comparing normal forms. The
    order in which \<open>stableValue\<close> sorts the keys does not matter for equality, only that it is one
    order; here it is code unit order.
  \<^item> \<open>deepStrictEquals\<close>: \<open>isDeepStrictEqual\<close>.
  \<^item> \<open>js_String\<close>, \<open>js_Number\<close>, \<open>js_truthy\<close>: the conversions. The string of a non-integral number
    is its decimal expansion, cut after 17 digits; exponent notation is not produced.
  \<^item> \<open>dateParse\<close>: \<open>Date.parse\<close> on ISO 8601 strings; other formats, which are
    implementation-defined, give \<open>NaN\<close>.
\<close>

section \<open>Numbers\<close>

datatype jsnum = NaN | PosInf | NegInf | Fin rat

definition num_int :: "int \<Rightarrow> jsnum" where
  "num_int i = Fin (of_int i)"

fun is_finite :: "jsnum \<Rightarrow> bool" where
  "is_finite (Fin _) = True"
| "is_finite _ = False"

fun is_integer :: "jsnum \<Rightarrow> bool" where
  "is_integer (Fin r) = (of_int \<lfloor>r\<rfloor> = r)"
| "is_integer _ = False"

definition max_safe_integer :: int where
  "max_safe_integer = 9007199254740991"

fun to_int :: "jsnum \<Rightarrow> int" where
  "to_int (Fin r) = \<lfloor>r\<rfloor>"
| "to_int _ = 0"

definition is_safe_integer :: "jsnum \<Rightarrow> bool" where
  "is_safe_integer n \<longleftrightarrow> is_integer n \<and> \<bar>to_int n\<bar> \<le> max_safe_integer"

fun num_less :: "jsnum \<Rightarrow> jsnum \<Rightarrow> bool" where
  "num_less (Fin a) (Fin b) = (a < b)"
| "num_less NaN _ = False"
| "num_less _ NaN = False"
| "num_less NegInf b = (b \<noteq> NegInf)"
| "num_less a PosInf = (a \<noteq> PosInf)"
| "num_less _ _ = False"

text \<open>\<open>===\<close> on numbers: \<open>NaN\<close> differs from itself.\<close>

definition num_eq :: "jsnum \<Rightarrow> jsnum \<Rightarrow> bool" where
  "num_eq a b \<longleftrightarrow> a \<noteq> NaN \<and> a = b"

lemma is_integer_num_int [simp]: "is_integer (num_int i)"
  by (simp add: num_int_def)

lemma to_int_num_int [simp]: "to_int (num_int i) = i"
  by (simp add: num_int_def)

lemma is_finite_num_int [simp]: "is_finite (num_int i)"
  by (simp add: num_int_def)

lemma num_less_num_int [simp]: "num_less (num_int a) (num_int b) \<longleftrightarrow> a < b"
  by (simp add: num_int_def)

lemma num_int_inj [simp]: "num_int a = num_int b \<longleftrightarrow> a = b"
  by (simp add: num_int_def)

section \<open>Values\<close>

datatype js = JUndef | JNull | JBool bool | JNum jsnum | JStr string
  | JArr "js list" | JObj "(string \<times> js) list"

type_synonym js_record = "(string, js) dict"

definition isRecord :: "js \<Rightarrow> bool" where
  "isRecord v \<longleftrightarrow> (case v of JObj _ \<Rightarrow> True | _ \<Rightarrow> False)"

text \<open>A record's property, \<open>undefined\<close> when absent; and the property of a value through \<open>?.\<close>.\<close>

definition rget :: "js_record \<Rightarrow> string \<Rightarrow> js" where
  "rget r k = (case dget r k of Some v \<Rightarrow> v | None \<Rightarrow> JUndef)"

definition recordOf :: "js \<Rightarrow> js_record" where
  "recordOf v = (case v of JObj r \<Rightarrow> r | _ \<Rightarrow> [])"

definition jget :: "js \<Rightarrow> string \<Rightarrow> js" where
  "jget v k = rget (recordOf v) k"

definition js_truthy :: "js \<Rightarrow> bool" where
  "js_truthy v = (case v of JUndef \<Rightarrow> False | JNull \<Rightarrow> False | JBool b \<Rightarrow> b
     | JNum n \<Rightarrow> n \<noteq> NaN \<and> n \<noteq> num_int 0 | JStr s \<Rightarrow> s \<noteq> [] | JArr _ \<Rightarrow> True | JObj _ \<Rightarrow> True)"

text \<open>\<open>a ?? b\<close>.\<close>

definition orElse :: "js \<Rightarrow> js \<Rightarrow> js" where
  "orElse a b = (if a = JUndef \<or> a = JNull then b else a)"

definition asString :: "js \<Rightarrow> string option" where
  "asString v = (case v of JStr s \<Rightarrow> Some s | _ \<Rightarrow> None)"

definition asNumber :: "js \<Rightarrow> jsnum option" where
  "asNumber v = (case v of JNum n \<Rightarrow> Some n | _ \<Rightarrow> None)"

section \<open>Structural equality\<close>

definition jsonElement :: "js \<Rightarrow> js" where
  "jsonElement v = (if v = JUndef then JNull else v)"

primrec jsonCanon :: "js \<Rightarrow> js" where
  "jsonCanon JUndef = JUndef"
| "jsonCanon JNull = JNull"
| "jsonCanon (JBool b) = JBool b"
| "jsonCanon (JNum n) = (if is_finite n then JNum n else JNull)"
| "jsonCanon (JStr s) = JStr s"
| "jsonCanon (JArr xs) = JArr (map jsonElement (map jsonCanon xs))"
| "jsonCanon (JObj kvs) = JObj (sort_key fst (filter (\<lambda>p. snd p \<noteq> JUndef) (map (map_prod id jsonCanon) kvs)))"

definition stableEquals :: "js \<Rightarrow> js \<Rightarrow> bool" where
  "stableEquals a b \<longleftrightarrow> jsonCanon a = jsonCanon b"

primrec deepCanon :: "js \<Rightarrow> js" where
  "deepCanon JUndef = JUndef"
| "deepCanon JNull = JNull"
| "deepCanon (JBool b) = JBool b"
| "deepCanon (JNum n) = JNum n"
| "deepCanon (JStr s) = JStr s"
| "deepCanon (JArr xs) = JArr (map deepCanon xs)"
| "deepCanon (JObj kvs) = JObj (sort_key fst (map (map_prod id deepCanon) kvs))"

definition deepStrictEquals :: "js \<Rightarrow> js \<Rightarrow> bool" where
  "deepStrictEquals a b \<longleftrightarrow> deepCanon a = deepCanon b"

section \<open>Conversions\<close>

definition digit_char :: "nat \<Rightarrow> char" where
  "digit_char d = char_of (48 + d)"

fun show_nat :: "nat \<Rightarrow> string" where
  "show_nat n = (if n < 10 then [digit_char n] else show_nat (n div 10) @ [digit_char (n mod 10)])"

declare show_nat.simps [simp del]

definition show_int :: "int \<Rightarrow> string" where
  "show_int i = (if i < 0 then ''-'' @ show_nat (nat (- i)) else show_nat (nat i))"

fun show_frac :: "nat \<Rightarrow> rat \<Rightarrow> string" where
  "show_frac 0 r = []"
| "show_frac (Suc n) r = (if r = 0 then [] else
     (let d = nat \<lfloor>10 * r\<rfloor> in digit_char d # show_frac n (10 * r - of_nat d)))"

definition show_rat :: "rat \<Rightarrow> string" where
  "show_rat r = (let a = \<bar>r\<bar>; i = \<lfloor>a\<rfloor>; f = a - of_int i
     in (if r < 0 then ''-'' else []) @ show_nat (nat i) @ (if f = 0 then [] else ''.'' @ show_frac 17 f))"

fun show_num :: "jsnum \<Rightarrow> string" where
  "show_num NaN = ''NaN''"
| "show_num PosInf = ''Infinity''"
| "show_num NegInf = ''-Infinity''"
| "show_num (Fin r) = show_rat r"

fun intersperse :: "string \<Rightarrow> string list \<Rightarrow> string" where
  "intersperse s [] = []"
| "intersperse s [x] = x"
| "intersperse s (x # xs) = x @ s @ intersperse s xs"

primrec js_String :: "js \<Rightarrow> string" where
  "js_String JUndef = ''undefined''"
| "js_String JNull = ''null''"
| "js_String (JBool b) = (if b then ''true'' else ''false'')"
| "js_String (JNum n) = show_num n"
| "js_String (JStr s) = s"
| "js_String (JArr xs) = intersperse '','' (map (\<lambda>p. if fst p = JUndef \<or> fst p = JNull then [] else snd p)
     (map (\<lambda>x. (x, js_String x)) xs))"
| "js_String (JObj kvs) = ''[object Object]''"

definition is_digit :: "char \<Rightarrow> bool" where
  "is_digit c \<longleftrightarrow> (let n = of_char c :: nat in 48 \<le> n \<and> n \<le> 57)"

definition digit_val :: "char \<Rightarrow> nat" where
  "digit_val c = of_char c - 48"

definition read_digits :: "string \<Rightarrow> nat" where
  "read_digits s = foldl (\<lambda>n c. 10 * n + digit_val c) 0 s"

text \<open>An unsigned decimal literal: digits, an optional fraction, an optional exponent.\<close>

definition read_exponent :: "string \<Rightarrow> int option" where
  "read_exponent s =
     (if s = [] then Some 0
      else if hd s \<in> {CHR ''e'', CHR ''E''} then
        (let t = tl s; neg = (t \<noteq> [] \<and> hd t = CHR ''-'');
             ds = (if t \<noteq> [] \<and> hd t \<in> {CHR ''+'', CHR ''-''} then tl t else t)
         in if ds \<noteq> [] \<and> list_all is_digit ds
            then Some (if neg then - int (read_digits ds) else int (read_digits ds)) else None)
      else None)"

definition pow10 :: "int \<Rightarrow> rat" where
  "pow10 e = (if 0 \<le> e then 10 ^ nat e else 1 / 10 ^ nat (- e))"

definition read_decimal :: "string \<Rightarrow> rat option" where
  "read_decimal s =
     (let whole = takeWhile is_digit s; rest = dropWhile is_digit s;
          dot = (rest \<noteq> [] \<and> hd rest = CHR ''.'');
          frac = (if dot then takeWhile is_digit (tl rest) else []);
          exp = (if dot then dropWhile is_digit (tl rest) else rest)
      in if whole = [] \<and> frac = [] then None
         else map_option (\<lambda>e. (of_nat (read_digits whole) +
                of_nat (read_digits frac) / 10 ^ length frac) * pow10 e) (read_exponent exp))"

definition radix_digit :: "nat \<Rightarrow> char \<Rightarrow> nat option" where
  "radix_digit b c =
     (let n = of_char c :: nat;
          d = (if is_digit c then n - 48 else if 97 \<le> n \<and> n \<le> 102 then n - 87
               else if 65 \<le> n \<and> n \<le> 70 then n - 55 else 99)
      in if d < b then Some d else None)"

definition read_radix :: "nat \<Rightarrow> string \<Rightarrow> rat option" where
  "read_radix b s =
     (if s = [] \<or> list_ex (\<lambda>c. radix_digit b c = None) s then None
      else Some (of_nat (foldl (\<lambda>n c. b * n + the (radix_digit b c)) 0 s)))"

text \<open>\<open>Number(s)\<close> on a string.\<close>

definition read_number :: "string \<Rightarrow> jsnum" where
  "read_number str =
     (let s = trim str in
      if s = [] then num_int 0
      else if hd s = CHR ''0'' \<and> 2 \<le> length s \<and> s ! 1 \<in> {CHR ''x'', CHR ''X'', CHR ''o'', CHR ''O'', CHR ''b'', CHR ''B''}
      then (let b = (if s ! 1 \<in> {CHR ''x'', CHR ''X''} then 16
                     else if s ! 1 \<in> {CHR ''o'', CHR ''O''} then 8 else 2)
            in case read_radix b (drop 2 s) of Some r \<Rightarrow> Fin r | None \<Rightarrow> NaN)
      else
        (let neg = (hd s = CHR ''-''); body = (if hd s \<in> {CHR ''+'', CHR ''-''} then tl s else s)
         in if body = ''Infinity'' then (if neg then NegInf else PosInf)
            else case read_decimal body of
                Some r \<Rightarrow> Fin (if neg then - r else r) | None \<Rightarrow> NaN))"

definition js_Number :: "js \<Rightarrow> jsnum" where
  "js_Number v = (case v of JUndef \<Rightarrow> NaN | JNull \<Rightarrow> num_int 0 | JBool b \<Rightarrow> num_int (if b then 1 else 0)
     | JNum n \<Rightarrow> n | JStr s \<Rightarrow> read_number s | JArr _ \<Rightarrow> read_number (js_String v) | JObj _ \<Rightarrow> NaN)"

definition to_lower :: "string \<Rightarrow> string" where
  "to_lower s = map (\<lambda>c. let n = of_char c :: nat in if 65 \<le> n \<and> n \<le> 90 then char_of (n + 32) else c) s"

section \<open>Dates\<close>

text \<open>Days since 1970-01-01 of a proleptic Gregorian date.\<close>

definition daysFromCivil :: "int \<Rightarrow> int \<Rightarrow> int \<Rightarrow> int" where
  "daysFromCivil y m d =
     (let y' = (if m \<le> 2 then y - 1 else y); era = y' div 400; yoe = y' - era * 400;
          doy = (153 * (m + (if 2 < m then -3 else 9)) + 2) div 5 + d - 1;
          doe = yoe * 365 + yoe div 4 - yoe div 100 + doy
      in era * 146097 + doe - 719468)"

definition isLeap :: "int \<Rightarrow> bool" where
  "isLeap y \<longleftrightarrow> y mod 4 = 0 \<and> (y mod 100 \<noteq> 0 \<or> y mod 400 = 0)"

definition daysInMonth :: "int \<Rightarrow> int \<Rightarrow> int" where
  "daysInMonth y m = (if m = 2 then (if isLeap y then 29 else 28) else if m \<in> {4, 6, 9, 11} then 30 else 31)"

definition digitsAt :: "nat \<Rightarrow> nat \<Rightarrow> string \<Rightarrow> int option" where
  "digitsAt i n s = (let d = take n (drop i s)
     in if length d = n \<and> list_all is_digit d then Some (int (read_digits d)) else None)"

definition readZone :: "string \<Rightarrow> int option" where
  "readZone z =
     (if z = ''Z'' then Some 0
      else if length z = 6 \<and> hd z \<in> {CHR ''+'', CHR ''-''} \<and> z ! 3 = CHR '':'' then
        (case (digitsAt 1 2 z, digitsAt 4 2 z) of
           (Some h, Some m) \<Rightarrow> if h < 24 \<and> m < 60 then Some ((if hd z = CHR ''-'' then -1 else 1) * (h * 60 + m)) else None
         | _ \<Rightarrow> None)
      else None)"

text \<open>The seconds, milliseconds and zone after \<open>YYYY-MM-DDTHH:mm\<close>.\<close>

definition readSeconds :: "string \<Rightarrow> (int \<times> string) option" where
  "readSeconds s =
     (if s = [] \<or> hd s \<noteq> CHR '':'' then Some (0, s)
      else case digitsAt 1 2 s of
        None \<Rightarrow> None
      | Some sec \<Rightarrow>
          (let rest = drop 3 s in
           if 60 \<le> sec then None
           else if rest \<noteq> [] \<and> hd rest = CHR ''.'' then
             (let f = takeWhile is_digit (tl rest)
              in if f = [] then None
                 else Some (sec * 1000 + int (read_digits (take 3 (f @ ''00''))), dropWhile is_digit (tl rest)))
           else Some (sec * 1000, rest)))"

definition dateParse :: "string \<Rightarrow> int option" where
  "dateParse s =
     (if \<not> (4 < length s \<and> s ! 4 = CHR ''-'' \<and> 7 < length s \<and> s ! 7 = CHR ''-'') then None
      else case (digitsAt 0 4 s, digitsAt 5 2 s, digitsAt 8 2 s) of
        (Some y, Some mo, Some d) \<Rightarrow>
          if mo < 1 \<or> 12 < mo \<or> d < 1 \<or> daysInMonth y mo < d then None
          else
            (let day = daysFromCivil y mo d * 86400000; rest = drop 10 s in
             if rest = [] then Some day
             else if hd rest = CHR ''T'' \<and> 6 \<le> length rest \<and> rest ! 3 = CHR '':'' then
               (case (digitsAt 1 2 rest, digitsAt 4 2 rest, readSeconds (drop 6 rest)) of
                  (Some h, Some mi, Some (ms, z)) \<Rightarrow>
                    if 24 \<le> h \<or> 60 \<le> mi then None
                    else map_option (\<lambda>off. day + h * 3600000 + mi * 60000 + ms - off * 60000) (readZone z)
                | _ \<Rightarrow> None)
             else None)
      | _ \<Rightarrow> None)"

section \<open>Laws\<close>

lemma stableEquals_refl [simp]: "stableEquals a a"
  by (simp add: stableEquals_def)

lemma stableEquals_sym: "stableEquals a b \<Longrightarrow> stableEquals b a"
  by (simp add: stableEquals_def)

lemma stableEquals_trans: "stableEquals a b \<Longrightarrow> stableEquals b c \<Longrightarrow> stableEquals a c"
  by (simp add: stableEquals_def)

lemma rget_dset [simp]: "rget (dset r k v) k' = (if k' = k then v else rget r k')"
  by (simp add: rget_def)

end
