(* ===== verification/Host_Capacity.thy ===== *)
theory Host_Capacity
  imports Js_Value
begin

text \<open>
  \<open>HostCapacity\<close> (src/src/app/core/scheduling/host-capacity.ts): one Host-owned limit shared by
  App request owners and Task attempts, with one slot kept for foreground work.

  A release closure is a handle, a number; \<open>live\<close> lists the handles whose closure has not been
  called yet and whether the slot was taken as foreground, so the closure's \<open>released\<close> flag is
  the handle's absence from \<open>live\<close>. A waiter is the entry of the \<open>waiters\<close> array; the closure
  variables of a cancellable waiter (\<open>active\<close>, \<open>reservedRelease\<close>) are in \<open>cancels\<close>. A promise
  that \<open>grant\<close> resolves is recorded in \<open>resolved\<close>, a \<open>setTimeout(..., 0)\<close> in \<open>timers\<close>; the event
  loop runs one of those with \<open>fireGrant\<close>.
\<close>

record waiter =
  wtId :: nat
  wtActive :: bool
  wtForeground :: bool
  wtCancellable :: bool

record cancel_state =
  csActive :: bool
  csReserved :: "nat option"

record capacity =
  limit :: int
  backgroundLimit :: int
  running :: int
  backgroundRunning :: int
  waiters :: "waiter list"
  live :: "(nat, bool) dict"
  cancels :: "(nat, cancel_state) dict"
  timers :: "(nat \<times> nat) list"
  resolved :: "(nat \<times> nat) list"
  fresh :: nat

definition newHostCapacity :: "jsnum \<Rightarrow> capacity result" where
  "newHostCapacity maxConcurrent =
     (if \<not> is_integer maxConcurrent \<or> to_int maxConcurrent < 1
      then Inl ''HostCapacity maxConcurrent must be a positive integer''
      else Inr \<lparr>limit = to_int maxConcurrent,
                backgroundLimit = max 1 (to_int maxConcurrent - 1),
                running = 0, backgroundRunning = 0, waiters = [],
                live = [], cancels = [], timers = [], resolved = [], fresh = 0\<rparr>)"

definition releaseHandle :: "bool \<Rightarrow> capacity \<Rightarrow> nat \<times> capacity" where
  "releaseHandle fg c = (fresh c, c\<lparr>live := dset (live c) (fresh c) fg, fresh := Suc (fresh c)\<rparr>)"

definition tryAcquire :: "capacity \<Rightarrow> nat option \<times> capacity" where
  "tryAcquire c =
     (if limit c \<le> running c \<or> backgroundLimit c \<le> backgroundRunning c then (None, c)
      else let (h, c') = releaseHandle False
                 (c\<lparr>running := running c + 1, backgroundRunning := backgroundRunning c + 1\<rparr>)
           in (Some h, c'))"

definition tryAcquireForeground :: "capacity \<Rightarrow> nat option \<times> capacity" where
  "tryAcquireForeground c =
     (if limit c \<le> running c then (None, c)
      else let (h, c') = releaseHandle True (c\<lparr>running := running c + 1\<rparr>) in (Some h, c'))"

definition tryAcquireLane :: "bool \<Rightarrow> capacity \<Rightarrow> nat option \<times> capacity" where
  "tryAcquireLane fg c = (if fg then tryAcquireForeground c else tryAcquire c)"

text \<open>\<open>waiter.grant\<close>: resolve the promise, or reserve the slot and call back on a later turn.\<close>

definition grant :: "waiter \<Rightarrow> nat \<Rightarrow> capacity \<Rightarrow> capacity" where
  "grant w h c =
     (if wtCancellable w
      then c\<lparr>cancels := (case dget (cancels c) (wtId w) of
                None \<Rightarrow> cancels c
              | Some s \<Rightarrow> dset (cancels c) (wtId w) (s\<lparr>csReserved := Some h\<rparr>)),
             timers := timers c @ [(wtId w, h)]\<rparr>
      else c\<lparr>resolved := resolved c @ [(wtId w, h)]\<rparr>)"

text \<open>The index \<open>drainWaiters\<close> picks: the first foreground waiter, else a background one.\<close>

definition nextWaiter :: "capacity \<Rightarrow> nat option" where
  "nextWaiter c =
     (case find_index (\<lambda>w. wtActive w \<and> wtForeground w) (waiters c) of
        Some i \<Rightarrow> Some i
      | None \<Rightarrow> if backgroundRunning c < backgroundLimit c
                then find_index (\<lambda>w. wtActive w \<and> \<not> wtForeground w) (waiters c)
                else None)"

definition grantNext :: "waiter \<Rightarrow> capacity \<Rightarrow> capacity" where
  "grantNext w c =
     (let c1 = c\<lparr>running := running c + 1,
                 backgroundRunning := backgroundRunning c + (if wtForeground w then 0 else 1)\<rparr>;
          (h, c2) = releaseHandle (wtForeground w) c1
      in grant w h c2)"

lemma nextWaiter_less: "nextWaiter c = Some i \<Longrightarrow> i < length (waiters c)"
  by (auto simp: nextWaiter_def dest: find_index_Some split: option.splits if_splits)

lemma nextWaiter_active: "nextWaiter c = Some i \<Longrightarrow> wtActive (waiters c ! i)"
  by (auto simp: nextWaiter_def dest: find_index_Some split: option.splits if_splits)

lemma waiters_grantNext [simp]: "waiters (grantNext w c) = waiters c"
  by (simp add: grantNext_def releaseHandle_def grant_def Let_def)

function drainWaiters :: "capacity \<Rightarrow> capacity" where
  "drainWaiters c =
     (if running c < limit c then
        (case nextWaiter c of
           None \<Rightarrow> c
         | Some i \<Rightarrow>
             (let w = waiters c ! i; c1 = c\<lparr>waiters := remove_at i (waiters c)\<rparr>
              in if \<not> wtActive w then drainWaiters c1 else drainWaiters (grantNext w c1)))
      else c)"
  by pat_completeness auto
termination
  by (relation "measure (\<lambda>c. length (waiters c))")
    (auto simp: length_remove_at_less dest: nextWaiter_less)

declare drainWaiters.simps [simp del]

definition release :: "nat \<Rightarrow> capacity \<Rightarrow> capacity" where
  "release h c =
     (case dget (live c) h of
        None \<Rightarrow> c
      | Some fg \<Rightarrow> drainWaiters
          (c\<lparr>live := ddel (live c) h,
             running := running c - 1,
             backgroundRunning := backgroundRunning c - (if fg then 0 else 1)\<rparr>))"

text \<open>\<open>acquire\<close> and \<open>acquireForeground\<close>: the promise of waiter \<open>w\<close>, resolved now or later.\<close>

definition acquireLane :: "bool \<Rightarrow> capacity \<Rightarrow> nat \<times> capacity" where
  "acquireLane fg c =
     (let w = fresh c; c1 = c\<lparr>fresh := Suc w\<rparr>
      in case tryAcquireLane fg c1 of
           (Some h, c2) \<Rightarrow> (w, c2\<lparr>resolved := resolved c2 @ [(w, h)]\<rparr>)
         | (None, c2) \<Rightarrow>
             (w, c2\<lparr>waiters := waiters c2 @
               [\<lparr>wtId = w, wtActive = True, wtForeground = fg, wtCancellable = False\<rparr>]\<rparr>))"

definition acquireCancellableLane :: "bool \<Rightarrow> capacity \<Rightarrow> nat \<times> capacity" where
  "acquireCancellableLane fg c =
     (let w = fresh c;
          wt = \<lparr>wtId = w, wtActive = True, wtForeground = fg, wtCancellable = True\<rparr>;
          c1 = c\<lparr>fresh := Suc w, cancels := dset (cancels c) w \<lparr>csActive = True, csReserved = None\<rparr>\<rparr>
      in case tryAcquireLane fg c1 of
           (Some h, c2) \<Rightarrow> (w, grant wt h c2)
         | (None, c2) \<Rightarrow> (w, c2\<lparr>waiters := waiters c2 @ [wt]\<rparr>))"

text \<open>The cancel function \<open>acquireCancellableLane\<close> returns.\<close>

definition cancelWait :: "nat \<Rightarrow> capacity \<Rightarrow> capacity" where
  "cancelWait w c =
     (case dget (cancels c) w of
        None \<Rightarrow> c
      | Some s \<Rightarrow>
          if \<not> csActive s then c
          else
            (let c1 = c\<lparr>cancels := dset (cancels c) w \<lparr>csActive = False, csReserved = None\<rparr>,
                        waiters := filter (\<lambda>x. wtId x \<noteq> w) (waiters c)\<rparr>
             in case csReserved s of None \<Rightarrow> c1 | Some h \<Rightarrow> release h c1))"

text \<open>
  One turn of the timer queue: the closure of the oldest granted cancellable waiter runs. The
  result names the waiter and handle its callback is called with, if it is still active.
\<close>

definition fireGrant :: "capacity \<Rightarrow> (nat \<times> nat) option \<times> capacity" where
  "fireGrant c =
     (case timers c of
        [] \<Rightarrow> (None, c)
      | (w, h) # rest \<Rightarrow>
          (let c1 = c\<lparr>timers := rest\<rparr>
           in case dget (cancels c) w of
                None \<Rightarrow> (None, c1)
              | Some s \<Rightarrow>
                  if \<not> csActive s
                  then (let c2 = c1\<lparr>cancels := dset (cancels c1) w (s\<lparr>csReserved := None\<rparr>)\<rparr>
                        in (None, case csReserved s of None \<Rightarrow> c2 | Some r \<Rightarrow> release r c2))
                  else (Some (w, h),
                        c1\<lparr>cancels := dset (cancels c1) w \<lparr>csActive = False, csReserved = None\<rparr>\<rparr>)))"

definition snapshot :: "capacity \<Rightarrow> int \<times> nat" where
  "snapshot c = (running c, length (waiters c))"

section \<open>Slot accounting\<close>

text \<open>
  \<open>running\<close> and \<open>backgroundRunning\<close> count the live handles, the limits hold, and handles are
  never reused.
\<close>

definition slots_ok :: "capacity \<Rightarrow> bool" where
  "slots_ok c \<longleftrightarrow>
     1 \<le> limit c \<and> backgroundLimit c = max 1 (limit c - 1) \<and>
     dict_wf (live c) \<and> (\<forall>h \<in> set (dkeys (live c)). h < fresh c) \<and>
     running c = int (length (live c)) \<and>
     backgroundRunning c = int (length (filter (\<lambda>(h, fg). \<not> fg) (live c))) \<and>
     running c \<le> limit c \<and> backgroundRunning c \<le> backgroundLimit c"

text \<open>No slot idles while a waiter could use it.\<close>

definition no_idle :: "capacity \<Rightarrow> bool" where
  "no_idle c \<longleftrightarrow> (running c < limit c \<longrightarrow> nextWaiter c = None)"

text \<open>
  Waiters and granted timers: a queued cancellable waiter is active and holds nothing; a timer
  belongs to a waiter that left the queue, and while that waiter is active it reserves the
  timer's handle, which is live.
\<close>

definition waiters_ok :: "capacity \<Rightarrow> bool" where
  "waiters_ok c \<longleftrightarrow> distinct (map wtId (waiters c)) \<and>
     (\<forall>w \<in> set (waiters c). wtActive w \<and> wtId w < fresh c \<and> wtId w \<notin> set (map fst (timers c)) \<and>
        (wtCancellable w \<longrightarrow> dget (cancels c) (wtId w) = Some \<lparr>csActive = True, csReserved = None\<rparr>))"

definition timers_ok :: "capacity \<Rightarrow> bool" where
  "timers_ok c \<longleftrightarrow> distinct (map fst (timers c)) \<and> distinct (map snd (timers c)) \<and>
     (\<forall>(w, h) \<in> set (timers c). w < fresh c \<and> h < fresh c \<and>
        (dget (cancels c) w = Some \<lparr>csActive = True, csReserved = Some h\<rparr> \<and> dget (live c) h \<noteq> None \<or>
         dget (cancels c) w = Some \<lparr>csActive = False, csReserved = None\<rparr>))"

definition cancels_ok :: "capacity \<Rightarrow> bool" where
  "cancels_ok c \<longleftrightarrow> (\<forall>w s. dget (cancels c) w = Some s \<longrightarrow> w < fresh c \<and>
     (\<forall>h. csReserved s = Some h \<longrightarrow> (w, h) \<in> set (timers c)))"

definition waits_ok :: "capacity \<Rightarrow> bool" where
  "waits_ok c \<longleftrightarrow> waiters_ok c \<and> timers_ok c \<and> cancels_ok c"

lemma ddel_length: "dict_wf d \<Longrightarrow> dget d k \<noteq> None \<Longrightarrow> Suc (length (ddel d k)) = length d"
proof (induction d)
  case Nil
  then show ?case by simp
next
  case (Cons a d)
  obtain k' v where a: "a = (k', v)" by (cases a)
  show ?case
  proof (cases "k' = k")
    case True
    with Cons.prems a have "\<forall>x \<in> set d. fst x \<noteq> k" by (auto simp: dict_wf_def image_iff)
    then have "ddel d k = d" by (auto simp: ddel_def intro!: filter_True)
    with True a show ?thesis by (simp add: ddel_def)
  next
    case False
    with Cons a have "Suc (length (ddel d k)) = length d" by (simp add: dict_wf_def)
    with False a show ?thesis by (simp add: ddel_def)
  qed
qed

lemma ddel_filter: "filter (\<lambda>(h, v). P v) (ddel d k) = ddel (filter (\<lambda>(h, v). P v) d) k"
  by (auto simp: ddel_def conj_commute intro!: filter_cong)

lemma dget_filter: "dict_wf d \<Longrightarrow> dget (filter (\<lambda>(h, v). P v) d) k =
    (case dget d k of None \<Rightarrow> None | Some v \<Rightarrow> if P v then Some v else None)"
proof (induction d)
  case Nil
  then show ?case by simp
next
  case (Cons a d)
  obtain k' v where a: "a = (k', v)" by (cases a)
  from Cons.prems have "dict_wf d" by (simp add: dict_wf_def)
  from Cons.prems a have "k' = k \<Longrightarrow> dget d k = None"
    by (auto simp: dict_wf_def dget_None_iff dkeys_def)
  with Cons.IH [OF \<open>dict_wf d\<close>] a show ?case by (auto split: option.splits)
qed

lemma dict_wf_filter: "dict_wf d \<Longrightarrow> dict_wf (filter P d)"
  by (auto simp: dict_wf_def distinct_map intro: inj_on_subset)

lemma slots_fresh: "slots_ok c \<Longrightarrow> fresh c \<le> k \<Longrightarrow> dget (live c) k = None"
  by (auto simp: slots_ok_def dget_None_iff)

text \<open>Taking a slot for \<open>fg\<close> work, the common step of every grant.\<close>

definition take_slot :: "bool \<Rightarrow> capacity \<Rightarrow> nat \<times> capacity" where
  "take_slot fg c = releaseHandle fg
     (c\<lparr>running := running c + 1, backgroundRunning := backgroundRunning c + (if fg then 0 else 1)\<rparr>)"

lemma take_slot_ok:
  assumes "slots_ok c" and "running c < limit c" and "fg \<or> backgroundRunning c < backgroundLimit c"
  shows "slots_ok (snd (take_slot fg c))"
proof -
  have fr: "dset (live c) (fresh c) fg = live c @ [(fresh c, fg)]"
    using assms(1) by (intro dset_fresh slots_fresh) auto
  have "fresh c \<notin> fst ` set (live c)"
    using slots_fresh [OF assms(1), of "fresh c"] by (simp add: dget_None_iff dkeys_def)
  with assms fr show ?thesis
    by (auto simp: slots_ok_def take_slot_def releaseHandle_def dict_wf_def dkeys_def)
qed

lemma release_slot_ok:
  assumes "slots_ok c" and "dget (live c) h = Some fg"
  shows "slots_ok (c\<lparr>live := ddel (live c) h, running := running c - 1,
            backgroundRunning := backgroundRunning c - (if fg then 0 else 1)\<rparr>)"
proof -
  let ?bg = "filter (\<lambda>(h, fg). \<not> fg) (live c)"
  have wf: "dict_wf (live c)" "dict_wf ?bg"
    using assms(1) by (auto simp: slots_ok_def intro: dict_wf_filter)
  have len: "Suc (length (ddel (live c) h)) = length (live c)"
    using wf assms(2) by (intro ddel_length) auto
  have get: "dget ?bg h = (if fg then None else Some fg)"
    using dget_filter [OF wf(1), of "\<lambda>fg. \<not> fg" h] assms(2) by simp
  have "length (ddel ?bg h) + (if fg then 0 else 1) = length ?bg"
  proof (cases fg)
    case True
    with get have "h \<notin> set (dkeys ?bg)" by (simp add: dget_None_iff)
    then have "ddel ?bg h = ?bg"
      unfolding ddel_def by (intro filter_True) (auto simp: dkeys_def image_iff)
    with True show ?thesis by simp
  next
    case False
    with get ddel_length [OF wf(2), of h] show ?thesis by simp
  qed
  with assms(1) len wf(1) show ?thesis
    by (auto simp: slots_ok_def ddel_filter dkeys_ddel split: if_splits)
qed

lemma slots_frame [simp]:
  "slots_ok (c\<lparr>waiters := ws\<rparr>) = slots_ok c" "slots_ok (c\<lparr>cancels := cs\<rparr>) = slots_ok c"
  "slots_ok (c\<lparr>timers := ts\<rparr>) = slots_ok c" "slots_ok (c\<lparr>resolved := rs\<rparr>) = slots_ok c"
  by (simp_all add: slots_ok_def)

lemma slots_fresh_frame [simp]: "slots_ok c \<Longrightarrow> slots_ok (c\<lparr>fresh := Suc (fresh c)\<rparr>)"
  by (auto simp: slots_ok_def)

lemma grant_slots [simp]: "slots_ok (grant w h c) = slots_ok c"
  by (simp add: grant_def slots_ok_def)

lemma grantNext_take: "grantNext w c = (case take_slot (wtForeground w) c of (h, c') \<Rightarrow> grant w h c')"
  by (simp add: grantNext_def take_slot_def Let_def)

lemma tryAcquireLane_take:
  "tryAcquireLane fg c =
     (if limit c \<le> running c \<or> \<not> fg \<and> backgroundLimit c \<le> backgroundRunning c then (None, c)
      else case take_slot fg c of (h, c') \<Rightarrow> (Some h, c'))"
  by (simp add: tryAcquireLane_def tryAcquire_def tryAcquireForeground_def take_slot_def)

lemma nextWaiter_can_take:
  "nextWaiter c = Some i \<Longrightarrow> wtForeground (waiters c ! i) \<or> backgroundRunning c < backgroundLimit c"
  by (auto simp: nextWaiter_def dest: find_index_Some split: option.splits if_splits)

lemma grantNext_slots:
  assumes "slots_ok c" and "running c < limit c" and "nextWaiter c = Some i"
  shows "slots_ok (grantNext (waiters c ! i) (c\<lparr>waiters := ws\<rparr>))"
  using take_slot_ok [of "c\<lparr>waiters := ws\<rparr>" "wtForeground (waiters c ! i)"] assms
    nextWaiter_can_take [OF assms(3)]
  by (auto simp: grantNext_take split: prod.splits)

text \<open>What every grant keeps, the whole drain keeps; and the drain stops only when no waiter fits.\<close>

lemma drain_induct [consumes 1, case_names grant]:
  assumes "P c"
    and "\<And>c i. P c \<Longrightarrow> running c < limit c \<Longrightarrow> nextWaiter c = Some i \<Longrightarrow>
           P (grantNext (waiters c ! i) (c\<lparr>waiters := remove_at i (waiters c)\<rparr>))"
  shows "P (drainWaiters c) \<and> no_idle (drainWaiters c)"
  using assms(1)
proof (induction c rule: drainWaiters.induct)
  case (1 c)
  show ?case
  proof (cases "running c < limit c \<and> nextWaiter c \<noteq> None")
    case False
    with "1.prems" show ?thesis
      by (subst (1 2) drainWaiters.simps) (auto simp: no_idle_def split: option.splits)
  next
    case True
    then obtain i where i: "nextWaiter c = Some i" by auto
    from "1.IH"(2) [OF _ i refl refl] nextWaiter_active [OF i] assms(2) [OF "1.prems" _ i] True i
    show ?thesis by (subst (1 2) drainWaiters.simps) simp
  qed
qed

lemma drainWaiters_slots [inv_intros]: "slots_ok c \<Longrightarrow> slots_ok (drainWaiters c)"
  using drain_induct [of slots_ok] grantNext_slots by blast

lemma drainWaiters_no_idle: "no_idle (drainWaiters c)"
  using drain_induct [of "\<lambda>_. True"] by blast

lemma release_slots [inv_intros]: "slots_ok c \<Longrightarrow> slots_ok (release h c)"
  using release_slot_ok [of c h]
  by (auto simp: release_def intro!: drainWaiters_slots split: option.splits)

lemma release_no_idle [inv_intros]: "no_idle c \<Longrightarrow> no_idle (release h c)"
  by (auto simp: release_def intro: drainWaiters_no_idle split: option.splits)

lemma tryAcquireLane_slots [inv_intros]: "slots_ok c \<Longrightarrow> slots_ok (snd (tryAcquireLane fg c))"
  using take_slot_ok [of c fg] by (auto simp: tryAcquireLane_take split: prod.splits)

lemma acquireLane_slots [inv_intros]: "slots_ok c \<Longrightarrow> slots_ok (snd (acquireLane fg c))"
  using tryAcquireLane_slots [of "c\<lparr>fresh := Suc (fresh c)\<rparr>" fg]
  by (auto simp: acquireLane_def Let_def split: prod.splits option.splits)

lemma acquireCancellableLane_slots [inv_intros]:
  "slots_ok c \<Longrightarrow> slots_ok (snd (acquireCancellableLane fg c))"
  using tryAcquireLane_slots [of "c\<lparr>fresh := Suc (fresh c),
      cancels := dset (cancels c) (fresh c) \<lparr>csActive = True, csReserved = None\<rparr>\<rparr>" fg]
  by (auto simp: acquireCancellableLane_def Let_def split: prod.splits option.splits)

lemma cancelWait_slots [inv_intros]: "slots_ok c \<Longrightarrow> slots_ok (cancelWait w c)"
  by (auto simp: cancelWait_def Let_def intro!: release_slots split: option.splits)

lemma fireGrant_slots [inv_intros]: "slots_ok c \<Longrightarrow> slots_ok (snd (fireGrant c))"
  by (auto simp: fireGrant_def Let_def intro!: release_slots split: list.splits option.splits)

section \<open>Work conservation\<close>

lemma nextWaiter_None_iff:
  "nextWaiter c = None \<longleftrightarrow>
     (\<forall>w \<in> set (waiters c). wtActive w \<longrightarrow>
        \<not> wtForeground w \<and> backgroundLimit c \<le> backgroundRunning c)"
proof (cases "find_index (\<lambda>w. wtActive w \<and> wtForeground w) (waiters c)")
  case None
  then have "nextWaiter c = (if backgroundRunning c < backgroundLimit c
      then find_index (\<lambda>w. wtActive w \<and> \<not> wtForeground w) (waiters c) else None)"
    by (simp add: nextWaiter_def)
  with None show ?thesis by (auto simp: find_index_None_iff)
next
  case (Some i)
  then have "find_index (\<lambda>w. wtActive w \<and> wtForeground w) (waiters c) \<noteq> None" by simp
  then have "\<exists>w \<in> set (waiters c). wtActive w \<and> wtForeground w" by (simp add: find_index_None_iff)
  with Some show ?thesis by (auto simp: nextWaiter_def)
qed

lemma tryAcquireLane_no_idle [inv_intros]: "no_idle c \<Longrightarrow> no_idle (snd (tryAcquireLane fg c))"
  by (auto simp: tryAcquireLane_take take_slot_def releaseHandle_def no_idle_def nextWaiter_None_iff)

lemma no_idle_frame [simp]:
  "no_idle (c\<lparr>cancels := cs\<rparr>) = no_idle c" "no_idle (c\<lparr>timers := ts\<rparr>) = no_idle c"
  "no_idle (c\<lparr>resolved := rs\<rparr>) = no_idle c" "no_idle (c\<lparr>fresh := n\<rparr>) = no_idle c"
  "no_idle (grant w h c) = no_idle c"
  by (simp_all add: no_idle_def nextWaiter_None_iff grant_def)

lemma enqueue_no_idle:
  assumes "no_idle c" and "tryAcquireLane fg c = (None, c')" and "wtForeground w = fg"
  shows "no_idle (c'\<lparr>waiters := waiters c' @ [w]\<rparr>)"
  using assms by (auto simp: tryAcquireLane_take no_idle_def nextWaiter_None_iff split: if_splits prod.splits)

lemma acquireLane_no_idle [inv_intros]:
  assumes "no_idle c" shows "no_idle (snd (acquireLane fg c))"
proof -
  let ?c = "c\<lparr>fresh := Suc (fresh c)\<rparr>"
  show ?thesis
    using assms tryAcquireLane_no_idle [of ?c fg] enqueue_no_idle [of ?c fg]
    by (auto simp: acquireLane_def Let_def split: prod.splits option.splits)
qed

lemma acquireCancellableLane_no_idle [inv_intros]:
  assumes "no_idle c" shows "no_idle (snd (acquireCancellableLane fg c))"
proof -
  let ?c = "c\<lparr>fresh := Suc (fresh c),
      cancels := dset (cancels c) (fresh c) \<lparr>csActive = True, csReserved = None\<rparr>\<rparr>"
  show ?thesis
    using assms tryAcquireLane_no_idle [of ?c fg] enqueue_no_idle [of ?c fg]
    by (auto simp: acquireCancellableLane_def Let_def split: prod.splits option.splits)
qed

lemma filter_waiters_no_idle: "no_idle c \<Longrightarrow> no_idle (c\<lparr>waiters := filter P (waiters c)\<rparr>)"
  by (auto simp: no_idle_def nextWaiter_None_iff)

lemma cancelWait_no_idle [inv_intros]: "no_idle c \<Longrightarrow> no_idle (cancelWait w c)"
  using filter_waiters_no_idle [of "c\<lparr>cancels := cs\<rparr>" "\<lambda>x. wtId x \<noteq> w" for cs]
  by (auto simp: cancelWait_def Let_def intro!: release_no_idle split: option.splits)

lemma fireGrant_no_idle [inv_intros]: "no_idle c \<Longrightarrow> no_idle (snd (fireGrant c))"
  by (auto simp: fireGrant_def Let_def intro!: release_no_idle split: list.splits option.splits)

section \<open>Waiters and reservations\<close>

lemma take_slot_live:
  "snd (take_slot fg c) = c\<lparr>running := running c + 1,
     backgroundRunning := backgroundRunning c + (if fg then 0 else 1),
     live := dset (live c) (fresh c) fg, fresh := Suc (fresh c)\<rparr>"
  "fst (take_slot fg c) = fresh c"
  by (simp_all add: take_slot_def releaseHandle_def)

lemma take_slot_waits:
  assumes "waits_ok c"
  shows "waits_ok (snd (take_slot fg c))"
  using assms unfolding waits_ok_def take_slot_live
  by (auto simp: waiters_ok_def timers_ok_def cancels_ok_def less_Suc_eq)

lemma tryAcquireLane_waits [inv_intros]: "waits_ok c \<Longrightarrow> waits_ok (snd (tryAcquireLane fg c))"
  using take_slot_waits [of c fg] by (auto simp: tryAcquireLane_take split: prod.splits)

lemma waits_frame [simp]: "waits_ok (c\<lparr>resolved := rs\<rparr>) = waits_ok c"
  by (simp add: waits_ok_def waiters_ok_def timers_ok_def cancels_ok_def)

lemma waits_fresh: "waits_ok c \<Longrightarrow> waits_ok (c\<lparr>fresh := Suc (fresh c)\<rparr>)"
  unfolding waits_ok_def by (auto simp: waiters_ok_def timers_ok_def cancels_ok_def less_Suc_eq)

text \<open>Handing a live, unreserved handle to a waiter that left the queue.\<close>

lemma grant_waits:
  assumes ok: "waits_ok c"
    and h: "dget (live c) h \<noteq> None" "h < fresh c" "h \<notin> set (map snd (timers c))"
    and w: "wtId w < fresh c" "wtId w \<notin> set (map wtId (waiters c))" "wtId w \<notin> set (map fst (timers c))"
    and cs: "wtCancellable w \<Longrightarrow>
      dget (cancels c) (wtId w) = Some \<lparr>csActive = True, csReserved = None\<rparr>"
  shows "waits_ok (grant w h c)"
proof (cases "wtCancellable w")
  case False
  with ok show ?thesis by (simp add: grant_def)
next
  case True
  let ?c = "grant w h c"
  have g: "timers ?c = timers c @ [(wtId w, h)]" "waiters ?c = waiters c" "live ?c = live c"
    "fresh ?c = fresh c"
    "cancels ?c = dset (cancels c) (wtId w) \<lparr>csActive = True, csReserved = Some h\<rparr>"
    using True cs by (simp_all add: grant_def)
  have "wtId x \<noteq> wtId w" if "x \<in> set (waiters c)" for x using w(2) that by (metis imageI list.set_map)
  with ok have "waiters_ok ?c" unfolding waits_ok_def waiters_ok_def g by auto
  moreover have "timers_ok ?c"
  proof -
    have "u \<noteq> wtId w" if "(u, k) \<in> set (timers c)" for u k using w(3) that by force
    with ok h w show ?thesis unfolding waits_ok_def timers_ok_def g by auto
  qed
  moreover have "cancels_ok ?c"
    using ok w(1) unfolding waits_ok_def cancels_ok_def g by auto
  ultimately show ?thesis by (simp add: waits_ok_def)
qed

lemma set_remove_at_ids:
  "distinct (map f xs) \<Longrightarrow> i < length xs \<Longrightarrow> f (xs ! i) \<notin> f ` set (remove_at i xs)"
  by (subst (asm) split_at_nth [of i xs], assumption)
    (auto simp: remove_at_def distinct_append)

lemma drop_waiter_waits:
  assumes "waits_ok c" and "set ws \<subseteq> set (waiters c)" and "distinct (map wtId ws)"
  shows "waits_ok (c\<lparr>waiters := ws\<rparr>)"
  using assms unfolding waits_ok_def
  by (auto simp: waiters_ok_def timers_ok_def cancels_ok_def)

lemma distinct_remove_at: "distinct (map f xs) \<Longrightarrow> distinct (map f (remove_at i xs))"
proof (cases "i < length xs")
  case True
  assume "distinct (map f xs)"
  with split_at_nth [OF True] have "distinct (map f (take i xs @ (xs ! i) # drop (Suc i) xs))" by simp
  then show ?thesis by (auto simp: remove_at_def)
qed (simp add: remove_at_def)

lemma grantNext_waits:
  assumes ok: "waits_ok c" "slots_ok c" and i: "i < length (waiters c)"
  shows "waits_ok (grantNext (waiters c ! i) (c\<lparr>waiters := remove_at i (waiters c)\<rparr>))"
proof -
  let ?w = "waiters c ! i" and ?c1 = "c\<lparr>waiters := remove_at i (waiters c)\<rparr>"
  let ?c2 = "snd (take_slot (wtForeground ?w) ?c1)"
  have dist: "distinct (map wtId (waiters c))" and w: "?w \<in> set (waiters c)"
    using ok i by (auto simp: waits_ok_def waiters_ok_def)
  have "waits_ok ?c1"
    using ok(1) dist by (intro drop_waiter_waits set_remove_at_subset distinct_remove_at)
  then have c2: "waits_ok ?c2" by (rule take_slot_waits)
  have fr: "fresh c \<notin> set (map snd (timers c))"
    using ok(1) by (auto simp: waits_ok_def timers_ok_def)
  have "waits_ok (grant ?w (fresh c) ?c2)"
    using w ok(1) set_remove_at_ids [OF dist i] fr
    by (intro grant_waits c2) (auto simp: take_slot_live waits_ok_def waiters_ok_def)
  then show ?thesis by (simp add: grantNext_take case_prod_unfold take_slot_live)
qed

lemma drainWaiters_waits: "waits_ok c \<Longrightarrow> slots_ok c \<Longrightarrow> waits_ok (drainWaiters c)"
  using drain_induct [of "\<lambda>c. waits_ok c \<and> slots_ok c"] grantNext_slots grantNext_waits nextWaiter_less
  by blast

text \<open>A slot may be given back by anyone but a reservation that is still waiting for its turn.\<close>

lemma release_waits:
  assumes ok: "waits_ok c" "slots_ok c"
    and free: "\<And>w. (w, h) \<in> set (timers c) \<Longrightarrow>
      dget (cancels c) w = Some \<lparr>csActive = False, csReserved = None\<rparr>"
  shows "waits_ok (release h c)"
proof (cases "dget (live c) h")
  case None
  with ok show ?thesis by (simp add: release_def)
next
  case (Some fg)
  let ?c = "c\<lparr>live := ddel (live c) h, running := running c - 1,
      backgroundRunning := backgroundRunning c - (if fg then 0 else 1)\<rparr>"
  have "waits_ok ?c"
    using ok(1) free unfolding waits_ok_def waiters_ok_def timers_ok_def cancels_ok_def by auto
  then show ?thesis
    using drainWaiters_waits [OF _ release_slot_ok [OF ok(2) Some]] Some by (simp add: release_def)
qed

lemma push_waiter_waits:
  assumes "waits_ok c" and "wtId w < fresh c" and "wtActive w"
    and "wtId w \<notin> set (map wtId (waiters c))" and "wtId w \<notin> set (map fst (timers c))"
    and "wtCancellable w \<Longrightarrow> dget (cancels c) (wtId w) = Some \<lparr>csActive = True, csReserved = None\<rparr>"
  shows "waits_ok (c\<lparr>waiters := waiters c @ [w]\<rparr>)"
  using assms unfolding waits_ok_def by (auto simp: waiters_ok_def timers_ok_def cancels_ok_def)

lemma waits_fresh_id:
  assumes "waits_ok c"
  shows "fresh c \<notin> set (map wtId (waiters c))" "fresh c \<notin> set (map fst (timers c))"
    "fresh c \<notin> set (map snd (timers c))" "dget (cancels c) (fresh c) = None"
  using assms unfolding waits_ok_def waiters_ok_def timers_ok_def cancels_ok_def
  by (fastforce, fastforce, fastforce, (cases "dget (cancels c) (fresh c)"; auto))

lemma acquireLane_waits [inv_intros]:
  assumes ok: "waits_ok c" shows "waits_ok (snd (acquireLane fg c))"
proof -
  let ?c = "c\<lparr>fresh := Suc (fresh c)\<rparr>"
  have c: "waits_ok ?c" using ok by (rule waits_fresh)
  have "waits_ok (?c\<lparr>waiters := waiters ?c @
      [\<lparr>wtId = fresh c, wtActive = True, wtForeground = fg, wtCancellable = False\<rparr>]\<rparr>)"
    using c waits_fresh_id [OF ok] by (intro push_waiter_waits) auto
  then show ?thesis
    using take_slot_waits [OF c, of fg]
    by (auto simp: acquireLane_def Let_def tryAcquireLane_take split: prod.splits)
qed

lemma acquireCancellableLane_waits [inv_intros]:
  assumes ok: "waits_ok c" shows "waits_ok (snd (acquireCancellableLane fg c))"
proof -
  let ?c = "c\<lparr>fresh := Suc (fresh c),
      cancels := dset (cancels c) (fresh c) \<lparr>csActive = True, csReserved = None\<rparr>\<rparr>"
  let ?w = "\<lparr>wtId = fresh c, wtActive = True, wtForeground = fg, wtCancellable = True\<rparr>"
  note id = waits_fresh_id [OF ok]
  have c: "waits_ok ?c"
    using ok id unfolding waits_ok_def
    by (fastforce simp: waiters_ok_def timers_ok_def cancels_ok_def less_Suc_eq)
  have "waits_ok (?c\<lparr>waiters := waiters ?c @ [?w]\<rparr>)"
    using c id by (intro push_waiter_waits) auto
  moreover have "waits_ok (grant ?w (Suc (fresh c)) (snd (take_slot fg ?c)))"
    using id ok
    by (intro grant_waits take_slot_waits c)
      (auto simp: take_slot_live waits_ok_def timers_ok_def less_Suc_eq)
  ultimately show ?thesis
    by (auto simp: acquireCancellableLane_def Let_def tryAcquireLane_take take_slot_live
        case_prod_unfold)
qed

lemma timers_okD:
  assumes "timers_ok c" and "(w, h) \<in> set (timers c)"
  shows "w < fresh c" "h < fresh c"
    "dget (cancels c) w = Some \<lparr>csActive = True, csReserved = Some h\<rparr> \<and> dget (live c) h \<noteq> None \<or>
     dget (cancels c) w = Some \<lparr>csActive = False, csReserved = None\<rparr>"
  using assms unfolding timers_ok_def by blast+

lemma deactivate_waits:
  assumes ok: "waits_ok c" and w: "w < fresh c"
  shows "waits_ok (c\<lparr>cancels := dset (cancels c) w \<lparr>csActive = False, csReserved = None\<rparr>,
                      waiters := filter (\<lambda>x. wtId x \<noteq> w) (waiters c)\<rparr>)" (is "waits_ok ?c")
proof -
  have t: "timers_ok c" using ok by (simp add: waits_ok_def)
  have "waiters_ok ?c" using ok
    by (auto simp: waits_ok_def waiters_ok_def distinct_map intro: inj_on_subset)
  moreover have "timers_ok ?c" unfolding timers_ok_def
  proof (intro conjI ballI)
    show "distinct (map fst (timers ?c))" "distinct (map snd (timers ?c))"
      using t by (simp_all add: timers_ok_def)
    fix p assume p: "p \<in> set (timers ?c)"
    obtain u k where u: "p = (u, k)" by (cases p)
    with p timers_okD [OF t, of u k] show "case p of (w, h) \<Rightarrow> w < fresh ?c \<and> h < fresh ?c \<and>
        (dget (cancels ?c) w = Some \<lparr>csActive = True, csReserved = Some h\<rparr> \<and> dget (live ?c) h \<noteq> None \<or>
         dget (cancels ?c) w = Some \<lparr>csActive = False, csReserved = None\<rparr>)" by auto
  qed
  moreover have "cancels_ok ?c" using ok w by (auto simp: waits_ok_def cancels_ok_def)
  ultimately show ?thesis by (simp add: waits_ok_def)
qed

lemma drop_timer_waits:
  assumes ok: "waits_ok c" and t: "timers c = (w, h) # rest"
    and w: "dget (cancels c) w = Some \<lparr>csActive = False, csReserved = None\<rparr>"
  shows "waits_ok (c\<lparr>timers := rest\<rparr>)"
proof -
  have "(u, k) \<in> set rest" if "dget (cancels c) u = Some s" "csReserved s = Some k" for u s k
  proof -
    have "(u, k) \<in> set (timers c)" using ok that by (auto simp: waits_ok_def cancels_ok_def)
    moreover have "u \<noteq> w" using w that by auto
    ultimately show ?thesis using t by auto
  qed
  with ok t show ?thesis
    unfolding waits_ok_def waiters_ok_def timers_ok_def cancels_ok_def by auto
qed

lemma cancelWait_waits [inv_intros]:
  assumes ok: "waits_ok c" "slots_ok c" shows "waits_ok (cancelWait w c)"
proof (cases "dget (cancels c) w")
  case None
  with ok show ?thesis by (simp add: cancelWait_def)
next
  case (Some s)
  let ?c = "c\<lparr>cancels := dset (cancels c) w \<lparr>csActive = False, csReserved = None\<rparr>,
      waiters := filter (\<lambda>x. wtId x \<noteq> w) (waiters c)\<rparr>"
  have c: "waits_ok ?c"
    using ok(1) Some by (intro deactivate_waits) (auto simp: waits_ok_def cancels_ok_def)
  have "waits_ok (release h ?c)" if h: "csReserved s = Some h" for h
  proof (intro release_waits c)
    show "slots_ok ?c" using ok(2) by (simp add: slots_ok_def)
    have "(w, h) \<in> set (timers c)" and "distinct (map snd (timers c))"
      using ok(1) Some h by (auto simp: waits_ok_def cancels_ok_def timers_ok_def)
    then have "u = w" if "(u, h) \<in> set (timers c)" for u
      using that by (metis distinct_map fst_conv inj_on_def snd_conv)
    then show "dget (cancels ?c) u = Some \<lparr>csActive = False, csReserved = None\<rparr>"
      if "(u, h) \<in> set (timers ?c)" for u using that by auto
  qed
  with c ok Some show ?thesis by (auto simp: cancelWait_def Let_def split: option.splits)
qed

lemma fireGrant_cases:
  assumes "waits_ok c" and "timers c = (w, h) # rest"
  obtains (stale) "fireGrant c = (None, c\<lparr>timers := rest,
        cancels := dset (cancels c) w \<lparr>csActive = False, csReserved = None\<rparr>\<rparr>)"
    | (granted) "fireGrant c = (Some (w, h), c\<lparr>timers := rest,
        cancels := dset (cancels c) w \<lparr>csActive = False, csReserved = None\<rparr>\<rparr>)"
        "dget (live c) h \<noteq> None"
  using assms by (fastforce simp: waits_ok_def timers_ok_def fireGrant_def Let_def)

lemma fireGrant_waits [inv_intros]:
  assumes ok: "waits_ok c" shows "waits_ok (snd (fireGrant c))"
proof (cases "timers c")
  case Nil
  with ok show ?thesis by (simp add: fireGrant_def)
next
  case (Cons t rest)
  obtain w h where t: "t = (w, h)" by (cases t)
  let ?c = "c\<lparr>cancels := dset (cancels c) w \<lparr>csActive = False, csReserved = None\<rparr>,
      waiters := filter (\<lambda>x. wtId x \<noteq> w) (waiters c)\<rparr>"
  have "w < fresh c"
    using ok Cons t by (intro timers_okD(1) [of c w h]) (auto simp: waits_ok_def)
  with ok have "waits_ok ?c" by (rule deactivate_waits)
  then have "waits_ok (?c\<lparr>timers := rest\<rparr>)"
    by (rule drop_timer_waits [of _ w h]) (simp_all add: Cons t)
  moreover have "filter (\<lambda>x. wtId x \<noteq> w) (waiters c) = waiters c"
    using ok Cons t by (intro filter_True) (auto simp: waits_ok_def waiters_ok_def)
  ultimately have "waits_ok (c\<lparr>timers := rest,
      cancels := dset (cancels c) w \<lparr>csActive = False, csReserved = None\<rparr>\<rparr>)"
    by (simp add: waits_ok_def waiters_ok_def timers_ok_def cancels_ok_def)
  then show ?thesis by (cases rule: fireGrant_cases [OF ok Cons [unfolded t]]) simp_all
qed

section \<open>All executions\<close>

definition cap_ok :: "capacity \<Rightarrow> bool" where
  "cap_ok c \<longleftrightarrow> slots_ok c \<and> no_idle c \<and> waits_ok c"

text \<open>
  A wait is pending while its cancel function would still act; a handle is reserved while it is
  promised to the callback of a pending wait, so that no client has it yet.
\<close>

definition pendingWait :: "capacity \<Rightarrow> nat \<Rightarrow> bool" where
  "pendingWait c w \<longleftrightarrow> (case dget (cancels c) w of None \<Rightarrow> False | Some s \<Rightarrow> csActive s)"

definition reserved :: "capacity \<Rightarrow> nat \<Rightarrow> bool" where
  "reserved c h \<longleftrightarrow> (\<exists>w. (w, h) \<in> set (timers c) \<and> pendingWait c w)"

inductive cap_step :: "capacity \<Rightarrow> capacity \<Rightarrow> bool" where
  try_acquire: "cap_step c (snd (tryAcquireLane fg c))"
| acquire: "cap_step c (snd (acquireLane fg c))"
| acquire_cancellable: "cap_step c (snd (acquireCancellableLane fg c))"
| release: "\<not> reserved c h \<Longrightarrow> cap_step c (release h c)"
| cancel: "cap_step c (cancelWait w c)"
| fire: "cap_step c (snd (fireGrant c))"

inductive cap_reach :: "jsnum \<Rightarrow> capacity \<Rightarrow> bool" for n where
  new: "newHostCapacity n = Inr c \<Longrightarrow> cap_reach n c"
| step: "cap_reach n c \<Longrightarrow> cap_step c c' \<Longrightarrow> cap_reach n c'"

lemma reserved_waits:
  assumes "waits_ok c" and "\<not> reserved c h" and "(w, h) \<in> set (timers c)"
  shows "dget (cancels c) w = Some \<lparr>csActive = False, csReserved = None\<rparr>"
  using timers_okD(3) [of c w h] assms by (auto simp: waits_ok_def reserved_def pendingWait_def)

lemma cap_ok_new: "newHostCapacity n = Inr c \<Longrightarrow> cap_ok c"
  by (auto simp: newHostCapacity_def cap_ok_def slots_ok_def no_idle_def nextWaiter_None_iff waits_ok_def
      waiters_ok_def timers_ok_def cancels_ok_def dict_wf_def dkeys_def split: if_splits)

lemma cap_ok_release: "cap_ok c \<Longrightarrow> \<not> reserved c h \<Longrightarrow> cap_ok (release h c)"
  using release_waits [of c h] reserved_waits [of c h]
  by (auto simp: cap_ok_def intro: inv_intros)

lemma cap_ok_step: "cap_step c c' \<Longrightarrow> cap_ok c \<Longrightarrow> cap_ok c'"
  by (induction rule: cap_step.induct) (simp_all add: cap_ok_release, simp_all add: cap_ok_def inv_intros)

lemma cap_ok_reach: "cap_reach n c \<Longrightarrow> cap_ok c"
  by (induction rule: cap_reach.induct) (auto intro: cap_ok_new cap_ok_step)

lemma limit_drain: "limit (drainWaiters c) = limit c"
  using drain_induct [of "\<lambda>d. limit d = limit c" c]
  by (auto simp: grantNext_def releaseHandle_def grant_def Let_def)

lemma limit_release [simp]: "limit (release h c) = limit c"
  by (auto simp: release_def limit_drain split: option.splits)

lemma limit_tryAcquireLane [simp]: "limit (snd (tryAcquireLane fg c)) = limit c"
  by (simp add: tryAcquireLane_take take_slot_def releaseHandle_def)

lemma limit_grant [simp]: "limit (grant w h c) = limit c"
  by (simp add: grant_def)

lemma limit_step: "cap_step c c' \<Longrightarrow> limit c' = limit c"
  by (induction rule: cap_step.induct)
    (auto simp: acquireLane_def acquireCancellableLane_def cancelWait_def fireGrant_def Let_def
      tryAcquireLane_take take_slot_live case_prod_unfold split: option.splits list.splits)

lemma limit_reach: "cap_reach n c \<Longrightarrow> limit c = to_int n \<and> 1 \<le> to_int n"
  by (induction rule: cap_reach.induct)
    (auto simp: newHostCapacity_def limit_step split: if_splits)

text \<open>Cancelled and served waiters stay that way.\<close>

definition spent :: "nat \<Rightarrow> capacity \<Rightarrow> bool" where
  "spent w c \<longleftrightarrow> dget (cancels c) w = Some \<lparr>csActive = False, csReserved = None\<rparr> \<and>
     w \<notin> set (map wtId (waiters c))"

lemma spent_grant: "spent w c \<Longrightarrow> wtId x \<noteq> w \<Longrightarrow> spent w (grant x h c)"
  by (auto simp: spent_def grant_def split: option.splits)

lemma spent_take: "spent w (snd (take_slot fg c)) = spent w c"
  by (simp add: spent_def take_slot_live)

lemma spent_drain: "spent w c \<Longrightarrow> spent w (drainWaiters c)"
proof -
  have "spent w (grantNext (waiters c ! i) (c\<lparr>waiters := remove_at i (waiters c)\<rparr>))"
    if "spent w c" "nextWaiter c = Some i" for c i
  proof -
    have "wtId (waiters c ! i) \<noteq> w"
      using that nextWaiter_less [OF that(2)] by (auto simp: spent_def)
    moreover have "spent w (c\<lparr>waiters := remove_at i (waiters c)\<rparr>)"
      using that(1) set_remove_at_subset [of i "waiters c"] by (auto simp: spent_def)
    ultimately show ?thesis
      by (simp add: grantNext_take case_prod_unfold spent_grant spent_take)
  qed
  then show "spent w c \<Longrightarrow> spent w (drainWaiters c)" using drain_induct [of "spent w"] by blast
qed

lemma spent_release: "spent w c \<Longrightarrow> spent w (release h c)"
  by (auto simp: release_def intro!: spent_drain split: option.splits) (simp_all add: spent_def)

lemma spent_step:
  assumes "cap_step c c'" and "cap_ok c" and "spent w c"
  shows "spent w c'"
proof -
  have w: "w < fresh c" using assms by (auto simp: cap_ok_def waits_ok_def cancels_ok_def spent_def)
  show ?thesis using assms(1)
  proof cases
    case (cancel u)
    show ?thesis unfolding cancel cancelWait_def Let_def using assms(3)
      by (auto intro!: spent_release split: option.splits) (auto simp: spent_def)
  next
    case fire
    show ?thesis unfolding fire fireGrant_def Let_def using assms(3)
      by (auto intro!: spent_release split: option.splits list.splits) (auto simp: spent_def)
  next
    case (release h)
    with assms(3) show ?thesis by (simp add: spent_release)
  qed (use assms(3) w in \<open>auto simp: acquireLane_def acquireCancellableLane_def tryAcquireLane_take
      Let_def case_prod_unfold take_slot_live spent_def grant_def
      split: option.splits\<close>)
qed

lemma spent_cancelWait:
  assumes "cap_ok c" and "dget (cancels c) w = Some s" and "csActive s"
  shows "spent w (cancelWait w c)"
  using assms by (auto simp: cancelWait_def Let_def intro!: spent_release split: option.splits)
    (auto simp: spent_def)

lemma release_not_live: "slots_ok c \<Longrightarrow> h < fresh c \<Longrightarrow> dget (live (release h c)) h = None"
proof (cases "dget (live c) h")
  case (Some fg)
  assume ok: "slots_ok c" and h: "h < fresh c"
  let ?c = "c\<lparr>live := ddel (live c) h, running := running c - 1,
      backgroundRunning := backgroundRunning c - (if fg then 0 else 1)\<rparr>"
  have "dget (live (drainWaiters ?c)) h = None \<and> h < fresh (drainWaiters ?c)"
    using drain_induct [of "\<lambda>d. dget (live d) h = None \<and> h < fresh d" ?c] h
    by (auto simp: grantNext_take case_prod_unfold take_slot_live grant_def)
  then show ?thesis using Some by (simp add: release_def)
qed (simp add: release_def)

lemma release_foreground:
  assumes ok: "cap_ok c" and h: "dget (live c) h = Some fg"
    and i: "find_index (\<lambda>w. wtActive w \<and> wtForeground w) (waiters c) = Some i"
  shows "release h c = grantNext (waiters c ! i)
     (c\<lparr>live := ddel (live c) h, running := running c - 1,
        backgroundRunning := backgroundRunning c - (if fg then 0 else 1),
        waiters := remove_at i (waiters c)\<rparr>)"
proof -
  let ?c = "c\<lparr>live := ddel (live c) h, running := running c - 1,
      backgroundRunning := backgroundRunning c - (if fg then 0 else 1)\<rparr>"
  let ?d = "grantNext (waiters c ! i) (?c\<lparr>waiters := remove_at i (waiters c)\<rparr>)"
  have n: "nextWaiter c = Some i" "nextWaiter ?c = Some i" using i by (simp_all add: nextWaiter_def)
  with ok have full: "running c = limit c" by (auto simp: cap_ok_def no_idle_def slots_ok_def)
  have "\<not> running ?d < limit ?d"
    by (simp add: full grantNext_take case_prod_unfold take_slot_live grant_def)
  then have "drainWaiters ?d = ?d" by (subst drainWaiters.simps) simp
  moreover have "drainWaiters ?c = drainWaiters ?d"
    using full n nextWaiter_active [OF n(1)] by (subst drainWaiters.simps) (simp add: Let_def)
  ultimately show ?thesis using h by (simp add: release_def)
qed

section \<open>What a client relies on\<close>

text \<open>
  A client holds a handle that is live and not promised to anybody's callback.
\<close>

definition held :: "capacity \<Rightarrow> nat \<Rightarrow> bool" where
  "held c h \<longleftrightarrow> dget (live c) h \<noteq> None \<and> \<not> reserved c h"

text \<open>
  The contract of a slot pool, with what it gives to a client that owns the distinct handles \<open>hs\<close>
  and perhaps one wait \<open>w\<close>: its number of handles is bounded, and neither its own operations nor
  those of the other clients take a handle or the wait away from it.
\<close>

locale slot_pool =
  fixes ok :: "'s \<Rightarrow> bool" and holds :: "'s \<Rightarrow> nat \<Rightarrow> bool" and waits :: "'s \<Rightarrow> nat \<Rightarrow> bool"
    and bound :: "'s \<Rightarrow> nat"
    and attempt :: "bool \<Rightarrow> 's \<Rightarrow> nat option \<times> 's" and queue :: "bool \<Rightarrow> 's \<Rightarrow> nat \<times> 's" and wait :: "bool \<Rightarrow> 's \<Rightarrow> nat \<times> 's"
    and give :: "nat \<Rightarrow> 's \<Rightarrow> 's" and cancel :: "nat \<Rightarrow> 's \<Rightarrow> 's"
    and fire :: "'s \<Rightarrow> (nat \<times> nat) option \<times> 's"
  assumes holds_bound: "ok s \<Longrightarrow> distinct hs \<Longrightarrow> \<forall>h \<in> set hs. holds s h \<Longrightarrow> length hs \<le> bound s"
    and try_ok: "ok s \<Longrightarrow> ok (snd (attempt fg s))"
    and try_holds: "ok s \<Longrightarrow> holds s h \<Longrightarrow> holds (snd (attempt fg s)) h"
    and try_waits: "ok s \<Longrightarrow> waits s w \<Longrightarrow> waits (snd (attempt fg s)) w"
    and try_new: "ok s \<Longrightarrow> attempt fg s = (Some h, s') \<Longrightarrow> holds s' h \<and> \<not> holds s h"
    and queue_ok: "ok s \<Longrightarrow> ok (snd (queue fg s))"
    and queue_holds: "ok s \<Longrightarrow> holds s h \<Longrightarrow> holds (snd (queue fg s)) h"
    and queue_waits: "ok s \<Longrightarrow> waits s w \<Longrightarrow> waits (snd (queue fg s)) w"
    and wait_ok: "ok s \<Longrightarrow> ok (snd (wait fg s))"
    and wait_holds: "ok s \<Longrightarrow> holds s h \<Longrightarrow> holds (snd (wait fg s)) h"
    and wait_waits: "ok s \<Longrightarrow> waits s w \<Longrightarrow> waits (snd (wait fg s)) w"
    and wait_new: "ok s \<Longrightarrow> waits (snd (wait fg s)) (fst (wait fg s))"
    and give_ok: "ok s \<Longrightarrow> holds s h \<Longrightarrow> ok (give h s)"
    and give_holds: "ok s \<Longrightarrow> holds s h \<Longrightarrow> h \<noteq> h' \<Longrightarrow> holds (give h' s) h"
    and give_waits: "ok s \<Longrightarrow> waits s w \<Longrightarrow> waits (give h s) w"
    and cancel_ok: "ok s \<Longrightarrow> ok (cancel w s)"
    and cancel_holds: "ok s \<Longrightarrow> holds s h \<Longrightarrow> holds (cancel w s) h"
    and cancel_waits: "ok s \<Longrightarrow> waits s w' \<Longrightarrow> w' \<noteq> w \<Longrightarrow> waits (cancel w s) w'"
    and fire_ok: "ok s \<Longrightarrow> ok (snd (fire s))"
    and fire_holds: "ok s \<Longrightarrow> holds s h \<Longrightarrow> holds (snd (fire s)) h"
    and fire_waits: "ok s \<Longrightarrow> waits s w' \<Longrightarrow> fst (fire s) = None \<or> w' \<noteq> fst (the (fst (fire s))) \<Longrightarrow>
          waits (snd (fire s)) w'"
    and fire_new: "ok s \<Longrightarrow> fire s = (Some (w, h), s') \<Longrightarrow> holds s' h \<and> \<not> holds s h"
begin

definition client :: "'s \<Rightarrow> nat list \<Rightarrow> nat option \<Rightarrow> bool" where
  "client s hs w \<longleftrightarrow> ok s \<and> distinct hs \<and> (\<forall>h \<in> set hs. holds s h) \<and> (\<forall>x. w = Some x \<longrightarrow> waits s x)"

lemma client_bound: "client s hs w \<Longrightarrow> length hs \<le> bound s"
  using holds_bound by (simp add: client_def)

lemma client_try:
  "client s hs w \<Longrightarrow> attempt fg s = (None, s') \<Longrightarrow> client s' hs w"
  "client s hs w \<Longrightarrow> attempt fg s = (Some h, s') \<Longrightarrow> client s' (hs @ [h]) w"
  using try_ok [of s fg] try_holds [of s _ fg] try_waits [of s _ fg] try_new [of s fg h s']
  by (auto simp: client_def)

lemma client_try_other: "client s hs w \<Longrightarrow> client (snd (attempt fg s)) hs w"
  by (auto simp: client_def try_ok try_holds try_waits)

lemma client_queue_other: "client s hs w \<Longrightarrow> client (snd (queue fg s)) hs w"
  by (auto simp: client_def queue_ok queue_holds queue_waits)

lemma client_wait: "client s hs None \<Longrightarrow> wait fg s = (w, s') \<Longrightarrow> client s' hs (Some w)"
  using wait_ok [of s fg] wait_holds [of s _ fg] wait_new [of s fg] by (auto simp: client_def)

lemma client_wait_other: "client s hs w \<Longrightarrow> client (snd (wait fg s)) hs w"
  by (auto simp: client_def wait_ok wait_holds wait_waits)

lemma client_give: "client s (hs @ h # hs') w \<Longrightarrow> client (give h s) (hs @ hs') w"
  using give_holds [of s _ h] by (fastforce simp: client_def give_ok give_waits)

lemma client_give_other: "client s hs w \<Longrightarrow> holds s h \<Longrightarrow> h \<notin> set hs \<Longrightarrow> client (give h s) hs w"
  using give_holds [of s _ h] by (fastforce simp: client_def give_ok give_waits)

lemma client_cancel: "client s hs w \<Longrightarrow> client (case w of None \<Rightarrow> s | Some x \<Rightarrow> cancel x s) hs None"
  by (auto simp: client_def cancel_ok cancel_holds split: option.splits)

lemma client_cancel_other: "client s hs w \<Longrightarrow> w \<noteq> Some x \<Longrightarrow> client (cancel x s) hs w"
  using cancel_waits [of s _ x] by (fastforce simp: client_def cancel_ok cancel_holds)

lemma client_fire: "client s hs w \<Longrightarrow> fire s = (Some (x, h), s') \<Longrightarrow> client s' (hs @ [h]) None"
  using fire_ok [of s] fire_holds [of s] fire_new [of s x h s'] by (auto simp: client_def)

lemma client_fire_other:
  "client s hs w \<Longrightarrow> fst (fire s) = None \<or> w \<noteq> map_option fst (fst (fire s)) \<Longrightarrow> client (snd (fire s)) hs w"
  by (auto simp: client_def fire_ok fire_holds intro!: fire_waits)

end

text \<open>The Host's capacity is such a pool.\<close>

lemma held_fresh: "cap_ok c \<Longrightarrow> held c h \<Longrightarrow> h < fresh c"
  using slots_fresh [of c h] by (fastforce simp: cap_ok_def held_def not_less)

lemma grant_client:
  "held c h' \<Longrightarrow> h \<noteq> h' \<Longrightarrow> held (grant w h c) h'"
  "pendingWait c x \<Longrightarrow> pendingWait (grant w h c) x"
  by (auto simp: held_def reserved_def pendingWait_def grant_def split: option.splits if_splits)

lemma take_client:
  "held c h \<Longrightarrow> held (snd (take_slot fg c)) h"
  "pendingWait (snd (take_slot fg c)) w = pendingWait c w"
  by (auto simp: held_def reserved_def pendingWait_def take_slot_live)

lemma client_frame [simp]:
  "held (c\<lparr>waiters := ws\<rparr>) h = held c h" "held (c\<lparr>resolved := rs\<rparr>) h = held c h"
  "held (c\<lparr>fresh := n\<rparr>) h = held c h"
  "pendingWait (c\<lparr>waiters := ws\<rparr>) w = pendingWait c w" "pendingWait (c\<lparr>resolved := rs\<rparr>) w = pendingWait c w"
  "pendingWait (c\<lparr>fresh := n\<rparr>) w = pendingWait c w" "pendingWait (c\<lparr>timers := ts\<rparr>) w = pendingWait c w"
  by (simp_all add: held_def reserved_def pendingWait_def)

lemma drain_client:
  "held c h \<Longrightarrow> h < fresh c \<Longrightarrow> held (drainWaiters c) h"
  "pendingWait c w \<Longrightarrow> pendingWait (drainWaiters c) w"
proof -
  have "held (grantNext x c) h \<and> h < fresh (grantNext x c)" if "held c h \<and> h < fresh c" for x c
    using that take_client(1) [of c h "wtForeground x"]
    by (auto simp: grantNext_take case_prod_unfold take_slot_live(2) intro!: grant_client(1))
      (simp add: grant_def take_slot_live)
  then show "held c h \<Longrightarrow> h < fresh c \<Longrightarrow> held (drainWaiters c) h"
    using drain_induct [of "\<lambda>d. held d h \<and> h < fresh d" c] by simp
  show "pendingWait c w \<Longrightarrow> pendingWait (drainWaiters c) w"
    using drain_induct [of "\<lambda>d. pendingWait d w" c]
    by (simp add: grantNext_take case_prod_unfold grant_client(2) take_client(2))
qed

lemma release_client:
  "cap_ok c \<Longrightarrow> held c h \<Longrightarrow> h \<noteq> h' \<Longrightarrow> held (release h' c) h"
  "pendingWait c w \<Longrightarrow> pendingWait (release h c) w"
proof -
  assume a: "cap_ok c" "held c h" "h \<noteq> h'"
  show "held (release h' c) h"
    unfolding release_def using a held_fresh [OF a(1,2)]
    by (auto intro!: drain_client(1) split: option.splits) (auto simp: held_def reserved_def pendingWait_def)
next
  assume "pendingWait c w"
  then show "pendingWait (release h c) w"
    unfolding release_def by (auto intro!: drain_client(2) split: option.splits) (auto simp: pendingWait_def)
qed

lemma tryAcquireLane_client:
  "held c h \<Longrightarrow> held (snd (tryAcquireLane fg c)) h"
  "pendingWait (snd (tryAcquireLane fg c)) w = pendingWait c w"
  using take_client by (auto simp: tryAcquireLane_take case_prod_unfold)

lemma tryAcquireLane_new:
  assumes ok: "cap_ok c" and t: "tryAcquireLane fg c = (Some h, c')"
  shows "held c' h \<and> \<not> held c h"
proof -
  have h: "h = fresh c" "c' = snd (take_slot fg c)"
    using t by (auto simp: tryAcquireLane_take case_prod_unfold take_slot_live split: if_splits)
  have "\<not> held c h" using held_fresh [OF ok, of h] h by auto
  moreover have "(w, fresh c) \<notin> set (timers c)" for w
    using waits_fresh_id(3) [of c] ok by (force simp: cap_ok_def)
  ultimately show ?thesis using h by (auto simp: held_def reserved_def take_slot_live)
qed

lemma acquireLane_client:
  "held c h \<Longrightarrow> held (snd (acquireLane fg c)) h"
  "pendingWait (snd (acquireLane fg c)) w = pendingWait c w"
  using take_client(1) [of "c\<lparr>fresh := Suc (fresh c)\<rparr>" h fg]
  by (auto simp: acquireLane_def tryAcquireLane_take Let_def case_prod_unfold take_client(2))

lemma acquireCancellable_client:
  assumes ok: "cap_ok c"
  shows "held c h \<Longrightarrow> held (snd (acquireCancellableLane fg c)) h"
    "pendingWait c w \<Longrightarrow> pendingWait (snd (acquireCancellableLane fg c)) w"
    "pendingWait (snd (acquireCancellableLane fg c)) (fst (acquireCancellableLane fg c))"
proof -
  let ?c = "c\<lparr>fresh := Suc (fresh c),
      cancels := dset (cancels c) (fresh c) \<lparr>csActive = True, csReserved = None\<rparr>\<rparr>"
  have no: "(fresh c, k) \<notin> set (timers c)" for k
    using waits_fresh_id(2) [of c] ok by (force simp: cap_ok_def)
  have new: "pendingWait ?c (fresh c)" by (simp add: pendingWait_def)
  have w: "pendingWait ?c w" if "pendingWait c w" for w using that by (auto simp: pendingWait_def)
  have h: "held ?c h \<and> h < fresh c" if "held c h" for h
    using that no held_fresh [OF ok that]
    by (auto simp: held_def reserved_def pendingWait_def split: if_splits)
  note e = acquireCancellableLane_def tryAcquireLane_take Let_def case_prod_unfold take_slot_live(2)
  show "held (snd (acquireCancellableLane fg c)) h" if "held c h"
    using h [OF that] take_client(1) [of ?c h fg] by (auto simp: e intro!: grant_client(1))
  show "pendingWait (snd (acquireCancellableLane fg c)) w" if "pendingWait c w"
    using w [OF that] by (auto simp: e take_client(2) intro!: grant_client(2))
  show "pendingWait (snd (acquireCancellableLane fg c)) (fst (acquireCancellableLane fg c))"
    using new by (auto simp: e take_client(2) intro!: grant_client(2))
qed

lemma cancelWait_client:
  assumes ok: "cap_ok c"
  shows "held c h \<Longrightarrow> held (cancelWait w c) h"
    "pendingWait c w' \<Longrightarrow> w' \<noteq> w \<Longrightarrow> pendingWait (cancelWait w c) w'"
proof -
  let ?c = "c\<lparr>cancels := dset (cancels c) w \<lparr>csActive = False, csReserved = None\<rparr>,
      waiters := filter (\<lambda>x. wtId x \<noteq> w) (waiters c)\<rparr>"
  have w: "pendingWait (cancelWait w c) w'" if "pendingWait c w'" "w' \<noteq> w"
    using that by (auto simp: cancelWait_def Let_def intro!: release_client(2) split: option.splits)
      (auto simp: pendingWait_def)
  then show "pendingWait c w' \<Longrightarrow> w' \<noteq> w \<Longrightarrow> pendingWait (cancelWait w c) w'" .
  show "held (cancelWait w c) h" if "held c h"
  proof -
    have hc: "held ?c h" using that by (auto simp: held_def reserved_def pendingWait_def split: if_splits)
    have "h < fresh c" using held_fresh [OF ok that] .
    moreover have "k \<noteq> h" if "dget (cancels c) w = Some s" "csActive s" "csReserved s = Some k" for s k
    proof -
      have "(w, k) \<in> set (timers c)" using ok that by (auto simp: cap_ok_def waits_ok_def cancels_ok_def)
      moreover have "pendingWait c w" using that by (simp add: pendingWait_def)
      ultimately show ?thesis using \<open>held c h\<close> by (auto simp: held_def reserved_def)
    qed
    ultimately show ?thesis using hc \<open>held c h\<close>
      unfolding cancelWait_def Let_def release_def
      by (auto intro!: drain_client(1) split: option.splits)
        (auto simp: held_def reserved_def pendingWait_def split: if_splits)
  qed
qed

lemma fireGrant_eq:
  assumes ok: "cap_ok c" and t: "timers c = (w, h) # rest"
  shows "fireGrant c = (if pendingWait c w then Some (w, h) else None, c\<lparr>timers := rest,
    cancels := dset (cancels c) w \<lparr>csActive = False, csReserved = None\<rparr>\<rparr>)"
  using timers_okD(3) [of c w h] ok t
  by (auto simp: fireGrant_def Let_def cap_ok_def waits_ok_def pendingWait_def)

lemma fireGrant_Nil: "timers c = [] \<Longrightarrow> fireGrant c = (None, c)"
  by (simp add: fireGrant_def)

lemma fireGrant_client:
  assumes ok: "cap_ok c"
  shows "held c h \<Longrightarrow> held (snd (fireGrant c)) h"
    "pendingWait c w' \<Longrightarrow> fst (fireGrant c) = None \<or> w' \<noteq> fst (the (fst (fireGrant c))) \<Longrightarrow>
       pendingWait (snd (fireGrant c)) w'"
    "fireGrant c = (Some (w, h), c') \<Longrightarrow> held c' h \<and> \<not> held c h \<and> pendingWait c w"
proof -
  show "held (snd (fireGrant c)) h" if "held c h"
    using that by (cases "timers c") (auto simp: fireGrant_Nil fireGrant_eq [OF ok] held_def reserved_def
        pendingWait_def split: if_splits)
  show "pendingWait (snd (fireGrant c)) w'"
    if "pendingWait c w'" "fst (fireGrant c) = None \<or> w' \<noteq> fst (the (fst (fireGrant c)))"
    using that by (cases "timers c") (auto simp: fireGrant_Nil fireGrant_eq [OF ok] pendingWait_def
        split: if_splits)
  show "held c' h \<and> \<not> held c h \<and> pendingWait c w" if f: "fireGrant c = (Some (w, h), c')"
  proof -
    obtain rest where t: "timers c = (w, h) # rest" and p: "pendingWait c w"
      using f by (cases "timers c") (auto simp: fireGrant_Nil fireGrant_eq [OF ok] split: if_splits)
    have "dget (live c) h \<noteq> None" and "h \<notin> set (map snd rest)"
      using timers_okD(3) [of c w h] ok t p
      by (auto simp: cap_ok_def waits_ok_def pendingWait_def timers_ok_def)
    then show ?thesis using f t p unfolding fireGrant_eq [OF ok t]
      by (force simp: held_def reserved_def pendingWait_def)
  qed
qed

lemma held_bound:
  assumes ok: "cap_ok c" and d: "distinct hs" and h: "\<forall>h \<in> set hs. held c h"
  shows "length hs \<le> nat (limit c)"
proof -
  have "set hs \<subseteq> set (dkeys (live c))" using h by (auto simp: held_def dget_None_iff)
  then have "length hs \<le> length (live c)"
    using d card_mono [of "set (dkeys (live c))" "set hs"] card_length [of "dkeys (live c)"]
    by (simp add: distinct_card dkeys_def)
  with ok show ?thesis by (auto simp: cap_ok_def slots_ok_def)
qed

interpretation pool: slot_pool cap_ok held pendingWait "\<lambda>c. nat (limit c)"
  tryAcquireLane acquireLane acquireCancellableLane release cancelWait fireGrant
proof
  fix c :: capacity and fg :: bool and h h' w w' :: nat and hs :: "nat list" and c' :: capacity
  assume ok: "cap_ok c"
  show "distinct hs \<Longrightarrow> \<forall>h \<in> set hs. held c h \<Longrightarrow> length hs \<le> nat (limit c)" using held_bound ok by blast
  show "cap_ok (snd (tryAcquireLane fg c))" "cap_ok (snd (acquireLane fg c))"
    "cap_ok (snd (acquireCancellableLane fg c))" "cap_ok (cancelWait w c)" "cap_ok (snd (fireGrant c))"
    using ok by (auto intro: cap_ok_step cap_step.intros)
  show "held c h \<Longrightarrow> cap_ok (release h c)" using ok cap_ok_release by (simp add: held_def)
qed (auto simp: tryAcquireLane_client acquireLane_client acquireCancellable_client release_client cancelWait_client
    fireGrant_client(1,2) dest: tryAcquireLane_new fireGrant_client(3))

section \<open>Correctness\<close>

text \<open>A capacity of one with one background attempt running and one foreground waiter queued.\<close>

definition cap_example :: capacity where
  "cap_example = (case newHostCapacity (num_int 1) of
     Inl _ \<Rightarrow> undefined
   | Inr c \<Rightarrow> snd (acquireCancellableLane True (snd (tryAcquireLane False c))))"

lemma cap_example_eq:
  "cap_example = \<lparr>limit = 1, backgroundLimit = 1, running = 1, backgroundRunning = 1,
     waiters = [\<lparr>wtId = 1, wtActive = True, wtForeground = True, wtCancellable = True\<rparr>],
     live = [(0, False)], cancels = [(1, \<lparr>csActive = True, csReserved = None\<rparr>)],
     timers = [], resolved = [], fresh = 2\<rparr>"
  by (simp add: cap_example_def newHostCapacity_def acquireCancellableLane_def tryAcquireLane_def
      tryAcquire_def tryAcquireForeground_def releaseHandle_def Let_def)

lemma cap_example_reach: "cap_reach (num_int 1) cap_example"
proof -
  obtain c where c: "newHostCapacity (num_int 1) = Inr c" by (simp add: newHostCapacity_def)
  from cap_reach.new [OF this] have "cap_reach (num_int 1) (snd (tryAcquireLane False c))"
    by (rule cap_reach.step) (rule cap_step.try_acquire)
  then have "cap_reach (num_int 1) (snd (acquireCancellableLane True (snd (tryAcquireLane False c))))"
    by (rule cap_reach.step) (rule cap_step.acquire_cancellable)
  with c show ?thesis by (simp add: cap_example_def)
qed

text \<open>A capacity of two whose background lane is full: the second background request waits.\<close>

definition cap_reserve :: capacity where
  "cap_reserve = (case newHostCapacity (num_int 2) of
     Inl _ \<Rightarrow> undefined
   | Inr c \<Rightarrow> snd (acquireLane False (snd (tryAcquireLane False c))))"

lemma cap_reserve_eq:
  "cap_reserve = \<lparr>limit = 2, backgroundLimit = 1, running = 1, backgroundRunning = 1,
     waiters = [\<lparr>wtId = 1, wtActive = True, wtForeground = False, wtCancellable = False\<rparr>],
     live = [(0, False)], cancels = [], timers = [], resolved = [], fresh = 2\<rparr>"
  by (simp add: cap_reserve_def newHostCapacity_def acquireLane_def tryAcquireLane_def
      tryAcquire_def releaseHandle_def Let_def)

lemma cap_reserve_reach: "cap_reach (num_int 2) cap_reserve"
proof -
  obtain c where c: "newHostCapacity (num_int 2) = Inr c" by (simp add: newHostCapacity_def)
  from cap_reach.new [OF this] have "cap_reach (num_int 2) (snd (tryAcquireLane False c))"
    by (rule cap_reach.step) (rule cap_step.try_acquire)
  then have "cap_reach (num_int 2) (snd (acquireLane False (snd (tryAcquireLane False c))))"
    by (rule cap_reach.step) (rule cap_step.acquire)
  with c show ?thesis by (simp add: cap_reserve_def)
qed

text \<open>
  C14. However clients acquire, wait, cancel, time out and release, the Host never runs more than
  \<open>maxConcurrent\<close> pieces of work, nor more background work than the background limit; the two
  counters are exactly the number of unreleased handles.
\<close>

theorem capacity_bounded:
  assumes "cap_reach n c"
  shows "running c = int (length (live c)) \<and> running c \<le> to_int n \<and>
    backgroundRunning c = int (length (filter (\<lambda>(h, fg). \<not> fg) (live c))) \<and>
    backgroundRunning c \<le> max 1 (to_int n - 1)"
  using cap_ok_reach [OF assms] limit_reach [OF assms] by (auto simp: cap_ok_def slots_ok_def)

theorem capacity_bounded_witness:
  "running cap_example = 1 \<and> running cap_example \<le> to_int (num_int 1)"
  using capacity_bounded [OF cap_example_reach] by (simp add: cap_example_eq)

text \<open>
  C15. No slot idles: whenever fewer than \<open>maxConcurrent\<close> slots are taken, every queued waiter is a
  background one and the background lane is full, so the free slot is the foreground reserve.
\<close>

theorem capacity_work_conserving:
  assumes "cap_reach n c" and "running c < to_int n" and "w \<in> set (waiters c)"
  shows "\<not> wtForeground w \<and> backgroundRunning c = max 1 (to_int n - 1)"
proof -
  note ok = cap_ok_reach [OF assms(1)] and lim = limit_reach [OF assms(1)]
  have "backgroundRunning c \<le> backgroundLimit c" "backgroundLimit c = max 1 (to_int n - 1)"
    using ok lim by (auto simp: cap_ok_def slots_ok_def)
  moreover have "nextWaiter c = None" using ok lim assms(2) by (simp add: cap_ok_def no_idle_def)
  then have "\<not> wtForeground w" "backgroundLimit c \<le> backgroundRunning c"
    using assms(3) ok by (auto simp: nextWaiter_None_iff cap_ok_def waits_ok_def waiters_ok_def)
  ultimately show ?thesis by (metis order_antisym)
qed

theorem capacity_work_conserving_witness:
  "running cap_reserve = 1 \<and> (\<exists>w \<in> set (waiters cap_reserve). \<not> wtForeground w) \<and>
   backgroundRunning cap_reserve = max 1 (to_int (num_int 2) - 1)"
  using capacity_work_conserving [OF cap_reserve_reach] by (simp add: cap_reserve_eq)

text \<open>
  C16. A foreground waiter is served next: releasing any held slot hands that slot, with a fresh
  handle, to the first active foreground waiter in the queue, ahead of every background waiter, and
  leaves everybody else waiting. A waiter that may still cancel gets the handle through a timer of
  its own, the other kind through its promise, which is resolved at once.
\<close>

theorem capacity_foreground_first:
  assumes "cap_reach n c" and "dget (live c) h = Some fg"
    and "find_index (\<lambda>w. wtActive w \<and> wtForeground w) (waiters c) = Some i"
  shows "waiters (release h c) = remove_at i (waiters c) \<and>
    live (release h c) = dset (ddel (live c) h) (fresh c) True \<and>
    (if wtCancellable (waiters c ! i)
     then timers (release h c) = timers c @ [(wtId (waiters c ! i), fresh c)] \<and> resolved (release h c) = resolved c
     else resolved (release h c) = resolved c @ [(wtId (waiters c ! i), fresh c)] \<and> timers (release h c) = timers c)"
  using release_foreground [OF cap_ok_reach [OF assms(1)] assms(2,3)]
    find_index_Some [OF assms(3)]
  by (simp add: grantNext_take case_prod_unfold take_slot_live grant_def)

theorem capacity_foreground_first_witness:
  "timers (release 0 cap_example) = [(1, 2)] \<and> live (release 0 cap_example) = [(2, True)]"
  using capacity_foreground_first [OF cap_example_reach, of 0 False 0]
  by (simp add: cap_example_eq ddel_def)

text \<open>
  C17. Cancelling a wait is final: whatever happens afterwards, no turn of the timer queue calls the
  callback of a cancelled waiter.
\<close>

theorem cancelled_wait_never_called:
  assumes "cap_reach n c" and "dget (cancels c) w = Some s" and "csActive s"
    and "cap_step\<^sup>*\<^sup>* (cancelWait w c) d"
  shows "fst (fireGrant d) \<noteq> Some (w, h)"
proof -
  have "cap_ok (cancelWait w c) \<and> spent w (cancelWait w c)"
    using cap_ok_reach [OF assms(1)] spent_cancelWait [OF _ assms(2,3)] cap_ok_step cap_step.cancel
    by blast
  with assms(4) have "cap_ok d \<and> spent w d"
    by (induction rule: rtranclp_induct) (auto intro: cap_ok_step spent_step)
  then show ?thesis
    by (auto simp: fireGrant_def Let_def spent_def split: list.splits option.splits)
qed

theorem cancelled_wait_never_called_witness:
  "fst (fireGrant (release 0 (cancelWait 1 cap_example))) \<noteq> Some (1, 2)"
proof -
  have "\<not> reserved (cancelWait 1 cap_example) 0"
    by (simp add: cap_example_eq cancelWait_def reserved_def)
  then have "cap_step\<^sup>*\<^sup>* (cancelWait 1 cap_example) (release 0 (cancelWait 1 cap_example))"
    by (intro r_into_rtranclp cap_step.release)
  then show ?thesis
    by (intro cancelled_wait_never_called [OF cap_example_reach,
          where s = "\<lparr>csActive = True, csReserved = None\<rparr>"]) (simp_all add: cap_example_eq)
qed

end
