(* ===== verification/Task_Queue.thy ===== *)
theory Task_Queue
  imports Js_Value "HOL-Library.Product_Lexorder"
begin

text \<open>
  \<open>AppTaskQueue\<close> (\<open>core/tasks/queue.ts\<close>): the level-triggered work queue of one App.

  Every \<open>Set\<close> is a list without duplicates and every \<open>Map\<close> an ordered dictionary. The
  callbacks \<open>isReady\<close> and \<open>isForeground\<close>, whose answers may change between calls, are arguments
  of \<open>peek\<close> and \<open>take\<close>. Shown below: the consistency of the eleven collections, that a wake is
  never lost and never doubled, and that \<open>peek\<close> selects the most urgent eligible task.
\<close>

section \<open>Data\<close>

datatype app_task_priority = P0 | P1 | P2 | P3

datatype app_task_lane = Human | Normal

record queue_options =
  promote :: bool
  priority :: "app_task_priority option"
  lane :: "app_task_lane option"

record task_queue =
  concurrency :: int
  pending :: "string list"
  queued :: "string list"
  promotedQueued :: "string list"
  runningTasks :: "string list"
  foregroundRunning :: "string list"
  dirty :: "string list"
  dirtyPromote :: "string list"
  priorities :: "(string, app_task_priority) dict"
  dirtyPriorities :: "(string, app_task_priority) dict"
  lanes :: "(string, app_task_lane) dict"
  dirtyLanes :: "(string, app_task_lane) dict"

record queue_selection =
  selTask :: string
  selLane :: app_task_lane
  selForeground :: bool

section \<open>Operations\<close>

definition strongerLane :: "app_task_lane option \<Rightarrow> app_task_lane option \<Rightarrow> app_task_lane" where
  "strongerLane current incoming =
     (if current = Some Human \<or> incoming = Some Human then Human else Normal)"

fun priorityRank :: "app_task_priority \<Rightarrow> nat" where
  "priorityRank P0 = 0"
| "priorityRank P1 = 1"
| "priorityRank P2 = 2"
| "priorityRank P3 = 3"

definition validateMaxConcurrent :: "jsnum \<Rightarrow> unit result" where
  "validateMaxConcurrent n =
     (if \<not> is_integer n \<or> to_int n < 1
      then Inl ''AppTaskQueue maxConcurrent must be a positive integer'' else Inr ())"

definition newTaskQueue :: "jsnum \<Rightarrow> task_queue result" where
  "newTaskQueue n =
     (case validateMaxConcurrent n of
        Inl e \<Rightarrow> Inl e
      | Inr _ \<Rightarrow> Inr \<lparr>concurrency = to_int n, pending = [], queued = [], promotedQueued = [],
          runningTasks = [], foregroundRunning = [], dirty = [], dirtyPromote = [],
          priorities = [], dirtyPriorities = [], lanes = [], dirtyLanes = []\<rparr>)"

definition updateMaxConcurrent :: "jsnum \<Rightarrow> task_queue \<Rightarrow> task_queue result" where
  "updateMaxConcurrent n q =
     (case validateMaxConcurrent n of Inl e \<Rightarrow> Inl e | Inr _ \<Rightarrow> Inr (q\<lparr>concurrency := to_int n\<rparr>))"

definition indexOf :: "string \<Rightarrow> string list \<Rightarrow> nat option" where
  "indexOf k xs = find_index (\<lambda>x. x = k) xs"

definition spliceOut :: "string \<Rightarrow> string list \<Rightarrow> string list" where
  "spliceOut k xs = (case indexOf k xs of None \<Rightarrow> xs | Some i \<Rightarrow> remove_at i xs)"

text \<open>\<open>enqueue\<close>, branch by branch: the task is running, already queued, or new.\<close>

definition enqueueRunning ::
  "string \<Rightarrow> queue_options \<Rightarrow> app_task_priority \<Rightarrow> app_task_lane \<Rightarrow> task_queue \<Rightarrow> bool \<times> task_queue" where
  "enqueueRunning key opts pr lv q =
     (key \<notin> set (dirty q),
      q\<lparr>dirty := sadd (dirty q) key,
        dirtyPromote := (if promote opts then sadd (dirtyPromote q) key else dirtyPromote q),
        dirtyPriorities := dset (dirtyPriorities q) key pr,
        dirtyLanes := dset (dirtyLanes q) key (strongerLane (dget (dirtyLanes q) key) (Some lv))\<rparr>)"

definition enqueueQueued ::
  "string \<Rightarrow> queue_options \<Rightarrow> app_task_priority \<Rightarrow> app_task_lane \<Rightarrow> task_queue \<Rightarrow> bool \<times> task_queue" where
  "enqueueQueued key opts pr lv q =
     (let priorityChanged = dget (priorities q) key \<noteq> Some pr;
          laneChanged = dget (lanes q) key \<noteq> Some lv;
          q1 = q\<lparr>priorities := dset (priorities q) key pr, lanes := dset (lanes q) key lv\<rparr>
      in if promote opts \<and> key \<notin> set (promotedQueued q)
         then (True, q1\<lparr>pending := insert_at (length (promotedQueued q)) key (spliceOut key (pending q)),
                        promotedQueued := sadd (promotedQueued q) key\<rparr>)
         else (priorityChanged \<or> laneChanged, q1))"

definition enqueueNew ::
  "string \<Rightarrow> queue_options \<Rightarrow> app_task_priority \<Rightarrow> app_task_lane \<Rightarrow> task_queue \<Rightarrow> bool \<times> task_queue" where
  "enqueueNew key opts pr lv q =
     (let q1 = q\<lparr>queued := sadd (queued q) key,
                 priorities := dset (priorities q) key pr, lanes := dset (lanes q) key lv\<rparr>
      in (True,
          if promote opts
          then q1\<lparr>pending := insert_at (length (promotedQueued q)) key (pending q),
                  promotedQueued := sadd (promotedQueued q) key\<rparr>
          else q1\<lparr>pending := pending q @ [key]\<rparr>))"

definition enqueue :: "string \<Rightarrow> queue_options \<Rightarrow> task_queue \<Rightarrow> (bool \<times> task_queue) result" where
  "enqueue taskId opts q =
     (let key = trim taskId in
      if key = [] then Inl ''AppTaskQueue requires a non-empty task ID''
      else
        (let pr = (case priority opts of
                     Some p \<Rightarrow> p
                   | None \<Rightarrow> (case dget (priorities q) key of Some p \<Rightarrow> p | None \<Rightarrow> P2));
             lv = strongerLane (dget (lanes q) key) (lane opts)
         in Inr (if key \<in> set (runningTasks q) then enqueueRunning key opts pr lv q
                 else if key \<in> set (queued q) then enqueueQueued key opts pr lv q
                 else enqueueNew key opts pr lv q)))"

text \<open>The loop of \<open>peek\<close>, carrying the selection with its rank and promotion.\<close>

definition laneOf :: "task_queue \<Rightarrow> string \<Rightarrow> app_task_lane" where
  "laneOf q k = (case dget (lanes q) k of Some l \<Rightarrow> l | None \<Rightarrow> Normal)"

definition rankOf :: "(string \<Rightarrow> bool) \<Rightarrow> task_queue \<Rightarrow> string \<Rightarrow> nat" where
  "rankOf fg q k = (if fg k then 0 else 8) + (if laneOf q k = Human then 0 else 4) +
     priorityRank (case dget (priorities q) k of Some p \<Rightarrow> p | None \<Rightarrow> P2)"

definition eligible :: "(string \<Rightarrow> bool) \<Rightarrow> (string \<Rightarrow> bool) \<Rightarrow> task_queue \<Rightarrow> string \<Rightarrow> bool" where
  "eligible ready fg q k \<longleftrightarrow> k \<noteq> [] \<and> ready k \<and>
     \<not> (if fg k then 1 \<le> length (foregroundRunning q)
        else concurrency q \<le> int (length (runningTasks q)) - int (length (foregroundRunning q)))"

fun peekLoop :: "(string \<Rightarrow> bool) \<Rightarrow> (string \<Rightarrow> bool) \<Rightarrow> task_queue \<Rightarrow>
    (string \<times> nat \<times> bool) option \<Rightarrow> string list \<Rightarrow> (string \<times> nat \<times> bool) option" where
  "peekLoop ready fg q sel [] = sel"
| "peekLoop ready fg q sel (k # ks) =
     (if \<not> eligible ready fg q k then peekLoop ready fg q sel ks
      else
        (let rank = rankOf fg q k; promoted = k \<in> set (promotedQueued q);
             better = (case sel of None \<Rightarrow> True
                       | Some (_, r, p) \<Rightarrow> rank < r \<or> rank = r \<and> promoted \<and> \<not> p)
         in peekLoop ready fg q (if better then Some (k, rank, promoted) else sel) ks))"

definition peek :: "(string \<Rightarrow> bool) \<Rightarrow> (string \<Rightarrow> bool) \<Rightarrow> task_queue \<Rightarrow> queue_selection option" where
  "peek ready fg q =
     (case peekLoop ready fg q None (pending q) of
        None \<Rightarrow> None
      | Some (k, _, _) \<Rightarrow> Some \<lparr>selTask = k, selLane = laneOf q k, selForeground = fg k\<rparr>)"

definition take_task :: "(string \<Rightarrow> bool) \<Rightarrow> (string \<Rightarrow> bool) \<Rightarrow> task_queue \<Rightarrow> string option \<times> task_queue" where
  "take_task ready fg q =
     (case peek ready fg q of
        None \<Rightarrow> (None, q)
      | Some next \<Rightarrow>
          (case indexOf (selTask next) (pending q) of
             None \<Rightarrow> (None, q)
           | Some i \<Rightarrow>
               (let taskId = pending q ! i; q1 = q\<lparr>pending := remove_at i (pending q)\<rparr>
                in if taskId = [] then (None, q1)
                   else (Some taskId,
                         q1\<lparr>queued := sdel (queued q) taskId,
                            promotedQueued := sdel (promotedQueued q) taskId,
                            runningTasks := sadd (runningTasks q) taskId,
                            foregroundRunning :=
                              (if selForeground next then sadd (foregroundRunning q) taskId
                               else foregroundRunning q)\<rparr>))))"

definition complete :: "string \<Rightarrow> task_queue \<Rightarrow> task_queue result" where
  "complete taskId q =
     (if taskId \<notin> set (runningTasks q)
      then Inl (''AppTaskQueue cannot complete task that is not running: '' @ taskId)
      else
        (let q1 = q\<lparr>runningTasks := sdel (runningTasks q) taskId,
                    foregroundRunning := sdel (foregroundRunning q) taskId\<rparr>
         in if taskId \<in> set (dirty q)
            then
              (let pr = (case dget (dirtyPriorities q) taskId of
                           Some p \<Rightarrow> Some p | None \<Rightarrow> dget (priorities q) taskId);
                   lv = strongerLane (dget (lanes q) taskId) (dget (dirtyLanes q) taskId);
                   q2 = q1\<lparr>dirty := sdel (dirty q) taskId,
                           dirtyPromote := sdel (dirtyPromote q) taskId,
                           dirtyPriorities := ddel (dirtyPriorities q) taskId,
                           dirtyLanes := ddel (dirtyLanes q) taskId\<rparr>
               in map_sum id snd (enqueue taskId
                    \<lparr>promote = (taskId \<in> set (dirtyPromote q)), priority = pr, lane = Some lv\<rparr> q2))
            else Inr (q1\<lparr>priorities := ddel (priorities q) taskId, lanes := ddel (lanes q) taskId\<rparr>)))"

definition nextLane :: "(string \<Rightarrow> bool) \<Rightarrow> (string \<Rightarrow> bool) \<Rightarrow> task_queue \<Rightarrow> app_task_lane option" where
  "nextLane ready fg q = map_option selLane (peek ready fg q)"

definition pendingCount :: "task_queue \<Rightarrow> nat" where
  "pendingCount q = length (pending q)"

definition runningCount :: "task_queue \<Rightarrow> nat" where
  "runningCount q = length (runningTasks q)"

definition hasWork :: "task_queue \<Rightarrow> bool" where
  "hasWork q \<longleftrightarrow> 0 < length (pending q) \<or> 0 < length (runningTasks q)"

definition queueSnapshot :: "task_queue \<Rightarrow> string list \<times> string list \<times> string list" where
  "queueSnapshot q = (pending q, runningTasks q, dirty q)"

section \<open>Consistency\<close>

text \<open>
  The queued set is the pending list; the promoted tasks are a prefix of it; a running task is
  not pending; only running tasks are dirty; priorities and lanes are kept exactly for the
  tasks the queue knows; and at most one task holds the interactive slot.
\<close>

definition queue_ok :: "task_queue \<Rightarrow> bool" where
  "queue_ok q \<longleftrightarrow>
     1 \<le> concurrency q \<and>
     distinct (pending q) \<and> set (queued q) = set (pending q) \<and>
     distinct (promotedQueued q) \<and>
     set (take (length (promotedQueued q)) (pending q)) = set (promotedQueued q) \<and>
     distinct (runningTasks q) \<and> set (runningTasks q) \<inter> set (pending q) = {} \<and>
     distinct (foregroundRunning q) \<and> set (foregroundRunning q) \<subseteq> set (runningTasks q) \<and>
     length (foregroundRunning q) \<le> 1 \<and>
     set (dirty q) \<subseteq> set (runningTasks q) \<and> set (dirtyPromote q) \<subseteq> set (dirty q) \<and>
     set (dkeys (dirtyPriorities q)) = set (dirty q) \<and> set (dkeys (dirtyLanes q)) = set (dirty q) \<and>
     set (dkeys (priorities q)) = set (pending q) \<union> set (runningTasks q) \<and>
     set (dkeys (lanes q)) = set (pending q) \<union> set (runningTasks q) \<and>
     (\<forall>k \<in> set (pending q) \<union> set (runningTasks q). k \<noteq> [] \<and> trim k = k)"

lemma spliceOut_sdel: "distinct xs \<Longrightarrow> spliceOut k xs = sdel xs k"
proof (induction xs)
  case (Cons x xs)
  then show ?case
    by (auto simp: spliceOut_def indexOf_def sdel_def remove_at_def split: option.splits)
      (auto simp: find_index_None_iff intro!: filter_True [symmetric])
qed (simp add: spliceOut_def indexOf_def sdel_def)

text \<open>A set of keys that is a prefix of a duplicate-free list.\<close>

lemma prefix_length:
  assumes "distinct ps" "distinct xs" "set (take (length ps) xs) = set ps"
  shows "length (take (length ps) xs) = length ps"
  using assms by (metis distinct_card distinct_take)

lemma prefix_sdel:
  assumes "distinct ps" "distinct xs" "set (take (length ps) xs) = set ps"
  shows "set (take (length (sdel ps k)) (sdel xs k)) = set (sdel ps k)"
proof -
  let ?a = "take (length ps) xs" and ?b = "drop (length ps) xs"
  have split: "sdel xs k = sdel ?a k @ sdel ?b k"
    unfolding sdel_def by (metis append_take_drop_id filter_append)
  have "length (sdel ?a k) = length (sdel ps k)"
    using assms by (metis distinct_card distinct_sdel distinct_take set_sdel)
  with split assms(3) show ?thesis by simp
qed

lemma prefix_insert:
  assumes "distinct ps" "distinct xs" "set (take (length ps) xs) = set ps"
  shows "set (take (Suc (length ps)) (insert_at (length ps) k xs)) = insert k (set ps)"
  using prefix_length [OF assms] assms(3) by (simp add: insert_at_def)

lemma prefix_append:
  assumes "distinct ps" "distinct xs" "set (take (length ps) xs) = set ps"
  shows "set (take (length ps) (xs @ ys)) = set ps"
  using prefix_length [OF assms] assms(3) by (simp split: if_splits)

lemma queue_ok_new: "newTaskQueue n = Inr q \<Longrightarrow> queue_ok q"
  by (auto simp: newTaskQueue_def validateMaxConcurrent_def queue_ok_def dkeys_def split: if_splits)

lemma queue_ok_update: "queue_ok q \<Longrightarrow> updateMaxConcurrent n q = Inr q' \<Longrightarrow> queue_ok q'"
  by (auto simp: updateMaxConcurrent_def validateMaxConcurrent_def queue_ok_def split: if_splits)

lemma queue_ok_enqueueRunning:
  "queue_ok q \<Longrightarrow> key \<in> set (runningTasks q) \<Longrightarrow> queue_ok (snd (enqueueRunning key opts pr lv q))"
  unfolding queue_ok_def enqueueRunning_def by (auto simp: dkeys_dset)

lemma queue_ok_enqueueQueued:
  assumes ok: "queue_ok q" and key: "key \<in> set (queued q)"
  shows "queue_ok (snd (enqueueQueued key opts pr lv q))"
proof (cases "promote opts \<and> key \<notin> set (promotedQueued q)")
  case False
  then show ?thesis using ok key
    unfolding queue_ok_def enqueueQueued_def by (auto simp: dkeys_dset Let_def)
next
  case True
  let ?ps = "promotedQueued q" and ?xs = "sdel (pending q) key"
  have d: "distinct ?ps" "distinct (pending q)" "set (take (length ?ps) (pending q)) = set ?ps"
    using ok by (auto simp: queue_ok_def)
  have pre: "set (take (length ?ps) ?xs) = set ?ps" using prefix_sdel [OF d, of key] True by simp
  have "set (take (Suc (length ?ps)) (insert_at (length ?ps) key ?xs)) = insert key (set ?ps)"
    using d pre by (intro prefix_insert) auto
  with True ok key d show ?thesis
    unfolding queue_ok_def enqueueQueued_def
    by (auto simp: dkeys_dset Let_def spliceOut_sdel length_sadd set_insert_at distinct_insert_at)
qed

text \<open>\<open>complete\<close> re-enqueues a task whose old priority and lane are still recorded.\<close>

lemma queue_ok_enqueueNew:
  assumes ok: "queue_ok (q\<lparr>priorities := ddel (priorities q) key, lanes := ddel (lanes q) key\<rparr>)"
    and key: "key \<notin> set (queued q)" "key \<notin> set (runningTasks q)" "key \<noteq> []" "trim key = key"
  shows "queue_ok (snd (enqueueNew key opts pr lv q))"
proof -
  have d: "distinct (promotedQueued q)" "distinct (pending q)"
    "set (take (length (promotedQueued q)) (pending q)) = set (promotedQueued q)"
    using ok by (auto simp: queue_ok_def)
  have sub: "set (promotedQueued q) \<subseteq> set (pending q)" using d(3) by (metis set_take_subset)
  have keys: "insert key (set (dkeys (priorities q))) = insert key (set (pending q) \<union> set (runningTasks q))"
    "insert key (set (dkeys (lanes q))) = insert key (set (pending q) \<union> set (runningTasks q))"
    using ok by (auto simp: queue_ok_def dkeys_ddel)
  show ?thesis using ok key sub keys prefix_append [OF d] prefix_insert [OF d]
    unfolding queue_ok_def enqueueNew_def
    by (auto simp: dkeys_dset Let_def length_sadd)
qed

lemma queue_ok_forget:
  "queue_ok q \<Longrightarrow> key \<notin> set (queued q) \<Longrightarrow> key \<notin> set (runningTasks q) \<Longrightarrow>
     queue_ok (q\<lparr>priorities := ddel (priorities q) key, lanes := ddel (lanes q) key\<rparr>)"
  by (auto simp: queue_ok_def dkeys_ddel)

lemma queue_ok_enqueue: "queue_ok q \<Longrightarrow> enqueue k opts q = Inr (b, q') \<Longrightarrow> queue_ok q'"
  using queue_ok_enqueueRunning [of q "trim k" opts] queue_ok_enqueueQueued [of q "trim k" opts]
    queue_ok_enqueueNew [of q "trim k" opts] queue_ok_forget [of q "trim k"]
  by (auto simp: enqueue_def Let_def split: if_splits) (metis snd_conv)+

section \<open>Selection\<close>

text \<open>The preference order \<open>peek\<close> minimises: rank first, promotion second, position last.\<close>

definition pref :: "(string \<Rightarrow> bool) \<Rightarrow> task_queue \<Rightarrow> string \<Rightarrow> nat" where
  "pref fg q k = 2 * rankOf fg q k + (if k \<in> set (promotedQueued q) then 0 else 1)"

definition selPref :: "string \<times> nat \<times> bool \<Rightarrow> nat" where
  "selPref s = (case s of (_, r, p) \<Rightarrow> 2 * r + (if p then 0 else 1))"

lemma peekLoop_None:
  "peekLoop ready fg q sel ks = None \<longleftrightarrow> sel = None \<and> (\<forall>k \<in> set ks. \<not> eligible ready fg q k)"
  by (induction ks arbitrary: sel) (auto simp: Let_def split: option.splits)

definition entry :: "(string \<Rightarrow> bool) \<Rightarrow> task_queue \<Rightarrow> string \<Rightarrow> string \<times> nat \<times> bool" where
  "entry fg q k = (k, rankOf fg q k, k \<in> set (promotedQueued q))"

definition best_at ::
  "(string \<Rightarrow> bool) \<Rightarrow> (string \<Rightarrow> bool) \<Rightarrow> task_queue \<Rightarrow> string list \<Rightarrow> nat \<Rightarrow> bool" where
  "best_at ready fg q ks i \<longleftrightarrow> i < length ks \<and> eligible ready fg q (ks ! i) \<and>
     (\<forall>j < length ks. eligible ready fg q (ks ! j) \<longrightarrow>
        pref fg q (ks ! i) < pref fg q (ks ! j) \<or> pref fg q (ks ! i) = pref fg q (ks ! j) \<and> i \<le> j)"

lemma best_at_Cons:
  "eligible ready fg q k \<Longrightarrow> \<forall>x \<in> set ks. eligible ready fg q x \<longrightarrow> pref fg q k \<le> pref fg q x \<Longrightarrow>
     best_at ready fg q (k # ks) 0"
  "best_at ready fg q ks i \<Longrightarrow> (eligible ready fg q k \<Longrightarrow> pref fg q (ks ! i) < pref fg q k) \<Longrightarrow>
     best_at ready fg q (k # ks) (Suc i)"
  by (auto simp: best_at_def All_less_Suc2 order_le_less)

lemma peekLoop_step:
  "peekLoop ready fg q sel (k # ks) = peekLoop ready fg q
     (if eligible ready fg q k \<and> (\<forall>t. sel = Some t \<longrightarrow> pref fg q k < selPref t)
      then Some (entry fg q k) else sel) ks"
proof (cases sel)
  case (Some t)
  obtain a r p where t: "t = (a, r, p)" by (cases t)
  have "pref fg q k < selPref t \<longleftrightarrow>
      rankOf fg q k < r \<or> rankOf fg q k = r \<and> k \<in> set (promotedQueued q) \<and> \<not> p"
    by (auto simp: pref_def selPref_def t)
  then show ?thesis using Some t by (simp add: Let_def entry_def)
qed (simp add: Let_def entry_def)

lemma peekLoop_best:
  assumes "peekLoop ready fg q sel ks = Some s"
  shows "(sel = Some s \<and> (\<forall>k \<in> set ks. eligible ready fg q k \<longrightarrow> selPref s \<le> pref fg q k)) \<or>
    (\<exists>i. best_at ready fg q ks i \<and> s = entry fg q (ks ! i) \<and>
         (\<forall>t. sel = Some t \<longrightarrow> pref fg q (ks ! i) < selPref t))"
  using assms
proof (induction ks arbitrary: sel)
  case Nil
  then show ?case by simp
next
  case (Cons k ks)
  have pk: "selPref (entry fg q k) = pref fg q k" by (simp add: selPref_def pref_def entry_def)
  show ?case
  proof (cases "eligible ready fg q k \<and> (\<forall>t. sel = Some t \<longrightarrow> pref fg q k < selPref t)")
    case True
    from Cons.prems have "peekLoop ready fg q (Some (entry fg q k)) ks = Some s"
      unfolding peekLoop_step if_P [OF True] .
    from Cons.IH [OF this] show ?thesis
    proof (elim disjE exE conjE)
      assume "Some (entry fg q k) = Some s" "\<forall>x \<in> set ks. eligible ready fg q x \<longrightarrow> selPref s \<le> pref fg q x"
      with True pk show ?thesis by (intro disjI2 exI [of _ 0]) (auto intro: best_at_Cons(1))
    next
      fix i assume i: "best_at ready fg q ks i" "s = entry fg q (ks ! i)"
        "\<forall>t. Some (entry fg q k) = Some t \<longrightarrow> pref fg q (ks ! i) < selPref t"
      then have lt: "pref fg q (ks ! i) < pref fg q k" using pk by simp
      from True have "pref fg q (ks ! i) < selPref t" if "sel = Some t" for t
        using lt that less_trans by blast
      with i lt show ?thesis by (intro disjI2 exI [of _ "Suc i"]) (simp add: best_at_Cons(2))
    qed
  next
    case False
    from Cons.prems have "peekLoop ready fg q sel ks = Some s"
      unfolding peekLoop_step if_not_P [OF False] .
    from Cons.IH [OF this] show ?thesis
    proof (elim disjE exE conjE)
      fix i assume i: "best_at ready fg q ks i" "s = entry fg q (ks ! i)"
        "\<forall>t. sel = Some t \<longrightarrow> pref fg q (ks ! i) < selPref t"
      have "pref fg q (ks ! i) < pref fg q k" if "eligible ready fg q k"
      proof -
        from False that obtain t where t: "sel = Some t" "\<not> pref fg q k < selPref t" by blast
        then show ?thesis using i(3) [rule_format, OF t(1)] by linarith
      qed
      with i show ?thesis by (intro disjI2 exI [of _ "Suc i"]) (simp add: best_at_Cons(2))
    qed (use False in auto)
  qed
qed

lemma peek_best:
  assumes "peek ready fg q = Some s"
  obtains i where "best_at ready fg q (pending q) i" "selTask s = pending q ! i"
    "selForeground s = fg (pending q ! i)" "selLane s = laneOf q (pending q ! i)"
  using assms peekLoop_best [of ready fg q None "pending q"]
  by (auto simp: peek_def entry_def split: option.splits)

lemma peek_None: "peek ready fg q = None \<longleftrightarrow> (\<forall>k \<in> set (pending q). \<not> eligible ready fg q k)"
  using peekLoop_None [of ready fg q None "pending q"] by (auto simp: peek_def split: option.splits)

lemma remove_at_sdel: "distinct xs \<Longrightarrow> indexOf k xs = Some i \<Longrightarrow> remove_at i xs = sdel xs k"
  using spliceOut_sdel [of xs k] by (simp add: spliceOut_def)

text \<open>What \<open>take\<close> does on a consistent queue: it moves the selected task from pending to running.\<close>

lemma take_task_eq:
  assumes ok: "queue_ok q" and s: "peek ready fg q = Some s"
  shows "take_task ready fg q = (Some (selTask s),
    q\<lparr>pending := sdel (pending q) (selTask s), queued := sdel (queued q) (selTask s),
      promotedQueued := sdel (promotedQueued q) (selTask s),
      runningTasks := sadd (runningTasks q) (selTask s),
      foregroundRunning := (if selForeground s then sadd (foregroundRunning q) (selTask s)
                            else foregroundRunning q)\<rparr>)"
proof -
  from s obtain i where "best_at ready fg q (pending q) i" "selTask s = pending q ! i"
    by (rule peek_best)
  then have mem: "selTask s \<in> set (pending q)" and ne: "selTask s \<noteq> []"
    by (auto simp: best_at_def eligible_def)
  have "indexOf (selTask s) (pending q) \<noteq> None"
    using mem by (simp add: indexOf_def find_index_None_iff)
  then obtain j where j: "indexOf (selTask s) (pending q) = Some j" by blast
  have "pending q ! j = selTask s" using find_index_Some [OF j [unfolded indexOf_def]] by simp
  with j s ne ok show ?thesis
    by (simp add: take_task_def Let_def remove_at_sdel queue_ok_def)
qed

lemma queue_ok_start:
  assumes ok: "queue_ok q" and mem: "k \<in> set (pending q)"
    and fg: "fs = foregroundRunning q \<or> fs = [k] \<and> foregroundRunning q = []"
  shows "queue_ok (q\<lparr>pending := sdel (pending q) k, queued := sdel (queued q) k,
      promotedQueued := sdel (promotedQueued q) k, runningTasks := sadd (runningTasks q) k,
      foregroundRunning := fs\<rparr>)"
proof -
  have "set (take (length (sdel (promotedQueued q) k)) (sdel (pending q) k)) =
      set (sdel (promotedQueued q) k)"
    using ok by (intro prefix_sdel) (auto simp: queue_ok_def)
  moreover have "set fs \<subseteq> insert k (set (runningTasks q))" "distinct fs" "length fs \<le> 1"
    using fg ok by (auto simp: queue_ok_def)
  moreover have "set (sdel (pending q) k) \<union> set (sadd (runningTasks q) k) =
      set (pending q) \<union> set (runningTasks q)" using mem by auto
  moreover have "set (sadd (runningTasks q) k) \<inter> set (sdel (pending q) k) = {}"
    using ok by (auto simp: queue_ok_def)
  moreover have "distinct (sdel (promotedQueued q) k)" "distinct (sdel (pending q) k)"
    "distinct (sadd (runningTasks q) k)" "set (sdel (queued q) k) = set (sdel (pending q) k)"
    using ok by (simp_all add: queue_ok_def)
  moreover have "set (dirty q) \<subseteq> set (sadd (runningTasks q) k)"
    "set fs \<subseteq> set (sadd (runningTasks q) k)" using ok calculation by (auto simp: queue_ok_def)
  ultimately show ?thesis using ok
    by (simp add: queue_ok_def del: set_sadd set_sdel distinct_sadd distinct_sdel)
qed

lemma queue_ok_take:
  assumes ok: "queue_ok q" and t: "take_task ready fg q = (Some k, q')"
  shows "queue_ok q'"
proof -
  obtain s where s: "peek ready fg q = Some s"
    using t by (cases "peek ready fg q") (auto simp: take_task_def)
  from s obtain i where i: "best_at ready fg q (pending q) i" "selTask s = pending q ! i"
    "selForeground s = fg (pending q ! i)" by (rule peek_best)
  then have mem: "selTask s \<in> set (pending q)" by (auto simp: best_at_def)
  have "foregroundRunning q = []" if "selForeground s"
    using i that unfolding best_at_def eligible_def by (cases "foregroundRunning q") auto
  then have "queue_ok (snd (take_task ready fg q))"
    unfolding take_task_eq [OF ok s] snd_conv
    by (intro queue_ok_start ok mem) (auto simp: sadd_def)
  with t show ?thesis by simp
qed

text \<open>The two ways a pass can end.\<close>

definition retire :: "string \<Rightarrow> task_queue \<Rightarrow> task_queue" where
  "retire k q = q\<lparr>runningTasks := sdel (runningTasks q) k,
     foregroundRunning := sdel (foregroundRunning q) k,
     dirty := sdel (dirty q) k, dirtyPromote := sdel (dirtyPromote q) k,
     dirtyPriorities := ddel (dirtyPriorities q) k, dirtyLanes := ddel (dirtyLanes q) k\<rparr>"

lemma queue_ok_retire:
  assumes ok: "queue_ok q" and run: "k \<in> set (runningTasks q)"
  shows "queue_ok ((retire k q)\<lparr>priorities := ddel (priorities q) k, lanes := ddel (lanes q) k\<rparr>)"
proof -
  have "length (sdel (foregroundRunning q) k) \<le> 1"
    using ok by (simp add: queue_ok_def sdel_def le_trans [OF length_filter_le])
  moreover have "k \<notin> set (pending q)" using ok run by (auto simp: queue_ok_def)
  ultimately show ?thesis using ok run unfolding queue_ok_def retire_def by (auto simp: dkeys_ddel)
qed

lemma complete_eq:
  assumes ok: "queue_ok q" and run: "k \<in> set (runningTasks q)"
  shows "complete k q = Inr
    (if k \<in> set (dirty q)
     then snd (enqueueNew k \<lparr>promote = (k \<in> set (dirtyPromote q)), priority = None, lane = None\<rparr>
       (the (dget (dirtyPriorities q) k))
       (strongerLane (dget (lanes q) k) (dget (dirtyLanes q) k)) (retire k q))
     else (retire k q)\<lparr>priorities := ddel (priorities q) k, lanes := ddel (lanes q) k\<rparr>)"
proof -
  have k: "trim k = k" "k \<noteq> []" "k \<notin> set (queued q)" using ok run by (auto simp: queue_ok_def)
  show ?thesis
  proof (cases "k \<in> set (dirty q)")
    case True
    then have "k \<in> set (dkeys (dirtyPriorities q))" using ok by (simp add: queue_ok_def)
    then obtain pr where pr: "dget (dirtyPriorities q) k = Some pr" by (metis dget_None_iff not_None_eq)
    have lane: "strongerLane (dget (lanes q) k) (Some (strongerLane (dget (lanes q) k) l)) =
        strongerLane (dget (lanes q) k) l" for l by (auto simp: strongerLane_def)
    from True run k pr show ?thesis
      by (simp add: complete_def enqueue_def enqueueNew_def retire_def Let_def lane)
  next
    case False
    have "k \<notin> set (dirtyPromote q)" "dget (dirtyPriorities q) k = None" "dget (dirtyLanes q) k = None"
      using ok False by (auto simp: queue_ok_def dget_None_iff)
    then show ?thesis using False run
      by (simp add: complete_def retire_def dget_None_iff ddel_absent)
  qed
qed

lemma queue_ok_complete:
  assumes ok: "queue_ok q" and c: "complete k q = Inr q'"
  shows "queue_ok q'"
proof -
  have run: "k \<in> set (runningTasks q)" using c by (auto simp: complete_def split: if_splits)
  have k: "k \<notin> set (queued q)" "trim k = k" "k \<noteq> []" using ok run by (auto simp: queue_ok_def)
  note r = queue_ok_retire [OF ok run]
  show ?thesis
    using c queue_ok_enqueueNew [of "retire k q" k] r k
    unfolding complete_eq [OF ok run] by (auto simp: retire_def split: if_splits)
qed

section \<open>All executions\<close>

text \<open>Readiness and foreground selection may answer differently at every take.\<close>

inductive queue_step :: "task_queue \<Rightarrow> task_queue \<Rightarrow> bool" where
  enqueued: "enqueue k opts q = Inr (b, q') \<Longrightarrow> queue_step q q'"
| taken: "take_task ready fg q = (r, q') \<Longrightarrow> queue_step q q'"
| completed: "complete k q = Inr q' \<Longrightarrow> queue_step q q'"
| updated: "updateMaxConcurrent n q = Inr q' \<Longrightarrow> queue_step q q'"

inductive queue_reach :: "task_queue \<Rightarrow> bool" where
  new: "newTaskQueue n = Inr q \<Longrightarrow> queue_reach q"
| step: "queue_reach q \<Longrightarrow> queue_step q q' \<Longrightarrow> queue_reach q'"

lemma take_task_None: "queue_ok q \<Longrightarrow> take_task ready fg q = (None, q') \<Longrightarrow> q' = q"
  using take_task_eq [of q ready fg] by (cases "peek ready fg q") (auto simp: take_task_def)

lemma queue_ok_step: "queue_step q q' \<Longrightarrow> queue_ok q \<Longrightarrow> queue_ok q'"
proof (induction rule: queue_step.induct)
  case (taken ready fg q r q')
  then show ?case by (cases r) (auto dest: take_task_None intro: queue_ok_take)
qed (auto intro: queue_ok_enqueue queue_ok_complete queue_ok_update)

lemma queue_ok_reach: "queue_reach q \<Longrightarrow> queue_ok q"
  by (induction rule: queue_reach.induct) (auto intro: queue_ok_new queue_ok_step)

text \<open>A burst of wakes for one task.\<close>

fun enqueueAll :: "string \<Rightarrow> queue_options list \<Rightarrow> task_queue \<Rightarrow> task_queue result" where
  "enqueueAll k [] q = Inr q"
| "enqueueAll k (w # ws) q = (case enqueue k w q of Inl e \<Rightarrow> Inl e | Inr (_, q') \<Rightarrow> enqueueAll k ws q')"

lemma enqueueAll_running:
  assumes "k \<in> set (runningTasks q)" and "trim k = k" and "k \<noteq> []"
  shows "\<exists>q'. enqueueAll k ws q = Inr q' \<and> pending q' = pending q \<and> queued q' = queued q \<and>
    promotedQueued q' = promotedQueued q \<and> runningTasks q' = runningTasks q \<and> lanes q' = lanes q \<and>
    (k \<in> set (dirty q') \<longleftrightarrow> k \<in> set (dirty q) \<or> ws \<noteq> []) \<and>
    (k \<in> set (dirtyPromote q') \<longleftrightarrow> k \<in> set (dirtyPromote q) \<or> (\<exists>w \<in> set ws. promote w)) \<and>
    (dget (dirtyLanes q') k = Some Human \<longleftrightarrow> dget (dirtyLanes q) k = Some Human \<or>
       (ws \<noteq> [] \<and> dget (lanes q) k = Some Human) \<or> (\<exists>w \<in> set ws. lane w = Some Human))"
  using assms
proof (induction ws arbitrary: q)
  case (Cons w ws)
  let ?pr = "case priority w of Some p \<Rightarrow> p
      | None \<Rightarrow> (case dget (priorities q) k of Some p \<Rightarrow> p | None \<Rightarrow> P2)"
  let ?q = "snd (enqueueRunning k w ?pr (strongerLane (dget (lanes q) k) (lane w)) q)"
  have "enqueue k w q = Inr (k \<notin> set (dirty q), ?q)"
    using Cons.prems by (simp add: enqueue_def enqueueRunning_def Let_def)
  moreover have "k \<in> set (runningTasks ?q)" using Cons.prems by (simp add: enqueueRunning_def)
  note Cons.IH [OF this Cons.prems(2,3)]
  ultimately show ?case
    by (auto simp: enqueueRunning_def strongerLane_def split: if_splits)
qed simp

lemma queue_ok_enqueueAll: "queue_ok q \<Longrightarrow> enqueueAll k ws q = Inr q' \<Longrightarrow> queue_ok q'"
  by (induction ws arbitrary: q) (auto split: sum.splits intro: queue_ok_enqueue)

lemma background_count:
  assumes ok: "queue_ok q" and k: "k \<notin> set (runningTasks q)"
  shows "int (length (filter (\<lambda>t. t \<notin> set (foregroundRunning q)) (sadd (runningTasks q) k))) =
    int (length (runningTasks q)) - int (length (foregroundRunning q)) + 1"
proof -
  have d: "distinct (foregroundRunning q)" "distinct (runningTasks q)"
    "set (foregroundRunning q) \<subseteq> set (runningTasks q)" using ok by (auto simp: queue_ok_def)
  then have "length (filter (\<lambda>t. t \<in> set (foregroundRunning q)) (runningTasks q)) =
      length (foregroundRunning q)"
    by (metis distinct_card distinct_filter inf.absorb_iff2 inter_set_filter Int_commute)
  with sum_length_filter_compl [of "\<lambda>t. t \<in> set (foregroundRunning q)" "runningTasks q"] d k
  show ?thesis by (auto simp: sadd_def)
qed

section \<open>Correctness\<close>

text \<open>A queue with one running task, and a queue with three waiting ones.\<close>

abbreviation wake :: queue_options where
  "wake \<equiv> \<lparr>promote = False, priority = None, lane = None\<rparr>"

definition queue_busy :: task_queue where
  "queue_busy = \<lparr>concurrency = 1, pending = [''b''], queued = [''b''], promotedQueued = [],
     runningTasks = [''a''], foregroundRunning = [], dirty = [], dirtyPromote = [],
     priorities = [(''a'', P2), (''b'', P2)], dirtyPriorities = [],
     lanes = [(''a'', Normal), (''b'', Normal)], dirtyLanes = []\<rparr>"

lemma trim_example: "trim ''a'' = ''a''" "trim ''b'' = ''b''"
  by code_simp+

lemma queue_busy_reach: "queue_reach queue_busy"
proof -
  define q0 where "q0 = (queue_busy\<lparr>pending := [], queued := [], runningTasks := [],
    priorities := [], lanes := []\<rparr>)"
  define q1 where "q1 = (q0\<lparr>pending := [''a''], queued := [''a''],
    priorities := [(''a'', P2)], lanes := [(''a'', Normal)]\<rparr>)"
  define q2 where "q2 = (q1\<lparr>pending := [''a'', ''b''], queued := [''a'', ''b''],
    priorities := [(''a'', P2), (''b'', P2)], lanes := [(''a'', Normal), (''b'', Normal)]\<rparr>)"
  note defs = q0_def q1_def q2_def queue_busy_def
  have "newTaskQueue (num_int 1) = Inr q0"
    by (simp add: newTaskQueue_def validateMaxConcurrent_def defs)
  moreover have "enqueue ''a'' wake q0 = Inr (True, q1)" "enqueue ''b'' wake q1 = Inr (True, q2)"
    by (simp_all add: enqueue_def trim_example enqueueNew_def strongerLane_def sadd_def Let_def defs)
  moreover have "take_task (\<lambda>_. True) (\<lambda>_. False) q2 = (Some ''a'', queue_busy)"
    by (simp add: take_task_def peek_def eligible_def rankOf_def laneOf_def indexOf_def remove_at_def
        sdel_def sadd_def Let_def defs)
  ultimately show ?thesis
    by (meson queue_reach.new queue_reach.step queue_step.enqueued queue_step.taken)
qed

text \<open>
  C8. One pass per task: in every reachable state the pending and running tasks are pairwise
  different, so no task is reconciled twice at once or queued twice; a wake is remembered as
  dirty only for a running task, and at most one task occupies the interactive slot.
\<close>

theorem queue_single_flight:
  assumes "queue_reach q"
  shows "distinct (pending q @ runningTasks q) \<and> set (queued q) = set (pending q) \<and>
    set (dirty q) \<subseteq> set (runningTasks q) \<and> length (foregroundRunning q) \<le> 1"
  using queue_ok_reach [OF assms] by (auto simp: queue_ok_def)

theorem queue_single_flight_witness: "distinct (pending queue_busy @ runningTasks queue_busy)"
  using queue_single_flight [OF queue_busy_reach] by simp

text \<open>
  C9. Wakes during reconciliation collapse into exactly one fresh pass. Whatever burst of wakes
  arrives for a running task, completing the current pass queues the task exactly once: at the
  end, or after the promoted ones if any wake asked for promotion. The next pass runs in the
  human lane iff the task was there already or some wake asked for it.
\<close>

theorem wake_while_running:
  assumes "queue_reach q" and "k \<in> set (runningTasks q)" and "k \<notin> set (dirty q)" and "ws \<noteq> []"
  shows "\<exists>q1 q2. enqueueAll k ws q = Inr q1 \<and> complete k q1 = Inr q2 \<and>
    pending q2 = (if \<exists>w \<in> set ws. promote w
                  then insert_at (length (promotedQueued q)) k (pending q) else pending q @ [k]) \<and>
    k \<notin> set (runningTasks q2) \<and> k \<notin> set (dirty q2) \<and>
    (dget (lanes q2) k = Some Human \<longleftrightarrow>
       dget (lanes q) k = Some Human \<or> (\<exists>w \<in> set ws. lane w = Some Human))"
proof -
  have ok: "queue_ok q" using assms(1) by (rule queue_ok_reach)
  then have k: "trim k = k" "k \<noteq> []" using assms(2) by (auto simp: queue_ok_def)
  have clean: "k \<notin> set (dirtyPromote q)" "dget (dirtyLanes q) k = None"
    using ok assms(3) by (auto simp: queue_ok_def dget_None_iff)
  obtain q1 where q1: "enqueueAll k ws q = Inr q1" and same: "pending q1 = pending q"
      "promotedQueued q1 = promotedQueued q" "runningTasks q1 = runningTasks q" "lanes q1 = lanes q"
    and d: "k \<in> set (dirty q1)" "k \<in> set (dirtyPromote q1) \<longleftrightarrow> (\<exists>w \<in> set ws. promote w)"
    and l: "dget (dirtyLanes q1) k = Some Human \<longleftrightarrow>
      dget (lanes q) k = Some Human \<or> (\<exists>w \<in> set ws. lane w = Some Human)"
    using enqueueAll_running [OF assms(2) k, of ws] clean assms(4) by auto
  have "complete k q1 = Inr (snd (enqueueNew k
      \<lparr>promote = (k \<in> set (dirtyPromote q1)), priority = None, lane = None\<rparr>
      (the (dget (dirtyPriorities q1) k))
      (strongerLane (dget (lanes q1) k) (dget (dirtyLanes q1) k)) (retire k q1)))"
    using complete_eq [OF queue_ok_enqueueAll [OF ok q1], of k] same assms(2) d(1) by simp
  with q1 same d l show ?thesis
    by (auto simp: enqueueNew_def retire_def strongerLane_def Let_def)
qed

theorem wake_while_running_witness:
  "\<exists>q1 q2. enqueueAll ''a'' [wake, wake] queue_busy = Inr q1 \<and> complete ''a'' q1 = Inr q2 \<and>
     pending q2 = [''b'', ''a'']"
  using wake_while_running [OF queue_busy_reach, of "''a''" "[wake, wake]"]
  by (auto simp: queue_busy_def)

text \<open>
  The reference order of \<open>peek\<close>: priorities are ordered from \<open>P0\<close> to \<open>P3\<close>, and the urgency of a
  position of the pending list is compared lexicographically, \<open>False\<close> before \<open>True\<close>.
\<close>

instantiation app_task_priority :: linorder
begin

definition less_eq_app_task_priority :: "app_task_priority \<Rightarrow> app_task_priority \<Rightarrow> bool" where
  "x \<le> y \<longleftrightarrow> y = P3 \<or> y = P2 \<and> x \<noteq> P3 \<or> y = P1 \<and> (x = P0 \<or> x = P1) \<or> y = P0 \<and> x = P0"

definition less_app_task_priority :: "app_task_priority \<Rightarrow> app_task_priority \<Rightarrow> bool" where
  "x < y \<longleftrightarrow> x \<noteq> y \<and> x \<le> (y :: app_task_priority)"

instance
proof
  fix x y z :: app_task_priority
  show "x < y \<longleftrightarrow> x \<le> y \<and> \<not> y \<le> x"
    by (cases x; cases y; simp add: less_eq_app_task_priority_def less_app_task_priority_def)
  show "x \<le> x" by (cases x; simp add: less_eq_app_task_priority_def)
  show "x \<le> y \<Longrightarrow> y \<le> z \<Longrightarrow> x \<le> z"
    by (cases x; cases y; cases z; simp add: less_eq_app_task_priority_def)
  show "x \<le> y \<Longrightarrow> y \<le> x \<Longrightarrow> x = y"
    by (cases x; cases y; simp add: less_eq_app_task_priority_def)
  show "x \<le> y \<or> y \<le> x" by (cases x; cases y; simp add: less_eq_app_task_priority_def)
qed

end

definition urgency ::
  "(string \<Rightarrow> bool) \<Rightarrow> task_queue \<Rightarrow> nat \<Rightarrow> bool \<times> bool \<times> app_task_priority \<times> bool \<times> nat" where
  "urgency fg q i =
     (let k = pending q ! i in
      (\<not> fg k, dget (lanes q) k \<noteq> Some Human,
       case dget (priorities q) k of Some p \<Rightarrow> p | None \<Rightarrow> P2,
       k \<notin> set (promotedQueued q), i))"

lemma priorityRank_order:
  "priorityRank x < priorityRank y \<longleftrightarrow> x < y" "priorityRank x \<le> priorityRank y \<longleftrightarrow> x \<le> y"
  by (cases x; cases y; simp add: less_app_task_priority_def less_eq_app_task_priority_def)+

lemma priorityRank_bound: "priorityRank x < 4"
  by (cases x) simp_all

lemma weighted_le:
  assumes "r < 4" "s < (4::nat)"
    and "2 * ((if a then 0 else 8) + (if b then 0 else 4) + r) + (if p then 0 else 1) <
           2 * ((if c then 0 else 8) + (if d then 0 else 4) + s) + (if t then 0 else 1) \<or>
         2 * ((if a then 0 else 8) + (if b then 0 else 4) + r) + (if p then 0 else 1) =
           2 * ((if c then 0 else 8) + (if d then 0 else 4) + s) + (if t then 0 else 1) \<and> i \<le> j"
  shows "(\<not> a, \<not> b, r, \<not> p, i) \<le> (\<not> c, \<not> d, s, \<not> t, (j::nat))"
  using assms
  by (simp split: if_split_asm) (presburger+)?

lemma pref_urgency:
  assumes "pref fg q (pending q ! i) < pref fg q (pending q ! j) \<or>
    pref fg q (pending q ! i) = pref fg q (pending q ! j) \<and> i \<le> j"
  shows "urgency fg q i \<le> urgency fg q j"
proof -
  let ?pr = "\<lambda>k. case dget (priorities q) k of Some p \<Rightarrow> p | None \<Rightarrow> P2"
  have "(laneOf q k = Human) = (dget (lanes q) k = Some Human)" for k
    by (simp add: laneOf_def split: option.split)
  with assms have "(\<not> fg (pending q ! i), dget (lanes q) (pending q ! i) \<noteq> Some Human,
      priorityRank (?pr (pending q ! i)), pending q ! i \<notin> set (promotedQueued q), i) \<le>
    (\<not> fg (pending q ! j), dget (lanes q) (pending q ! j) \<noteq> Some Human,
      priorityRank (?pr (pending q ! j)), pending q ! j \<notin> set (promotedQueued q), j)"
    by (intro weighted_le) (simp_all add: pref_def rankOf_def priorityRank_bound)
  then show ?thesis by (simp add: urgency_def Let_def priorityRank_order)
qed

text \<open>
  C10. \<open>peek\<close> answers null exactly when no pending task is eligible: its callback calls it ready and
  the slot it would use is free. Otherwise it selects the most urgent eligible task. Foreground comes
  before background, the human lane before the normal one, then \<open>P0\<close> before \<open>P1\<close> before \<open>P2\<close>
  (also a task with no recorded priority) before \<open>P3\<close>, then a promoted task before one that is
  not, and among equals the one queued first.
\<close>

theorem peek_selects_best:
  "case peek ready fg q of
     None \<Rightarrow> \<forall>k. k \<in> set (pending q) \<longrightarrow> \<not> eligible ready fg q k
   | Some s \<Rightarrow> \<exists>i < length (pending q). selTask s = pending q ! i \<and> selForeground s = fg (pending q ! i) \<and>
       eligible ready fg q (pending q ! i) \<and>
       (\<forall>j < length (pending q). eligible ready fg q (pending q ! j) \<longrightarrow> urgency fg q i \<le> urgency fg q j)"
proof (cases "peek ready fg q")
  case None
  then have "\<forall>k \<in> set (pending q). \<not> eligible ready fg q k" by (simp add: peek_None)
  with None show ?thesis by simp
next
  case (Some s)
  then obtain i where i: "best_at ready fg q (pending q) i" "selTask s = pending q ! i"
    "selForeground s = fg (pending q ! i)" by (rule peek_best)
  then show ?thesis unfolding Some option.case
    by (intro exI [of _ i]) (auto simp: best_at_def intro!: pref_urgency)
qed

theorem peek_selects_best_witness:
  "peek (\<lambda>_. True) (\<lambda>k. k = ''b'') queue_busy =
     Some \<lparr>selTask = ''b'', selLane = Normal, selForeground = True\<rparr> \<and>
   eligible (\<lambda>_. True) (\<lambda>k. k = ''b'') queue_busy ''b''"
  using peek_selects_best [where ready = "\<lambda>_. True" and fg = "\<lambda>k. k = ''b''" and q = queue_busy]
  by (simp add: peek_def eligible_def rankOf_def laneOf_def Let_def queue_busy_def)

text \<open>
  C11. \<open>take\<close> respects the App's limits: a foreground task starts only when the interactive slot
  is free, and after a background task starts no more than \<open>maxConcurrent\<close> tasks run outside
  that slot. The task leaves the pending list and nothing else does.
\<close>

theorem take_respects_limit:
  assumes "queue_reach q" and "take_task ready fg q = (Some k, q')"
  shows "ready k \<and> pending q' = sdel (pending q) k \<and> set (runningTasks q') = insert k (set (runningTasks q)) \<and>
    k \<notin> set (runningTasks q) \<and>
    (if fg k then foregroundRunning q = [] \<and> foregroundRunning q' = [k]
     else foregroundRunning q' = foregroundRunning q \<and>
          int (length (filter (\<lambda>t. t \<notin> set (foregroundRunning q')) (runningTasks q'))) \<le> concurrency q)"
proof -
  have ok: "queue_ok q" using assms(1) by (rule queue_ok_reach)
  obtain s where s: "peek ready fg q = Some s"
    using assms(2) by (cases "peek ready fg q") (auto simp: take_task_def)
  from s obtain i where "best_at ready fg q (pending q) i" "selTask s = pending q ! i"
    "selForeground s = fg (pending q ! i)" by (rule peek_best)
  moreover have k: "k = selTask s" and q': "q' = snd (take_task ready fg q)"
    using take_task_eq [OF ok s] assms(2) by simp_all
  ultimately have el: "eligible ready fg q k" "k \<in> set (pending q)" "selForeground s = fg k"
    by (auto simp: best_at_def)
  have new: "k \<notin> set (runningTasks q)" using ok el(2) by (auto simp: queue_ok_def)
  have count: "int (length (filter (\<lambda>t. t \<notin> set (foregroundRunning q)) (sadd (runningTasks q) k))) =
      int (length (runningTasks q)) - int (length (foregroundRunning q)) + 1"
    using ok new by (rule background_count)
  from el(1) have "fg k \<Longrightarrow> foregroundRunning q = []"
    by (cases "foregroundRunning q") (auto simp: eligible_def)
  with el new count show ?thesis
    unfolding q' take_task_eq [OF ok s] by (auto simp: k [symmetric] eligible_def sadd_def)
qed

theorem take_respects_limit_witness:
  "\<exists>q'. take_task (\<lambda>_. True) (\<lambda>k. k = ''b'') queue_busy = (Some ''b'', q') \<and>
     foregroundRunning q' = [''b'']"
proof -
  obtain q' where "take_task (\<lambda>_. True) (\<lambda>k. k = ''b'') queue_busy = (Some ''b'', q')"
    by (simp add: take_task_def peek_def eligible_def rankOf_def laneOf_def indexOf_def remove_at_def
        Let_def queue_busy_def)
  with take_respects_limit [OF queue_busy_reach this] show ?thesis by simp
qed

end
