(* ===== verification/Task_Controller.thy ===== *)
theory Task_Controller
  imports Host_Capacity Task_Queue
begin

text \<open>
  \<open>AppTaskController\<close> (\<open>core/tasks/controller.ts\<close>): the reconciliation worker pool of one App,
  sharing the Host's pump queue and capacity with other owners.

  The state holds the controller's fields together with the shared Host state it touches. Timers,
  promise reactions and capacity callbacks are steps of their own; the other owners of the Host
  are an environment that may do anything with its own pumps, waits and handles. One step is one
  turn of the event loop, except that the reactions of a settled reconciliation, which run in
  consecutive microtasks, are a single step. Diagnostics (\<open>onError\<close>) are not modelled.
\<close>

section \<open>State\<close>

record scheduling_read =
  backgroundPaused :: bool
  foregroundTaskIds :: "string list"

record task_dispatch =
  enqueuedAt :: int
  startedAt :: int
  readyWaitMs :: int
  dispatchLane :: app_task_lane

text \<open>A reconciliation in flight: its task, the capacity handle it releases, its dispatch.\<close>

record job =
  jobTask :: string
  jobHandle :: "nat option"
  jobDispatch :: task_dispatch

record ctl =
  queue :: task_queue
  failures :: "(string, nat) dict"
  retryTimers :: "(string, app_task_lane \<times> int) dict"
  readySince :: "(string, int) dict"
  scheduled :: bool
  closed :: bool
  enabled :: bool
  startReady :: bool
  waitingForCapacity :: bool
  waitingCapacityLane :: "app_task_lane option"
  waitingCapacityForeground :: "bool option"
  cancelCapacityWait :: "nat option"
  drainPromises :: "nat list"
  drainedPromises :: "nat list"
  scheduling :: scheduling_read
  jobs :: "job list"
  hasCapacity :: bool
  hostCapacity :: capacity
  hostPumpQueue :: "nat list"
  hostPumpScheduled :: bool

section \<open>The Host pump\<close>

definition armHostPump :: "ctl \<Rightarrow> ctl" where
  "armHostPump s = (if hostPumpScheduled s then s else s\<lparr>hostPumpScheduled := True\<rparr>)"

definition scheduleHostPump :: "nat \<Rightarrow> ctl \<Rightarrow> ctl" where
  "scheduleHostPump owner s = armHostPump (s\<lparr>hostPumpQueue := hostPumpQueue s @ [owner]\<rparr>)"

definition cancelHostPumps :: "nat \<Rightarrow> ctl \<Rightarrow> ctl" where
  "cancelHostPumps owner s = s\<lparr>hostPumpQueue := filter (\<lambda>o'. o' \<noteq> owner) (hostPumpQueue s)\<rparr>"

section \<open>Operations\<close>

definition isReady :: "ctl \<Rightarrow> string \<Rightarrow> bool" where
  "isReady s k \<longleftrightarrow> k \<notin> set (dkeys (retryTimers s)) \<and>
     (\<not> backgroundPaused (scheduling s) \<or> k \<in> set (foregroundTaskIds (scheduling s)))"

definition isForeground :: "ctl \<Rightarrow> string \<Rightarrow> bool" where
  "isForeground s k \<longleftrightarrow> k \<in> set (foregroundTaskIds (scheduling s))"

definition newController :: "jsnum \<Rightarrow> bool \<Rightarrow> bool \<Rightarrow> capacity \<Rightarrow> nat list \<Rightarrow> ctl result" where
  "newController maxConcurrent capacityGiven startAfter cap pumps =
     (case newTaskQueue maxConcurrent of
        Inl e \<Rightarrow> Inl e
      | Inr q \<Rightarrow> Inr \<lparr>queue = q, failures = [], retryTimers = [], readySince = [],
          scheduled = False, closed = False, enabled = True, startReady = (\<not> startAfter),
          waitingForCapacity = False, waitingCapacityLane = None, waitingCapacityForeground = None,
          cancelCapacityWait = None, drainPromises = [], drainedPromises = [],
          scheduling = \<lparr>backgroundPaused = False, foregroundTaskIds = []\<rparr>,
          jobs = [], hasCapacity = capacityGiven, hostCapacity = cap,
          hostPumpQueue = pumps, hostPumpScheduled = (pumps \<noteq> [])\<rparr>)"

definition ctlPeek :: "ctl \<Rightarrow> queue_selection option" where
  "ctlPeek s = peek (isReady s) (isForeground s) (queue s)"

definition ctlTake :: "ctl \<Rightarrow> string option \<times> ctl" where
  "ctlTake s = (case take_task (isReady s) (isForeground s) (queue s) of (r, q) \<Rightarrow> (r, s\<lparr>queue := q\<rparr>))"

definition schedulePump :: "nat \<Rightarrow> ctl \<Rightarrow> ctl" where
  "schedulePump me s =
     (if scheduled s \<or> closed s \<or> \<not> enabled s \<or> \<not> startReady s then s
      else scheduleHostPump me (s\<lparr>scheduled := True\<rparr>))"

definition isDrained :: "ctl \<Rightarrow> bool" where
  "isDrained s \<longleftrightarrow> closed s \<and> startReady s \<and> runningTasks (queue s) = []"

definition resolveDrainWaiters :: "ctl \<Rightarrow> ctl" where
  "resolveDrainWaiters s =
     (if \<not> isDrained s then s
      else s\<lparr>drainedPromises := drainedPromises s @ drainPromises s, drainPromises := []\<rparr>)"

text \<open>\<open>retryDelayMs\<close> is the optional callback; the default doubles from 250 ms up to 30 s.\<close>

definition retryDelay :: "(nat \<Rightarrow> int) option \<Rightarrow> nat \<Rightarrow> int" where
  "retryDelay custom attempt =
     max 0 (case custom of Some f \<Rightarrow> f attempt | None \<Rightarrow> min 30000 (250 * 2 ^ (attempt - 1)))"

definition recordFailure :: "(nat \<Rightarrow> int) option \<Rightarrow> string \<Rightarrow> app_task_lane \<Rightarrow> ctl \<Rightarrow> ctl" where
  "recordFailure custom taskId lv s =
     (let attempt = Suc (case dget (failures s) taskId of Some n \<Rightarrow> n | None \<Rightarrow> 0);
          s1 = s\<lparr>failures := dset (failures s) taskId attempt\<rparr>
      in if closed s then s1
         else s1\<lparr>retryTimers := dset (retryTimers s) taskId (lv, retryDelay custom attempt)\<rparr>)"

text \<open>The result of \<open>readScheduling\<close>: absent, thrown, or a fresh snapshot.\<close>

definition refreshScheduling ::
  "(nat \<Rightarrow> int) option \<Rightarrow> scheduling_read result option \<Rightarrow> ctl \<Rightarrow> bool \<times> ctl" where
  "refreshScheduling custom rd s =
     (case rd of
        None \<Rightarrow> (True, s)
      | Some (Inr sc) \<Rightarrow> (True, s\<lparr>scheduling := sc\<rparr>)
      | Some (Inl _) \<Rightarrow>
          (False,
           case pending (queue s) of
             [] \<Rightarrow> s
           | taskId # _ \<Rightarrow>
               if taskId = [] \<or> taskId \<in> set (dkeys (retryTimers s)) then s
               else recordFailure custom taskId Normal s))"

text \<open>The block that drops a capacity wait, shared by \<open>enqueue\<close>, \<open>setEnabled\<close> and \<open>close\<close>.\<close>

definition dropCapacityWait :: "ctl \<Rightarrow> ctl" where
  "dropCapacityWait s =
     s\<lparr>hostCapacity := (case cancelCapacityWait s of
          None \<Rightarrow> hostCapacity s | Some w \<Rightarrow> cancelWait w (hostCapacity s)),
       cancelCapacityWait := None, waitingForCapacity := False,
       waitingCapacityLane := None, waitingCapacityForeground := None\<rparr>"

text \<open>The second half of \<open>enqueue\<close>: reread scheduling, drop a wait that became too weak, pump.\<close>

definition afterEnqueue ::
  "nat \<Rightarrow> (nat \<Rightarrow> int) option \<Rightarrow> scheduling_read result option \<Rightarrow> ctl \<Rightarrow> ctl" where
  "afterEnqueue me custom rd s =
     (let (fresh, s1) = refreshScheduling custom rd s
      in if \<not> fresh then s1
         else schedulePump me
           (case ctlPeek s1 of
              None \<Rightarrow> s1
            | Some next \<Rightarrow>
                if waitingForCapacity s1 \<and>
                   (waitingCapacityForeground s1 \<noteq> Some (selForeground next) \<or>
                    waitingCapacityLane s1 = Some Normal \<and> selLane next = Human)
                then dropCapacityWait s1 else s1))"

definition ctlEnqueue ::
  "nat \<Rightarrow> (nat \<Rightarrow> int) option \<Rightarrow> int \<Rightarrow> scheduling_read result option \<Rightarrow> string \<Rightarrow> queue_options \<Rightarrow>
   ctl \<Rightarrow> (bool \<times> ctl) result" where
  "ctlEnqueue me custom now rd taskId opts s =
     (if closed s then Inr (False, s)
      else case enqueue taskId opts (queue s) of
        Inl e \<Rightarrow> Inl e
      | Inr (added, q) \<Rightarrow> Inr (added, afterEnqueue me custom rd
          (s\<lparr>queue := q,
             readySince := (if added \<and> taskId \<notin> set (dkeys (readySince s))
                            then dset (readySince s) taskId now else readySince s)\<rparr>)))"

definition ctlUpdateMaxConcurrent :: "nat \<Rightarrow> jsnum \<Rightarrow> ctl \<Rightarrow> ctl result" where
  "ctlUpdateMaxConcurrent me n s =
     (if closed s then Inr s
      else case updateMaxConcurrent n (queue s) of
        Inl e \<Rightarrow> Inl e
      | Inr q \<Rightarrow> Inr (schedulePump me (s\<lparr>queue := q\<rparr>)))"

definition setEnabled :: "nat \<Rightarrow> bool \<Rightarrow> ctl \<Rightarrow> ctl" where
  "setEnabled me e s =
     (if closed s \<or> enabled s = e then s
      else
        (let s1 = s\<lparr>enabled := e\<rparr>
         in if \<not> e then dropCapacityWait ((cancelHostPumps me s1)\<lparr>scheduled := False\<rparr>)
            else schedulePump me s1))"

definition close :: "nat \<Rightarrow> ctl \<Rightarrow> ctl" where
  "close me s = resolveDrainWaiters
     ((dropCapacityWait (cancelHostPumps me (s\<lparr>closed := True, retryTimers := []\<rparr>)))\<lparr>readySince := []\<rparr>)"

definition whenDrained :: "nat \<Rightarrow> ctl \<Rightarrow> ctl" where
  "whenDrained p s =
     (if isDrained s then s\<lparr>drainedPromises := drainedPromises s @ [p]\<rparr>
      else s\<lparr>drainPromises := sadd (drainPromises s) p\<rparr>)"

definition run :: "int \<Rightarrow> string \<Rightarrow> nat option \<Rightarrow> app_task_lane \<Rightarrow> ctl \<Rightarrow> ctl" where
  "run now taskId handle lv s =
     (let enq = (case dget (readySince s) taskId of Some t \<Rightarrow> t | None \<Rightarrow> now)
      in s\<lparr>readySince := ddel (readySince s) taskId,
           jobs := jobs s @ [\<lparr>jobTask = taskId, jobHandle = handle,
             jobDispatch = \<lparr>enqueuedAt = enq, startedAt = now, readyWaitMs = max 0 (now - enq),
                            dispatchLane = lv\<rparr>\<rparr>]\<rparr>)"

definition waitForCapacity :: "app_task_lane \<Rightarrow> bool \<Rightarrow> ctl \<Rightarrow> ctl" where
  "waitForCapacity lv fg s =
     (if waitingForCapacity s \<or> closed s \<or> \<not> enabled s \<or> \<not> startReady s \<or> \<not> hasCapacity s then s
      else
        (let (w, c) = acquireCancellableLane fg (hostCapacity s)
         in s\<lparr>waitingForCapacity := True, waitingCapacityLane := Some lv,
              waitingCapacityForeground := Some fg, hostCapacity := c,
              cancelCapacityWait := Some w\<rparr>))"

text \<open>The callback \<open>acquired\<close> of \<open>waitForCapacity\<close>, called with the release handle \<open>h\<close>.\<close>

definition acquired ::
  "nat \<Rightarrow> (nat \<Rightarrow> int) option \<Rightarrow> int \<Rightarrow> scheduling_read result option \<Rightarrow> bool \<Rightarrow> nat \<Rightarrow> ctl \<Rightarrow> ctl" where
  "acquired me custom now rd fg h s =
     (let s1 = s\<lparr>waitingForCapacity := False, waitingCapacityLane := None,
                 waitingCapacityForeground := None, cancelCapacityWait := None\<rparr>
      in if closed s \<or> \<not> enabled s \<or> \<not> startReady s
         then resolveDrainWaiters (s1\<lparr>hostCapacity := release h (hostCapacity s1)\<rparr>)
         else
           (let (fresh, s2) = refreshScheduling custom rd s1
            in if \<not> fresh then s2\<lparr>hostCapacity := release h (hostCapacity s2)\<rparr>
               else
                 (let next = ctlPeek s2;
                      (taskId, s3) = (if map_option selForeground next = Some fg
                                      then ctlTake s2 else (None, s2));
                      s4 = (case taskId of
                              Some k \<Rightarrow> run now k (Some h) (selLane (the next)) s3
                            | None \<Rightarrow> s3\<lparr>hostCapacity := release h (hostCapacity s3)\<rparr>)
                  in schedulePump me s4)))"

text \<open>\<open>pump\<close> in two parts: reading what to run next, and claiming it.\<close>

definition startTask :: "nat \<Rightarrow> int \<Rightarrow> nat option \<Rightarrow> app_task_lane \<Rightarrow> ctl \<Rightarrow> ctl" where
  "startTask me now handle lv s =
     (case ctlTake s of
        (None, s1) \<Rightarrow> (case handle of None \<Rightarrow> s1 | Some h \<Rightarrow> s1\<lparr>hostCapacity := release h (hostCapacity s1)\<rparr>)
      | (Some k, s1) \<Rightarrow>
          (let s2 = run now k handle lv s1
           in if ctlPeek s2 \<noteq> None then schedulePump me s2 else s2))"

definition claim :: "nat \<Rightarrow> int \<Rightarrow> queue_selection \<Rightarrow> ctl \<Rightarrow> ctl" where
  "claim me now next s =
     (if hasCapacity s then
        (case tryAcquireLane (selForeground next) (hostCapacity s) of
           (None, c) \<Rightarrow> waitForCapacity (selLane next) (selForeground next) (s\<lparr>hostCapacity := c\<rparr>)
         | (Some h, c) \<Rightarrow> startTask me now (Some h) (selLane next) (s\<lparr>hostCapacity := c\<rparr>))
      else startTask me now None (selLane next) s)"

definition pump :: "nat \<Rightarrow> (nat \<Rightarrow> int) option \<Rightarrow> int \<Rightarrow> scheduling_read result option \<Rightarrow> ctl \<Rightarrow> ctl" where
  "pump me custom now rd s =
     (if closed s \<or> \<not> enabled s then s
      else
        (let (fresh, s1) = refreshScheduling custom rd s
         in if \<not> fresh then s1
            else case ctlPeek s1 of None \<Rightarrow> s1 | Some next \<Rightarrow> claim me now next s1))"

text \<open>One turn of the Host pump whose first entry is this controller's closure.\<close>

definition hostPump :: "nat \<Rightarrow> (nat \<Rightarrow> int) option \<Rightarrow> int \<Rightarrow> scheduling_read result option \<Rightarrow> ctl \<Rightarrow> ctl" where
  "hostPump me custom now rd s =
     (let s1 = s\<lparr>hostPumpScheduled := False, hostPumpQueue := tl (hostPumpQueue s)\<rparr>;
          s2 = pump me custom now rd (s1\<lparr>scheduled := False\<rparr>)
      in if hostPumpQueue s2 \<noteq> [] then armHostPump s2 else s2)"

text \<open>The reactions of \<open>run\<close> once its reconciliation settled.\<close>

definition settle :: "nat \<Rightarrow> (nat \<Rightarrow> int) option \<Rightarrow> bool \<Rightarrow> nat \<Rightarrow> ctl \<Rightarrow> ctl" where
  "settle me custom ok i s =
     (let j = jobs s ! i; k = jobTask j;
          s1 = s\<lparr>jobs := remove_at i (jobs s)\<rparr>;
          s2 = (if ok then s1\<lparr>failures := ddel (failures s1) k\<rparr>
                else recordFailure custom k (dispatchLane (jobDispatch j)) s1)
      in case complete k (queue s2) of
           Inl _ \<Rightarrow> s2
         | Inr q \<Rightarrow>
             schedulePump me (resolveDrainWaiters
               (s2\<lparr>queue := q, hostCapacity := (case jobHandle j of
                     None \<Rightarrow> hostCapacity s2 | Some h \<Rightarrow> release h (hostCapacity s2))\<rparr>)))"

definition fireRetry ::
  "nat \<Rightarrow> (nat \<Rightarrow> int) option \<Rightarrow> int \<Rightarrow> scheduling_read result option \<Rightarrow> string \<Rightarrow> ctl \<Rightarrow> ctl" where
  "fireRetry me custom now rd k s =
     (case dget (retryTimers s) k of
        None \<Rightarrow> s
      | Some (lv, _) \<Rightarrow>
          (let s1 = s\<lparr>retryTimers := ddel (retryTimers s) k\<rparr>
           in case ctlEnqueue me custom now rd k \<lparr>promote = False, priority = None, lane = Some lv\<rparr> s1 of
                Inl _ \<Rightarrow> s1
              | Inr (_, s2) \<Rightarrow> s2))"

definition releaseStartGate :: "nat \<Rightarrow> ctl \<Rightarrow> ctl" where
  "releaseStartGate me s = schedulePump me (resolveDrainWaiters (s\<lparr>startReady := True\<rparr>))"

section \<open>The controller's invariant\<close>

fun handlesOf :: "job list \<Rightarrow> nat list" where
  "handlesOf [] = []"
| "handlesOf (j # js) = (case jobHandle j of None \<Rightarrow> handlesOf js | Some h \<Rightarrow> h # handlesOf js)"

lemma handlesOf_append [simp]: "handlesOf (js @ ks) = handlesOf js @ handlesOf ks"
  by (induction js) (auto split: option.splits)

text \<open>The jobs in flight are the running tasks, and each one owns its capacity handle.\<close>

definition jobs_ok :: "ctl \<Rightarrow> bool" where
  "jobs_ok s \<longleftrightarrow> queue_ok (queue s) \<and> distinct (map jobTask (jobs s)) \<and>
     set (map jobTask (jobs s)) = set (runningTasks (queue s)) \<and>
     (hasCapacity s \<longrightarrow> None \<notin> set (map jobHandle (jobs s))) \<and>
     pool.client (hostCapacity s) (handlesOf (jobs s)) (cancelCapacityWait s)"

text \<open>Retry timers belong to tasks that are not running; a closed controller has none.\<close>

definition retries_ok :: "ctl \<Rightarrow> bool" where
  "retries_ok s \<longleftrightarrow> set (dkeys (retryTimers s)) \<inter> set (runningTasks (queue s)) = {} \<and>
     (closed s \<longrightarrow> retryTimers s = []) \<and> (\<forall>k \<in> set (dkeys (retryTimers s)). k \<noteq> [] \<and> trim k = k)"

text \<open>The flags agree with the pump queue and the capacity wait they stand for.\<close>

definition flags_ok :: "nat \<Rightarrow> ctl \<Rightarrow> bool" where
  "flags_ok me s \<longleftrightarrow>
     (waitingForCapacity s \<longleftrightarrow> cancelCapacityWait s \<noteq> None) \<and>
     (waitingForCapacity s \<longrightarrow> waitingCapacityForeground s \<noteq> None \<and> \<not> closed s \<and> enabled s) \<and>
     filter (\<lambda>x. x = me) (hostPumpQueue s) = (if scheduled s \<and> \<not> closed s then [me] else []) \<and>
     (scheduled s \<longrightarrow> enabled s \<or> closed s)"

text \<open>
  No work is forgotten: while the controller may claim and some task is eligible, a pump is
  scheduled, a capacity wait is pending, or a retry timer is armed.
\<close>

definition progress_ok :: "ctl \<Rightarrow> bool" where
  "progress_ok s \<longleftrightarrow> (\<not> closed s \<and> enabled s \<and> startReady s \<and> ctlPeek s \<noteq> None \<longrightarrow>
     scheduled s \<or> waitingForCapacity s \<or> retryTimers s \<noteq> [])"

definition ctl_ok :: "nat \<Rightarrow> ctl \<Rightarrow> bool" where
  "ctl_ok me s \<longleftrightarrow> jobs_ok s \<and> retries_ok s \<and> flags_ok me s"

lemma ctl_ok_schedulePump: "ctl_ok me s \<Longrightarrow> ctl_ok me (schedulePump me s)"
  by (auto simp: ctl_ok_def jobs_ok_def retries_ok_def flags_ok_def schedulePump_def scheduleHostPump_def
      armHostPump_def)

lemma progress_schedulePump: "progress_ok (schedulePump me s)"
  by (auto simp: progress_ok_def schedulePump_def scheduleHostPump_def armHostPump_def)

lemma ctl_ok_resolve: "ctl_ok me (resolveDrainWaiters s) = ctl_ok me s"
  by (auto simp: ctl_ok_def jobs_ok_def retries_ok_def flags_ok_def resolveDrainWaiters_def)

lemma ctl_ok_recordFailure:
  assumes "ctl_ok me s" and "k \<notin> set (runningTasks (queue s))" and "k \<noteq> []" "trim k = k"
  shows "ctl_ok me (recordFailure custom k lv s)"
  using assms by (auto simp: ctl_ok_def jobs_ok_def retries_ok_def flags_ok_def recordFailure_def Let_def
      dkeys_dset)

lemma pending_valid:
  assumes "ctl_ok me s" and "k \<in> set (pending (queue s))"
  shows "k \<notin> set (runningTasks (queue s))" "k \<noteq> []" "trim k = k"
  using assms by (auto simp: ctl_ok_def jobs_ok_def queue_ok_def)

lemma ctl_ok_refresh: "ctl_ok me s \<Longrightarrow> ctl_ok me (snd (refreshScheduling custom rd s))"
proof -
  assume ok: "ctl_ok me s"
  have "ctl_ok me (recordFailure custom k Normal s)" if "pending (queue s) = k # ks" for k ks
    using ok pending_valid [OF ok, of k] that by (intro ctl_ok_recordFailure) auto
  with ok show ?thesis
    by (auto simp: refreshScheduling_def split: option.splits sum.splits list.splits)
      (auto simp: ctl_ok_def jobs_ok_def retries_ok_def flags_ok_def)
qed

lemma ctlPeek_pending: "ctlPeek s = Some n \<Longrightarrow> pending (queue s) \<noteq> []"
  unfolding ctlPeek_def by (auto elim!: peek_best simp: best_at_def)

lemma dset_not_Nil [simp]: "dset d k v \<noteq> []"
  by (induction d k v rule: dset.induct) auto

lemma progress_refresh_failed:
  "ctl_ok me s \<Longrightarrow> refreshScheduling custom rd s = (False, s') \<Longrightarrow> progress_ok s'"
  using pending_valid [of me s]
  by (auto simp: refreshScheduling_def progress_ok_def recordFailure_def Let_def dkeys_def
      dest!: ctlPeek_pending split: option.splits sum.splits list.splits if_splits)

lemma ctl_ok_drop: "ctl_ok me s \<Longrightarrow> ctl_ok me (dropCapacityWait s)"
  using pool.client_cancel [of "hostCapacity s" "handlesOf (jobs s)" "cancelCapacityWait s"]
  by (auto simp: ctl_ok_def jobs_ok_def retries_ok_def flags_ok_def dropCapacityWait_def)

lemma enqueue_running: "enqueue k opts q = Inr (b, q') \<Longrightarrow> runningTasks q' = runningTasks q"
  by (auto simp: enqueue_def Let_def enqueueRunning_def enqueueQueued_def enqueueNew_def split: if_splits)

lemma ctl_ok_queue:
  assumes "ctl_ok me s" and "queue_ok q" and "runningTasks q = runningTasks (queue s)"
  shows "ctl_ok me (s\<lparr>queue := q, readySince := rs\<rparr>)"
  using assms by (auto simp: ctl_ok_def jobs_ok_def retries_ok_def flags_ok_def)

lemma ctl_ok_afterEnqueue:
  assumes ok: "ctl_ok me s"
  shows "ctl_ok me (afterEnqueue me custom rd s) \<and> progress_ok (afterEnqueue me custom rd s)"
proof -
  obtain f s2 where f: "refreshScheduling custom rd s = (f, s2)" by (cases "refreshScheduling custom rd s")
  have "ctl_ok me s2" using ctl_ok_refresh [OF ok, of custom rd] f by simp
  then show ?thesis using f progress_refresh_failed [OF ok, of custom rd s2]
    by (auto simp: afterEnqueue_def progress_schedulePump intro!: ctl_ok_schedulePump ctl_ok_drop
        split: option.splits)
qed

lemma ctl_ok_enqueue:
  assumes ok: "ctl_ok me s" and pr: "progress_ok s \<or> \<not> closed s"
    and e: "ctlEnqueue me custom now rd k opts s = Inr (b, s')"
  shows "ctl_ok me s' \<and> progress_ok s'"
proof -
  have "ctl_ok me (s\<lparr>queue := q, readySince := rs\<rparr>)" if "enqueue k opts (queue s) = Inr (b, q)" for q rs
    using ok that by (intro ctl_ok_queue)
      (auto simp: ctl_ok_def jobs_ok_def intro: queue_ok_enqueue dest: enqueue_running)
  note after = ctl_ok_afterEnqueue [OF this, where custom = custom and rd = rd]
  show ?thesis
  proof (cases "closed s")
    case True
    with ok pr e show ?thesis by (simp add: ctlEnqueue_def)
  next
    case False
    then obtain q where "enqueue k opts (queue s) = Inr (b, q)"
      "s' = afterEnqueue me custom rd (s\<lparr>queue := q,
         readySince := (if b \<and> k \<notin> set (dkeys (readySince s))
                        then dset (readySince s) k now else readySince s)\<rparr>)"
      using e by (auto simp: ctlEnqueue_def split: sum.splits prod.splits split del: if_split)
    with after show ?thesis by blast
  qed
qed

lemma ctl_ok_update:
  assumes "ctl_ok me s" and "ctlUpdateMaxConcurrent me n s = Inr s'" and "progress_ok s"
  shows "ctl_ok me s' \<and> progress_ok s'"
proof -
  have "ctl_ok me (s\<lparr>queue := q\<rparr>)" if "updateMaxConcurrent n (queue s) = Inr q" for q
    using assms(1) that queue_ok_update [OF _ that]
    by (auto simp: ctl_ok_def jobs_ok_def retries_ok_def flags_ok_def updateMaxConcurrent_def split: sum.splits)
  with assms show ?thesis
    by (auto simp: ctlUpdateMaxConcurrent_def progress_schedulePump intro!: ctl_ok_schedulePump
        split: if_splits sum.splits)
qed

lemma ctl_ok_setEnabled:
  assumes ok: "ctl_ok me s" and pr: "progress_ok s"
  shows "ctl_ok me (setEnabled me e s) \<and> progress_ok (setEnabled me e s)"
proof -
  let ?s = "(cancelHostPumps me (s\<lparr>enabled := False\<rparr>))\<lparr>scheduled := False\<rparr>"
  have off: "ctl_ok me (dropCapacityWait ?s)"
    using ok pool.client_cancel [of "hostCapacity s" "handlesOf (jobs s)" "cancelCapacityWait s"]
    by (auto simp: ctl_ok_def jobs_ok_def retries_ok_def flags_ok_def cancelHostPumps_def dropCapacityWait_def)
  have on: "ctl_ok me (s\<lparr>enabled := True\<rparr>)"
    using ok by (auto simp: ctl_ok_def jobs_ok_def retries_ok_def flags_ok_def)
  show ?thesis
  proof (cases "closed s \<or> enabled s = e")
    case True
    with ok pr show ?thesis by (simp add: setEnabled_def)
  next
    case False
    show ?thesis
    proof (cases e)
      case True
      with False on show ?thesis by (simp add: setEnabled_def progress_schedulePump ctl_ok_schedulePump)
    next
      case no: False
      have "progress_ok (dropCapacityWait ?s)"
        by (simp add: progress_ok_def dropCapacityWait_def cancelHostPumps_def)
      with False no off show ?thesis by (simp add: setEnabled_def)
    qed
  qed
qed

lemma ctl_ok_close:
  assumes ok: "ctl_ok me s"
  shows "ctl_ok me (close me s) \<and> progress_ok (close me s)"
proof
  show "ctl_ok me (close me s)"
    unfolding close_def ctl_ok_resolve
    using ok pool.client_cancel [of "hostCapacity s" "handlesOf (jobs s)" "cancelCapacityWait s"]
    by (auto simp: ctl_ok_def jobs_ok_def retries_ok_def flags_ok_def cancelHostPumps_def
        dropCapacityWait_def dkeys_def)
  show "progress_ok (close me s)"
    by (simp add: close_def progress_ok_def resolveDrainWaiters_def dropCapacityWait_def cancelHostPumps_def)
qed

text \<open>Claiming: the selected task starts as a job that owns the slot just taken.\<close>

lemma ctlTake_some:
  assumes "ctl_ok me s" and "ctlPeek s = Some n"
  obtains k s' where "ctlTake s = (Some k, s')"
  using assms take_task_eq [of "queue s" "isReady s" "isForeground s" n]
  by (auto simp: ctlTake_def ctlPeek_def ctl_ok_def jobs_ok_def)

lemma ctlTake_facts:
  assumes ok: "ctl_ok me s" and t: "ctlTake s = (Some k, s')"
  obtains q where "s' = s\<lparr>queue := q\<rparr>" "queue_ok q" "k \<notin> set (runningTasks (queue s))"
    "set (runningTasks q) = insert k (set (runningTasks (queue s)))" "isReady s k"
proof -
  from t obtain q where q: "take_task (isReady s) (isForeground s) (queue s) = (Some k, q)" "s' = s\<lparr>queue := q\<rparr>"
    by (auto simp: ctlTake_def split: prod.splits)
  have qok: "queue_ok (queue s)" using ok by (simp add: ctl_ok_def jobs_ok_def)
  obtain n where n: "peek (isReady s) (isForeground s) (queue s) = Some n"
    using q(1) by (cases "peek (isReady s) (isForeground s) (queue s)") (auto simp: take_task_def)
  then obtain i where "best_at (isReady s) (isForeground s) (queue s) (pending (queue s)) i"
    "selTask n = pending (queue s) ! i" by (rule peek_best)
  then have k: "k \<in> set (pending (queue s))" "isReady s k"
    using take_task_eq [OF qok n] q(1) by (auto simp: best_at_def eligible_def)
  show thesis
    using q(2) queue_ok_take [OF qok q(1)] pending_valid(1) [OF ok k(1)] k(2)
      take_task_eq [OF qok n] q(1) by (intro that [of q]) auto
qed

lemma ctl_ok_start:
  assumes ok: "ctl_ok me s" and t: "ctlTake s = (Some k, s')"
    and c: "pool.client (hostCapacity s) (handlesOf (jobs s) @ (case h of None \<Rightarrow> [] | Some x \<Rightarrow> [x]))
      (cancelCapacityWait s)" and hc: "hasCapacity s \<longrightarrow> h \<noteq> None"
  shows "ctl_ok me (run now k h lv s')"
proof -
  obtain q where "s' = s\<lparr>queue := q\<rparr>" "queue_ok q" "k \<notin> set (runningTasks (queue s))"
    "set (runningTasks q) = insert k (set (runningTasks (queue s)))" "isReady s k"
    using ok t by (rule ctlTake_facts)
  with ok c hc show ?thesis
    by (auto simp: ctl_ok_def jobs_ok_def retries_ok_def flags_ok_def run_def Let_def isReady_def
        split: option.splits)
qed

lemma ctl_ok_capacity:
  assumes "ctl_ok me s" and "pool.client c (handlesOf (jobs s)) (cancelCapacityWait s)"
  shows "ctl_ok me (s\<lparr>hostCapacity := c\<rparr>)"
  using assms by (auto simp: ctl_ok_def jobs_ok_def retries_ok_def flags_ok_def)

lemma client_of: "ctl_ok me s \<Longrightarrow> pool.client (hostCapacity s) (handlesOf (jobs s)) (cancelCapacityWait s)"
  by (simp add: ctl_ok_def jobs_ok_def)

lemma ctlPeek_capacity [simp]: "ctlPeek (s\<lparr>hostCapacity := c\<rparr>) = ctlPeek s"
  by (simp add: ctlPeek_def isReady_def [abs_def] isForeground_def [abs_def])

lemma ctl_ok_wait:
  assumes ok: "ctl_ok me s"
  shows "ctl_ok me (waitForCapacity lv fg s)" "hasCapacity s \<Longrightarrow> progress_ok (waitForCapacity lv fg s)"
proof -
  obtain w c where w: "acquireCancellableLane fg (hostCapacity s) = (w, c)"
    by (cases "acquireCancellableLane fg (hostCapacity s)")
  show "ctl_ok me (waitForCapacity lv fg s)"
  proof (cases "waitingForCapacity s \<or> closed s \<or> \<not> enabled s \<or> \<not> startReady s \<or> \<not> hasCapacity s")
    case True
    with ok show ?thesis by (auto simp: waitForCapacity_def)
  next
    case False
    then have "cancelCapacityWait s = None" using ok by (auto simp: ctl_ok_def flags_ok_def)
    then have "pool.client c (handlesOf (jobs s)) (Some w)"
      using client_of [OF ok] w by (auto intro: pool.client_wait)
    with False ok w show ?thesis
      by (auto simp: waitForCapacity_def ctl_ok_def jobs_ok_def retries_ok_def flags_ok_def)
  qed
  show "hasCapacity s \<Longrightarrow> progress_ok (waitForCapacity lv fg s)"
    using w by (auto simp: waitForCapacity_def progress_ok_def)
qed

lemma ctl_ok_startTask:
  assumes ok: "ctl_ok me s" and n: "ctlPeek s = Some n"
    and c: "pool.client (hostCapacity s) (handlesOf (jobs s) @ (case h of None \<Rightarrow> [] | Some x \<Rightarrow> [x]))
      (cancelCapacityWait s)" and hc: "hasCapacity s \<longrightarrow> h \<noteq> None"
  shows "ctl_ok me (startTask me now h lv s) \<and> progress_ok (startTask me now h lv s)"
proof -
  obtain k s1 where t: "ctlTake s = (Some k, s1)" using ok n by (rule ctlTake_some)
  have "ctl_ok me (run now k h lv s1)" by (rule ctl_ok_start [OF ok t c hc])
  then show ?thesis using t
    by (auto simp: startTask_def Let_def progress_schedulePump ctl_ok_schedulePump) (simp add: progress_ok_def)
qed

lemma ctl_ok_claim:
  assumes ok: "ctl_ok me s" and n: "ctlPeek s = Some n"
  shows "ctl_ok me (claim me now n s) \<and> progress_ok (claim me now n s)"
proof (cases "hasCapacity s")
  case False
  have "ctl_ok me (startTask me now None (selLane n) s) \<and> progress_ok (startTask me now None (selLane n) s)"
    using client_of [OF ok] False by (intro ctl_ok_startTask [OF ok n]) simp_all
  with False show ?thesis by (simp add: claim_def)
next
  case True
  obtain r c where a: "tryAcquireLane (selForeground n) (hostCapacity s) = (r, c)"
    by (cases "tryAcquireLane (selForeground n) (hostCapacity s)")
  let ?s = "s\<lparr>hostCapacity := c\<rparr>"
  have ok2: "ctl_ok me ?s"
    using pool.client_try_other [OF client_of [OF ok], of "selForeground n"] a
    by (intro ctl_ok_capacity ok) simp
  show ?thesis
  proof (cases r)
    case None
    with True a ctl_ok_wait [OF ok2] show ?thesis by (simp add: claim_def)
  next
    case (Some h)
    have "ctl_ok me (startTask me now (Some h) (selLane n) ?s) \<and>
        progress_ok (startTask me now (Some h) (selLane n) ?s)"
      using pool.client_try(2) [OF client_of [OF ok]] a Some n
      by (intro ctl_ok_startTask [OF ok2, of n]) simp_all
    with True a Some show ?thesis by (simp add: claim_def)
  qed
qed

lemma ctl_ok_pump:
  assumes ok: "ctl_ok me s"
  shows "ctl_ok me (pump me custom now rd s) \<and> progress_ok (pump me custom now rd s)"
proof -
  obtain f s1 where f: "refreshScheduling custom rd s = (f, s1)" by (cases "refreshScheduling custom rd s")
  have "ctl_ok me s1" using ctl_ok_refresh [OF ok, of custom rd] f by simp
  with f ok progress_refresh_failed [OF ok, of custom rd s1] ctl_ok_claim [of me s1] show ?thesis
    by (cases "ctlPeek s1") (auto simp: pump_def progress_ok_def)
qed

text \<open>The capacity callback and the end of a reconciliation.\<close>

lemma refresh_frame:
  assumes "refreshScheduling custom rd s = (f, s')"
  shows "hostCapacity s' = hostCapacity s" "jobs s' = jobs s" "cancelCapacityWait s' = cancelCapacityWait s"
  using assms by (auto simp: refreshScheduling_def recordFailure_def Let_def
      split: option.splits sum.splits list.splits if_splits)

lemma progress_capacity [simp]: "progress_ok (s\<lparr>hostCapacity := c\<rparr>) = progress_ok s"
  by (simp add: progress_ok_def)

lemma ctl_ok_give:
  assumes "ctl_ok me s" and "cancelCapacityWait s = None"
    and "pool.client (hostCapacity s) (handlesOf (jobs s) @ [h]) None"
  shows "ctl_ok me (s\<lparr>hostCapacity := release h (hostCapacity s)\<rparr>)"
  using assms pool.client_give [of "hostCapacity s" "handlesOf (jobs s)" h "[]" None]
  by (intro ctl_ok_capacity) simp_all

lemma ctl_ok_acquired:
  assumes ok: "ctl_ok me s" and g: "fireGrant (hostCapacity s) = (Some (w, h), c)"
    and w: "cancelCapacityWait s = Some w"
  shows "ctl_ok me (acquired me custom now rd fg h (s\<lparr>hostCapacity := c\<rparr>)) \<and>
    progress_ok (acquired me custom now rd fg h (s\<lparr>hostCapacity := c\<rparr>))"
proof -
  let ?s = "s\<lparr>hostCapacity := c, waitingForCapacity := False, waitingCapacityLane := None,
      waitingCapacityForeground := None, cancelCapacityWait := None\<rparr>"
  have cl: "pool.client c (handlesOf (jobs s) @ [h]) None" using client_of [OF ok] g by (rule pool.client_fire)
  then have "pool.client c (handlesOf (jobs s)) None" by (auto simp: pool.client_def)
  then have ok1: "ctl_ok me ?s" using ok by (auto simp: ctl_ok_def jobs_ok_def retries_ok_def flags_ok_def)
  have g1: "ctl_ok me (?s\<lparr>hostCapacity := release h c\<rparr>)" using ctl_ok_give [OF ok1] cl by simp
  obtain f s2 where f: "refreshScheduling custom rd ?s = (f, s2)" by (cases "refreshScheduling custom rd ?s")
  have ok2: "ctl_ok me s2" using ctl_ok_refresh [OF ok1, of custom rd] f by simp
  note fr = refresh_frame [OF f]
  have g2: "ctl_ok me (s2\<lparr>hostCapacity := release h (hostCapacity s2)\<rparr>)"
    using ctl_ok_give [OF ok2] cl fr by simp
  have run2: "ctl_ok me (run now k (Some h) lv s3)" if "ctlTake s2 = (Some k, s3)" for k s3 lv
    using cl fr by (intro ctl_ok_start [OF ok2 that]) simp_all
  have none: "s3 = s2" if "ctlPeek s2 = Some n" "ctlTake s2 = (None, s3)" for s3 n
    using ctlTake_some [OF ok2 that(1)] that(2) by (metis option.distinct(1) prod.inject)
  show ?thesis
    using f g1 g2 ok1 run2 none progress_refresh_failed [OF ok1 , of custom rd s2]
    by (auto simp: acquired_def Let_def ctl_ok_resolve progress_schedulePump intro!: ctl_ok_schedulePump
        split: prod.splits option.splits)
      (auto simp: progress_ok_def resolveDrainWaiters_def)
qed

lemma complete_running:
  assumes "queue_ok q" and "k \<in> set (runningTasks q)"
  obtains q' where "complete k q = Inr q'" "queue_ok q'" "runningTasks q' = sdel (runningTasks q) k"
proof -
  note c = complete_eq [OF assms]
  then obtain q' where q': "complete k q = Inr q'" by blast
  moreover have "queue_ok q'" using assms(1) q' by (rule queue_ok_complete)
  moreover have "runningTasks q' = sdel (runningTasks q) k"
    using q' c by (auto simp: retire_def enqueueNew_def Let_def split: if_splits)
  ultimately show thesis by (rule that)
qed

lemma recordFailure_frame [simp]:
  "queue (recordFailure custom k lv s) = queue s" "hostCapacity (recordFailure custom k lv s) = hostCapacity s"
  by (simp_all add: recordFailure_def Let_def)

lemma settle_eq:
  assumes "complete (jobTask (jobs s ! i)) (queue s) = Inr q"
    and "c = (case jobHandle (jobs s ! i) of None \<Rightarrow> hostCapacity s | Some h \<Rightarrow> release h (hostCapacity s))"
  shows "settle me custom b i s = schedulePump me (resolveDrainWaiters
    (if b
     then (s\<lparr>jobs := remove_at i (jobs s), failures := ddel (failures s) (jobTask (jobs s ! i))\<rparr>)
       \<lparr>queue := q, hostCapacity := c\<rparr>
     else (recordFailure custom (jobTask (jobs s ! i)) (dispatchLane (jobDispatch (jobs s ! i)))
       (s\<lparr>jobs := remove_at i (jobs s)\<rparr>))\<lparr>queue := q, hostCapacity := c\<rparr>))"
  using assms by (cases "jobHandle (jobs s ! i)") (simp_all add: settle_def Let_def)

lemma recordFailure_commute:
  "(recordFailure custom k lv s)\<lparr>queue := q, hostCapacity := c\<rparr> =
     recordFailure custom k lv (s\<lparr>queue := q, hostCapacity := c\<rparr>)"
  by (simp add: recordFailure_def Let_def)

lemma ctl_ok_finish:
  assumes ok: "ctl_ok me s" and i: "i < length (jobs s)"
    and q: "queue_ok q" "runningTasks q = sdel (runningTasks (queue s)) (jobTask (jobs s ! i))"
    and c: "c = (case jobHandle (jobs s ! i) of None \<Rightarrow> hostCapacity s | Some h \<Rightarrow> release h (hostCapacity s))"
  shows "ctl_ok me (s\<lparr>jobs := remove_at i (jobs s), queue := q, hostCapacity := c\<rparr>)"
proof -
  let ?a = "take i (jobs s)" and ?j = "jobs s ! i" and ?b = "drop (Suc i) (jobs s)"
  have js: "jobs s = ?a @ ?j # ?b" using split_at_nth [OF i] .
  have "pool.client (hostCapacity s) (handlesOf (?a @ ?j # ?b)) (cancelCapacityWait s)"
    using client_of [OF ok] js by simp
  then have "pool.client c (handlesOf (?a @ ?b)) (cancelCapacityWait s)"
    unfolding c handlesOf_append by (auto intro: pool.client_give split: option.splits)
  moreover have "distinct (map jobTask (?a @ ?j # ?b))"
    "set (map jobTask (?a @ ?j # ?b)) = set (runningTasks (queue s))"
    using ok js by (simp_all add: ctl_ok_def jobs_ok_def)
  then have "distinct (map jobTask (?a @ ?b))" "set (map jobTask (?a @ ?b)) = set (runningTasks q)"
    using q(2) by auto
  moreover have "hasCapacity s \<longrightarrow> None \<notin> set (map jobHandle (?a @ ?j # ?b))"
    using ok js by (simp add: ctl_ok_def jobs_ok_def)
  then have "hasCapacity s \<longrightarrow> None \<notin> set (map jobHandle (?a @ ?b))" by auto
  ultimately have "jobs_ok (s\<lparr>jobs := ?a @ ?b, queue := q, hostCapacity := c\<rparr>)"
    using q(1) by (simp add: jobs_ok_def)
  with ok q(2) show ?thesis
    by (auto simp: ctl_ok_def retries_ok_def flags_ok_def remove_at_def)
qed

lemma ctl_ok_settle:
  assumes ok: "ctl_ok me s" and i: "i < length (jobs s)"
  shows "ctl_ok me (settle me custom b i s) \<and> progress_ok (settle me custom b i s)"
proof -
  let ?j = "jobs s ! i" let ?k = "jobTask ?j"
  let ?c = "case jobHandle ?j of None \<Rightarrow> hostCapacity s | Some h \<Rightarrow> release h (hostCapacity s)"
  have "?k \<in> set (map jobTask (jobs s))" using i by simp
  then have run: "?k \<in> set (runningTasks (queue s))" and qok: "queue_ok (queue s)"
    using ok by (simp_all add: ctl_ok_def jobs_ok_def)
  then have valid: "?k \<noteq> []" "trim ?k = ?k" by (auto simp: queue_ok_def)
  obtain q where q: "complete ?k (queue s) = Inr q" "queue_ok q" "runningTasks q = sdel (runningTasks (queue s)) ?k"
    using qok run by (rule complete_running)
  let ?s = "s\<lparr>jobs := remove_at i (jobs s), queue := q, hostCapacity := ?c\<rparr>"
  have ok1: "ctl_ok me ?s" using ok i q(2,3) refl by (rule ctl_ok_finish)
  then have "ctl_ok me ((s\<lparr>jobs := remove_at i (jobs s), failures := fs\<rparr>)\<lparr>queue := q, hostCapacity := ?c\<rparr>)" for fs
    by (simp add: ctl_ok_def jobs_ok_def retries_ok_def flags_ok_def)
  moreover have "ctl_ok me (recordFailure custom ?k lv ?s)" for lv
    using valid q(3) by (intro ctl_ok_recordFailure ok1) simp_all
  ultimately show ?thesis
    unfolding settle_eq [OF q(1) refl] recordFailure_commute
    by (auto simp: progress_schedulePump ctl_ok_resolve intro!: ctl_ok_schedulePump)
qed

lemma ctlEnqueue_accepts:
  assumes "trim k \<noteq> []" shows "\<exists>b s'. ctlEnqueue me custom now rd k opts s = Inr (b, s')"
proof -
  obtain b q where "enqueue k opts (queue s) = Inr (b, q)"
    using assms by (cases "enqueue k opts (queue s)") (auto simp: enqueue_def Let_def)
  then show ?thesis by (cases "closed s") (auto simp: ctlEnqueue_def)
qed

lemma ctl_ok_fireRetry:
  assumes ok: "ctl_ok me s" and pr: "progress_ok s"
  shows "ctl_ok me (fireRetry me custom now rd k s) \<and> progress_ok (fireRetry me custom now rd k s)"
proof (cases "dget (retryTimers s) k")
  case None
  with ok pr show ?thesis by (simp add: fireRetry_def)
next
  case (Some t)
  obtain lv d where t: "t = (lv, d)" by (cases t)
  let ?s = "s\<lparr>retryTimers := ddel (retryTimers s) k\<rparr>"
  let ?o = "\<lparr>promote = False, priority = None, lane = Some lv\<rparr>"
  have k: "k \<in> set (dkeys (retryTimers s))" using Some by (metis dget_None_iff option.distinct(1))
  then have open_: "\<not> closed s" and valid: "k \<noteq> []" "trim k = k"
    using ok by (auto simp: ctl_ok_def retries_ok_def dkeys_def)
  have ok1: "ctl_ok me ?s"
    using ok open_ by (auto simp: ctl_ok_def jobs_ok_def retries_ok_def flags_ok_def dkeys_ddel)
  obtain b s2 where e: "ctlEnqueue me custom now rd k ?o ?s = Inr (b, s2)"
    using valid by (metis ctlEnqueue_accepts)
  have "ctl_ok me s2 \<and> progress_ok s2" using ctl_ok_enqueue [OF ok1 _ e] open_ by simp
  then show ?thesis using Some t e by (simp add: fireRetry_def Let_def)
qed

lemma ctl_ok_gate: "ctl_ok me s \<Longrightarrow> ctl_ok me (releaseStartGate me s) \<and> progress_ok (releaseStartGate me s)"
proof -
  assume "ctl_ok me s"
  then have "ctl_ok me (s\<lparr>startReady := True\<rparr>)"
    by (auto simp: ctl_ok_def jobs_ok_def retries_ok_def flags_ok_def)
  then show ?thesis
    by (simp add: releaseStartGate_def progress_schedulePump ctl_ok_schedulePump ctl_ok_resolve)
qed

lemma ctl_ok_hostPump:
  assumes ok: "ctl_ok me s" and q: "hostPumpQueue s = me # rest"
  shows "ctl_ok me (hostPump me custom now rd s) \<and> progress_ok (hostPump me custom now rd s)"
proof -
  let ?s = "s\<lparr>hostPumpScheduled := False, hostPumpQueue := rest, scheduled := False\<rparr>"
  have "ctl_ok me ?s"
    using ok q by (auto simp: ctl_ok_def jobs_ok_def retries_ok_def flags_ok_def split: if_splits)
  from ctl_ok_pump [OF this, of custom now rd] show ?thesis
    by (auto simp: hostPump_def Let_def q armHostPump_def ctl_ok_def jobs_ok_def retries_ok_def flags_ok_def
        progress_ok_def ctlPeek_def isReady_def [abs_def] isForeground_def [abs_def])
qed

section \<open>All executions\<close>

text \<open>
  The other owners of the Host: they schedule and run their own pumps, and acquire, await,
  cancel and release their own slots.
\<close>

inductive other_step :: "nat \<Rightarrow> ctl \<Rightarrow> ctl \<Rightarrow> bool" for me where
  other_pump: "owner \<noteq> me \<Longrightarrow> other_step me s (scheduleHostPump owner s)"
| other_cancel_pumps: "owner \<noteq> me \<Longrightarrow> other_step me s (cancelHostPumps owner s)"
| other_pumped: "hostPumpQueue s = owner # rest \<Longrightarrow> owner \<noteq> me \<Longrightarrow>
    other_step me s (s\<lparr>hostPumpQueue := rest, hostPumpScheduled := (rest \<noteq> [])\<rparr>)"
| other_try: "other_step me s (s\<lparr>hostCapacity := snd (tryAcquireLane fg (hostCapacity s))\<rparr>)"
| other_queue: "other_step me s (s\<lparr>hostCapacity := snd (acquireLane fg (hostCapacity s))\<rparr>)"
| other_wait: "other_step me s (s\<lparr>hostCapacity := snd (acquireCancellableLane fg (hostCapacity s))\<rparr>)"
| other_release: "held (hostCapacity s) h \<Longrightarrow> h \<notin> set (handlesOf (jobs s)) \<Longrightarrow>
    other_step me s (s\<lparr>hostCapacity := release h (hostCapacity s)\<rparr>)"
| other_cancel: "cancelCapacityWait s \<noteq> Some w \<Longrightarrow>
    other_step me s (s\<lparr>hostCapacity := cancelWait w (hostCapacity s)\<rparr>)"
| other_grant: "fst (fireGrant (hostCapacity s)) = None \<or>
      cancelCapacityWait s \<noteq> map_option fst (fst (fireGrant (hostCapacity s))) \<Longrightarrow>
    other_step me s (s\<lparr>hostCapacity := snd (fireGrant (hostCapacity s))\<rparr>)"

inductive ctl_step :: "nat \<Rightarrow> ctl \<Rightarrow> ctl \<Rightarrow> bool" for me where
  enqueued: "ctlEnqueue me custom now rd k opts s = Inr (b, s') \<Longrightarrow> ctl_step me s s'"
| updated: "ctlUpdateMaxConcurrent me n s = Inr s' \<Longrightarrow> ctl_step me s s'"
| toggled: "ctl_step me s (setEnabled me e s)"
| shut: "ctl_step me s (close me s)"
| awaited: "ctl_step me s (whenDrained p s)"
| pumped: "hostPumpQueue s = me # rest \<Longrightarrow> ctl_step me s (hostPump me custom now rd s)"
| granted: "fireGrant (hostCapacity s) = (Some (w, h), c) \<Longrightarrow> cancelCapacityWait s = Some w \<Longrightarrow>
    waitingCapacityForeground s = Some fg \<Longrightarrow>
    ctl_step me s (acquired me custom now rd fg h (s\<lparr>hostCapacity := c\<rparr>))"
| settled: "i < length (jobs s) \<Longrightarrow> ctl_step me s (settle me custom b i s)"
| retried: "ctl_step me s (fireRetry me custom now rd k s)"
| gate: "ctl_step me s (releaseStartGate me s)"
| other: "other_step me s s' \<Longrightarrow> ctl_step me s s'"

inductive ctl_reach :: "nat \<Rightarrow> ctl \<Rightarrow> bool" for me where
  new: "newController n cap startAfter c pumps = Inr s \<Longrightarrow> cap_ok c \<Longrightarrow> me \<notin> set pumps \<Longrightarrow> ctl_reach me s"
| step: "ctl_reach me s \<Longrightarrow> ctl_step me s s' \<Longrightarrow> ctl_reach me s'"

lemma ctl_ok_new:
  assumes "newController n cap startAfter c pumps = Inr s" and "cap_ok c" and "me \<notin> set pumps"
  shows "ctl_ok me s \<and> progress_ok s"
proof -
  have "filter (\<lambda>x. x = me) pumps = []" using assms(3) by (auto simp: filter_empty_conv)
  moreover have "pool.client c [] None" using assms(2) by (simp add: pool.client_def)
  moreover obtain q where q: "newTaskQueue n = Inr q" using assms(1)
    by (auto simp: newController_def split: sum.splits)
  moreover have "queue_ok q" using q by (rule queue_ok_new)
  moreover have "pending q = []" "runningTasks q = []"
    using q by (auto simp: newTaskQueue_def split: sum.splits)
  ultimately show ?thesis using assms(1)
    by (auto simp: newController_def ctl_ok_def jobs_ok_def retries_ok_def flags_ok_def dkeys_def
        progress_ok_def dest!: ctlPeek_pending)
qed

lemma ctl_ok_other: "other_step me s s' \<Longrightarrow> ctl_ok me s \<Longrightarrow> ctl_ok me s'"
proof (induction rule: other_step.induct)
  case (other_cancel_pumps owner s)
  then have "filter (\<lambda>x. x = me) (filter (\<lambda>o'. o' \<noteq> owner) (hostPumpQueue s)) =
      filter (\<lambda>x. x = me) (hostPumpQueue s)" by (auto intro: filter_cong)
  with other_cancel_pumps show ?case
    by (auto simp: ctl_ok_def jobs_ok_def retries_ok_def flags_ok_def cancelHostPumps_def)
next
  case (other_release s h)
  then show ?case
    using pool.client_give_other [OF client_of [OF other_release(3)]] by (intro ctl_ok_capacity)
qed (auto simp: ctl_ok_def jobs_ok_def retries_ok_def flags_ok_def scheduleHostPump_def armHostPump_def
    pool.client_try_other pool.client_queue_other pool.client_wait_other pool.client_cancel_other pool.client_fire_other)

lemma progress_other: "other_step me s s' \<Longrightarrow> progress_ok s \<Longrightarrow> progress_ok s'"
  by (induction rule: other_step.induct)
    (auto simp: progress_ok_def scheduleHostPump_def armHostPump_def cancelHostPumps_def ctlPeek_def
      isReady_def [abs_def] isForeground_def [abs_def])

lemma ctl_ok_step: "ctl_step me s s' \<Longrightarrow> ctl_ok me s \<and> progress_ok s \<Longrightarrow> ctl_ok me s' \<and> progress_ok s'"
proof (induction rule: ctl_step.induct)
  case (awaited s p)
  then show ?case
    by (auto simp: whenDrained_def ctl_ok_def jobs_ok_def retries_ok_def flags_ok_def progress_ok_def
        ctlPeek_def isReady_def [abs_def] isForeground_def [abs_def])
next
  case (enqueued custom now rd k opts s b s')
  then show ?case using ctl_ok_enqueue by blast
next
  case (updated n s s')
  then show ?case using ctl_ok_update by blast
qed (simp_all add: ctl_ok_setEnabled ctl_ok_close ctl_ok_hostPump ctl_ok_acquired ctl_ok_settle
    ctl_ok_fireRetry ctl_ok_gate, blast intro: ctl_ok_other progress_other)

lemma ctl_ok_reach: "ctl_reach me s \<Longrightarrow> ctl_ok me s \<and> progress_ok s"
proof (induction rule: ctl_reach.induct)
  case (new n cap startAfter c pumps s)
  then show ?case by (rule ctl_ok_new)
next
  case (step s s')
  then show ?case using ctl_ok_step by blast
qed

text \<open>Once closed, a controller only finishes what it runs.\<close>

lemma closed_frame:
  "closed (schedulePump me s) = closed s" "jobs (schedulePump me s) = jobs s"
  "closed (resolveDrainWaiters s) = closed s" "jobs (resolveDrainWaiters s) = jobs s"
  by (simp_all add: schedulePump_def scheduleHostPump_def armHostPump_def resolveDrainWaiters_def)

lemma closed_hostPump: "closed s \<Longrightarrow> jobs (hostPump me custom now rd s) = jobs s \<and> closed (hostPump me custom now rd s)"
  by (simp add: hostPump_def pump_def Let_def armHostPump_def)

lemma closed_settle:
  assumes "i < length (jobs s)" and "closed s" and "ctl_ok me s"
  shows "closed (settle me custom b i s) \<and> jobs (settle me custom b i s) = remove_at i (jobs s)"
proof -
  have "jobTask (jobs s ! i) \<in> set (map jobTask (jobs s))" using assms(1) by simp
  then have "queue_ok (queue s)" "jobTask (jobs s ! i) \<in> set (runningTasks (queue s))"
    using assms(3) by (simp_all add: ctl_ok_def jobs_ok_def)
  then obtain q where "complete (jobTask (jobs s ! i)) (queue s) = Inr q" by (rule complete_running)
  from settle_eq [OF this refl] assms(2) show ?thesis by (simp add: closed_frame recordFailure_def Let_def)
qed

lemma closed_step:
  assumes "ctl_step me s s'" and "closed s" and ok: "ctl_ok me s"
  shows "closed s' \<and> set (jobs s') \<subseteq> set (jobs s)"
  using assms(1)
proof cases
  case (granted w h c fg custom now rd)
  then show ?thesis using ok assms(2) by (auto simp: ctl_ok_def flags_ok_def)
next
  case (settled i custom b)
  then show ?thesis using closed_settle [OF settled(2) assms(2) ok] set_remove_at_subset by fastforce
next
  case other
  then show ?thesis using assms(2)
    by (cases rule: other_step.cases) (auto simp: scheduleHostPump_def armHostPump_def cancelHostPumps_def)
next
  case (retried custom now rd k)
  then show ?thesis using ok assms(2) by (auto simp: ctl_ok_def retries_ok_def fireRetry_def)
qed (use assms(2) in \<open>auto simp: ctlEnqueue_def ctlUpdateMaxConcurrent_def setEnabled_def close_def
    whenDrained_def closed_hostPump releaseStartGate_def closed_frame dropCapacityWait_def cancelHostPumps_def\<close>)

section \<open>Correctness\<close>

text \<open>
  A controller on a one-slot Host: enqueue \<open>a\<close> and \<open>b\<close>, run the pump twice. Then \<open>a\<close> runs and the
  controller waits for capacity for \<open>b\<close>.
\<close>

definition ctl_new :: ctl where
  "ctl_new = projr (newController (num_int 2) True False (projr (newHostCapacity (num_int 1))) [])"

definition ctl_queued :: ctl where
  "ctl_queued = snd (projr (ctlEnqueue 0 None 5 None ''b'' wake
     (snd (projr (ctlEnqueue 0 None 0 None ''a'' wake ctl_new)))))"

definition ctl_waiting :: ctl where
  "ctl_waiting = hostPump 0 None 9 None (hostPump 0 None 7 None ctl_queued)"

lemma ctl_new_reach: "ctl_reach 0 ctl_new"
proof -
  obtain c where c: "newHostCapacity (num_int 1) = Inr c" by (simp add: newHostCapacity_def)
  then have "newController (num_int 2) True False c [] = Inr ctl_new"
    by (simp add: ctl_new_def newController_def newTaskQueue_def validateMaxConcurrent_def)
  then show ?thesis using cap_ok_new [OF c] by (rule ctl_reach.new) simp
qed

lemma ctl_reach_enqueue:
  assumes "ctl_reach me s" and "trim k \<noteq> []"
  shows "ctl_reach me (snd (projr (ctlEnqueue me custom now rd k opts s)))"
proof -
  obtain b s' where e: "ctlEnqueue me custom now rd k opts s = Inr (b, s')"
    using ctlEnqueue_accepts [OF assms(2)] by blast
  with assms(1) have "ctl_reach me s'" by (blast intro: ctl_reach.step ctl_step.enqueued)
  with e show ?thesis by simp
qed

lemma ctl_queued_reach: "ctl_reach 0 ctl_queued"
  unfolding ctl_queued_def by (intro ctl_reach_enqueue ctl_new_reach) (simp_all add: trim_example)

lemma ctl_waiting_reach: "ctl_reach 0 ctl_waiting"
proof -
  have "hostPumpQueue ctl_queued = [0]" by code_simp
  then have "ctl_reach 0 (hostPump 0 None 7 None ctl_queued)"
    using ctl_queued_reach by (blast intro: ctl_reach.step ctl_step.pumped)
  moreover have "hostPumpQueue (hostPump 0 None 7 None ctl_queued) = [0]" by code_simp
  ultimately show ?thesis unfolding ctl_waiting_def by (blast intro: ctl_reach.step ctl_step.pumped)
qed

lemma ctl_waiting_facts:
  "map jobTask (jobs ctl_waiting) = [''a'']" "map jobHandle (jobs ctl_waiting) = [Some 0]"
  "hasCapacity ctl_waiting" "limit (hostCapacity ctl_waiting) = 1" "ctlPeek ctl_waiting \<noteq> None"
  "\<not> closed ctl_waiting" "enabled ctl_waiting" "startReady ctl_waiting" "retryTimers ctl_waiting = []"
  by code_simp+

text \<open>
  C5. Whatever the controller's callers, timers, reconcilers and the other owners of the Host do:
  no task is reconciled twice at the same time; the jobs in flight are exactly the queue's running
  tasks; and when the Host has a capacity, every job holds a slot of its own, so that no more jobs
  run than the Host has slots.
\<close>

theorem controller_bounded_single_flight:
  assumes "ctl_reach me s"
  shows "distinct (map jobTask (jobs s)) \<and> set (map jobTask (jobs s)) = set (runningTasks (queue s)) \<and>
    distinct (handlesOf (jobs s)) \<and> (\<forall>h. h \<in> set (handlesOf (jobs s)) \<longrightarrow> held (hostCapacity s) h) \<and>
    (hasCapacity s \<longrightarrow> int (length (jobs s)) \<le> limit (hostCapacity s))"
proof -
  have ok: "ctl_ok me s" using ctl_ok_reach [OF assms] by blast
  note c = client_of [OF ok]
  have "length (handlesOf js) = length js" if "None \<notin> set (map jobHandle js)" for js
    using that by (induction js) (auto split: option.splits)
  then have "hasCapacity s \<longrightarrow> length (jobs s) \<le> nat (limit (hostCapacity s))"
    using pool.client_bound [OF c] ok by (auto simp: ctl_ok_def jobs_ok_def)
  moreover have "1 \<le> limit (hostCapacity s)" using c by (simp add: pool.client_def cap_ok_def slots_ok_def)
  ultimately show ?thesis using ok c by (auto simp: ctl_ok_def jobs_ok_def pool.client_def)
qed

theorem controller_bounded_single_flight_witness:
  "int (length (jobs ctl_waiting)) \<le> 1 \<and> length (jobs ctl_waiting) = 1"
  using controller_bounded_single_flight [OF ctl_waiting_reach] ctl_waiting_facts
  by (metis One_nat_def length_map list.size(3,4) add_0)

text \<open>
  C6. No eligible work is forgotten: while the controller is open, enabled and started, and some
  queued task could be claimed, a pump is scheduled and sits in the Host's pump queue exactly once,
  or a capacity wait is pending with the Host, or a retry timer is armed.
\<close>

theorem controller_never_stalls:
  assumes "ctl_reach me s" and "\<not> closed s" and "enabled s" and "startReady s" and "ctlPeek s \<noteq> None"
  shows "filter (\<lambda>x. x = me) (hostPumpQueue s) = [me] \<or>
    (\<exists>w. cancelCapacityWait s = Some w \<and> pendingWait (hostCapacity s) w) \<or> retryTimers s \<noteq> []"
  using ctl_ok_reach [OF assms(1)] assms(2-5)
  by (auto simp: ctl_ok_def jobs_ok_def flags_ok_def progress_ok_def pool.client_def)

theorem controller_never_stalls_witness:
  "filter (\<lambda>x. x = 0) (hostPumpQueue ctl_waiting) = [0] \<or>
   (\<exists>w. cancelCapacityWait ctl_waiting = Some w \<and> pendingWait (hostCapacity ctl_waiting) w)"
  using controller_never_stalls [OF ctl_waiting_reach] ctl_waiting_facts by blast

text \<open>
  C7. Closing is final: from a closed controller no sequence of steps starts another
  reconciliation, and the controller stays closed while its jobs finish.
\<close>

theorem closed_controller_starts_nothing:
  assumes "ctl_reach me s" and "(ctl_step me)\<^sup>*\<^sup>* (close me s) s'"
  shows "closed s' \<and> set (jobs s') \<subseteq> set (jobs s)"
proof -
  from assms(2) have "ctl_reach me s' \<and> closed s' \<and> set (jobs s') \<subseteq> set (jobs s)"
  proof (induction rule: rtranclp_induct)
    case base
    have "ctl_reach me (close me s)" using assms(1) ctl_step.shut by (rule ctl_reach.step)
    then show ?case by (simp add: close_def closed_frame dropCapacityWait_def cancelHostPumps_def)
  next
    case (step t u)
    then have t: "ctl_reach me t" "closed t" "set (jobs t) \<subseteq> set (jobs s)" by blast+
    have "closed u \<and> set (jobs u) \<subseteq> set (jobs t)"
      using step.hyps(2) t(2) ctl_ok_reach [OF t(1)] by (intro closed_step) auto
    with t step.hyps(2) show ?case by (blast intro: ctl_reach.step)
  qed
  then show ?thesis by blast
qed

theorem closed_controller_starts_nothing_witness:
  "closed (settle 0 None True 0 (close 0 ctl_waiting)) \<and>
   set (jobs (settle 0 None True 0 (close 0 ctl_waiting))) \<subseteq> set (jobs ctl_waiting)"
proof -
  have "0 < length (jobs (close 0 ctl_waiting))" by code_simp
  then have "(ctl_step 0)\<^sup>*\<^sup>* (close 0 ctl_waiting) (settle 0 None True 0 (close 0 ctl_waiting))"
    by (intro r_into_rtranclp ctl_step.settled)
  then show ?thesis by (rule closed_controller_starts_nothing [OF ctl_waiting_reach])
qed

end
