(* ===== verification/Task_Recovery.thy ===== *)
theory Task_Recovery
  imports Js_Value Task_Queue
begin

text \<open>
  \<open>OwnedTimer\<close> (\<open>core/scheduling/timer.ts\<close>) and \<open>AppTaskRecoveryScheduler\<close>
  (\<open>core/tasks/app-task-recovery.ts\<close>).

  A runtime timer is represented by the generation its closure captured. A closure that was
  cleared may still be pending in the event loop, so it may fire at any time; the generation
  check is what makes it harmless. The indexed store is a parameter: what its two queries
  answered at the moment of the call is an argument of the operation, as is every clock reading.
\<close>

section \<open>Owned timers\<close>

record owned_timer =
  tmHandle :: "(int \<times> bool) option"
  tmGeneration :: nat
  tmClosed :: bool

definition newTimer :: owned_timer where
  "newTimer = \<lparr>tmHandle = None, tmGeneration = 0, tmClosed = False\<rparr>"

definition tmArmed :: "owned_timer \<Rightarrow> bool" where
  "tmArmed t \<longleftrightarrow> tmHandle t \<noteq> None"

definition tmCancel :: "owned_timer \<Rightarrow> owned_timer" where
  "tmCancel t = t\<lparr>tmGeneration := Suc (tmGeneration t), tmHandle := None\<rparr>"

definition tmClose :: "owned_timer \<Rightarrow> owned_timer" where
  "tmClose t = tmCancel (t\<lparr>tmClosed := True\<rparr>)"

text \<open>The handle is kept as the delay and recurrence it was created with.\<close>

definition tmReplace :: "string \<Rightarrow> jsnum \<Rightarrow> bool \<Rightarrow> owned_timer \<Rightarrow> owned_timer result" where
  "tmReplace label delayMs recurring t =
     (if tmClosed t then Inr t
      else if \<not> is_finite delayMs \<or> num_less delayMs (num_int 0) \<or> recurring \<and> delayMs = num_int 0
      then Inl (label @ '': timer delay must be '' @ (if recurring then ''positive'' else ''non-negative''))
      else Inr ((tmCancel t)\<lparr>tmHandle := Some (to_int delayMs, recurring)\<rparr>))"

definition tmAfter :: "string \<Rightarrow> jsnum \<Rightarrow> owned_timer \<Rightarrow> owned_timer result" where
  "tmAfter label delayMs t = tmReplace label delayMs False t"

definition tmEvery :: "string \<Rightarrow> jsnum \<Rightarrow> owned_timer \<Rightarrow> owned_timer result" where
  "tmEvery label intervalMs t = tmReplace label intervalMs True t"

text \<open>A closure that captured \<open>generation\<close> fires: whether it runs its callback, and the timer after.\<close>

definition tmFire :: "nat \<Rightarrow> bool \<Rightarrow> owned_timer \<Rightarrow> bool \<times> owned_timer" where
  "tmFire generation recurring t =
     (if tmClosed t \<or> tmGeneration t \<noteq> generation then (False, t)
      else (True, if recurring then t else t\<lparr>tmHandle := None\<rparr>))"

section \<open>The recovery scheduler\<close>

definition MAX_TIMER_DELAY_MS :: int where
  "MAX_TIMER_DELAY_MS = 2147483647"

record 'c candidate_page =
  pageItems :: "(string \<times> app_task_lane) list"
  nextCursor :: "'c option"

record 'c recovery =
  safetyIntervalMs :: int
  pageSize :: int
  safetyTimer :: owned_timer
  dueTimer :: owned_timer
  dueAt :: "int option"
  lastRecoveryAt :: "int option"
  recoveryCursor :: "'c option"
  recoveryClosed :: bool
  recovered :: "(string \<times> app_task_lane) list"

definition newRecovery :: "int option \<Rightarrow> rat option \<Rightarrow> 'c recovery" where
  "newRecovery safety page = \<lparr>
     safetyIntervalMs = max 1000 (case safety of Some n \<Rightarrow> n | None \<Rightarrow> 45000),
     pageSize = max 1 (min 10000 \<lfloor>case page of Some n \<Rightarrow> n | None \<Rightarrow> 256\<rfloor>),
     safetyTimer = newTimer, dueTimer = newTimer, dueAt = None, lastRecoveryAt = None,
     recoveryCursor = None, recoveryClosed = False, recovered = []\<rparr>"

text \<open>The store's two queries: candidates for a time, page size and cursor; the nearest due time.\<close>

type_synonym 'c recovery_source = "(int \<Rightarrow> int \<Rightarrow> 'c option \<Rightarrow> 'c candidate_page) \<times> int option"

definition recover :: "'c recovery_source \<Rightarrow> int \<Rightarrow> 'c recovery \<Rightarrow> nat \<times> 'c recovery" where
  "recover src recoveryAt r =
     (if recoveryClosed r then (0, r)
      else
        (let page = fst src recoveryAt (pageSize r) (recoveryCursor r)
         in (length (pageItems page),
             r\<lparr>lastRecoveryAt := Some recoveryAt, recoveryCursor := nextCursor page,
               recovered := recovered r @ pageItems page\<rparr>)))"

definition armNearestDue :: "'c recovery_source \<Rightarrow> int \<Rightarrow> bool \<Rightarrow> 'c recovery \<Rightarrow> 'c recovery" where
  "armNearestDue src now force r =
     (case snd src of
        None \<Rightarrow> r\<lparr>dueTimer := tmCancel (dueTimer r), dueAt := None\<rparr>
      | Some next \<Rightarrow>
          if next \<le> now \<and> \<not> force \<and> (case lastRecoveryAt r of None \<Rightarrow> False | Some t \<Rightarrow> next \<le> t) then r
          else if \<not> force \<and> tmArmed (dueTimer r) \<and> dueAt r = Some next then r
          else
            (let delayMs = min MAX_TIMER_DELAY_MS (max 1 (next - now))
             in case tmAfter ''task-recovery:due'' (num_int delayMs) (dueTimer r) of
                  Inl _ \<Rightarrow> r\<lparr>dueAt := Some next\<rparr>
                | Inr t \<Rightarrow> r\<lparr>dueAt := Some next, dueTimer := t\<rparr>))"

definition start :: "'c recovery_source \<Rightarrow> int \<Rightarrow> int \<Rightarrow> 'c recovery \<Rightarrow> 'c recovery" where
  "start src t1 t2 r =
     (if recoveryClosed r \<or> tmArmed (safetyTimer r) then r
      else
        (let r1 = armNearestDue src t2 False (snd (recover src t1 r))
         in case tmEvery ''task-recovery:safety'' (num_int (safetyIntervalMs r1)) (safetyTimer r1) of
              Inl _ \<Rightarrow> r1
            | Inr t \<Rightarrow> r1\<lparr>safetyTimer := t\<rparr>))"

definition stateChanged :: "'c recovery_source \<Rightarrow> int \<Rightarrow> 'c recovery \<Rightarrow> 'c recovery" where
  "stateChanged src now r = (if recoveryClosed r then r else armNearestDue src now True r)"

definition closeRecovery :: "'c recovery \<Rightarrow> 'c recovery" where
  "closeRecovery r = r\<lparr>recoveryClosed := True, safetyTimer := tmClose (safetyTimer r),
     dueTimer := tmClose (dueTimer r), dueAt := None\<rparr>"

text \<open>The callbacks of the two timers, fired by a closure of generation \<open>g\<close>.\<close>

definition fireSafety :: "'c recovery_source \<Rightarrow> int \<Rightarrow> int \<Rightarrow> nat \<Rightarrow> 'c recovery \<Rightarrow> 'c recovery" where
  "fireSafety src t1 t2 g r =
     (case tmFire g True (safetyTimer r) of
        (False, t) \<Rightarrow> r\<lparr>safetyTimer := t\<rparr>
      | (True, t) \<Rightarrow> armNearestDue src t2 False (snd (recover src t1 (r\<lparr>safetyTimer := t\<rparr>))))"

definition fireDue :: "'c recovery_source \<Rightarrow> int \<Rightarrow> int \<Rightarrow> nat \<Rightarrow> 'c recovery \<Rightarrow> 'c recovery" where
  "fireDue src t1 t2 g r =
     (case tmFire g False (dueTimer r) of
        (False, t) \<Rightarrow> r\<lparr>dueTimer := t\<rparr>
      | (True, t) \<Rightarrow>
          armNearestDue src t2 False (snd (recover src t1 (r\<lparr>dueTimer := t, dueAt := None\<rparr>))))"

section \<open>Lemmas\<close>

text \<open>Generations only grow, so a closure from before a cancel never matches again.\<close>

inductive timer_step :: "owned_timer \<Rightarrow> owned_timer \<Rightarrow> bool" where
  replaced: "tmReplace label d rec t = Inr t' \<Longrightarrow> timer_step t t'"
| cancelled: "timer_step t (tmCancel t)"
| closing: "timer_step t (tmClose t)"
| fired: "timer_step t (snd (tmFire g rec t))"

lemma timer_generation_mono: "timer_step\<^sup>*\<^sup>* t t' \<Longrightarrow> tmGeneration t \<le> tmGeneration t'"
proof (induction rule: rtranclp_induct)
  case (step u v)
  from step.hyps(2) have "tmGeneration u \<le> tmGeneration v"
    by cases (auto simp: tmReplace_def tmCancel_def tmClose_def tmFire_def split: if_splits)
  with step.IH show ?case by simp
qed simp

text \<open>Arming the due timer with an admissible delay always succeeds.\<close>

lemma tmAfter_ok:
  "0 \<le> d \<Longrightarrow> tmAfter l (num_int d) t =
     Inr (if tmClosed t then t else (tmCancel t)\<lparr>tmHandle := Some (d, False)\<rparr>)"
  by (simp add: tmAfter_def tmReplace_def)

definition delay_for :: "int \<Rightarrow> int \<Rightarrow> int" where
  "delay_for next now = min MAX_TIMER_DELAY_MS (max 1 (next - now))"

lemma delay_for_bounds: "1 \<le> delay_for n t \<and> delay_for n t \<le> MAX_TIMER_DELAY_MS"
  by (simp add: delay_for_def MAX_TIMER_DELAY_MS_def)

lemma delay_for_nonneg: "0 \<le> delay_for n t"
  using delay_for_bounds [of n t] by linarith

lemma delay_for_deadline: "t < n \<Longrightarrow> t + delay_for n t \<le> n"
  by (simp add: delay_for_def)

lemma armNearestDue_eq:
  "armNearestDue src now force r =
     (case snd src of
        None \<Rightarrow> r\<lparr>dueTimer := tmCancel (dueTimer r), dueAt := None\<rparr>
      | Some next \<Rightarrow>
          if next \<le> now \<and> \<not> force \<and> (case lastRecoveryAt r of None \<Rightarrow> False | Some t \<Rightarrow> next \<le> t) then r
          else if \<not> force \<and> tmArmed (dueTimer r) \<and> dueAt r = Some next then r
          else r\<lparr>dueAt := Some next, dueTimer := (if tmClosed (dueTimer r) then dueTimer r
            else (tmCancel (dueTimer r))\<lparr>tmHandle := Some (delay_for next now, False)\<rparr>)\<rparr>)"
  by (simp add: armNearestDue_def Let_def delay_for_def [symmetric] tmAfter_ok delay_for_nonneg split: option.splits)

lemma recover_frame:
  "dueTimer (snd (recover src t r)) = dueTimer r" "safetyTimer (snd (recover src t r)) = safetyTimer r"
  "dueAt (snd (recover src t r)) = dueAt r" "recoveryClosed (snd (recover src t r)) = recoveryClosed r"
  "safetyIntervalMs (snd (recover src t r)) = safetyIntervalMs r"
  by (simp_all add: recover_def Let_def)

text \<open>The life of a scheduler. Any closure of any generation may fire at any moment.\<close>

inductive recovery_step :: "'c recovery \<Rightarrow> 'c recovery \<Rightarrow> bool" where
  started: "recovery_step r (start src t1 t2 r)"
| changed: "recovery_step r (stateChanged src t r)"
| asked: "recovery_step r (snd (recover src t r))"
| safety_fired: "recovery_step r (fireSafety src t1 t2 g r)"
| due_fired: "recovery_step r (fireDue src t1 t2 g r)"
| closed: "recovery_step r (closeRecovery r)"

inductive recovery_reach :: "'c recovery \<Rightarrow> bool" where
  new: "recovery_reach (newRecovery safety page)"
| step: "recovery_reach r \<Longrightarrow> recovery_step r r' \<Longrightarrow> recovery_reach r'"

text \<open>A timer closes with its scheduler, and the armed due timer is a one-shot for a known deadline.\<close>

definition recovery_ok :: "'c recovery \<Rightarrow> bool" where
  "recovery_ok r \<longleftrightarrow> tmClosed (dueTimer r) = recoveryClosed r \<and> tmClosed (safetyTimer r) = recoveryClosed r \<and>
     (\<forall>delay rec. tmHandle (dueTimer r) = Some (delay, rec) \<longrightarrow>
        \<not> rec \<and> 1 \<le> delay \<and> delay \<le> MAX_TIMER_DELAY_MS \<and> dueAt r \<noteq> None)"

lemma recovery_ok_recover: "recovery_ok r \<Longrightarrow> recovery_ok (snd (recover src t r))"
  by (auto simp: recovery_ok_def recover_frame)

lemma recovery_ok_arm: "recovery_ok r \<Longrightarrow> recovery_ok (armNearestDue src now force r)"
  using delay_for_bounds by (auto simp: recovery_ok_def armNearestDue_eq tmCancel_def split: option.splits)

lemma recovery_ok_start: "recovery_ok r \<Longrightarrow> recovery_ok (start src t1 t2 r)"
  using recovery_ok_arm [OF recovery_ok_recover, of r src t2 False src t1]
  by (auto simp: recovery_ok_def start_def Let_def tmEvery_def tmReplace_def tmCancel_def split: sum.splits)

lemma recovery_ok_fires:
  "recovery_ok r \<Longrightarrow> recovery_ok (fireSafety src t1 t2 g r)"
  "recovery_ok r \<Longrightarrow> recovery_ok (fireDue src t1 t2 g r)"
  by (auto simp: fireSafety_def fireDue_def tmFire_def intro!: recovery_ok_arm recovery_ok_recover)
    (auto simp: recovery_ok_def)

lemma recovery_ok_step: "recovery_step r r' \<Longrightarrow> recovery_ok r \<Longrightarrow> recovery_ok r'"
  by (cases rule: recovery_step.cases)
    (auto simp: stateChanged_def intro: recovery_ok_start recovery_ok_arm recovery_ok_recover recovery_ok_fires,
     auto simp: recovery_ok_def closeRecovery_def tmClose_def tmCancel_def)

lemma recovery_ok_reach: "recovery_reach r \<Longrightarrow> recovery_ok r"
proof (induction rule: recovery_reach.induct)
  case (new safety page)
  then show ?case by (simp add: recovery_ok_def newRecovery_def newTimer_def)
qed (blast intro: recovery_ok_step)

text \<open>The due timer was set at \<open>now\<close> for the deadline \<open>d\<close>.\<close>

definition armedFor :: "int \<Rightarrow> int \<Rightarrow> 'c recovery \<Rightarrow> bool" where
  "armedFor d now r \<longleftrightarrow> dueAt r = Some d \<and>
     (\<exists>delay. tmHandle (dueTimer r) = Some (delay, False) \<and> 1 \<le> delay \<and> delay \<le> MAX_TIMER_DELAY_MS \<and>
        (now < d \<longrightarrow> now + delay \<le> d))"

lemma armNearestDue_armed:
  assumes "\<not> tmClosed (dueTimer r)" "snd src = Some d"
    and "force \<or> \<not> tmArmed (dueTimer r) \<or> dueAt r \<noteq> Some d"
    and "force \<or> lastRecoveryAt r = Some t \<and> \<not> (d \<le> now \<and> d \<le> t)"
  shows "armedFor d now (armNearestDue src now force r)"
  using assms delay_for_bounds [of d now] delay_for_deadline [of now d]
  by (auto simp: armNearestDue_eq armedFor_def)

lemma armNearestDue_frame:
  "recovered (armNearestDue src now force r) = recovered r"
  "lastRecoveryAt (armNearestDue src now force r) = lastRecoveryAt r"
  "safetyTimer (armNearestDue src now force r) = safetyTimer r"
  by (simp_all add: armNearestDue_eq split: option.splits)

section \<open>Correctness\<close>

text \<open>
  C12. A cancelled, replaced or closed timer never runs an old callback: once the timer moved past
  the generation a closure captured, that closure does nothing, however the timer is used later.
\<close>

theorem stale_timer_never_runs:
  assumes "tmReplace label d rec t = Inr t1 \<or> t1 = tmCancel t \<or> t1 = tmClose t"
    and "\<not> tmClosed t" and "timer_step\<^sup>*\<^sup>* t1 t2" and "g \<le> tmGeneration t"
  shows "tmFire g r t2 = (False, t2)"
proof -
  have "tmGeneration t < tmGeneration t1"
    using assms(1,2) by (auto simp: tmReplace_def tmCancel_def tmClose_def split: if_splits)
  then have "g < tmGeneration t2" using timer_generation_mono [OF assms(3)] assms(4) by simp
  then show ?thesis by (simp add: tmFire_def)
qed

theorem stale_timer_never_runs_witness:
  "tmFire 0 False (tmCancel newTimer) = (False, tmCancel newTimer)"
  using stale_timer_never_runs [of "''t''" "num_int 1" False newTimer "tmCancel newTimer" "tmCancel newTimer" 0 False]
  by (simp add: newTimer_def)

text \<open>
  C13. The nearest deadline is covered, in every reachable open scheduler whose store answers \<open>d\<close> as
  the nearest due time. A state change always sets the due timer afresh for \<open>d\<close>. When the live due
  timer fires, it queues the page of candidates the store answers at that moment \<open>t1\<close>, and is then
  set again for \<open>d\<close> unless \<open>d\<close> had passed at \<open>t1\<close> already, so that this page was asked for with \<open>d\<close>
  due. The safety timer does the same, except that a due timer already set for \<open>d\<close> is left alone.
  A delay set at a time before \<open>d\<close> ends no later than \<open>d\<close> and is one the runtime supports, and the
  safety timer itself stays as it was.
\<close>

theorem recovery_covers_deadline:
  assumes "recovery_reach r" and "\<not> recoveryClosed r" and "snd src = Some d"
  shows "armedFor d now (stateChanged src now r) \<and> safetyTimer (stateChanged src now r) = safetyTimer r \<and>
    (let r' = fireDue src t1 t2 (tmGeneration (dueTimer r)) r in
       recovered r' = recovered r @ pageItems (fst src t1 (pageSize r) (recoveryCursor r)) \<and>
       lastRecoveryAt r' = Some t1 \<and> safetyTimer r' = safetyTimer r \<and>
       (if d \<le> t1 \<and> d \<le> t2 then \<not> tmArmed (dueTimer r') else armedFor d t2 r')) \<and>
    (let r' = fireSafety src t1 t2 (tmGeneration (safetyTimer r)) r in
       recovered r' = recovered r @ pageItems (fst src t1 (pageSize r) (recoveryCursor r)) \<and>
       lastRecoveryAt r' = Some t1 \<and> safetyTimer r' = safetyTimer r \<and>
       (d \<le> t1 \<and> d \<le> t2 \<or> armedFor d t2 r' \<or>
        tmArmed (dueTimer r) \<and> dueTimer r' = dueTimer r \<and> dueAt r = Some d \<and> dueAt r' = Some d))"
proof -
  have open': "\<not> tmClosed (dueTimer r)" "\<not> tmClosed (safetyTimer r)"
    using recovery_ok_reach [OF assms(1)] assms(2) by (auto simp: recovery_ok_def)
  define page where "page = fst src t1 (pageSize r) (recoveryCursor r)"
  define s where "s = r\<lparr>lastRecoveryAt := Some t1, recoveryCursor := nextCursor page,
    recovered := recovered r @ pageItems page\<rparr>"
  define u where "u = r\<lparr>dueTimer := (dueTimer r)\<lparr>tmHandle := None\<rparr>, dueAt := None,
    lastRecoveryAt := Some t1, recoveryCursor := nextCursor page, recovered := recovered r @ pageItems page\<rparr>"
  have due: "fireDue src t1 t2 (tmGeneration (dueTimer r)) r = armNearestDue src t2 False u"
    using open' assms(2) by (simp add: fireDue_def tmFire_def recover_def Let_def u_def page_def)
  have safety: "fireSafety src t1 t2 (tmGeneration (safetyTimer r)) r = armNearestDue src t2 False s"
    using open' assms(2) by (simp add: fireSafety_def tmFire_def recover_def Let_def s_def page_def)
  have "armedFor d t2 (armNearestDue src t2 False u)" if "\<not> (d \<le> t1 \<and> d \<le> t2)"
    using that open' by (intro armNearestDue_armed [OF _ assms(3), where t = t1]) (auto simp: u_def tmArmed_def)
  moreover have "\<not> tmArmed (dueTimer (armNearestDue src t2 False u))" if "d \<le> t1 \<and> d \<le> t2"
    using that assms(3) by (simp add: armNearestDue_eq u_def tmArmed_def)
  moreover have "armedFor d t2 (armNearestDue src t2 False s)"
    if "\<not> (d \<le> t1 \<and> d \<le> t2)" "\<not> tmArmed (dueTimer r) \<or> dueAt r \<noteq> Some d"
    using that open' by (intro armNearestDue_armed [OF _ assms(3), where t = t1]) (auto simp: s_def)
  moreover have "armNearestDue src t2 False s = s" if "tmArmed (dueTimer r)" "dueAt r = Some d"
    using that assms(3) by (simp add: armNearestDue_eq s_def)
  moreover have "armedFor d now (stateChanged src now r)"
    using open' assms(2,3) by (simp add: stateChanged_def armNearestDue_armed)
  moreover have "recovered u = recovered s" "recovered s = recovered r @ pageItems page"
    "lastRecoveryAt u = Some t1" "lastRecoveryAt s = Some t1" "safetyTimer u = safetyTimer r"
    "safetyTimer s = safetyTimer r" "dueTimer s = dueTimer r" "dueAt s = dueAt r" by (simp_all add: s_def u_def)
  moreover have "safetyTimer (stateChanged src now r) = safetyTimer r" by (simp add: stateChanged_def armNearestDue_frame)
  ultimately show ?thesis
    unfolding Let_def due safety page_def [symmetric] by (simp add: armNearestDue_frame) metis
qed

theorem recovery_covers_deadline_witness:
  "let src = (\<lambda>t _ _. \<lparr>pageItems = [(''a'', Normal)], nextCursor = None\<rparr>, Some 5000);
       r = (newRecovery None None :: unit recovery)
   in armedFor 5000 1000 (stateChanged src 1000 r) \<and>
      recovered (fireDue src 4999 5001 0 r) = [(''a'', Normal)] \<and> armedFor 5000 5001 (fireDue src 4999 5001 0 r)"
  using recovery_covers_deadline [OF recovery_reach.new, of None None
      "(\<lambda>_ _ _. \<lparr>pageItems = [(''a'', Normal)], nextCursor = (None :: unit option)\<rparr>, Some 5000)" 5000 1000 4999 5001]
  by (simp add: newRecovery_def newTimer_def Let_def)

end
