(* ===== verification/Task_State.thy ===== *)
theory Task_State
  imports Js_Value Task_Queue
begin

text \<open>
  The persisted Task state (\<open>core/tasks/app-task-state.ts\<close>, the types of \<open>app-task-store.ts\<close> and
  the SDK's \<open>TaskIntent\<close> and \<open>Condition\<close>).

  The source nests \<open>metadata\<close>, \<open>spec\<close> and \<open>status\<close>; here a Task and a Condition are one record
  each, with the Task's \<open>spec\<close> kept as a record of its own because it is compared as a whole.
  An optional property is an \<open>option\<close>; a property that may be \<open>null\<close> or absent is an option of an
  option. A timestamp the Host writes is the epoch millisecond count of its ISO string; where the
  source guards against a string that does not parse, the type is \<open>iso\<close>. Generations and
  resource versions are natural numbers. Two optional properties of an attempt that no modelled code
  reads are left out: \<open>failoverFromAttemptId\<close> and \<open>retiredCancellation\<close>, evidence kept from older runs.
\<close>

section \<open>Types\<close>

datatype iso = Iso int | BadIso

fun isoMillis :: "iso \<Rightarrow> int option" where
  "isoMillis (Iso t) = Some t"
| "isoMillis BadIso = None"

definition CONDITION_RECOVERY_INTERVAL_MS :: int where
  "CONDITION_RECOVERY_INTERVAL_MS = 300000"

record trigger_event =
  teEvent :: js_record
  teObservedAt :: int

record input_wait =
  iwTaskGeneration :: nat
  iwPending :: bool
  iwConditions :: "(string \<times> nat) list"
  iwReviewAt :: "int option"

datatype condition_state = CondUnknown | CondFalse | CondTrue

datatype progress_interest = Immediate | NextWake

datatype report_kind = RProgress | RFailure | RUnknown

record condition_spec =
  csType :: string
  csSubject :: string
  csExpected :: js
  csRequestedAction :: "string option"
  csOwner :: "string option"
  csReviewAfterMs :: "jsnum option"
  csProgress :: "progress_interest option"

record task_condition =
  cnId :: string
  cnGeneration :: nat
  cnVersion :: nat
  cnSpec :: condition_spec
  cnObservedGeneration :: nat
  cnState :: condition_state
  cnCreatedAt :: "iso option"
  cnObserved :: js
  cnReports :: "(report_kind, js_record) dict"
  cnObservedAt :: "iso option"
  cnFacts :: "string list option"

record resource_creator =
  crAppId :: string
  crTaskId :: "string option"

record task_spec =
  spParentId :: string
  spOutcome :: string
  spAcceptance :: "string list"
  spAgent :: "string option"
  spOwner :: "string option"
  spWorkflow :: "string option"
  spExecutor :: "string option"
  spInput :: "js_record option"
  spOutputs :: "string list option"
  spDependsOn :: "string list option"
  spPriority :: "app_task_priority option"
  spCategory :: "string option"

record task_intent =
  inId :: string
  inSpec :: task_spec

datatype task_phase = PhPending | PhRunning | PhConverged | PhWaiting | PhAttention

record retry_exhaustion =
  reGeneration :: nat
  reAttemptId :: string
  reFailures :: nat
  reLimit :: nat
  reExhaustedAt :: int

record task_resource =
  tkId :: string
  tkCreator :: "resource_creator option"
  tkGeneration :: nat
  tkVersion :: nat
  tkReopenedAfterEventId :: "int option"
  tkSpec :: task_spec
  tkObservedGeneration :: nat
  tkPhase :: task_phase
  tkLane :: "app_task_lane option"
  tkCurrentAttemptId :: "string option"
  tkObservedAttemptId :: "string option"
  tkWorkspaceAttemptId :: "string option"
  tkExecutionFailures :: "nat option"
  tkExecutionFailureAttemptId :: "string option option"
  tkAdmissionFailures :: "nat option"
  tkRetryExhausted :: "retry_exhaustion option"
  tkExecutionRetryAt :: "jsnum option"
  tkReviewAt :: "int option"
  tkFreshHumanInput :: bool
  tkSummary :: "string option"
  tkResponse :: "string option"
  tkResult :: "js_record option"
  tkFacts :: "string list option"
  tkConditionIds :: "string list option"
  tkInputWaits :: "(string, input_wait) dict option"
  tkUpdatedAt :: int

record attempt_lease =
  leId :: string
  leVersion :: nat
  leLastActivityAt :: int
  leExpiresAt :: iso
  leRuntimeId :: string
  leSessionId :: "string option"

datatype attempt_state = ARunning | ACompleted | AFailed | AInterrupted

datatype result_state = RConverged | RWaiting | RIncomplete

datatype acceptance_method = Deterministic | WorkflowContract | AgentJudgment

record acceptance_basis =
  abMethod :: acceptance_method
  abVerifier :: "string option"
  abFacts :: "string list"

record accepted_result =
  arState :: result_state
  arReviewAt :: "int option"
  arContinue :: bool
  arReport :: bool
  arSummary :: string
  arResponse :: "string option"
  arResult :: "js_record option"
  arFacts :: "string list"
  arAcceptanceBasis :: "acceptance_basis option"
  arAcceptedLiveEventIds :: "int list option"
  arInputKeys :: "string list option"

record unaccepted_result =
  urAttemptId :: string
  urSessionId :: "string option"
  urSettlementError :: string
  urSummary :: string
  urResponse :: "string option"
  urResult :: "js_record option"
  urFacts :: "string list"

datatype workspace_disposition = WsActive | WsRetained | WsBranchRetained | WsRemoved

record dirty_observation =
  doObservedAt :: int
  doStatus :: string
  doTruncated :: bool

record task_workspace =
  wsPath :: string
  wsBaseRef :: string
  wsBaseCommit :: string
  wsBranch :: string
  wsHeadCommit :: string
  wsReleased :: bool
  wsDisposition :: workspace_disposition
  wsDirty :: "dirty_observation option"
  wsCleanupError :: "string option"

record change_receipt =
  chRequests :: "(string \<times> string) list"
  chConditionIds :: "string list"
  chActionsApplied :: "string list"
  chCommunication :: "js list option"

text \<open>A content hash, represented by the canonical value that is hashed.\<close>

type_synonym spec_hash = js

record task_attempt =
  atId :: string
  atVersion :: nat
  atTaskId :: string
  atTaskGeneration :: nat
  atSpecHash :: spec_hash
  atOwner :: string
  atHandler :: string
  atRuntimeId :: string
  atState :: attempt_state
  atReason :: string
  atEvents :: "trigger_event list option"
  atEventsTruncated :: "bool option"
  atContinuedInputKeys :: "string list option"
  atAcceptedResult :: "accepted_result option"
  atTrigger :: "js_record option"
  atStartedAt :: int
  atFinishedAt :: "int option"
  atSummary :: "string option"
  atFailureReason :: "string option"
  atRetryExhausted :: "retry_exhaustion option"
  atUnacceptedResult :: "unaccepted_result option"
  atSessionId :: "string option"
  atLease :: "attempt_lease option"
  atWorkspace :: "task_workspace option"
  atChangeReceipts :: "(string, change_receipt) dict"

record task_trigger =
  ttTaskId :: string
  ttTaskGeneration :: nat
  ttVersion :: nat
  ttEvents :: "trigger_event list option"
  ttEvent :: js_record
  ttObservedAt :: int

record feedback_entry =
  fbAttemptId :: string
  fbRevision :: nat
  fbLegacyBlocked :: bool

record task_admission =
  adTaskId :: string
  adTaskGeneration :: nat
  adSpecHash :: spec_hash
  adAdmittedAt :: int
  adInputEvent :: "js_record option"
  adResultAttemptId :: "string option"
  adFeedback :: "(report_kind, feedback_entry) dict"
  adReportAttemptId :: "string option"
  adReportRevision :: "nat option"

record task_group =
  grId :: string
  grParentId :: "string option option"
  grOwner :: "string option"

datatype closure_kind = Closed | Cancelled

datatype closure_decider = ByHuman | ByApp string string | ByAppPolicy | ByCreator resource_creator

record task_cancellation =
  caKind :: "closure_kind option"
  caAcceptedResultAttemptId :: "string option"
  caAppId :: string
  caTaskId :: string
  caGeneration :: nat
  caVersion :: nat
  caOutcome :: string
  caReason :: string
  caSummary :: string
  caCancelledAt :: int
  caDecidedBy :: "closure_decider option"
  caResponse :: "string option"
  caResult :: "js_record option"
  caFacts :: "string list option"

text \<open>A completion record of an older Host, kept as history.\<close>

record completion_receipt =
  rcId :: string
  rcGeneration :: nat
  rcVersion :: nat
  rcSpecHash :: spec_hash
  rcParentId :: string
  rcOutcome :: string
  rcOwner :: string
  rcHandler :: string
  rcSummary :: string
  rcFacts :: "string list"
  rcCompletedAt :: int

record task_tree =
  trProject :: "string option"
  trLifecycle :: "string option"
  trRootTaskId :: "string option"
  trUpdatedAt :: "int option"
  trConditions :: "(string, task_condition) dict"
  trResources :: "(string, task_resource) dict"
  trAttempts :: "(string, task_attempt) dict"
  trTriggers :: "(string, task_trigger) dict"
  trAdmissions :: "(string, task_admission) dict"
  trReceipts :: "(string, completion_receipt) dict"
  trCancellations :: "(string, task_cancellation) dict"
  trGroups :: "(string, task_group) dict"

definition emptyTree :: task_tree where
  "emptyTree = \<lparr>trProject = None, trLifecycle = None, trRootTaskId = None, trUpdatedAt = None,
     trConditions = [], trResources = [], trAttempts = [], trTriggers = [], trAdmissions = [],
     trReceipts = [], trCancellations = [], trGroups = []\<rparr>"

text \<open>\<open>xs ?? []\<close> and \<open>xs?.length\<close> for an optional array.\<close>

definition listOr :: "'a list option \<Rightarrow> 'a list" where
  "listOr o' = (case o' of None \<Rightarrow> [] | Some xs \<Rightarrow> xs)"

lemma listOr_simps [simp]: "listOr None = []" "listOr (Some xs) = xs"
  by (simp_all add: listOr_def)

text \<open>Freshly admitted state, for examples.\<close>

definition blankSpec :: task_spec where
  "blankSpec = \<lparr>spParentId = ''root'', spOutcome = ''outcome'', spAcceptance = [''accepted''], spAgent = None,
     spOwner = None, spWorkflow = None, spExecutor = None, spInput = None, spOutputs = None,
     spDependsOn = None, spPriority = None, spCategory = None\<rparr>"

definition blankTask :: "string \<Rightarrow> task_resource" where
  "blankTask i = \<lparr>tkId = i, tkCreator = None, tkGeneration = 1, tkVersion = 1, tkReopenedAfterEventId = None,
     tkSpec = blankSpec, tkObservedGeneration = 0, tkPhase = PhPending, tkLane = None,
     tkCurrentAttemptId = None, tkObservedAttemptId = None, tkWorkspaceAttemptId = None,
     tkExecutionFailures = None, tkExecutionFailureAttemptId = None, tkAdmissionFailures = None,
     tkRetryExhausted = None, tkExecutionRetryAt = None, tkReviewAt = None, tkFreshHumanInput = False,
     tkSummary = None, tkResponse = None, tkResult = None, tkFacts = None, tkConditionIds = None,
     tkInputWaits = None, tkUpdatedAt = 0\<rparr>"

definition blankCondition :: "string \<Rightarrow> condition_spec \<Rightarrow> task_condition" where
  "blankCondition i sp = \<lparr>cnId = i, cnGeneration = 1, cnVersion = 1, cnSpec = sp, cnObservedGeneration = 0,
     cnState = CondUnknown, cnCreatedAt = None, cnObserved = JUndef, cnReports = [], cnObservedAt = None,
     cnFacts = None\<rparr>"

definition blankAttempt :: "string \<Rightarrow> string \<Rightarrow> task_attempt" where
  "blankAttempt i t = \<lparr>atId = i, atVersion = 1, atTaskId = t, atTaskGeneration = 1, atSpecHash = JNull,
     atOwner = ''agent'', atHandler = ''agent:agent'', atRuntimeId = ''r'', atState = ARunning, atReason = ''event'',
     atEvents = None, atEventsTruncated = None, atContinuedInputKeys = None, atAcceptedResult = None,
     atTrigger = None, atStartedAt = 0, atFinishedAt = None, atSummary = None, atFailureReason = None,
     atRetryExhausted = None, atUnacceptedResult = None, atSessionId = None, atLease = None,
     atWorkspace = None, atChangeReceipts = []\<rparr>"

section \<open>Retry pacing\<close>

definition taskExecutionRetryExhausted :: "task_resource \<Rightarrow> bool" where
  "taskExecutionRetryExhausted r \<longleftrightarrow> tkRetryExhausted r \<noteq> None \<and> \<not> tkFreshHumanInput r"

definition taskAdmissionRetryDelay :: "int \<Rightarrow> int" where
  "taskAdmissionRetryDelay failures = min (60 * 60000) (250 * 2 ^ nat (min 14 (max 0 (failures - 1))))"

definition taskExecutionRetryDelay :: "int \<Rightarrow> int" where
  "taskExecutionRetryDelay failures = min (60 * 60000) (30000 * 2 ^ nat (min 7 (max 0 (failures - 1))))"

definition pendingTaskExecutionRetryAt :: "task_resource \<Rightarrow> int \<Rightarrow> jsnum option" where
  "pendingTaskExecutionRetryAt r now =
     (case tkExecutionRetryAt r of
        None \<Rightarrow> None
      | Some due \<Rightarrow> if is_finite due \<and> num_less (num_int now) due then Some due else None)"

text \<open>The event identity a reopening fences: events up to it belong to the closed generation.\<close>

definition taskEventPredatesReopening :: "task_resource option \<Rightarrow> js_record option \<Rightarrow> bool" where
  "taskEventPredatesReopening r ev =
     (case Option.bind r tkReopenedAfterEventId of
        None \<Rightarrow> False
      | Some fence \<Rightarrow>
          (case map_option (\<lambda>e. rget e ''eventId'') ev of
             Some (JNum n) \<Rightarrow> \<not> num_less (num_int fence) n \<and> n \<noteq> NaN
           | _ \<Rightarrow> False))"

lemma power2_mono: "i \<le> j \<Longrightarrow> (2 :: int) ^ i \<le> 2 ^ j"
  by (simp add: power_increasing)

lemma capped_step:
  assumes "(1 :: int) \<le> x" "x \<le> y" "0 \<le> b" "b \<le> c"
  shows "b \<le> min c (b * x) \<and> min c (b * x) \<le> min c (b * y) \<and> min c (b * y) \<le> c"
proof -
  have "b * 1 \<le> b * x" "b * x \<le> b * y" using assms by (intro mult_left_mono; simp)+
  with assms show ?thesis by (auto simp: min_def)
qed

text \<open>
  Retry pacing is bounded and monotone: every delay lies between the first step (250 ms for an
  admission, 30 s for an execution) and one hour, and more failures never shorten it.
\<close>

lemma retry_delays_bounded_monotone:
  assumes "m \<le> n"
  shows "250 \<le> taskAdmissionRetryDelay m \<and> taskAdmissionRetryDelay m \<le> taskAdmissionRetryDelay n \<and>
    taskAdmissionRetryDelay n \<le> 3600000 \<and>
    30000 \<le> taskExecutionRetryDelay m \<and> taskExecutionRetryDelay m \<le> taskExecutionRetryDelay n \<and>
    taskExecutionRetryDelay n \<le> 3600000"
proof -
  define a where "a k = (2 :: int) ^ nat (min 14 (max 0 (k - 1)))" for k :: int
  define e where "e k = (2 :: int) ^ nat (min 7 (max 0 (k - 1)))" for k :: int
  have delays: "taskAdmissionRetryDelay k = min 3600000 (250 * a k)"
    "taskExecutionRetryDelay k = min 3600000 (30000 * e k)" for k
    by (simp_all add: taskAdmissionRetryDelay_def taskExecutionRetryDelay_def a_def e_def)
  have "a m \<le> a n" unfolding a_def using assms by (intro power2_mono nat_mono) linarith
  moreover have "e m \<le> e n" unfolding e_def using assms by (intro power2_mono nat_mono) linarith
  moreover have "1 \<le> a m" "1 \<le> e m" by (simp_all add: a_def e_def)
  ultimately show ?thesis
    using capped_step [of "a m" "a n" 250 3600000] capped_step [of "e m" "e n" 30000 3600000]
    unfolding delays by simp
qed

end
