(* ===== verification/Task_Conditions.thy ===== *)
theory Task_Conditions
  imports Task_State
begin

text \<open>
  Conditions: approvals (\<open>packages/sdk/src/approval.ts\<close>), human owners
  (\<open>core/tasks/human-condition.ts\<close>) and the matching and observation of Conditions
  (\<open>core/tasks/app-task-condition-tracker.ts\<close>).

  An event is a JavaScript record. A persisted Condition is typed, so the run-time shape test
  \<open>isCondition\<close> always holds and is not repeated. The store a report's attempt is looked up in is a
  parameter, from App id and attempt id to the attempt.
\<close>

section \<open>Human owners and approvals\<close>

definition isHumanActionOwner :: "string option \<Rightarrow> bool" where
  "isHumanActionOwner owner =
     (case map_option trim owner of
        None \<Rightarrow> False
      | Some n \<Rightarrow> n = ''human'' \<or> starts_with n ''human:'' \<and> length ''human:'' < length n \<or> n = ''Hao'')"

record approval_decision =
  apDecision :: string
  apProposal :: js_record
  apStamp :: js_record

definition nonempty :: "js \<Rightarrow> bool" where
  "nonempty v = (case v of JStr s \<Rightarrow> trim s \<noteq> [] | _ \<Rightarrow> False)"

definition positiveSafe :: "js \<Rightarrow> bool" where
  "positiveSafe v = (case v of JNum n \<Rightarrow> is_safe_integer n \<and> 1 \<le> to_int n | _ \<Rightarrow> False)"

definition readVerifiedApprovalDecision ::
  "string \<Rightarrow> string option \<Rightarrow> js_record \<Rightarrow> approval_decision option" where
  "readVerifiedApprovalDecision type source data =
     (if type \<noteq> ''project.approval.submitted'' \<or> source \<notin> {Some ''telegram'', Some ''control-socket''} then None
      else if \<not> isRecord (rget data ''hostApproval'') \<or> \<not> isRecord (rget data ''proposal'') then None
      else
        (let stamp = recordOf (rget data ''hostApproval''); proposal = recordOf (rget data ''proposal'');
             actor = rget stamp ''actor''; authorization = rget stamp ''authorization''
         in if rget stamp ''version'' \<noteq> JNum (num_int 1) \<or>
               rget stamp ''ingressSource'' \<noteq> JStr (the source) \<or>
               \<not> isRecord actor \<or> \<not> nonempty (jget actor ''id'') \<or>
               jget actor ''kind'' \<noteq> JStr (if source = Some ''telegram'' then ''human'' else ''operator'') \<or>
               \<not> isRecord authorization \<or> \<not> nonempty (jget authorization ''reference'') \<or>
               \<not> isRecord (jget authorization ''evidence'') \<or>
               \<not> nonempty (rget data ''decision'') \<or>
               \<not> positiveSafe (rget proposal ''taskGeneration'') \<or>
               \<not> nonempty (rget proposal ''conditionId'') \<or>
               \<not> positiveSafe (rget proposal ''conditionGeneration'') \<or>
               \<not> nonempty (rget proposal ''subject'') \<or> \<not> nonempty (rget proposal ''requestedAction'') \<or>
               dget proposal ''expected'' = None
            then None
            else Some \<lparr>apDecision = the (asString (rget data ''decision'')), apProposal = proposal,
                       apStamp = stamp\<rparr>))"

section \<open>Event fields\<close>

definition sameEvent :: "js_record \<Rightarrow> js_record \<Rightarrow> bool" where
  "sameEvent left right =
     (let leftId = js_Number (rget left ''eventId''); rightId = js_Number (rget right ''eventId'')
      in if is_safe_integer leftId \<and> 0 < to_int leftId \<and> is_safe_integer rightId \<and> 0 < to_int rightId
         then leftId = rightId
         else stableEquals (JObj left) (JObj right))"

fun firstDefined :: "js_record \<Rightarrow> string list \<Rightarrow> js" where
  "firstDefined r [] = JUndef"
| "firstDefined r (n # ns) = (if rget r n \<noteq> JUndef then rget r n else firstDefined r ns)"

definition eventField :: "js_record \<Rightarrow> string list \<Rightarrow> js" where
  "eventField event names =
     (let own = firstDefined event names;
          target = firstDefined (recordOf (rget event ''target'')) names
      in if own \<noteq> JUndef then own
         else if target \<noteq> JUndef then target
         else firstDefined (recordOf (rget event ''data'')) names)"

definition approvalTargetsTask :: "string \<Rightarrow> string \<Rightarrow> int \<Rightarrow> task_condition \<Rightarrow> js_record \<Rightarrow> bool" where
  "approvalTargetsTask appId taskId taskGeneration condition event =
     (if csType (cnSpec condition) \<noteq> ''project.approval.submitted'' \<or>
         \<not> isHumanActionOwner (csOwner (cnSpec condition)) then True
      else eventField event [''appId''] = JStr appId \<and> eventField event [''taskId''] = JStr taskId \<and>
           rget (recordOf (jget (rget event ''data'') ''proposal'')) ''taskGeneration'' =
             JNum (num_int taskGeneration))"

definition normalizedState :: "js \<Rightarrow> string" where
  "normalizedState v =
     (let state = (case v of JStr s \<Rightarrow> to_lower (trim s) | _ \<Rightarrow> [])
      in if state \<in> {''converged'', ''complete'', ''completed'', ''success'', ''succeeded''} then ''done'' else state)"

section \<open>Comparators\<close>

datatype comparable = CNum rat rat | CStr string string

definition numberLike :: "js \<Rightarrow> jsnum" where
  "numberLike v = (case v of JNum n \<Rightarrow> n | JStr s \<Rightarrow> read_number s | _ \<Rightarrow> NaN)"

definition orderedComparablePair :: "js \<Rightarrow> js \<Rightarrow> comparable option" where
  "orderedComparablePair left right =
     (case (numberLike left, numberLike right) of
        (Fin a, Fin b) \<Rightarrow> Some (CNum a b)
      | _ \<Rightarrow> (case (left, right) of (JStr a, JStr b) \<Rightarrow> Some (CStr a b) | _ \<Rightarrow> None))"

fun compareWith :: "string \<Rightarrow> comparable \<Rightarrow> bool" where
  "compareWith op (CNum a b) =
     (if op = ''gt'' then b < a else if op = ''gte'' then b \<le> a
      else if op = ''lt'' then a < b else if op = ''lte'' then a \<le> b else False)"
| "compareWith op (CStr a b) =
     (if op = ''gt'' then b < a else if op = ''gte'' then b \<le> a
      else if op = ''lt'' then a < b else if op = ''lte'' then a \<le> b else False)"

definition matchesComparator :: "js \<Rightarrow> js \<Rightarrow> bool" where
  "matchesComparator actual expected =
     (case expected of
        JObj e \<Rightarrow>
          (let operators = filter (\<lambda>k. dget e k \<noteq> None) [''gt'', ''gte'', ''lt'', ''lte'']
           in operators \<noteq> [] \<and>
              list_all (\<lambda>op. orderedComparablePair actual (rget e op) \<noteq> None) operators \<and>
              list_all (\<lambda>op. case orderedComparablePair actual (rget e op) of
                 None \<Rightarrow> False | Some c \<Rightarrow> compareWith op c) operators)
      | _ \<Rightarrow> False)"

section \<open>Subjects\<close>

definition isKindStart :: "char \<Rightarrow> bool" where
  "isKindStart c \<longleftrightarrow> (let n = of_char c :: nat in 65 \<le> n \<and> n \<le> 90 \<or> 97 \<le> n \<and> n \<le> 122)"

definition isKindChar :: "char \<Rightarrow> bool" where
  "isKindChar c \<longleftrightarrow> isKindStart c \<or> is_digit c \<or> c \<in> {CHR ''_'', CHR ''.'', CHR ''-''}"

definition subjectKinds :: "(string \<times> string) list" where
  "subjectKinds = [(''task'', ''taskId''), (''session'', ''sessionId''), (''workflow-run'', ''workflowRunId''),
     (''metric'', ''metricId''), (''alert'', ''alertId''), (''project'', ''project''),
     (''pipeline-run'', ''pipelineRunId''), (''pull-request'', ''pullRequestId'')]"

definition typedSubject :: "string \<Rightarrow> (string \<times> string) option" where
  "typedSubject subject =
     (case find_index (\<lambda>c. c = CHR '':'') subject of
        None \<Rightarrow> None
      | Some i \<Rightarrow>
          if i = 0 \<or> i = length subject - 1 then None
          else
            (let kind = take i subject;
                 field = (case dget subjectKinds kind of
                            Some f \<Rightarrow> f
                          | None \<Rightarrow> if isKindStart (hd kind) \<and> list_all isKindChar (tl kind) then kind else [])
             in if field = [] then None else Some (field, drop (Suc i) subject)))"

definition fieldAliasTable :: "(string \<times> string list) list" where
  "fieldAliasTable = [(''taskId'', [''taskId'', ''task_id'']), (''sessionId'', [''sessionId'', ''session_id'']),
     (''workflowRunId'', [''workflowRunId'', ''workflow_run_id'', ''runId'']),
     (''metricId'', [''metricId'', ''metric_id'']), (''alertId'', [''alertId'', ''alert_id'']),
     (''project'', [''project'', ''projectId'', ''project_id'']),
     (''pipelineRunId'', [''pipelineRunId'', ''pipeline_run_id'', ''runId'', ''run_id'']),
     (''pullRequestId'', [''pullRequestId'', ''pull_request_id'', ''prId'', ''pr_id''])]"

definition fieldAliases :: "string \<Rightarrow> string list" where
  "fieldAliases field = (case dget fieldAliasTable field of Some names \<Rightarrow> names | None \<Rightarrow> [field])"

section \<open>Matching\<close>

definition timestampMillis :: "js \<Rightarrow> rat option" where
  "timestampMillis v =
     (case v of
        JNum (Fin r) \<Rightarrow> Some r
      | JStr s \<Rightarrow> if trim s = [] then None else map_option of_int (dateParse s)
      | _ \<Rightarrow> None)"

definition isFreshLevelObservation :: "task_condition \<Rightarrow> js_record \<Rightarrow> bool" where
  "isFreshLevelObservation condition event =
     (let t = csType (cnSpec condition);
          levelObservation = (t = ''aks.repo-ref.observed'' \<or> ends_with t ''.state'' \<or> ends_with t ''.check'' \<or>
            ends_with t ''.pulse'' \<or> ends_with t ''-pulse'')
      in if \<not> levelObservation then True
         else case (Option.bind (cnObservedAt condition) isoMillis, timestampMillis (rget event ''timestamp'')) of
             (Some established, Some observed) \<Rightarrow> of_int established \<le> observed
           | _ \<Rightarrow> True)"

definition matchesExpectedField :: "js_record \<Rightarrow> js_record \<Rightarrow> bool" where
  "matchesExpectedField expected event =
     (case rget expected ''field'' of
        JStr f \<Rightarrow>
          if trim f = [] then True
          else
            (let actual = eventField event (fieldAliases f)
             in case rget expected ''anyOf'' of
                  JArr xs \<Rightarrow> list_ex (\<lambda>c. stableEquals c actual) xs
                | _ \<Rightarrow>
                    if dget expected ''equals'' \<noteq> None then stableEquals (rget expected ''equals'') actual
                    else if dget expected ''notEquals'' \<noteq> None
                    then actual \<noteq> JUndef \<and> \<not> stableEquals (rget expected ''notEquals'') actual
                    else matchesComparator actual (JObj expected))
      | _ \<Rightarrow> True)"

definition reservedExpectedKeys :: "string list" where
  "reservedExpectedKeys = [''field'', ''anyOf'', ''equals'', ''notEquals'', ''gt'', ''gte'', ''lt'', ''lte'']"

definition matchesExpectedEntry :: "js_record \<Rightarrow> string \<times> js \<Rightarrow> bool" where
  "matchesExpectedEntry event fieldValue =
     (case fieldValue of (field, v) \<Rightarrow>
        if field \<in> set reservedExpectedKeys then True
        else case (field \<in> {''allowedDecisions'', ''acceptedDecisions''}, v) of
            (True, JArr xs) \<Rightarrow> list_ex (\<lambda>c. stableEquals c (eventField event [''decision''])) xs
          | _ \<Rightarrow> (let actual = eventField event (fieldAliases field)
                  in matchesComparator actual v \<or> stableEquals actual v))"

definition matchesExpectedRecord :: "js_record \<Rightarrow> js_record \<Rightarrow> bool" where
  "matchesExpectedRecord expected event \<longleftrightarrow>
     matchesExpectedField expected event \<and> list_all (matchesExpectedEntry event) expected"

definition decisionLists :: "js_record \<Rightarrow> js list list" where
  "decisionLists e = List.map_filter (\<lambda>v. case v of JArr xs \<Rightarrow> Some xs | _ \<Rightarrow> None)
     [rget e ''anyOf'', rget e ''allowedDecisions'', rget e ''acceptedDecisions'']"

definition isApprovalCondition :: "task_condition \<Rightarrow> bool" where
  "isApprovalCondition c \<longleftrightarrow> csType (cnSpec c) = ''project.approval.submitted'' \<and>
     isHumanActionOwner (csOwner (cnSpec c))"

definition matchesApproval :: "task_condition \<Rightarrow> js_record \<Rightarrow> bool" where
  "matchesApproval condition event =
     (case readVerifiedApprovalDecision (csType (cnSpec condition)) (asString (rget event ''source''))
             (case rget event ''data'' of JObj d \<Rightarrow> d | _ \<Rightarrow> event) of
        None \<Rightarrow> False
      | Some approval \<Rightarrow>
          (let proposal = apProposal approval; decision = apDecision approval;
               expected = csExpected (cnSpec condition)
           in rget proposal ''conditionId'' = JStr (cnId condition) \<and>
              rget proposal ''conditionGeneration'' = JNum (num_int (int (cnGeneration condition))) \<and>
              rget proposal ''subject'' = JStr (csSubject (cnSpec condition)) \<and>
              map_option trim (csRequestedAction (cnSpec condition)) = asString (rget proposal ''requestedAction'') \<and>
              deepStrictEquals (rget proposal ''expected'') expected \<and>
              isRecord expected \<and>
              (let e = recordOf expected; allowed = decisionLists e
               in allowed \<noteq> [] \<and>
                  list_all (list_ex (\<lambda>choice. deepStrictEquals choice (JStr decision))) allowed \<and>
                  matchesExpectedRecord e [(''data'', JObj (dset e ''decision'' (JStr decision)))])))"

definition matches :: "task_condition \<Rightarrow> js_record \<Rightarrow> bool" where
  "matches condition event =
     (if rget event ''type'' \<noteq> JStr (csType (cnSpec condition)) then False
      else if isApprovalCondition condition then matchesApproval condition event
      else if \<not> isFreshLevelObservation condition event then False
      else case typedSubject (csSubject (cnSpec condition)) of
          None \<Rightarrow> False
        | Some (field, v) \<Rightarrow>
            if js_String (orElse (eventField event (fieldAliases field)) (JStr [])) \<noteq> v then False
            else
              (let actual = eventField event [''state'', ''status'', ''disposition'', ''result'', ''outcome'']
               in case csExpected (cnSpec condition) of
                    JObj e \<Rightarrow> matchesExpectedRecord e event
                  | JStr s \<Rightarrow> normalizedState actual = normalizedState (JStr s)
                  | other \<Rightarrow> stableEquals actual other))"

section \<open>Progress and failure reports\<close>

definition isAppInputReport :: "task_condition \<Rightarrow> js_record \<Rightarrow> bool" where
  "isAppInputReport condition event \<longleftrightarrow>
     csType (cnSpec condition) = ''app.dependency.updated'' \<and>
     rget event ''type'' = JStr (csType (cnSpec condition)) \<and>
     starts_with (cnId condition) ''app-request:'' \<and>
     csSubject (cnSpec condition) = ''id:'' @ js_String (orElse (eventField event [''id'']) (JStr [])) \<and>
     eventField event [''kind''] = JStr ''app'' \<and>
     js_String (eventField event [''status'']) \<in> {''blocked'', ''progress''} \<and>
     stableEquals (csExpected (cnSpec condition))
       (JObj [(''field'', JStr ''status''), (''equals'', JStr ''done'')])"

type_synonym attempt_lookup = "(string \<Rightarrow> string \<Rightarrow> task_attempt option) option"

definition reportKind :: "js_record \<Rightarrow> attempt_lookup \<Rightarrow> report_kind" where
  "reportKind event store =
     (let declared = eventField event [''reportKind''] in
      if declared = JStr ''progress'' then RProgress
      else if declared = JStr ''failure'' then RFailure
      else if eventField event [''state'', ''status''] = JStr ''progress'' then RProgress
      else case (eventField event [''source''], eventField event [''reportAttemptId'']) of
          (JStr source, JStr attemptId) \<Rightarrow>
            if \<not> starts_with source ''app-inbox:'' then RFailure
            else
              (let appId = drop (length ''app-inbox:'') source
               in case (if appId = [] then None else Option.bind store (\<lambda>f. f appId attemptId)) of
                    None \<Rightarrow> RUnknown
                  | Some attempt \<Rightarrow>
                      if eventField event [''taskId''] \<noteq> JStr (atTaskId attempt) then RUnknown
                      else if map_option arState (atAcceptedResult attempt) = Some RWaiting then RProgress
                      else if map_option arState (atAcceptedResult attempt) = Some RIncomplete \<or>
                              atState attempt = AFailed then RFailure else RUnknown)
        | _ \<Rightarrow> RFailure)"

definition observedReports :: "task_condition \<Rightarrow> attempt_lookup \<Rightarrow> (report_kind, js_record) dict" where
  "observedReports condition store =
     (let reports = cnReports condition
      in case cnObserved condition of
           JObj observed \<Rightarrow>
             if js_String (rget observed ''state'') \<in> {''progress'', ''blocked''}
             then
               (let kind = reportKind observed store
                in if dget reports kind \<noteq> None then reports
                   else dset reports kind
                     (if kind = RProgress then dset observed ''state'' (JStr ''progress'') else observed))
             else reports
         | _ \<Rightarrow> reports)"

definition num_le :: "jsnum \<Rightarrow> jsnum \<Rightarrow> bool" where
  "num_le a b \<longleftrightarrow> a \<noteq> NaN \<and> b \<noteq> NaN \<and> \<not> num_less b a"

definition revisionOf :: "js_record \<Rightarrow> jsnum" where
  "revisionOf r = js_Number (orElse (rget r ''reportRevision'') (JNum (num_int 1)))"

text \<open>\<open>===\<close> on values that are primitive when equal.\<close>

definition strictEq :: "js \<Rightarrow> js \<Rightarrow> bool" where
  "strictEq a b = (case (a, b) of (JNum x, JNum y) \<Rightarrow> num_eq x y
     | (JArr _, _) \<Rightarrow> False | (JObj _, _) \<Rightarrow> False | _ \<Rightarrow> a = b)"

definition isNewReport :: "task_condition \<Rightarrow> js_record \<Rightarrow> attempt_lookup \<Rightarrow> bool" where
  "isNewReport condition event store =
     (let kind = reportKind event store; reports = observedReports condition store;
          revision = eventField event [''reportRevision''];
          eventRevision = js_Number (orElse revision (JNum (num_int 1)))
      in if (case dget reports RUnknown of
               None \<Rightarrow> False
             | Some old \<Rightarrow> eventField event [''status''] = JStr ''blocked'' \<and>
                 \<not> js_truthy (eventField event [''reportKind'']) \<and> num_le eventRevision (revisionOf old))
         then False
         else if list_ex (\<lambda>(_, report). js_truthy (rget report ''reportAttemptId'') \<and>
                   strictEq (rget report ''reportAttemptId'') (eventField event [''reportAttemptId'']) \<and>
                   num_eq (revisionOf report) eventRevision) reports
         then False
         else case dget reports kind of
             None \<Rightarrow> True
           | Some previous \<Rightarrow>
               (case revision of
                  JNum n \<Rightarrow> is_safe_integer n \<and> num_less (revisionOf previous) n
                | _ \<Rightarrow> False))"

definition matchesAppTaskCondition :: "task_condition option \<Rightarrow> js_record \<Rightarrow> attempt_lookup \<Rightarrow> bool" where
  "matchesAppTaskCondition condition event store =
     (case condition of
        None \<Rightarrow> False
      | Some c \<Rightarrow>
          if cnState c = CondTrue then False
          else if matches c event then True
          else if \<not> isAppInputReport c event then False
          else isNewReport c event store)"

definition matchesAppTaskConditionFacts :: "task_condition option \<Rightarrow> js_record \<Rightarrow> bool" where
  "matchesAppTaskConditionFacts condition event =
     (case condition of None \<Rightarrow> False | Some c \<Rightarrow> matches c event \<or> isAppInputReport c event)"

section \<open>Observing an event\<close>

definition isReportStatus :: "js \<Rightarrow> bool" where
  "isReportStatus v \<longleftrightarrow> js_String v \<in> {''blocked'', ''progress''}"

definition observation :: "js_record \<Rightarrow> js_record" where
  "observation event =
     (if rget event ''type'' = JStr ''app.dependency.updated'' \<and> isReportStatus (eventField event [''status''])
      then map (\<lambda>n. (n, eventField event [n]))
        [''summary'', ''response'', ''reportAttemptId'', ''reportRevision'', ''reportKind'', ''result'', ''facts'']
      else []) @
     [(''eventType'', rget event ''type''), (''source'', rget event ''source''),
      (''taskId'', eventField event [''taskId'', ''task_id'']),
      (''sessionId'', eventField event [''sessionId'', ''session_id'']),
      (''workflowRunId'', eventField event [''workflowRunId'', ''workflow_run_id'', ''runId'']),
      (''pipelineRunId'', eventField event [''pipelineRunId'', ''pipeline_run_id'', ''runId'', ''run_id'']),
      (''pullRequestId'', eventField event [''pullRequestId'', ''pull_request_id'', ''prId'', ''pr_id'']),
      (''sourceCommit'', eventField event [''sourceCommit'', ''source_commit'']),
      (''state'', eventField event [''state'', ''status'', ''disposition'', ''result'', ''outcome'']),
      (''timestamp'', rget event ''timestamp'')]"

text \<open>
  \<open>applyConditionEvent\<close> in its two passes. The first visits every Condition; its accumulator holds
  the Conditions as rewritten so far, the changed ids, the wakes of this event (Task id to Condition
  id) and whether anything changed. The second gives every woken Task the event in its trigger.
\<close>

record condition_pass =
  cpConditions :: "(string, task_condition) dict"
  cpChangedIds :: "string list"
  cpWakes :: "(string, string) dict"
  cpChanged :: bool

definition liveWaiter :: "task_resource \<Rightarrow> bool" where
  "liveWaiter r \<longleftrightarrow> tkPhase r \<in> {PhWaiting, PhRunning, PhPending} \<or>
     tkPhase r = PhAttention \<and> tkRetryExhausted r \<noteq> None"

definition waitingResources ::
  "task_tree \<Rightarrow> js_record \<Rightarrow> string list option \<Rightarrow> string \<Rightarrow> task_condition \<Rightarrow> task_resource list" where
  "waitingResources tree event allowed cid c =
     filter (\<lambda>r. liveWaiter r \<and> cid \<in> set (listOr (tkConditionIds r)) \<and>
         \<not> taskEventPredatesReopening (Some r) (Some event) \<and>
         (case allowed of None \<Rightarrow> True | Some ids \<Rightarrow> tkId r \<in> set ids) \<and>
         approvalTargetsTask (case trProject tree of None \<Rightarrow> [] | Some p \<Rightarrow> p) (tkId r) (int (tkGeneration r)) c event)
       (dvals (trResources tree))"

definition observeCondition ::
  "js_record \<Rightarrow> int \<Rightarrow> report_kind option \<Rightarrow> attempt_lookup \<Rightarrow> task_condition \<Rightarrow> task_condition" where
  "observeCondition event now kind store c =
     (let observed = (if kind = Some RProgress then dset (observation event) ''state'' (JStr ''progress'')
                      else observation event)
      in c\<lparr>cnVersion := cnVersion c + 1, cnObservedGeneration := cnGeneration c,
           cnState := (if kind \<noteq> None then CondFalse else CondTrue),
           cnObserved := JObj observed,
           cnReports := (case kind of None \<Rightarrow> cnReports c
              | Some k \<Rightarrow> dset (observedReports c store) k observed),
           cnObservedAt := Some (Iso now),
           cnFacts := Some ((''event:'' @ js_String (rget event ''type'')) #
             (if js_truthy (rget event ''source'') then [''source:'' @ js_String (rget event ''source'')] else []))\<rparr>)"

text \<open>The events a trigger holds: its list, or its single event when the list is missing or empty.\<close>

definition pendingEvents :: "task_trigger option \<Rightarrow> trigger_event list" where
  "pendingEvents trigger =
     (case trigger of
        None \<Rightarrow> []
      | Some t \<Rightarrow> if listOr (ttEvents t) \<noteq> [] then listOr (ttEvents t)
                  else [\<lparr>teEvent = ttEvent t, teObservedAt = ttObservedAt t\<rparr>])"

definition holdsEvent :: "trigger_event list \<Rightarrow> js_record \<Rightarrow> bool" where
  "holdsEvent es event = list_ex (\<lambda>e. sameEvent (teEvent e) event) es"

definition addWake :: "task_tree \<Rightarrow> js_record \<Rightarrow> string \<Rightarrow> (string, string) dict \<Rightarrow> task_resource \<Rightarrow> (string, string) dict" where
  "addWake tree event cid ws r =
     (if dget ws (tkId r) \<noteq> None then ws
      else if holdsEvent (pendingEvents (dget (trTriggers tree) (tkId r))) event then ws
      else dset ws (tkId r) cid)"

definition conditionStep ::
  "task_tree \<Rightarrow> js_record \<Rightarrow> int \<Rightarrow> string list option \<Rightarrow> attempt_lookup \<Rightarrow>
     condition_pass \<Rightarrow> string \<times> task_condition \<Rightarrow> condition_pass" where
  "conditionStep tree event now allowed store acc idc =
     (case idc of (cid, c) \<Rightarrow>
        let report = isAppInputReport c event in
        if (if report then \<not> matchesAppTaskCondition (Some c) event store else \<not> matches c event) then acc
        else
          (let kind = (if report then Some (reportKind event store) else None);
               waiting = waitingResources tree event allowed cid c
           in if waiting = [] then acc
              else
                (let acc' = (if cnState c \<noteq> CondTrue
                             then acc\<lparr>cpConditions := dset (cpConditions acc) cid (observeCondition event now kind store c),
                                      cpChangedIds := sadd (cpChangedIds acc) cid, cpChanged := True\<rparr>
                             else acc)
                 in if kind = Some RProgress \<and> csProgress (cnSpec c) = Some NextWake then acc'
                    else acc'\<lparr>cpWakes := foldl (addWake tree event cid) (cpWakes acc') waiting\<rparr>)))"

definition wakeTrigger :: "string \<Rightarrow> nat \<Rightarrow> js_record \<Rightarrow> int \<Rightarrow> task_trigger option \<Rightarrow> task_trigger" where
  "wakeTrigger taskId generation event now previous =
     (let prior = pendingEvents previous;
          events = (if holdsEvent prior event then prior
                    else prior @ [\<lparr>teEvent = event, teObservedAt = now\<rparr>])
      in \<lparr>ttTaskId = taskId, ttTaskGeneration = generation,
          ttVersion = (case previous of None \<Rightarrow> 0 | Some t \<Rightarrow> ttVersion t) + 1,
          ttEvents = Some events,
          ttEvent = (case previous of None \<Rightarrow> event | Some t \<Rightarrow> ttEvent t),
          ttObservedAt = now\<rparr>)"

definition deliverWake ::
  "js_record \<Rightarrow> int \<Rightarrow> task_tree \<times> (string, string) dict \<times> bool \<Rightarrow> string \<times> string \<Rightarrow>
     task_tree \<times> (string, string) dict \<times> bool" where
  "deliverWake event now acc wk =
     (case acc of (tree, wakes, changed) \<Rightarrow>
        case dget (trResources tree) (fst wk) of
          None \<Rightarrow> acc
        | Some r \<Rightarrow>
            (tree\<lparr>trTriggers := dset (trTriggers tree) (fst wk)
                 (wakeTrigger (fst wk) (tkGeneration r) event now (dget (trTriggers tree) (fst wk)))\<rparr>,
             dset wakes (fst wk) (snd wk), True))"

record condition_event_result =
  ceChanged :: bool
  ceTree :: task_tree
  ceWakes :: "(string, string) dict"
  ceChangedIds :: "string list"

definition applyConditionEvent ::
  "task_tree \<Rightarrow> js_record \<Rightarrow> int \<Rightarrow> (string, string) dict \<Rightarrow> string list option \<Rightarrow> string list \<Rightarrow>
     attempt_lookup \<Rightarrow> condition_event_result" where
  "applyConditionEvent tree event now wakes allowed changedIds store =
     (let pass = foldl (conditionStep tree event now allowed store)
            \<lparr>cpConditions = trConditions tree, cpChangedIds = changedIds, cpWakes = [], cpChanged = False\<rparr>
            (trConditions tree);
          (tree', wakes', changed) = foldl (deliverWake event now)
            (tree\<lparr>trConditions := cpConditions pass\<rparr>, wakes, cpChanged pass) (cpWakes pass)
      in \<lparr>ceChanged = changed, ceTree = tree', ceWakes = wakes', ceChangedIds = cpChangedIds pass\<rparr>)"

definition applyAppTaskConditionEvent ::
  "task_tree \<Rightarrow> js_record \<Rightarrow> int \<Rightarrow> attempt_lookup \<Rightarrow> (string \<times> string) list \<times> task_tree" where
  "applyAppTaskConditionEvent tree event now store =
     (let res = applyConditionEvent tree event now [] None [] store
      in (map (\<lambda>(t, c). (c, t)) (ceWakes res), ceTree res))"

text \<open>
  The routing preflight. The routes (a Condition and the Tasks that wait for it) and the lookup of a
  Task's generation come from the resource store.
\<close>

definition routeTasks ::
  "string \<Rightarrow> (string \<Rightarrow> task_resource option) \<Rightarrow> string list option \<Rightarrow> js_record \<Rightarrow> attempt_lookup \<Rightarrow>
     task_condition \<times> string list \<Rightarrow> string list" where
  "routeTasks appId readTask allowed event store route =
     (if \<not> matchesAppTaskCondition (Some (fst route)) event store then []
      else filter (\<lambda>taskId. (case allowed of None \<Rightarrow> True | Some ids \<Rightarrow> taskId \<in> set ids) \<and>
          (isApprovalCondition (fst route) \<longrightarrow>
             approvalTargetsTask appId taskId
               (case readTask taskId of None \<Rightarrow> - 1 | Some r \<Rightarrow> int (tkGeneration r)) (fst route) event))
        (snd route))"

definition matchingAppTaskConditionTaskIds ::
  "string \<Rightarrow> (string \<Rightarrow> string list option \<Rightarrow> (task_condition \<times> string list) list) \<Rightarrow>
     (string \<Rightarrow> task_resource option) \<Rightarrow> js_record \<Rightarrow> string list option \<Rightarrow> attempt_lookup \<Rightarrow> string list" where
  "matchingAppTaskConditionTaskIds appId readConditionRoutes readTask event allowed store =
     sort (uniq (concat (map (routeTasks appId readTask allowed event store)
       (readConditionRoutes (case rget event ''type'' of JStr s \<Rightarrow> s | _ \<Rightarrow> []) allowed))))"

section \<open>What one event does\<close>

text \<open>
  The trees the store hands out: every table has one entry per key, and a Task or Condition is filed
  under its own id.
\<close>

definition tree_keyed :: "task_tree \<Rightarrow> bool" where
  "tree_keyed t \<longleftrightarrow> dict_wf (trConditions t) \<and> dict_wf (trResources t) \<and> dict_wf (trTriggers t) \<and>
     list_all (\<lambda>(k, r). tkId r = k) (trResources t) \<and> list_all (\<lambda>(k, c). cnId c = k) (trConditions t)"

definition eventKind :: "js_record \<Rightarrow> attempt_lookup \<Rightarrow> task_condition \<Rightarrow> report_kind option" where
  "eventKind event store c = (if isAppInputReport c event then Some (reportKind event store) else None)"

definition admits ::
  "task_tree \<Rightarrow> js_record \<Rightarrow> string list option \<Rightarrow> attempt_lookup \<Rightarrow> string \<Rightarrow> task_condition \<Rightarrow> bool" where
  "admits tree event allowed store cid c \<longleftrightarrow>
     (if isAppInputReport c event then matchesAppTaskCondition (Some c) event store else matches c event) \<and>
     waitingResources tree event allowed cid c \<noteq> []"

definition quiet :: "js_record \<Rightarrow> attempt_lookup \<Rightarrow> task_condition \<Rightarrow> bool" where
  "quiet event store c \<longleftrightarrow> eventKind event store c = Some RProgress \<and> csProgress (cnSpec c) = Some NextWake"

lemma conditionStep_eq:
  "conditionStep tree event now allowed store acc (cid, c) =
     (if \<not> admits tree event allowed store cid c then acc
      else
        (let acc' = (if cnState c \<noteq> CondTrue
           then acc\<lparr>cpConditions := dset (cpConditions acc) cid (observeCondition event now (eventKind event store c) store c),
                    cpChangedIds := sadd (cpChangedIds acc) cid, cpChanged := True\<rparr> else acc)
         in if quiet event store c then acc'
            else acc'\<lparr>cpWakes := foldl (addWake tree event cid) (cpWakes acc')
                   (waitingResources tree event allowed cid c)\<rparr>))"
  by (simp add: conditionStep_def admits_def quiet_def eventKind_def Let_def)

lemma cpConditions_step:
  "cpConditions (conditionStep tree event now allowed store acc (cid, c)) =
     (if admits tree event allowed store cid c \<and> cnState c \<noteq> CondTrue
      then dset (cpConditions acc) cid (observeCondition event now (eventKind event store c) store c)
      else cpConditions acc)"
  by (simp add: conditionStep_eq Let_def)

lemma cpChangedIds_step:
  "cpChangedIds (conditionStep tree event now allowed store acc (cid, c)) =
     (if admits tree event allowed store cid c \<and> cnState c \<noteq> CondTrue
      then sadd (cpChangedIds acc) cid else cpChangedIds acc)"
  by (simp add: conditionStep_eq Let_def)

lemma cpChanged_step:
  "cpChanged (conditionStep tree event now allowed store acc (cid, c)) \<longleftrightarrow>
     cpChanged acc \<or> admits tree event allowed store cid c \<and> cnState c \<noteq> CondTrue"
  by (simp add: conditionStep_eq Let_def)

lemma cpWakes_step:
  "cpWakes (conditionStep tree event now allowed store acc (cid, c)) =
     (if admits tree event allowed store cid c \<and> \<not> quiet event store c
      then foldl (addWake tree event cid) (cpWakes acc) (waitingResources tree event allowed cid c)
      else cpWakes acc)"
  by (simp add: conditionStep_eq Let_def)

lemmas pass_steps = cpConditions_step cpChangedIds_step cpChanged_step cpWakes_step

lemma pass_conditions:
  "dict_wf cs \<Longrightarrow> dget (cpConditions (foldl (conditionStep tree event now allowed store) acc cs)) cid =
     (case dget cs cid of
        None \<Rightarrow> dget (cpConditions acc) cid
      | Some c \<Rightarrow> if admits tree event allowed store cid c \<and> cnState c \<noteq> CondTrue
          then Some (observeCondition event now (eventKind event store c) store c)
          else dget (cpConditions acc) cid)"
proof (induction cs arbitrary: acc)
  case Nil
  then show ?case by simp
next
  case (Cons x cs)
  obtain k c where x: "x = (k, c)" by (cases x)
  from Cons.prems x have wf: "dict_wf cs" and k: "dget cs k = None"
    by (simp_all add: dict_wf_def dget_None_iff dkeys_def)
  from k have "dget cs cid = None" if "cid = k" using that by simp
  then show ?case
    using Cons.IH [OF wf, of "conditionStep tree event now allowed store acc (k, c)"]
    unfolding x by (auto simp: cpConditions_step split: option.splits)
qed

lemma pass_keys:
  "set (map fst cs) \<subseteq> set (dkeys (cpConditions acc)) \<Longrightarrow>
   dkeys (cpConditions (foldl (conditionStep tree event now allowed store) acc cs)) = dkeys (cpConditions acc)"
proof (induction cs arbitrary: acc)
  case (Cons x cs)
  obtain k c where x: "x = (k, c)" by (cases x)
  let ?acc = "conditionStep tree event now allowed store acc x"
  have "dkeys (cpConditions ?acc) = dkeys (cpConditions acc)"
    using Cons.prems x by (simp add: cpConditions_step dkeys_dset sadd_def)
  with Cons.IH [of ?acc] Cons.prems show ?case by simp
qed simp

lemma pass_changed_ids:
  "set (cpChangedIds (foldl (conditionStep tree event now allowed store) acc cs)) =
     set (cpChangedIds acc) \<union> {cid. \<exists>c. (cid, c) \<in> set cs \<and> admits tree event allowed store cid c \<and> cnState c \<noteq> CondTrue}"
proof (induction cs arbitrary: acc)
  case (Cons x cs)
  obtain k c where "x = (k, c)" by (cases x)
  then show ?case
    using Cons.IH [of "conditionStep tree event now allowed store acc (k, c)"]
    by (cases "admits tree event allowed store k c \<and> cnState c \<noteq> CondTrue")
      (simp_all add: cpChangedIds_step, blast+)
qed simp

lemma pass_changed:
  "cpChanged (foldl (conditionStep tree event now allowed store) acc cs) \<longleftrightarrow>
     cpChanged acc \<or> (\<exists>cid c. (cid, c) \<in> set cs \<and> admits tree event allowed store cid c \<and> cnState c \<noteq> CondTrue)"
proof (induction cs arbitrary: acc)
  case (Cons x cs)
  obtain k c where "x = (k, c)" by (cases x)
  then show ?case
    using Cons.IH [of "conditionStep tree event now allowed store acc (k, c)"]
    by (simp add: cpChanged_step) blast
qed simp

lemma addWake_get:
  "dget (addWake tree event cid ws r) t =
     (case dget ws t of Some x \<Rightarrow> Some x
      | None \<Rightarrow> if tkId r = t \<and> \<not> holdsEvent (pendingEvents (dget (trTriggers tree) t)) event then Some cid else None)"
  by (auto simp: addWake_def split: option.splits)

lemma addWakes_get:
  "dget (foldl (addWake tree event cid) ws rs) t =
     (case dget ws t of Some x \<Rightarrow> Some x
      | None \<Rightarrow> if (\<exists>r \<in> set rs. tkId r = t) \<and> \<not> holdsEvent (pendingEvents (dget (trTriggers tree) t)) event
          then Some cid else None)"
  by (induction rs arbitrary: ws) (auto simp: addWake_get split: option.splits)

lemma addWakes_wf: "dict_wf ws \<Longrightarrow> dict_wf (foldl (addWake tree event cid) ws rs)"
  by (induction rs arbitrary: ws) (simp_all add: addWake_def)

lemma pass_wakes_wf:
  "dict_wf (cpWakes acc) \<Longrightarrow> dict_wf (cpWakes (foldl (conditionStep tree event now allowed store) acc cs))"
proof (induction cs arbitrary: acc)
  case (Cons x cs)
  obtain k c where "x = (k, c)" by (cases x)
  with Cons show ?case by (simp add: cpWakes_step addWakes_wf)
qed simp

text \<open>The Conditions through which an event wakes a Task.\<close>

definition wakesThrough ::
  "task_tree \<Rightarrow> js_record \<Rightarrow> string list option \<Rightarrow> attempt_lookup \<Rightarrow> string \<Rightarrow> task_condition \<Rightarrow> string \<Rightarrow> bool" where
  "wakesThrough tree event allowed store cid c t \<longleftrightarrow>
     admits tree event allowed store cid c \<and> \<not> quiet event store c \<and>
     (\<exists>r \<in> set (waitingResources tree event allowed cid c). tkId r = t) \<and>
     \<not> holdsEvent (pendingEvents (dget (trTriggers tree) t)) event"

lemma pass_wakes_sound:
  "dget (cpWakes (foldl (conditionStep tree event now allowed store) acc cs)) t = Some cid \<Longrightarrow>
     dget (cpWakes acc) t = Some cid \<or> (\<exists>c. (cid, c) \<in> set cs \<and> wakesThrough tree event allowed store cid c t)"
proof (induction cs arbitrary: acc)
  case Nil
  then show ?case by simp
next
  case (Cons x cs)
  obtain k c where x: "x = (k, c)" by (cases x)
  from Cons.IH [of "conditionStep tree event now allowed store acc x"] Cons.prems
  consider "dget (cpWakes (conditionStep tree event now allowed store acc x)) t = Some cid"
    | "\<exists>c. (cid, c) \<in> set cs \<and> wakesThrough tree event allowed store cid c t" by auto
  then show ?case
  proof cases
    case 1
    then show ?thesis using x
      by (auto simp: cpWakes_step addWakes_get wakesThrough_def split: if_splits option.splits)
  next
    case 2
    then show ?thesis by auto
  qed
qed

lemma pass_wakes_complete:
  "(\<exists>cid c. (cid, c) \<in> set cs \<and> wakesThrough tree event allowed store cid c t) \<or> dget (cpWakes acc) t \<noteq> None \<Longrightarrow>
     dget (cpWakes (foldl (conditionStep tree event now allowed store) acc cs)) t \<noteq> None"
proof (induction cs arbitrary: acc)
  case Nil
  then show ?case by simp
next
  case (Cons x cs)
  obtain k c where x: "x = (k, c)" by (cases x)
  let ?acc = "conditionStep tree event now allowed store acc x"
  have "dget (cpWakes ?acc) t \<noteq> None" if "wakesThrough tree event allowed store k c t \<or> dget (cpWakes acc) t \<noteq> None"
    using that x by (auto simp: cpWakes_step addWakes_get wakesThrough_def split: option.splits)
  with Cons.prems x have "(\<exists>cid c. (cid, c) \<in> set cs \<and> wakesThrough tree event allowed store cid c t) \<or>
    dget (cpWakes ?acc) t \<noteq> None" by auto
  with Cons.IH [of ?acc] show ?case by simp
qed

lemma deliverWake_step:
  "deliverWake event now (t, ws, ch) (k, c) =
     (case dget (trResources t) k of
        None \<Rightarrow> (t, ws, ch)
      | Some r \<Rightarrow>
          (t\<lparr>trTriggers := dset (trTriggers t) k
               (wakeTrigger k (tkGeneration r) event now (dget (trTriggers t) k))\<rparr>,
           dset ws k c, True))"
  by (simp add: deliverWake_def split: option.split)

lemma deliver_frame:
  "foldl (deliverWake event now) (t, ws, ch) ks = (t', ws', ch') \<Longrightarrow>
     trResources t' = trResources t \<and> trConditions t' = trConditions t \<and> trProject t' = trProject t \<and>
     (ch' \<longleftrightarrow> ch \<or> (\<exists>k \<in> set ks. dget (trResources t) (fst k) \<noteq> None))"
proof (induction ks arbitrary: t ws ch)
  case (Cons x ks)
  obtain n c where x: "x = (n, c)" by (cases x)
  obtain t1 ws1 ch1 where s: "deliverWake event now (t, ws, ch) (n, c) = (t1, ws1, ch1)"
    by (metis prod_cases3)
  with Cons.prems x have "foldl (deliverWake event now) (t1, ws1, ch1) ks = (t', ws', ch')" by simp
  from Cons.IH [OF this] s x show ?case
    by (auto simp: deliverWake_step split: option.splits)
qed simp

lemma deliver_get:
  "foldl (deliverWake event now) (t, ws, ch) ks = (t', ws', ch') \<Longrightarrow> dict_wf ks \<Longrightarrow>
     dget (trTriggers t') k = (case (dget ks k, dget (trResources t) k) of
        (Some _, Some r) \<Rightarrow> Some (wakeTrigger k (tkGeneration r) event now (dget (trTriggers t) k))
      | _ \<Rightarrow> dget (trTriggers t) k) \<and>
     dget ws' k = (case (dget ks k, dget (trResources t) k) of
        (Some c, Some r) \<Rightarrow> Some c | _ \<Rightarrow> dget ws k)"
proof (induction ks arbitrary: t ws ch)
  case (Cons x ks)
  obtain n c where x: "x = (n, c)" by (cases x)
  from Cons.prems(2) x have wf: "dict_wf ks" and n: "dget ks n = None"
    by (simp_all add: dict_wf_def dget_None_iff dkeys_def)
  show ?case
  proof (cases "dget (trResources t) n")
    case None
    with Cons.prems(1) x have "foldl (deliverWake event now) (t, ws, ch) ks = (t', ws', ch')"
      by (simp add: deliverWake_step)
    from Cons.IH [OF this wf] None n x show ?thesis by (auto split: option.splits)
  next
    case (Some r)
    with Cons.prems(1) x have "foldl (deliverWake event now)
      (t\<lparr>trTriggers := dset (trTriggers t) n
           (wakeTrigger n (tkGeneration r) event now (dget (trTriggers t) n))\<rparr>,
       dset ws n c, True) ks = (t', ws', ch')" by (simp add: deliverWake_step)
    from Cons.IH [OF this wf] Some n x show ?thesis by (auto split: option.splits)
  qed
qed simp

definition firstPass ::
  "task_tree \<Rightarrow> js_record \<Rightarrow> int \<Rightarrow> string list option \<Rightarrow> string list \<Rightarrow> attempt_lookup \<Rightarrow> condition_pass" where
  "firstPass tree event now allowed ids store =
     foldl (conditionStep tree event now allowed store)
       \<lparr>cpConditions = trConditions tree, cpChangedIds = ids, cpWakes = [], cpChanged = False\<rparr> (trConditions tree)"

lemma applyConditionEvent_eq:
  assumes "foldl (deliverWake event now)
      (tree\<lparr>trConditions := cpConditions (firstPass tree event now allowed ids store)\<rparr>, wakes,
       cpChanged (firstPass tree event now allowed ids store))
      (cpWakes (firstPass tree event now allowed ids store)) = (t', w', ch')"
  shows "applyConditionEvent tree event now wakes allowed ids store =
     \<lparr>ceChanged = ch', ceTree = t', ceWakes = w',
      ceChangedIds = cpChangedIds (firstPass tree event now allowed ids store)\<rparr>"
  using assms by (simp add: applyConditionEvent_def firstPass_def Let_def)

lemma apply_frame:
  "trResources (ceTree (applyConditionEvent tree event now wakes allowed ids store)) = trResources tree"
  "trProject (ceTree (applyConditionEvent tree event now wakes allowed ids store)) = trProject tree"
  "trConditions (ceTree (applyConditionEvent tree event now wakes allowed ids store)) =
     cpConditions (firstPass tree event now allowed ids store)"
  "ceChangedIds (applyConditionEvent tree event now wakes allowed ids store) =
     cpChangedIds (firstPass tree event now allowed ids store)"
proof -
  obtain t' w' ch' where d: "foldl (deliverWake event now)
      (tree\<lparr>trConditions := cpConditions (firstPass tree event now allowed ids store)\<rparr>, wakes,
       cpChanged (firstPass tree event now allowed ids store))
      (cpWakes (firstPass tree event now allowed ids store)) = (t', w', ch')"
    by (metis prod_cases3)
  note eq = applyConditionEvent_eq [OF d] and fr = deliver_frame [OF d]
  show
    "trResources (ceTree (applyConditionEvent tree event now wakes allowed ids store)) = trResources tree"
    "trProject (ceTree (applyConditionEvent tree event now wakes allowed ids store)) = trProject tree"
    "trConditions (ceTree (applyConditionEvent tree event now wakes allowed ids store)) =
       cpConditions (firstPass tree event now allowed ids store)"
    "ceChangedIds (applyConditionEvent tree event now wakes allowed ids store) =
       cpChangedIds (firstPass tree event now allowed ids store)"
    using fr by (simp_all add: eq)
qed

lemma first_condition:
  assumes "tree_keyed tree"
  shows "dget (cpConditions (firstPass tree event now allowed ids store)) cid =
    map_option (\<lambda>c. if admits tree event allowed store cid c \<and> cnState c \<noteq> CondTrue
       then observeCondition event now (eventKind event store c) store c else c) (dget (trConditions tree) cid)"
  using assms by (simp add: firstPass_def pass_conditions tree_keyed_def split: option.splits)

lemma waiting_resource:
  assumes "tree_keyed tree" and "r \<in> set (waitingResources tree event allowed cid c)"
  shows "dget (trResources tree) (tkId r) = Some r \<and> liveWaiter r \<and> cid \<in> set (listOr (tkConditionIds r)) \<and>
    \<not> taskEventPredatesReopening (Some r) (Some event) \<and> (\<forall>ids. allowed = Some ids \<longrightarrow> tkId r \<in> set ids) \<and>
    approvalTargetsTask (case trProject tree of None \<Rightarrow> [] | Some p \<Rightarrow> p) (tkId r) (int (tkGeneration r)) c event"
proof -
  from assms(2) obtain k where k: "(k, r) \<in> set (trResources tree)"
    by (auto simp: waitingResources_def dvals_def)
  with assms(1) have "dget (trResources tree) (tkId r) = Some r"
    by (auto simp: tree_keyed_def list_all_iff intro: dict_wf_dget)
  with assms(2) show ?thesis by (auto simp: waitingResources_def split: option.splits)
qed

lemma wake_resource:
  assumes "tree_keyed tree" and "dget (cpWakes (firstPass tree event now allowed ids store)) k = Some cid"
  obtains c r where "dget (trConditions tree) cid = Some c" and "admits tree event allowed store cid c"
    and "\<not> quiet event store c" and "r \<in> set (waitingResources tree event allowed cid c)" and "tkId r = k"
    and "dget (trResources tree) k = Some r"
    and "\<not> holdsEvent (pendingEvents (dget (trTriggers tree) k)) event"
proof -
  from pass_wakes_sound [OF assms(2) [unfolded firstPass_def]] obtain c
    where c: "(cid, c) \<in> set (trConditions tree)" "wakesThrough tree event allowed store cid c k" by auto
  from c(1) assms(1) have "dget (trConditions tree) cid = Some c"
    by (auto simp: tree_keyed_def intro: dict_wf_dget)
  with c(2) waiting_resource [OF assms(1)] that show ?thesis by (auto simp: wakesThrough_def)
qed

lemma apply_triggers:
  assumes "tree_keyed tree"
  shows "dget (trTriggers (ceTree (applyConditionEvent tree event now wakes allowed ids store))) k =
    (case dget (cpWakes (firstPass tree event now allowed ids store)) k of
       None \<Rightarrow> dget (trTriggers tree) k
     | Some cid \<Rightarrow> map_option (\<lambda>r. wakeTrigger k (tkGeneration r) event now (dget (trTriggers tree) k))
         (dget (trResources tree) k))"
    and "dget (ceWakes (applyConditionEvent tree event now wakes allowed ids store)) k =
    (case dget (cpWakes (firstPass tree event now allowed ids store)) k of
       None \<Rightarrow> dget wakes k | Some cid \<Rightarrow> Some cid)"
proof -
  obtain t' w' ch' where d: "foldl (deliverWake event now)
      (tree\<lparr>trConditions := cpConditions (firstPass tree event now allowed ids store)\<rparr>, wakes,
       cpChanged (firstPass tree event now allowed ids store))
      (cpWakes (firstPass tree event now allowed ids store)) = (t', w', ch')"
    by (metis prod_cases3)
  have wf: "dict_wf (cpWakes (firstPass tree event now allowed ids store))"
    unfolding firstPass_def by (rule pass_wakes_wf) simp
  have r: "dget (trResources tree) k \<noteq> None"
    if "dget (cpWakes (firstPass tree event now allowed ids store)) k = Some cid" for cid
    using wake_resource [OF assms that] by (metis option.discI)
  note eq = applyConditionEvent_eq [OF d] and g = deliver_get [OF d wf, of k]
  show "dget (trTriggers (ceTree (applyConditionEvent tree event now wakes allowed ids store))) k =
    (case dget (cpWakes (firstPass tree event now allowed ids store)) k of
       None \<Rightarrow> dget (trTriggers tree) k
     | Some cid \<Rightarrow> map_option (\<lambda>r. wakeTrigger k (tkGeneration r) event now (dget (trTriggers tree) k))
         (dget (trResources tree) k))"
    using g r by (auto simp: eq split: option.splits)
  show "dget (ceWakes (applyConditionEvent tree event now wakes allowed ids store)) k =
    (case dget (cpWakes (firstPass tree event now allowed ids store)) k of
       None \<Rightarrow> dget wakes k | Some cid \<Rightarrow> Some cid)"
    using g r by (auto simp: eq split: option.splits)
qed

section \<open>Examples\<close>

text \<open>A Task waiting for a human approval, the approval, and a Task waiting for another Task.\<close>

definition approvalSpec :: condition_spec where
  "approvalSpec = \<lparr>csType = ''project.approval.submitted'', csSubject = ''release:7'',
     csExpected = JObj [(''allowedDecisions'', JArr [JStr ''approve'', JStr ''reject''])],
     csRequestedAction = Some ''ship'', csOwner = Some ''human'', csReviewAfterMs = None, csProgress = None\<rparr>"

definition approvalTree :: task_tree where
  "approvalTree = emptyTree\<lparr>trProject := Some ''app'',
     trConditions := [(''ok'', blankCondition ''ok'' approvalSpec)],
     trResources := [(''t'', (blankTask ''t'')\<lparr>tkPhase := PhWaiting, tkConditionIds := Some [''ok'']\<rparr>)]\<rparr>"

definition approvalEvent :: js_record where
  "approvalEvent = [(''eventId'', JNum (num_int 9)), (''type'', JStr ''project.approval.submitted''),
     (''source'', JStr ''telegram''), (''appId'', JStr ''app''), (''taskId'', JStr ''t''),
     (''data'', JObj [(''decision'', JStr ''approve''),
        (''hostApproval'', JObj [(''version'', JNum (num_int 1)), (''ingressSource'', JStr ''telegram''),
           (''actor'', JObj [(''kind'', JStr ''human''), (''id'', JStr ''42'')]),
           (''authorization'', JObj [(''reference'', JStr ''m1''), (''evidence'', JObj [])])]),
        (''proposal'', JObj [(''taskGeneration'', JNum (num_int 1)), (''conditionId'', JStr ''ok''),
           (''conditionGeneration'', JNum (num_int 1)), (''subject'', JStr ''release:7''),
           (''requestedAction'', JStr ''ship''),
           (''expected'', JObj [(''allowedDecisions'', JArr [JStr ''approve'', JStr ''reject''])])])])]"

abbreviation approvalResult :: condition_event_result where
  "approvalResult \<equiv> applyConditionEvent approvalTree approvalEvent 5 [] None [] None"

lemma approvalTree_keyed: "tree_keyed approvalTree"
  by (simp add: approvalTree_def tree_keyed_def emptyTree_def dict_wf_def blankTask_def blankCondition_def)

lemma approval_condition:
  "dget (trConditions approvalTree) ''ok'' = Some (blankCondition ''ok'' approvalSpec)"
  by (simp add: approvalTree_def)

lemma approval_observed:
  "map_option cnState (dget (trConditions (ceTree approvalResult)) ''ok'') = Some CondTrue \<and>
   ceWakes approvalResult = [(''t'', ''ok'')]"
  by code_simp

section \<open>Properties\<close>

lemma observeCondition_fields [simp]:
  "cnId (observeCondition event now k store c) = cnId c"
  "cnGeneration (observeCondition event now k store c) = cnGeneration c"
  "cnSpec (observeCondition event now k store c) = cnSpec c"
  "cnVersion (observeCondition event now k store c) = Suc (cnVersion c)"
  "cnState (observeCondition event now k store c) = (if k = None then CondTrue else CondFalse)"
  by (simp_all add: observeCondition_def Let_def)

lemma admits_waiter:
  assumes "tree_keyed tree" and "admits tree event allowed store cid c"
  obtains r where "r \<in> set (waitingResources tree event allowed cid c)"
    and "dget (trResources tree) (tkId r) = Some r" and "liveWaiter r"
    and "cid \<in> set (listOr (tkConditionIds r))" and "\<not> taskEventPredatesReopening (Some r) (Some event)"
proof -
  from assms(2) obtain r where "r \<in> set (waitingResources tree event allowed cid c)"
    by (cases "waitingResources tree event allowed cid c") (auto simp: admits_def)
  with waiting_resource [OF assms(1) this] that show ?thesis by blast
qed

text \<open>
  C18. Observing an event is conservative. No Condition appears or disappears, and none changes its id,
  generation or specification. A Condition either stays exactly as it was or, if it was not yet true,
  moves to the next version, is reported as changed, is matched by the event, and is awaited by a live
  Task that the event does not predate. It becomes true only on an exact match.
\<close>

theorem condition_observation_sound:
  assumes "tree_keyed tree" and "dget (trConditions tree) cid = Some c"
  shows "let res = applyConditionEvent tree event now [] allowed [] store in
    dkeys (trConditions (ceTree res)) = dkeys (trConditions tree) \<and>
    (\<exists>c'. dget (trConditions (ceTree res)) cid = Some c' \<and>
       cnId c' = cnId c \<and> cnGeneration c' = cnGeneration c \<and> cnSpec c' = cnSpec c \<and>
       (c' = c \<or>
        cnState c \<noteq> CondTrue \<and> cnVersion c' = Suc (cnVersion c) \<and> cid \<in> set (ceChangedIds res) \<and>
        matchesAppTaskConditionFacts (Some c) event \<and> (cnState c' = CondTrue \<longleftrightarrow> \<not> isAppInputReport c event) \<and>
        (cnState c' = CondTrue \<longrightarrow> matches c event) \<and>
        (\<exists>r. dget (trResources tree) (tkId r) = Some r \<and> liveWaiter r \<and>
           cid \<in> set (listOr (tkConditionIds r)) \<and> \<not> taskEventPredatesReopening (Some r) (Some event))))"
proof -
  let ?pass = "firstPass tree event now allowed [] store"
  have keys: "dkeys (cpConditions ?pass) = dkeys (trConditions tree)"
    unfolding firstPass_def by (subst pass_keys) (simp_all add: dkeys_def)
  have get: "dget (cpConditions ?pass) cid = Some (if admits tree event allowed store cid c \<and> cnState c \<noteq> CondTrue
      then observeCondition event now (eventKind event store c) store c else c)"
    using first_condition [OF assms(1)] assms(2) by simp
  show ?thesis
  proof (cases "admits tree event allowed store cid c \<and> cnState c \<noteq> CondTrue")
    case True
    then obtain r where r: "dget (trResources tree) (tkId r) = Some r" "liveWaiter r"
      "cid \<in> set (listOr (tkConditionIds r))" "\<not> taskEventPredatesReopening (Some r) (Some event)"
      using admits_waiter [OF assms(1)] by blast
    have changed: "cid \<in> set (cpChangedIds ?pass)"
      using True dget_Some_in [OF assms(2)] by (auto simp: firstPass_def pass_changed_ids)
    have "matchesAppTaskConditionFacts (Some c) event" "\<not> isAppInputReport c event \<longrightarrow> matches c event"
      using True by (auto simp: admits_def matchesAppTaskConditionFacts_def)
    with True r changed get show ?thesis
      by (auto simp: Let_def apply_frame keys eventKind_def intro!: exI [of _ r])
  next
    case False
    with get show ?thesis by (simp add: Let_def apply_frame keys)
  qed
qed

theorem condition_observation_sound_witness:
  "dkeys (trConditions (ceTree approvalResult)) = [''ok''] \<and>
   (\<exists>c'. dget (trConditions (ceTree approvalResult)) ''ok'' = Some c' \<and> cnVersion c' = 2 \<and>
      ''ok'' \<in> set (ceChangedIds approvalResult))"
proof -
  have "\<exists>c'. dget (trConditions (ceTree approvalResult)) ''ok'' = Some c' \<and> cnState c' = CondTrue"
    using approval_observed by auto
  then show ?thesis
    using condition_observation_sound [OF approvalTree_keyed approval_condition,
        of approvalEvent 5 None None]
    by (auto simp: Let_def approvalTree_def blankCondition_def dkeys_def)
qed

text \<open>
  C19. Delivery is exact. A Task is woken only through a Condition it waits for, that matched the event
  and is not a quiet progress report; its earlier pending events stay in order, and the event is
  appended to them once. The trigger of every other Task is untouched, and so are all Tasks.
\<close>

theorem condition_wake_exact:
  assumes "tree_keyed tree"
  shows "let res = applyConditionEvent tree event now [] allowed [] store in
    trResources (ceTree res) = trResources tree \<and>
    (case dget (ceWakes res) k of
       None \<Rightarrow> dget (trTriggers (ceTree res)) k = dget (trTriggers tree) k
     | Some cid \<Rightarrow> \<exists>c r t. dget (trConditions tree) cid = Some c \<and> dget (trResources tree) k = Some r \<and>
         cid \<in> set (listOr (tkConditionIds r)) \<and> liveWaiter r \<and> matchesAppTaskConditionFacts (Some c) event \<and>
         \<not> quiet event store c \<and> (\<forall>ids. allowed = Some ids \<longrightarrow> k \<in> set ids) \<and>
         dget (trTriggers (ceTree res)) k = Some t \<and> ttTaskGeneration t = tkGeneration r \<and>
         \<not> holdsEvent (pendingEvents (dget (trTriggers tree) k)) event \<and>
         pendingEvents (Some t) =
           pendingEvents (dget (trTriggers tree) k) @ [\<lparr>teEvent = event, teObservedAt = now\<rparr>])"
proof -
  let ?res = "applyConditionEvent tree event now [] allowed [] store"
  let ?pass = "firstPass tree event now allowed [] store"
  note tw = apply_triggers [OF assms, of event now "[]" allowed "[]" store k]
  show ?thesis
  proof (cases "dget (cpWakes ?pass) k")
    case None
    with tw show ?thesis by (simp add: Let_def apply_frame)
  next
    case (Some cid)
    from wake_resource [OF assms this] obtain c r where cr: "dget (trConditions tree) cid = Some c"
      "admits tree event allowed store cid c" "\<not> quiet event store c"
      "r \<in> set (waitingResources tree event allowed cid c)" "tkId r = k" "dget (trResources tree) k = Some r"
      "\<not> holdsEvent (pendingEvents (dget (trTriggers tree) k)) event" by blast
    from cr(2) have facts: "matchesAppTaskConditionFacts (Some c) event"
      by (auto simp: admits_def matchesAppTaskConditionFacts_def split: if_splits)
    let ?t = "wakeTrigger k (tkGeneration r) event now (dget (trTriggers tree) k)"
    have t: "pendingEvents (Some ?t) = pendingEvents (dget (trTriggers tree) k) @
        [\<lparr>teEvent = event, teObservedAt = now\<rparr>] \<and> ttTaskGeneration ?t = tkGeneration r"
      using cr(7) by (simp add: wakeTrigger_def pendingEvents_def [of "Some _"] Let_def)
    from waiting_resource [OF assms cr(4)] cr facts t tw Some show ?thesis
      by (auto simp: Let_def apply_frame intro!: exI [of _ c])
  qed
qed

theorem condition_wake_exact_witness:
  "\<exists>t. dget (trTriggers (ceTree approvalResult)) ''t'' = Some t \<and>
     pendingEvents (Some t) = [\<lparr>teEvent = approvalEvent, teObservedAt = 5\<rparr>]"
proof -
  have "pendingEvents (dget (trTriggers approvalTree) ''t'') = []"
    by (simp add: approvalTree_def emptyTree_def pendingEvents_def)
  then show ?thesis
    using condition_wake_exact [OF approvalTree_keyed, of approvalEvent 5 None None "''t''"] approval_observed
    by (auto simp: Let_def)
qed

lemma sameEvent_refl [simp]: "sameEvent e e"
  by (simp add: sameEvent_def Let_def)

lemma addWakes_idle:
  "(\<And>r. r \<in> set rs \<Longrightarrow> holdsEvent (pendingEvents (dget (trTriggers tree) (tkId r))) event) \<Longrightarrow>
   foldl (addWake tree event cid) ws rs = ws"
  by (induction rs arbitrary: ws) (simp_all add: addWake_def)

lemma pass_idle:
  assumes "\<And>cid c. (cid, c) \<in> set cs \<Longrightarrow> admits tree event allowed store cid c \<Longrightarrow>
      cnState c = CondTrue \<and> (\<forall>r \<in> set (waitingResources tree event allowed cid c).
        quiet event store c \<or> holdsEvent (pendingEvents (dget (trTriggers tree) (tkId r))) event)"
  shows "foldl (conditionStep tree event now allowed store) acc cs = acc"
  using assms
proof (induction cs arbitrary: acc)
  case (Cons x cs)
  obtain k c where x: "x = (k, c)" by (cases x)
  have "conditionStep tree event now allowed store acc x = acc"
    using Cons.prems [of k c] x
    by (cases "quiet event store c") (auto simp: conditionStep_eq Let_def addWakes_idle)
  moreover have "foldl (conditionStep tree event now allowed store) acc cs = acc"
    by (rule Cons.IH) (rule Cons.prems, simp_all)
  ultimately show ?case by simp
qed simp

lemma apply_idle:
  assumes "firstPass tree event now allowed ids store =
    \<lparr>cpConditions = trConditions tree, cpChangedIds = ids, cpWakes = [], cpChanged = False\<rparr>"
  shows "applyConditionEvent tree event now wakes allowed ids store =
    \<lparr>ceChanged = False, ceTree = tree, ceWakes = wakes, ceChangedIds = ids\<rparr>"
  using assms by (simp add: applyConditionEvent_def firstPass_def Let_def)

lemma report_of_spec:
  "cnId c' = cnId c \<Longrightarrow> cnSpec c' = cnSpec c \<Longrightarrow> isAppInputReport c' event = isAppInputReport c event"
  by (simp add: isAppInputReport_def)

lemma waiting_of_spec:
  "trResources t' = trResources t \<Longrightarrow> trProject t' = trProject t \<Longrightarrow> cnSpec c' = cnSpec c \<Longrightarrow>
   waitingResources t' event allowed cid c' = waitingResources t event allowed cid c"
  by (simp add: waitingResources_def approvalTargetsTask_def)

text \<open>After one application the event is in the trigger of every Task it could wake.\<close>

lemma applied_event_pending:
  assumes "tree_keyed tree" and "(cid, c) \<in> set (trConditions tree)" and "admits tree event allowed store cid c"
    and "\<not> quiet event store c" and "r \<in> set (waitingResources tree event allowed cid c)"
  shows "holdsEvent (pendingEvents (dget (trTriggers (ceTree
    (applyConditionEvent tree event now wakes allowed ids store))) (tkId r))) event"
proof -
  let ?pass = "firstPass tree event now allowed ids store"
  note tw = apply_triggers(1) [OF assms(1), of event now wakes allowed ids store "tkId r"]
  show ?thesis
  proof (cases "dget (cpWakes ?pass) (tkId r)")
    case None
    then have "\<not> wakesThrough tree event allowed store cid c (tkId r)"
      using pass_wakes_complete [of "trConditions tree" tree event allowed store "tkId r"] assms(2)
      unfolding firstPass_def by blast
    with assms(3-5) tw None show ?thesis by (auto simp: wakesThrough_def)
  next
    case (Some cid')
    with wake_resource [OF assms(1) this] obtain r' where "dget (trResources tree) (tkId r) = Some r'" by blast
    with tw Some show ?thesis
      by (auto simp: wakeTrigger_def pendingEvents_def [of "Some _"] holdsEvent_def Let_def)
  qed
qed

text \<open>
  C20. Redelivery of a waiting event is harmless. Apply an event that is not a progress or failure
  report, and let triggers change afterwards, as long as every Task in whose trigger the event now
  waits still has it there. Then applying the same event again, with the same store and the same
  set of allowed Tasks and whatever the clock says, changes nothing and wakes nobody.
\<close>

theorem condition_event_idempotent:
  assumes "tree_keyed tree" and "\<forall>c. (\<exists>cid. (cid, c) \<in> set (trConditions tree)) \<longrightarrow> \<not> isAppInputReport c event"
    and "tree' = ceTree (applyConditionEvent tree event now [] allowed [] store)"
    and "trConditions tree'' = trConditions tree'" and "trResources tree'' = trResources tree'"
    and "trProject tree'' = trProject tree'"
    and "\<forall>k. holdsEvent (pendingEvents (dget (trTriggers tree') k)) event \<longrightarrow>
      holdsEvent (pendingEvents (dget (trTriggers tree'') k)) event"
  shows "applyConditionEvent tree'' event later [] allowed [] store =
    \<lparr>ceChanged = False, ceTree = tree'', ceWakes = [], ceChangedIds = []\<rparr>"
proof (rule apply_idle, unfold firstPass_def, rule pass_idle)
  fix cid c' assume c': "(cid, c') \<in> set (trConditions tree'')" and ad: "admits tree'' event allowed store cid c'"
  have frame: "trResources tree'' = trResources tree" "trProject tree'' = trProject tree"
    "trConditions tree'' = cpConditions (firstPass tree event now allowed [] store)"
    by (simp_all add: assms(3-6) apply_frame)
  have "dkeys (trConditions tree'') = dkeys (trConditions tree)"
    unfolding frame firstPass_def by (subst pass_keys) (simp_all add: dkeys_def)
  then have "dict_wf (trConditions tree'')" using assms(1) by (simp add: tree_keyed_def dict_wf_def dkeys_def)
  with c' have "dget (trConditions tree'') cid = Some c'" by (simp add: dict_wf_dget)
  then obtain c where c: "dget (trConditions tree) cid = Some c"
    and c'_eq: "c' = (if admits tree event allowed store cid c \<and> cnState c \<noteq> CondTrue
       then observeCondition event now (eventKind event store c) store c else c)"
    using first_condition [OF assms(1)] by (auto simp: frame)
  have cin: "(cid, c) \<in> set (trConditions tree)" using c by (rule dget_Some_in)
  with assms(2) have rep: "\<not> isAppInputReport c event" by blast
  have spec: "cnId c' = cnId c" "cnSpec c' = cnSpec c" by (simp_all add: c'_eq)
  have rep': "\<not> isAppInputReport c' event" using rep report_of_spec [OF spec] by simp
  have wait: "waitingResources tree'' event allowed cid c' = waitingResources tree event allowed cid c"
    by (rule waiting_of_spec) (simp_all add: frame spec)
  have ad0: "admits tree event allowed store cid c"
  proof (rule ccontr)
    assume "\<not> ?thesis"
    with c'_eq have "c' = c" by simp
    with ad rep wait \<open>\<not> ?thesis\<close> show False by (auto simp: admits_def)
  qed
  have "\<not> quiet event store c" using rep by (simp add: quiet_def eventKind_def)
  from applied_event_pending [OF assms(1) cin ad0 this]
  have "holdsEvent (pendingEvents (dget (trTriggers tree'') (tkId r))) event"
    if "r \<in> set (waitingResources tree event allowed cid c)" for r
    using that assms(7) by (simp add: assms(3))
  then show "cnState c' = CondTrue \<and> (\<forall>r \<in> set (waitingResources tree'' event allowed cid c').
      quiet event store c' \<or> holdsEvent (pendingEvents (dget (trTriggers tree'') (tkId r))) event)"
    using ad0 rep wait by (auto simp: c'_eq eventKind_def)
qed

theorem condition_event_idempotent_witness:
  "applyConditionEvent (ceTree approvalResult) approvalEvent 6 [] None [] None =
     \<lparr>ceChanged = False, ceTree = ceTree approvalResult, ceWakes = [], ceChangedIds = []\<rparr>"
  by (rule condition_event_idempotent [OF approvalTree_keyed _ refl refl refl refl])
    (simp_all add: approvalTree_def blankCondition_def approvalSpec_def isAppInputReport_def)

lemma isRecordE: "isRecord v \<Longrightarrow> v = JObj (recordOf v)"
  by (simp add: isRecord_def recordOf_def split: js.splits)

lemma nonemptyE: "nonempty v \<Longrightarrow> v = JStr (the (asString v))"
  by (simp add: nonempty_def asString_def split: js.splits)

lemma readVerifiedApprovalDecision_facts:
  assumes "readVerifiedApprovalDecision type source data = Some a"
  shows "source \<in> {Some ''telegram'', Some ''control-socket''}"
    and "rget data ''hostApproval'' = JObj (apStamp a)" and "rget data ''proposal'' = JObj (apProposal a)"
    and "rget data ''decision'' = JStr (apDecision a)"
    and "rget (apStamp a) ''ingressSource'' = JStr (the source)"
    and "jget (rget (apStamp a) ''actor'') ''kind'' = JStr (if source = Some ''telegram'' then ''human'' else ''operator'')"
    and "nonempty (rget (apProposal a) ''requestedAction'')"
  using assms
  by (simp_all only: readVerifiedApprovalDecision_def Let_def option.sel option.inject
      approval_decision.select_convs option.distinct split: if_split_asm)
    (auto dest: isRecordE nonemptyE)

text \<open>
  C21. A human approval is never misapplied. If a Condition that asks a human for approval becomes
  true, then the event carried a Host stamp whose ingress is the event's own source and whose actor
  is of the kind that ingress admits, and a proposal naming exactly this Condition, its generation,
  its subject, its expected contract and its requested action (up to surrounding blanks), and the
  App, Task and generation of a live Task that waits for it; and the decision is one that every list
  of allowed decisions contains.
\<close>

theorem approval_exact:
  assumes "tree_keyed tree" and "dget (trConditions tree) cid = Some c" and "isApprovalCondition c"
    and "cnState c \<noteq> CondTrue"
    and "dget (trConditions (ceTree (applyConditionEvent tree event now [] allowed [] store))) cid = Some c'"
    and "cnState c' = CondTrue"
  shows "\<exists>source stamp proposal d r. rget event ''source'' = JStr source \<and>
    source \<in> {''telegram'', ''control-socket''} \<and>
    jget (rget event ''data'') ''hostApproval'' = JObj stamp \<and> rget stamp ''ingressSource'' = JStr source \<and>
    jget (rget stamp ''actor'') ''kind'' = JStr (if source = ''telegram'' then ''human'' else ''operator'') \<and>
    jget (rget event ''data'') ''proposal'' = JObj proposal \<and>
    rget proposal ''conditionId'' = JStr cid \<and>
    rget proposal ''conditionGeneration'' = JNum (num_int (int (cnGeneration c))) \<and>
    rget proposal ''subject'' = JStr (csSubject (cnSpec c)) \<and>
    (\<exists>action. csRequestedAction (cnSpec c) = Some action \<and> rget proposal ''requestedAction'' = JStr (trim action)) \<and>
    deepStrictEquals (rget proposal ''expected'') (csExpected (cnSpec c)) \<and>
    jget (rget event ''data'') ''decision'' = JStr d \<and>
    decisionLists (recordOf (csExpected (cnSpec c))) \<noteq> [] \<and>
    (\<forall>choices \<in> set (decisionLists (recordOf (csExpected (cnSpec c)))).
       \<exists>choice \<in> set choices. deepStrictEquals choice (JStr d)) \<and>
    dget (trResources tree) (tkId r) = Some r \<and> cid \<in> set (listOr (tkConditionIds r)) \<and> liveWaiter r \<and>
    eventField event [''appId''] = JStr (case trProject tree of None \<Rightarrow> [] | Some p \<Rightarrow> p) \<and>
    eventField event [''taskId''] = JStr (tkId r) \<and>
    rget proposal ''taskGeneration'' = JNum (num_int (int (tkGeneration r)))"
proof -
  have "dget (cpConditions (firstPass tree event now allowed [] store)) cid = Some c'"
    using assms(5) by (simp add: apply_frame)
  with first_condition [OF assms(1)] assms(2,4,6) have ad: "admits tree event allowed store cid c"
    by (auto split: if_splits)
  have notrep: "\<not> isAppInputReport c event"
    using assms(3) by (simp add: isAppInputReport_def isApprovalCondition_def)
  with ad have "matches c event" by (simp add: admits_def)
  with assms(3) have ma: "matchesApproval c event" by (simp add: matches_def split: if_splits)
  from ad obtain r where r: "r \<in> set (waitingResources tree event allowed cid c)"
    by (rule admits_waiter [OF assms(1)])
  note w = waiting_resource [OF assms(1) r]
  let ?p = "recordOf (jget (rget event ''data'') ''proposal'')"
  have tgt: "eventField event [''appId''] = JStr (case trProject tree of None \<Rightarrow> [] | Some p \<Rightarrow> p)"
    "eventField event [''taskId''] = JStr (tkId r)"
    "rget ?p ''taskGeneration'' = JNum (num_int (int (tkGeneration r)))"
    using w assms(3) by (simp_all add: approvalTargetsTask_def isApprovalCondition_def)
  have cid: "cnId c = cid" using assms(1) dget_Some_in [OF assms(2)]
    by (auto simp: tree_keyed_def list_all_iff)
  have "isRecord (rget event ''data'')"
    using tgt(3) by (auto simp: jget_def recordOf_def rget_def isRecord_def split: js.splits)
  then obtain d where d: "rget event ''data'' = JObj d" using isRecordE by blast
  from ma d obtain a where
    a: "readVerifiedApprovalDecision (csType (cnSpec c)) (asString (rget event ''source'')) d = Some a"
    and m: "rget (apProposal a) ''conditionId'' = JStr (cnId c)"
      "rget (apProposal a) ''conditionGeneration'' = JNum (num_int (int (cnGeneration c)))"
      "rget (apProposal a) ''subject'' = JStr (csSubject (cnSpec c))"
      "map_option trim (csRequestedAction (cnSpec c)) = asString (rget (apProposal a) ''requestedAction'')"
      "deepStrictEquals (rget (apProposal a) ''expected'') (csExpected (cnSpec c))"
      "decisionLists (recordOf (csExpected (cnSpec c))) \<noteq> []"
      "list_all (list_ex (\<lambda>choice. deepStrictEquals choice (JStr (apDecision a))))
         (decisionLists (recordOf (csExpected (cnSpec c))))"
    by (auto simp: matchesApproval_def Let_def split: option.splits)
  note f = readVerifiedApprovalDecision_facts [OF a]
  from f(1) obtain source where source: "rget event ''source'' = JStr source"
    "source \<in> {''telegram'', ''control-socket''}" by (auto simp: asString_def split: js.splits)
  from f(7) m(4) have action: "\<exists>action. csRequestedAction (cnSpec c) = Some action \<and>
      rget (apProposal a) ''requestedAction'' = JStr (trim action)"
    by (auto simp: nonempty_def asString_def split: js.splits)
  have p: "?p = apProposal a" using d f(3) by (simp add: jget_def recordOf_def)
  show ?thesis
    using source f(2-6) m action w tgt p cid d
    by (intro exI [of _ source] exI [of _ "apStamp a"] exI [of _ "apProposal a"] exI [of _ "apDecision a"] exI [of _ r])
      (simp add: jget_def recordOf_def [of "JObj d"] list_all_iff list_ex_iff asString_def)
qed

theorem approval_exact_witness:
  "\<exists>r. dget (trResources approvalTree) (tkId r) = Some r \<and> ''ok'' \<in> set (listOr (tkConditionIds r)) \<and>
     eventField approvalEvent [''taskId''] = JStr (tkId r)"
proof -
  obtain c' where c': "dget (trConditions (ceTree approvalResult)) ''ok'' = Some c'" "cnState c' = CondTrue"
    using approval_observed by auto
  have "isApprovalCondition (blankCondition ''ok'' approvalSpec)"
    "cnState (blankCondition ''ok'' approvalSpec) \<noteq> CondTrue" by code_simp+
  from approval_exact [OF approvalTree_keyed approval_condition this c'] show ?thesis by blast
qed

end
