(* ===== verification/Task_Events.thy ===== *)
theory Task_Events
  imports Task_Conditions
begin

text \<open>
  Event batches of Tasks: the trigger a Task's next attempt receives
  (\<open>core/tasks/app-task-reconciler.ts\<close>, lines 206 to 431 and 2020 to 2029), the canonical form of an
  event (\<open>canonical-app-event.ts\<close>, \<open>eventData\<close> of \<open>core/events/bus.ts\<close>) and the inputs an event
  batch addresses (\<open>core/tasks/app-task-inputs.ts\<close>).

  An event without a positive safe \<open>eventId\<close> is identified by a hash of its stable JSON form; the
  identity here is that form itself. The store a wait is checked against is a lookup of admissions.
\<close>

section \<open>Canonical events\<close>

definition eventData :: "js \<Rightarrow> js_record" where
  "eventData event = (case jget event ''data'' of JObj d \<Rightarrow> d | _ \<Rightarrow> recordOf event)"

definition canonicalAppEvent :: "js_record \<Rightarrow> js_record" where
  "canonicalAppEvent event =
     (let target = recordOf (rget event ''target''); urgency = rget event ''urgency'';
          action = trimmed (asString (rget event ''action''))
      in [(''type'', rget event ''type''), (''data'', JObj (eventData (JObj event)))] @
         (case rget event ''source'' of JStr s \<Rightarrow> [(''source'', JStr s)] | _ \<Rightarrow> []) @
         (case rget event ''owner'' of JStr s \<Rightarrow> [(''owner'', JStr s)] | _ \<Rightarrow> []) @
         (if target \<noteq> [] then [(''target'', JObj target)] else []) @
         (case action of Some a \<Rightarrow> [(''action'', JStr a)] | None \<Rightarrow> []) @
         [(''urgency'', if urgency \<in> {JStr ''low'', JStr ''high'', JStr ''immediate''} then urgency
                        else JStr ''normal'')])"

section \<open>Triggers\<close>

definition triggerHasDirectProjectComment :: "js_record \<Rightarrow> bool" where
  "triggerHasDirectProjectComment event \<longleftrightarrow>
     rget event ''type'' = JStr ''project.comment.created'' \<or> rget event ''type'' = JStr ''message.created''"

definition taskTriggerLane :: "js_record option \<Rightarrow> app_task_lane" where
  "taskTriggerLane event =
     (case event of
        None \<Rightarrow> Normal
      | Some e \<Rightarrow>
          if rget e ''source'' = JStr ''human'' \<or>
             jget (jget (jget (rget e ''data'') ''request'') ''source'') ''kind'' = JStr ''human''
          then Human else Normal)"

definition taskTriggerPriority :: "js_record \<Rightarrow> string \<Rightarrow> nat" where
  "taskTriggerPriority event taskAgent =
     (let data = recordOf (rget event ''data'');
          params = (if isRecord (rget event ''params'') then recordOf (rget event ''params'')
                    else recordOf (rget data ''params''));
          source = js_String (orElse (orElse (rget event ''source'') (rget data ''source'')) (JStr []));
          type = js_String (orElse (rget event ''type'') (JStr []));
          reason = js_String (orElse (orElse (orElse (rget event ''reason'') (rget data ''reason''))
            (rget params ''reason'')) (JStr []))
      in if triggerHasDirectProjectComment event then 4
         else if type = ''project.approval.submitted'' \<or> source = ''human'' \<or> source = ''web-ui'' \<or>
            starts_with source ''telegram'' \<or> reason = ''retry-candidate-verification'' then 3
         else if source = ''agent:'' @ taskAgent then 1
         else 2)"

definition preferredTaskTrigger :: "js_record option \<Rightarrow> js_record \<Rightarrow> string \<Rightarrow> js_record" where
  "preferredTaskTrigger previous incoming taskAgent =
     (case previous of
        None \<Rightarrow> incoming
      | Some p \<Rightarrow>
          if triggerHasDirectProjectComment p \<and> \<not> triggerHasDirectProjectComment incoming then p
          else if taskTriggerPriority p taskAgent \<le> taskTriggerPriority incoming taskAgent then incoming
          else p)"

definition taskTriggerEvents :: "task_trigger \<Rightarrow> trigger_event list" where
  "taskTriggerEvents trigger =
     (if listOr (ttEvents trigger) \<noteq> [] then listOr (ttEvents trigger)
      else [\<lparr>teEvent = ttEvent trigger, teObservedAt = ttObservedAt trigger\<rparr>])"

datatype event_identity = EventId int | LegacyEvent js

definition taskEventIdentity :: "js_record \<Rightarrow> event_identity" where
  "taskEventIdentity event =
     (let eventId = js_Number (rget event ''eventId'')
      in if is_safe_integer eventId \<and> 0 < to_int eventId then EventId (to_int eventId)
         else LegacyEvent (jsonCanon (JObj event)))"

definition isTick :: "trigger_event \<Rightarrow> bool" where
  "isTick e \<longleftrightarrow> rget (teEvent e) ''type'' = JStr ''project.task.tick''"

definition appendTaskTriggerEvent :: "trigger_event list \<Rightarrow> js_record \<Rightarrow> int \<Rightarrow> trigger_event list" where
  "appendTaskTriggerEvent events event observedAt =
     (let new = \<lparr>teEvent = event, teObservedAt = observedAt\<rparr> in
      if list_ex (\<lambda>e. taskEventIdentity (teEvent e) = taskEventIdentity event) events then events
      else if isTick new then
        (let ticks = filter isTick events;
             previousId = js_Number (rget (teEvent (last ticks)) ''eventId'');
             incomingId = js_Number (rget event ''eventId'')
         in if ticks \<noteq> [] \<and> is_safe_integer previousId \<and> 0 < to_int previousId \<and>
               is_safe_integer incomingId \<and> 0 < to_int incomingId \<and> to_int incomingId < to_int previousId
            then events
            else filter (\<lambda>e. \<not> isTick e) events @ [new])
      else events @ [new])"

definition preferredTriggerFromEvents :: "trigger_event list \<Rightarrow> string \<Rightarrow> js_record result" where
  "preferredTriggerFromEvents events taskAgent =
     (case events of
        [] \<Rightarrow> Inl ''Task trigger event batch cannot be empty''
      | first # rest \<Rightarrow>
          Inr (foldl (\<lambda>preferred e. preferredTaskTrigger (Some preferred) (teEvent e) taskAgent) (teEvent first) rest))"

text \<open>The preferred event of a batch that is known not to be empty.\<close>

definition preferredOf :: "trigger_event list \<Rightarrow> string \<Rightarrow> js_record" where
  "preferredOf events taskAgent = (case preferredTriggerFromEvents events taskAgent of Inr e \<Rightarrow> e | Inl _ \<Rightarrow> [])"

definition attemptTrigger :: "task_attempt \<Rightarrow> js_record option" where
  "attemptTrigger attempt =
     (if listOr (atEvents attempt) \<noteq> [] then Some (preferredOf (listOr (atEvents attempt)) (atOwner attempt))
      else atTrigger attempt)"

definition attemptEvents :: "task_attempt \<Rightarrow> trigger_event list" where
  "attemptEvents attempt =
     (if listOr (atEvents attempt) \<noteq> [] then listOr (atEvents attempt)
      else case atTrigger attempt of
          Some e \<Rightarrow> [\<lparr>teEvent = e, teObservedAt = atStartedAt attempt\<rparr>]
        | None \<Rightarrow> [])"

definition restoredEvents :: "task_attempt \<Rightarrow> task_trigger option \<Rightarrow> trigger_event list" where
  "restoredEvents attempt previous =
     foldl (\<lambda>combined e. appendTaskTriggerEvent combined (teEvent e) (teObservedAt e)) (attemptEvents attempt)
       (case previous of None \<Rightarrow> [] | Some t \<Rightarrow> taskTriggerEvents t)"

definition restoreAttemptEvents ::
  "task_tree \<Rightarrow> string \<Rightarrow> task_resource \<Rightarrow> task_attempt \<Rightarrow> int \<Rightarrow> bool \<times> task_tree" where
  "restoreAttemptEvents tree taskId resource attempt observedAt =
     (if attemptEvents attempt = [] then (False, tree)
      else
        (let previous = dget (trTriggers tree) taskId;
             combined = restoredEvents attempt previous;
             owner = (if atOwner attempt \<noteq> [] then atOwner attempt
                      else case spOwner (tkSpec resource) of Some s \<Rightarrow> s | None \<Rightarrow> [])
         in (True, tree\<lparr>trTriggers := dset (trTriggers tree) taskId
               \<lparr>ttTaskId = taskId, ttTaskGeneration = tkGeneration resource,
                ttVersion = (case previous of None \<Rightarrow> 0 | Some t \<Rightarrow> ttVersion t) + 1,
                ttEvents = Some combined, ttEvent = preferredOf combined owner,
                ttObservedAt = observedAt\<rparr>\<rparr>)))"

section \<open>Inputs\<close>

definition admissionKeyOf :: "trigger_event \<Rightarrow> string list" where
  "admissionKeyOf e =
     (let input = canonicalAppEvent (teEvent e)
      in case (rget input ''type'' = JStr ''app.task.requested'', jget (rget input ''data'') ''idempotencyKey'') of
           (True, JStr key) \<Rightarrow> [key]
         | _ \<Rightarrow> [])"

definition taskInputAdmissionKeys :: "trigger_event list \<Rightarrow> string list \<Rightarrow> string list" where
  "taskInputAdmissionKeys events continued = uniq (continued @ concat (map admissionKeyOf events))"

definition retainTaskInputWait ::
  "(string \<Rightarrow> task_admission option) \<Rightarrow> string list \<Rightarrow> input_wait \<Rightarrow> task_resource \<Rightarrow> task_resource" where
  "retainTaskInputWait admissions keys wait task =
     foldl (\<lambda>t key. case admissions key of
         None \<Rightarrow> t
       | Some ad \<Rightarrow>
           if adTaskId ad = tkId t \<and> adTaskGeneration ad \<le> tkGeneration t \<and>
              (adResultAttemptId ad = None \<or> adResultAttemptId ad = Some [])
           then t\<lparr>tkInputWaits := Some (dset (case tkInputWaits t of None \<Rightarrow> [] | Some ws \<Rightarrow> ws) key wait)\<rparr>
           else t) task keys"

definition waitContinues ::
  "task_tree \<Rightarrow> task_resource \<Rightarrow> trigger_event list \<Rightarrow> (string, nat) dict \<Rightarrow> int \<Rightarrow> input_wait \<Rightarrow> bool" where
  "waitContinues tree task events conditions now w \<longleftrightarrow>
     iwPending w \<or> iwTaskGeneration w < tkGeneration task \<or>
     (case iwReviewAt w of Some at' \<Rightarrow> at' \<le> now | None \<Rightarrow> False) \<or>
     iwConditions w = [] \<and> iwReviewAt w = None \<and> events \<noteq> [] \<or>
     list_ex (\<lambda>(i, g). i \<notin> set (listOr (tkConditionIds task)) \<or>
        map_option cnGeneration (dget (trConditions tree) i) \<noteq> Some g) (iwConditions w) \<or>
     list_ex (\<lambda>(i, g). dget conditions i = Some g) (iwConditions w)"

definition continuedTaskInputKeys ::
  "task_tree \<Rightarrow> string \<Rightarrow> trigger_event list \<Rightarrow> string list \<Rightarrow> int \<Rightarrow> string list" where
  "continuedTaskInputKeys tree taskId events readyConditionIds now =
     (case dget (trResources tree) taskId of
        None \<Rightarrow> []
      | Some task \<Rightarrow>
          (case tkInputWaits task of
             None \<Rightarrow> []
           | Some waits \<Rightarrow>
               (let matching = filter (\<lambda>i. list_ex (\<lambda>e.
                      matchesAppTaskConditionFacts (dget (trConditions tree) i) (teEvent e)) events)
                      (listOr (tkConditionIds task));
                    conditions = foldl (\<lambda>m i. case dget (trConditions tree) i of
                      None \<Rightarrow> m | Some c \<Rightarrow> dset m i (cnGeneration c)) [] (readyConditionIds @ matching)
                in map fst (filter (\<lambda>(_, w). waitContinues tree task events conditions now w) waits))))"

section \<open>Consuming settled events\<close>

definition survivesSettlement :: "int list \<Rightarrow> string list \<Rightarrow> trigger_event \<Rightarrow> bool" where
  "survivesSettlement accepted covered e \<longleftrightarrow>
     \<not> isTick e \<and> \<not> list_ex (\<lambda>key. key \<in> set covered) (taskInputAdmissionKeys [e] []) \<and>
     (let eventId = js_Number (rget (teEvent e) ''eventId'')
      in \<not> is_safe_integer eventId \<or> to_int eventId \<notin> set accepted)"

definition consumeSettledTaskEvents ::
  "string \<Rightarrow> string \<Rightarrow> int list option \<Rightarrow> string list option \<Rightarrow> task_tree \<Rightarrow> task_tree" where
  "consumeSettledTaskEvents taskId agent acceptedLiveEventIds inputKeys tree =
     (case dget (trTriggers tree) taskId of
        None \<Rightarrow> tree
      | Some previous \<Rightarrow>
          (let pending = taskTriggerEvents previous;
               remaining = filter (survivesSettlement (listOr acceptedLiveEventIds) (listOr inputKeys)) pending
           in if length remaining = length pending then tree
              else if remaining = [] then tree\<lparr>trTriggers := ddel (trTriggers tree) taskId\<rparr>
              else tree\<lparr>trTriggers := dset (trTriggers tree) taskId
                (previous\<lparr>ttVersion := ttVersion previous + 1, ttEvents := Some remaining,
                          ttEvent := preferredOf remaining agent,
                          ttObservedAt := teObservedAt (last remaining)\<rparr>)\<rparr>))"

section \<open>Synthetic triggers\<close>

text \<open>\<open>basename\<close> of a path with \<open>/\<close> separators: trailing separators do not count.\<close>

definition path_basename :: "string \<Rightarrow> string" where
  "path_basename p = rev (takeWhile (\<lambda>c. c \<noteq> CHR ''/'') (dropWhile (\<lambda>c. c = CHR ''/'') (rev p)))"

definition projectIdFromAppDir :: "string \<Rightarrow> string" where
  "projectIdFromAppDir appDir =
     (let name = path_basename (map (\<lambda>c. if c = CHR 0x5C then CHR ''/'' else c) appDir)
      in if ends_with name ''.app'' then take (length name - 4) name else name)"

definition syntheticAttemptTrigger :: "string \<Rightarrow> string \<Rightarrow> string option \<Rightarrow> js_record" where
  "syntheticAttemptTrigger appDir taskId reason =
     (let project = (if projectIdFromAppDir appDir = [] then ''unknown-app'' else projectIdFromAppDir appDir);
          normalizedReason = (case trimmed reason of Some r \<Rightarrow> r | None \<Rightarrow> ''task-controller'')
      in [(''type'', JStr ''project.task.tick''),
          (''source'', JStr (''app-task:'' @ project @ '':task-controller'')),
          (''target'', JObj [(''project'', JStr project), (''taskId'', JStr taskId)]),
          (''reason'', JStr normalizedReason),
          (''data'', JObj [(''project'', JStr project), (''taskId'', JStr taskId), (''task_id'', JStr taskId),
             (''reason'', JStr normalizedReason), (''synthetic'', JStr ''controller-recovery-trigger'')])])"

section \<open>Batches\<close>

text \<open>A well-formed batch: no event twice, and at most one clock tick.\<close>

abbreviation identityOf :: "trigger_event \<Rightarrow> event_identity" where
  "identityOf e \<equiv> taskEventIdentity (teEvent e)"

definition batch_ok :: "trigger_event list \<Rightarrow> bool" where
  "batch_ok es \<longleftrightarrow> distinct (map identityOf es) \<and> length (filter isTick es) \<le> 1"

abbreviation facts :: "trigger_event list \<Rightarrow> trigger_event list" where
  "facts es \<equiv> filter (\<lambda>e. \<not> isTick e) es"

lemma trigger_event_eta [simp]: "\<lparr>teEvent = teEvent e, teObservedAt = teObservedAt e\<rparr> = (e :: trigger_event)"
  by (cases e) simp

lemma appendTaskTriggerEvent_cases:
  fixes es ev now
  defines "new \<equiv> \<lparr>teEvent = ev, teObservedAt = now\<rparr>"
  obtains (known) "appendTaskTriggerEvent es ev now = es" "taskEventIdentity ev \<in> identityOf ` set es"
  | (stale) "appendTaskTriggerEvent es ev now = es" "isTick new" "filter isTick es \<noteq> []"
      "taskEventIdentity ev \<notin> identityOf ` set es"
  | (tick) "appendTaskTriggerEvent es ev now = facts es @ [new]" "isTick new"
      "taskEventIdentity ev \<notin> identityOf ` set es"
  | (fact) "appendTaskTriggerEvent es ev now = es @ [new]" "\<not> isTick new"
      "taskEventIdentity ev \<notin> identityOf ` set es"
proof (cases "list_ex (\<lambda>e. taskEventIdentity (teEvent e) = taskEventIdentity ev) es")
  case True
  then have "appendTaskTriggerEvent es ev now = es" by (simp add: appendTaskTriggerEvent_def Let_def)
  moreover from True have "taskEventIdentity ev \<in> identityOf ` set es" by (force simp: list_ex_iff image_iff)
  ultimately show ?thesis by (rule known)
next
  case False
  then have n: "taskEventIdentity ev \<notin> identityOf ` set es" by (auto simp: list_ex_iff)
  show ?thesis
  proof (cases "isTick new")
    case True
    have "appendTaskTriggerEvent es ev now \<in> {facts es @ [new]} \<or>
      appendTaskTriggerEvent es ev now = es \<and> filter isTick es \<noteq> []"
      using False True by (simp add: appendTaskTriggerEvent_def new_def Let_def)
    with tick stale True n show ?thesis by auto
  next
    case f: False
    with False fact n show ?thesis by (simp add: appendTaskTriggerEvent_def new_def Let_def)
  qed
qed

lemma append_batch_ok:
  assumes "batch_ok es"
  shows "batch_ok (appendTaskTriggerEvent es ev now)"
proof (cases rule: appendTaskTriggerEvent_cases [of es ev now])
  case tick
  have "distinct (map identityOf (facts es))"
    using assms by (auto simp: batch_ok_def distinct_map intro: inj_on_subset)
  moreover have "filter isTick (facts es) = []" by simp
  ultimately show ?thesis using tick by (auto simp: batch_ok_def)
next
  case fact
  with assms show ?thesis by (auto simp: batch_ok_def)
qed (use assms in simp_all)

lemma append_facts:
  "facts (appendTaskTriggerEvent es ev now) =
     facts es @ (if isTick \<lparr>teEvent = ev, teObservedAt = now\<rparr> \<or> taskEventIdentity ev \<in> identityOf ` set es
                 then [] else [\<lparr>teEvent = ev, teObservedAt = now\<rparr>])"
  by (cases rule: appendTaskTriggerEvent_cases [of es ev now]) auto

lemma append_tick:
  assumes "\<exists>e \<in> set es. isTick e"
  shows "\<exists>e \<in> set (appendTaskTriggerEvent es ev now). isTick e"
  using assms by (cases rule: appendTaskTriggerEvent_cases [of es ev now]) auto

text \<open>An event was recorded before another one when both have event ids and its id is the smaller one.\<close>

definition recordedBefore :: "event_identity \<Rightarrow> event_identity \<Rightarrow> bool" where
  "recordedBefore a b \<longleftrightarrow> (\<exists>i j. a = EventId i \<and> b = EventId j \<and> i < j)"

lemma batch_ticks:
  assumes "batch_ok es"
  obtains "filter isTick es = []" | t where "filter isTick es = [t]"
proof (cases "filter isTick es")
  case (Cons t ts)
  with assms have "ts = []" by (simp add: batch_ok_def)
  with Cons that show ?thesis by simp
qed (use that in simp)

lemma recordedBefore_ids:
  "recordedBefore (taskEventIdentity a) (taskEventIdentity b) \<longleftrightarrow>
     (is_safe_integer (js_Number (rget b ''eventId'')) \<and> 0 < to_int (js_Number (rget b ''eventId'')) \<and>
      is_safe_integer (js_Number (rget a ''eventId'')) \<and> 0 < to_int (js_Number (rget a ''eventId'')) \<and>
      to_int (js_Number (rget a ''eventId'')) < to_int (js_Number (rget b ''eventId'')))"
  unfolding recordedBefore_def taskEventIdentity_def Let_def
  by (cases "is_safe_integer (js_Number (rget a ''eventId'')) \<and> 0 < to_int (js_Number (rget a ''eventId''))";
    cases "is_safe_integer (js_Number (rget b ''eventId'')) \<and> 0 < to_int (js_Number (rget b ''eventId''))") auto

lemma append_exact:
  fixes es ev now
  assumes "batch_ok es"
  defines "new \<equiv> \<lparr>teEvent = ev, teObservedAt = now\<rparr>"
  shows "appendTaskTriggerEvent es ev now =
    (if taskEventIdentity ev \<in> identityOf ` set es \<or>
        isTick new \<and> (\<exists>e. e \<in> set es \<and> isTick e \<and> recordedBefore (taskEventIdentity ev) (identityOf e))
     then es else if isTick new then facts es @ [new] else es @ [new])"
proof -
  have known: "list_ex (\<lambda>e. identityOf e = taskEventIdentity ev) es \<longleftrightarrow> taskEventIdentity ev \<in> identityOf ` set es"
    by (metis (mono_tags, lifting) list_ex_iff image_iff)
  have append: "appendTaskTriggerEvent es ev now =
      (if taskEventIdentity ev \<in> identityOf ` set es then es
       else if isTick new then
         (if filter isTick es \<noteq> [] \<and> recordedBefore (taskEventIdentity ev) (identityOf (last (filter isTick es)))
          then es else facts es @ [new])
       else es @ [new])"
    unfolding appendTaskTriggerEvent_def Let_def new_def known recordedBefore_ids by (rule refl)
  have mem: "(\<exists>e. e \<in> set es \<and> isTick e \<and> P e) \<longleftrightarrow> (\<exists>e \<in> set (filter isTick es). P e)" for P by auto
  show ?thesis using assms(1)
  proof (cases rule: batch_ticks)
    case 1
    then show ?thesis by (simp only: append mem) simp
  next
    case (2 t)
    then show ?thesis by (simp only: append mem) simp
  qed
qed

text \<open>
  C22. Appending an event keeps a Task's pending batch well formed and loses no fact: events stay
  unique, at most one clock tick is kept, and the events that are not ticks stay in their place and
  order, followed by the new one if it is of that kind and was not there. The batch is unchanged
  exactly when the new event's identity is there already or it is a tick recorded before the tick
  that is there; otherwise the new event is the last of the batch, and a new tick is its only tick.
\<close>

theorem append_preserves_batch:
  assumes "batch_ok es"
  shows "let es' = appendTaskTriggerEvent es ev now; new = \<lparr>teEvent = ev, teObservedAt = now\<rparr>;
      known = (taskEventIdentity ev \<in> identityOf ` set es) in
    batch_ok es' \<and> facts es' = facts es @ (if isTick new \<or> known then [] else [new]) \<and>
    (es' = es \<longleftrightarrow> known \<or>
       isTick new \<and> (\<exists>e. e \<in> set es \<and> isTick e \<and> recordedBefore (taskEventIdentity ev) (identityOf e))) \<and>
    (es' \<noteq> es \<longrightarrow> last es' = new \<and> (isTick new \<longrightarrow> filter isTick es' = [new]))"
proof -
  have "xs @ [\<lparr>teEvent = ev, teObservedAt = now\<rparr>] \<noteq> es" if "taskEventIdentity ev \<notin> identityOf ` set es" for xs
    using that by (metis image_eqI in_set_conv_decomp trigger_event.select_convs(1))
  then show ?thesis
    using append_batch_ok [OF assms, of ev now]
    unfolding Let_def append_facts by (auto simp: append_exact [OF assms])
qed

section \<open>The preferred trigger\<close>

definition lastBest :: "('a \<Rightarrow> nat) \<Rightarrow> 'a list \<Rightarrow> 'a" where
  "lastBest f xs = last (filter (\<lambda>x. f x = Max (f ` set xs)) xs)"

lemma preferred_by_priority:
  "preferredTaskTrigger (Some p) e agent =
     (if taskTriggerPriority p agent \<le> taskTriggerPriority e agent then e else p)"
  by (auto simp: preferredTaskTrigger_def taskTriggerPriority_def Let_def)

lemma lastBest_snoc:
  assumes "xs \<noteq> []"
  shows "lastBest f (xs @ [x]) = (if f (lastBest f xs) \<le> f x then x else lastBest f xs)"
    and "f (lastBest f xs) = Max (f ` set xs)"
proof -
  let ?M = "Max (f ` set xs)"
  have fin: "finite (f ` set xs)" "f ` set xs \<noteq> {}" using assms by auto
  from Max_in [OF fin] have ne: "filter (\<lambda>y. f y = ?M) xs \<noteq> []" by (auto simp: filter_empty_conv)
  from last_in_set [OF this] show best: "f (lastBest f xs) = ?M" by (simp add: lastBest_def)
  have M: "Max (f ` set (xs @ [x])) = max (f x) ?M" using Max_insert [OF fin, of "f x"] by simp
  show "lastBest f (xs @ [x]) = (if f (lastBest f xs) \<le> f x then x else lastBest f xs)"
  proof (cases "?M \<le> f x")
    case True
    then show ?thesis using M best by (simp add: lastBest_def)
  next
    case False
    then have "max (f x) ?M = ?M" by simp
    with M False best show ?thesis by (simp add: lastBest_def)
  qed
qed

lemma foldl_preferred:
  "foldl (\<lambda>p e. preferredTaskTrigger (Some p) (teEvent e) agent) (teEvent x) xs =
     lastBest (\<lambda>e. taskTriggerPriority e agent) (map teEvent (x # xs))"
proof (induction xs rule: rev_induct)
  case Nil
  then show ?case by (simp add: lastBest_def)
next
  case (snoc y ys)
  then show ?case
    using lastBest_snoc(1) [of "map teEvent (x # ys)" "\<lambda>e. taskTriggerPriority e agent" "teEvent y"]
    by (simp add: preferred_by_priority)
qed

lemma preferredOf_best:
  "es \<noteq> [] \<Longrightarrow> preferredOf es agent = lastBest (\<lambda>e. taskTriggerPriority e agent) (map teEvent es)"
  by (cases es) (blast, simp only: preferredOf_def preferredTriggerFromEvents_def list.case sum.case foldl_preferred)

lemma direct_comment_priority:
  "taskTriggerPriority e agent \<le> 4 \<and> (taskTriggerPriority e agent = 4 \<longleftrightarrow> triggerHasDirectProjectComment e)"
  by (simp add: taskTriggerPriority_def Let_def)

text \<open>
  C23. The trigger shown for a batch is the latest event of the highest priority; in particular, if the
  batch holds a direct human comment, the trigger is the latest such comment, whatever automated
  events arrived around it. Only the empty batch is refused.
\<close>

theorem preferred_trigger_is_latest_best:
  "preferredTriggerFromEvents es agent =
     (if es = [] then Inl ''Task trigger event batch cannot be empty''
      else if list_ex triggerHasDirectProjectComment (map teEvent es)
      then Inr (last (filter triggerHasDirectProjectComment (map teEvent es)))
      else Inr (lastBest (\<lambda>e. taskTriggerPriority e agent) (map teEvent es)))"
proof (cases es)
  case (Cons x xs)
  let ?p = "\<lambda>e. taskTriggerPriority e agent"
  have pref: "preferredTriggerFromEvents es agent = Inr (lastBest ?p (map teEvent es))"
    using Cons foldl_preferred [of agent x xs] by (simp add: preferredTriggerFromEvents_def)
  show ?thesis
  proof (cases "list_ex triggerHasDirectProjectComment (map teEvent es)")
    case True
    then obtain e where e: "e \<in> set (map teEvent es)" "?p e = 4"
      using direct_comment_priority [of _ agent] by (auto simp: list_ex_iff)
    have "Max (?p ` set (map teEvent es)) = 4"
    proof (rule Max_eqI)
      show "4 \<in> ?p ` set (map teEvent es)" using e by force
    qed (use direct_comment_priority [of _ agent] in auto)
    then have "lastBest ?p (map teEvent es) = last (filter triggerHasDirectProjectComment (map teEvent es))"
      using direct_comment_priority [of _ agent] by (simp add: lastBest_def)
    with True pref Cons show ?thesis by simp
  qed (use pref Cons in simp)
qed (simp add: preferredTriggerFromEvents_def)

section \<open>Restoring and consuming\<close>

definition appendAll :: "trigger_event list \<Rightarrow> trigger_event list \<Rightarrow> trigger_event list" where
  "appendAll es ps = foldl (\<lambda>c e. appendTaskTriggerEvent c (teEvent e) (teObservedAt e)) es ps"

lemma appendAll_batch_ok: "batch_ok es \<Longrightarrow> batch_ok (appendAll es ps)"
  unfolding appendAll_def by (induction ps arbitrary: es) (simp_all add: append_batch_ok)

lemma append_identities:
  "identityOf ` set (facts (appendTaskTriggerEvent es (teEvent e) (teObservedAt e))) \<supseteq> identityOf ` set (facts es)"
  by (simp add: append_facts image_Un)

lemma appendAll_facts:
  "\<exists>more. facts (appendAll es ps) = facts es @ more \<and> set more \<subseteq> set (facts ps)"
proof (induction ps arbitrary: es)
  case Nil
  then show ?case by (simp add: appendAll_def)
next
  case (Cons p ps)
  from Cons.IH [of "appendTaskTriggerEvent es (teEvent p) (teObservedAt p)"] obtain more where
    m: "facts (appendAll (appendTaskTriggerEvent es (teEvent p) (teObservedAt p)) ps) =
      facts (appendTaskTriggerEvent es (teEvent p) (teObservedAt p)) @ more" "set more \<subseteq> set (facts ps)" by blast
  have e: "appendAll es (p # ps) = appendAll (appendTaskTriggerEvent es (teEvent p) (teObservedAt p)) ps"
    by (simp add: appendAll_def)
  show ?case unfolding e m(1) append_facts using m(2)
    by (cases "isTick p \<or> identityOf p \<in> identityOf ` set es") auto
qed

lemma append_keeps_identity:
  assumes "e \<in> set es" and "\<not> isTick e"
  shows "e \<in> set (appendTaskTriggerEvent es ev now)"
  using assms by (cases rule: appendTaskTriggerEvent_cases [of es ev now]) auto

lemma appendAll_keeps:
  "e \<in> set es \<Longrightarrow> \<not> isTick e \<Longrightarrow> e \<in> set (appendAll es ps)"
  unfolding appendAll_def by (induction ps arbitrary: es) (simp_all add: append_keeps_identity)

text \<open>An identity is shared only by events of the same kind: ticks carry event ids of their own.\<close>

definition ticks_apart :: "trigger_event list \<Rightarrow> bool" where
  "ticks_apart es \<longleftrightarrow> (\<forall>e \<in> set es. \<forall>e' \<in> set es. identityOf e = identityOf e' \<longrightarrow> isTick e = isTick e')"

lemma appendAll_subset: "set (appendAll es ps) \<subseteq> set es \<union> set ps"
proof (induction ps arbitrary: es)
  case (Cons p ps)
  have "set (appendTaskTriggerEvent es (teEvent p) (teObservedAt p)) \<subseteq> insert p (set es)"
    by (cases rule: appendTaskTriggerEvent_cases [of es "teEvent p" "teObservedAt p"]) auto
  with Cons [of "appendTaskTriggerEvent es (teEvent p) (teObservedAt p)"] show ?case
    by (auto simp: appendAll_def)
qed (simp add: appendAll_def)

lemma appendAll_covers:
  assumes "ticks_apart (es @ ps)" and "p \<in> set ps" and "\<not> isTick p"
  shows "identityOf p \<in> identityOf ` set (facts (appendAll es ps))"
  using assms
proof (induction ps arbitrary: es)
  case (Cons q ps)
  let ?es = "appendTaskTriggerEvent es (teEvent q) (teObservedAt q)"
  have sub: "set ?es \<subseteq> insert q (set es)" using appendAll_subset [of es "[q]"] by (simp add: appendAll_def)
  have step: "appendAll es (q # ps) = appendAll ?es ps" by (simp add: appendAll_def)
  show ?case
  proof (cases "p \<in> set ps")
    case True
    have "ticks_apart (?es @ ps)" using Cons.prems(1) sub unfolding ticks_apart_def by auto
    from Cons.IH [OF this True Cons.prems(3)] show ?thesis by (simp add: step)
  next
    case False
    with Cons.prems have q: "p = q" by simp
    obtain e where e: "e \<in> set ?es" "identityOf e = identityOf q" "\<not> isTick e"
    proof (cases "identityOf q \<in> identityOf ` set es")
      case True
      then obtain e where "e \<in> set es" "identityOf e = identityOf q" by auto
      moreover from this Cons.prems q have "\<not> isTick e" by (auto simp: ticks_apart_def)
      ultimately show ?thesis using that append_keeps_identity by blast
    next
      case False
      have "q \<in> set (facts ?es)" using False Cons.prems(3) q by (simp add: append_facts)
      then show ?thesis using that by auto
    qed
    from appendAll_keeps [OF e(1,3)] e(2,3) q show ?thesis unfolding step by (auto intro!: image_eqI [of _ _ e])
  qed
qed simp

text \<open>
  C24. A failed or interrupted attempt gives its input back. Restoring its events puts them, in their
  order, in front of whatever arrived meanwhile; no event that is not a clock tick is lost from either
  side, none is duplicated, and nothing is invented.
\<close>

theorem restore_loses_nothing:
  assumes "batch_ok (attemptEvents a)" and "attemptEvents a \<noteq> []"
    and "ticks_apart (attemptEvents a @ (case dget (trTriggers tree) k of None \<Rightarrow> [] | Some t \<Rightarrow> taskTriggerEvents t))"
  shows "\<exists>tree' t'. restoreAttemptEvents tree k r a now = (True, tree') \<and> dget (trTriggers tree') k = Some t' \<and>
    batch_ok (taskTriggerEvents t') \<and>
    take (length (facts (attemptEvents a))) (facts (taskTriggerEvents t')) = facts (attemptEvents a) \<and>
    (\<forall>t p. dget (trTriggers tree) k = Some t \<and> p \<in> set (taskTriggerEvents t) \<and> \<not> isTick p \<longrightarrow>
       identityOf p \<in> identityOf ` set (taskTriggerEvents t')) \<and>
    set (taskTriggerEvents t') \<subseteq> set (attemptEvents a) \<union>
      (case dget (trTriggers tree) k of None \<Rightarrow> {} | Some t \<Rightarrow> set (taskTriggerEvents t)) \<and>
    (\<forall>k'. k' \<noteq> k \<longrightarrow> dget (trTriggers tree') k' = dget (trTriggers tree) k')"
proof -
  define ps where "ps = (case dget (trTriggers tree) k of None \<Rightarrow> [] | Some t \<Rightarrow> taskTriggerEvents t)"
  define c where "c = appendAll (attemptEvents a) ps"
  have restored: "restoredEvents a (dget (trTriggers tree) k) = c"
    by (simp add: restoredEvents_def c_def ps_def appendAll_def)
  obtain more where facts: "facts c = facts (attemptEvents a) @ more"
    using appendAll_facts [of "attemptEvents a" ps] by (auto simp: c_def)
  have ne: "c \<noteq> []"
  proof -
    have "appendTaskTriggerEvent es e n \<noteq> []" if "es \<noteq> []" for es e n
      using that by (cases rule: appendTaskTriggerEvent_cases [of es e n]) auto
    then have "appendAll es qs \<noteq> []" if "es \<noteq> []" for es qs
      using that by (induction qs arbitrary: es) (simp_all add: appendAll_def)
    with assms(2) show ?thesis by (simp add: c_def)
  qed
  obtain tree' where t': "restoreAttemptEvents tree k r a now = (True, tree')"
    by (simp add: restoreAttemptEvents_def assms(2) Let_def)
  then obtain t where t: "dget (trTriggers tree') k = Some t" "ttEvents t = Some c"
    "\<forall>k'. k' \<noteq> k \<longrightarrow> dget (trTriggers tree') k' = dget (trTriggers tree) k'"
    by (auto simp: restoreAttemptEvents_def assms(2) Let_def restored)
  have ev: "taskTriggerEvents t = c" using ne t(2) by (simp add: taskTriggerEvents_def)
  have "identityOf p \<in> identityOf ` set c" if "p \<in> set ps" "\<not> isTick p" for p
    using appendAll_covers [OF assms(3) [folded ps_def] that] by (auto simp: c_def)
  moreover have "set c \<subseteq> set (attemptEvents a) \<union> set ps" unfolding c_def by (rule appendAll_subset)
  moreover have "batch_ok c" unfolding c_def using assms(1) by (rule appendAll_batch_ok)
  ultimately show ?thesis using t' t ev facts
    by (intro exI [of _ tree'] exI [of _ t]) (auto simp: ps_def split: option.splits)
qed

text \<open>What a settlement answers: clock ticks, covered requests, and the live events it accepted.\<close>

definition answeredBy :: "int list \<Rightarrow> string list \<Rightarrow> trigger_event \<Rightarrow> bool" where
  "answeredBy accepted covered e \<longleftrightarrow>
     rget (teEvent e) ''type'' = JStr ''project.task.tick'' \<or>
     rget (teEvent e) ''type'' = JStr ''app.task.requested'' \<and>
       (\<exists>key \<in> set covered. rget (eventData (JObj (teEvent e))) ''idempotencyKey'' = JStr key) \<or>
     (\<exists>i \<in> set accepted. is_safe_integer (num_int i) \<and> js_Number (rget (teEvent e) ''eventId'') = num_int i)"

lemma covered_request:
  "list_ex (\<lambda>key. key \<in> set covered) (taskInputAdmissionKeys [e] []) \<longleftrightarrow>
     rget (teEvent e) ''type'' = JStr ''app.task.requested'' \<and>
     (\<exists>key \<in> set covered. rget (eventData (JObj (teEvent e))) ''idempotencyKey'' = JStr key)"
proof -
  let ?key = "rget (eventData (JObj (teEvent e))) ''idempotencyKey''"
  have "rget (canonicalAppEvent (teEvent e)) ''type'' = rget (teEvent e) ''type''"
    "jget (rget (canonicalAppEvent (teEvent e)) ''data'') ''idempotencyKey'' = ?key"
    by (simp_all add: canonicalAppEvent_def Let_def rget_def jget_def recordOf_def)
  then show ?thesis
    by (cases ?key) (auto simp: taskInputAdmissionKeys_def admissionKeyOf_def Let_def list_ex_iff split: bool.splits)
qed

lemma safe_integer_num: "is_safe_integer n \<Longrightarrow> n = num_int (to_int n)"
  by (cases n) (auto simp: is_safe_integer_def num_int_def)

lemma survives_unanswered: "survivesSettlement accepted covered = (\<lambda>e. \<not> answeredBy accepted covered e)"
proof
  fix e :: trigger_event
  let ?n = "js_Number (rget (teEvent e) ''eventId'')"
  have "is_safe_integer ?n \<and> to_int ?n \<in> set accepted \<longleftrightarrow>
      (\<exists>i \<in> set accepted. is_safe_integer (num_int i) \<and> ?n = num_int i)"
    using safe_integer_num [of ?n] by (metis to_int_num_int)
  then show "survivesSettlement accepted covered e = (\<not> answeredBy accepted covered e)"
    unfolding survivesSettlement_def answeredBy_def covered_request isTick_def Let_def by blast
qed

text \<open>
  C25. Settlement consumes exactly what it answered: afterwards the Task's pending events are the old
  ones, in order, without clock ticks, without the requests whose idempotency key the result covers,
  and without the events whose id it accepted live. A trigger with nothing left is removed, one with
  nothing to remove is untouched, and in any other the event shown is the preferred one of those left
  and the trigger's version grows. Nothing else in the tree changes.
\<close>

theorem consume_exact:
  assumes "dget (trTriggers tree) k = Some t"
  shows "let tree' = consumeSettledTaskEvents k agent ids keys tree;
             left = filter (\<lambda>e. \<not> answeredBy (listOr ids) (listOr keys) e) (taskTriggerEvents t)
    in tree'\<lparr>trTriggers := trTriggers tree\<rparr> = tree \<and>
       (\<forall>k'. k' \<noteq> k \<longrightarrow> dget (trTriggers tree') k' = dget (trTriggers tree) k') \<and>
       (case dget (trTriggers tree') k of
          None \<Rightarrow> left = []
        | Some t' \<Rightarrow> left \<noteq> [] \<and> taskTriggerEvents t' = left \<and> ttTaskGeneration t' = ttTaskGeneration t \<and>
            (if left = taskTriggerEvents t then t' = t
             else ttVersion t' = ttVersion t + 1 \<and> preferredTriggerFromEvents left agent = Inr (ttEvent t')))"
proof -
  let ?left = "filter (\<lambda>e. \<not> answeredBy (listOr ids) (listOr keys) e) (taskTriggerEvents t)"
  note consume = consumeSettledTaskEvents_def survives_unanswered Let_def
  have ne: "taskTriggerEvents t \<noteq> []" by (simp add: taskTriggerEvents_def)
  have len: "length ?left = length (taskTriggerEvents t) \<longleftrightarrow> ?left = taskTriggerEvents t"
    by (metis length_filter_less filter_True less_irrefl)
  consider (same) "?left = taskTriggerEvents t" | (gone) "?left \<noteq> taskTriggerEvents t" "?left = []"
    | (some) "?left \<noteq> taskTriggerEvents t" "?left \<noteq> []" by blast
  then show ?thesis
  proof cases
    case same
    with assms ne len show ?thesis by (simp add: consume)
  next
    case gone
    with assms ne len show ?thesis by (simp add: consume)
  next
    case some
    let ?t = "t\<lparr>ttVersion := ttVersion t + 1, ttEvents := Some ?left, ttEvent := preferredOf ?left agent,
      ttObservedAt := teObservedAt (last ?left)\<rparr>"
    have "preferredTriggerFromEvents ?left agent = Inr (preferredOf ?left agent)"
      using some(2) by (cases ?left) (simp_all add: preferredOf_def preferredTriggerFromEvents_def)
    moreover have "taskTriggerEvents ?t = ?left" using some by (simp add: taskTriggerEvents_def)
    ultimately show ?thesis using some assms len by (simp add: consume)
  qed
qed

section \<open>Examples\<close>

definition commentEvent :: trigger_event where
  "commentEvent = \<lparr>teEvent = [(''eventId'', JNum (num_int 3)), (''type'', JStr ''message.created'')], teObservedAt = 3\<rparr>"

definition tickEvent :: trigger_event where
  "tickEvent = \<lparr>teEvent = [(''eventId'', JNum (num_int 5)), (''type'', JStr ''project.task.tick'')], teObservedAt = 5\<rparr>"

definition exampleTrigger :: task_trigger where
  "exampleTrigger = \<lparr>ttTaskId = ''t'', ttTaskGeneration = 1, ttVersion = 1, ttEvents = Some [tickEvent],
     ttEvent = teEvent tickEvent, ttObservedAt = 5\<rparr>"

theorem append_preserves_batch_witness:
  "batch_ok (appendTaskTriggerEvent [commentEvent] (teEvent tickEvent) 5)"
proof -
  have "batch_ok [commentEvent]" by (simp add: batch_ok_def)
  from append_preserves_batch [OF this, of "teEvent tickEvent" 5] show ?thesis by (simp add: Let_def)
qed

theorem restore_loses_nothing_witness:
  "\<exists>tree' t'. restoreAttemptEvents (emptyTree\<lparr>trTriggers := [(''t'', exampleTrigger)]\<rparr>) ''t'' (blankTask ''t'')
       ((blankAttempt ''x'' ''t'')\<lparr>atEvents := Some [commentEvent]\<rparr>) 9 = (True, tree') \<and>
     dget (trTriggers tree') ''t'' = Some t' \<and> batch_ok (taskTriggerEvents t')"
proof -
  let ?a = "(blankAttempt ''x'' ''t'')\<lparr>atEvents := Some [commentEvent]\<rparr>"
  let ?tree = "emptyTree\<lparr>trTriggers := [(''t'', exampleTrigger)]\<rparr>"
  have ev: "attemptEvents ?a = [commentEvent]" by (simp add: attemptEvents_def)
  have tr: "dget (trTriggers ?tree) ''t'' = Some exampleTrigger" "taskTriggerEvents exampleTrigger = [tickEvent]"
    by (simp_all add: exampleTrigger_def taskTriggerEvents_def)
  have "batch_ok (attemptEvents ?a)" by (simp add: ev batch_ok_def)
  moreover have "ticks_apart [commentEvent, tickEvent]" by code_simp
  ultimately show ?thesis
    using restore_loses_nothing [of ?a ?tree "''t''" "blankTask ''t''" 9] by (auto simp: ev tr)
qed

theorem consume_exact_witness:
  "dget (trTriggers (consumeSettledTaskEvents ''t'' ''a'' None None
     (emptyTree\<lparr>trTriggers := [(''t'', exampleTrigger)]\<rparr>))) ''t'' = None"
proof -
  have "filter (\<lambda>e. \<not> answeredBy (listOr None) (listOr None) e) (taskTriggerEvents exampleTrigger) = []"
    by code_simp
  with consume_exact [of "emptyTree\<lparr>trTriggers := [(''t'', exampleTrigger)]\<rparr>" "''t''" exampleTrigger "''a''" None None]
  show ?thesis by (simp add: Let_def split: option.splits)
qed

end
