(* ===== verification/Resource_Store.thy ===== *)
theory Resource_Store
  imports Task_State "HOL-Library.Product_Lexorder"
begin

text \<open>
  \<open>AppTaskResourceStore\<close> (\<open>core/state/app-task-resource-store.ts\<close>): the durable Task state of one App,
  its fenced write path \<open>commit\<close>, the unfenced writes of the recovery index, and the wake that
  \<open>lib/db-writer.ts\<close> persists together with an event.

  The SQLite tables (\<open>lib/db/task-resource-schema.ts\<close>) are dictionaries and sets restricted to the
  rows of one App; a row's JSON column is the value itself, and a column that only repeats a field of
  that value is read from it. \<open>INSERT ... ON CONFLICT DO UPDATE\<close> is \<open>dset\<close>, a plain \<open>INSERT\<close> fails on an
  existing key, and deleting a Task or Condition removes the rows that reference it (the schema's
  cascades). The order of a query without \<open>ORDER BY\<close> is the database's choice: a parameter where whole
  tables are read (\<open>readSnapshot\<close>), insertion order where rows of one context are collected by their
  ids. A control key is unique in the whole database; a clash with another App's key, on which the
  insert throws, is not seen here. A transaction that throws leaves
  the store as it was, so an operation is a function to a result; \<open>Inr (False, st)\<close> is a rejected
  commit. The clock is a parameter, and so is the set of Tasks with unanswered human conversation
  input, which is read from the inbox tables.
\<close>

section \<open>Tables\<close>

datatype relation_kind = ParentRel | DependencyRel

record task_row =
  rwResource :: task_resource
  rwTrigger :: "task_trigger option"
  rwChanged :: bool
  rwReady :: bool
  rwNextCheckAt :: "rat option"
  rwLeaseUntil :: "int option"
  rwUpdatedAt :: int

record store_metadata =
  mtProject :: "string option"
  mtUpdatedAt :: "int option"
  mtLifecycle :: "string option"
  mtRootTaskId :: "string option"
  mtMaxConcurrent :: js

datatype control_action = CtlRetry | CtlCancel | CtlReopen

record control_receipt =
  ctKey :: string
  ctAppId :: string
  ctTaskId :: string
  ctAction :: control_action
  ctExpectedGeneration :: nat
  ctExpectedVersion :: nat
  ctAppliedVersion :: nat
  ctAppliedAt :: int
  ctClosure :: "task_cancellation option"
  ctResult :: js

record task_store =
  stAppId :: string
  stAuthority :: "string option"
  stMetadata :: "store_metadata option"
  stRevision :: nat
  stTasks :: "(string, task_row) dict"
  stEvents :: "(string \<times> int) list"
  stRelations :: "(string \<times> relation_kind \<times> string) list"
  stAttempts :: "(string, task_attempt) dict"
  stConditions :: "(string, task_condition) dict"
  stRoutes :: "(string \<times> string) list"
  stReceipts :: "(string, completion_receipt) dict"
  stCancellations :: "(string, task_cancellation) dict"
  stControls :: "(string, control_receipt) dict"
  stGroups :: "(string, task_group) dict"
  stAdmissions :: "(string, task_admission) dict"
  stHumanInput :: "string list"

definition normalizeAppId :: "string \<Rightarrow> string" where
  "normalizeAppId s = (let t = trim s in if ends_with t ''.app'' then take (length t - 4) t else t)"

definition emptyStore :: "string \<Rightarrow> task_store" where
  "emptyStore app = \<lparr>stAppId = app, stAuthority = None, stMetadata = None, stRevision = 0, stTasks = [],
     stEvents = [], stRelations = [], stAttempts = [], stConditions = [], stRoutes = [], stReceipts = [],
     stCancellations = [], stControls = [], stGroups = [], stAdmissions = [], stHumanInput = []\<rparr>"

definition fromDb :: "string \<Rightarrow> task_store result" where
  "fromDb appId =
     (if normalizeAppId appId = [] then Inl ''Task resource store requires an App id''
      else Inr (emptyStore (normalizeAppId appId)))"

section \<open>Reads\<close>

definition readTask :: "task_store \<Rightarrow> string \<Rightarrow> task_resource option" where
  "readTask st k = map_option rwResource (dget (stTasks st) k)"

definition readTrigger :: "task_store \<Rightarrow> string \<Rightarrow> task_trigger option" where
  "readTrigger st k = Option.bind (dget (stTasks st) k) rwTrigger"

definition readAttempt :: "task_store \<Rightarrow> string \<Rightarrow> task_attempt option" where
  "readAttempt st k = dget (stAttempts st) k"

definition readReceipt :: "task_store \<Rightarrow> string \<Rightarrow> completion_receipt option" where
  "readReceipt st k = dget (stReceipts st) k"

definition readControlReceipt :: "task_store \<Rightarrow> string \<Rightarrow> control_receipt option" where
  "readControlReceipt st k = dget (stControls st) k"

definition isCancelled :: "task_store \<Rightarrow> string \<Rightarrow> bool" where
  "isCancelled st k \<longleftrightarrow> dget (stCancellations st) k \<noteq> None"

definition readCancellation :: "task_store \<Rightarrow> string \<Rightarrow> task_cancellation option" where
  "readCancellation st k = dget (stCancellations st) k"

definition projectLifecycle :: "task_store \<Rightarrow> string option" where
  "projectLifecycle st =
     (case Option.bind (stMetadata st) mtLifecycle of
        Some l \<Rightarrow> if l = ''active'' \<or> l = ''paused'' then Some l else None
      | None \<Rightarrow> None)"

definition rootTaskId :: "task_store \<Rightarrow> string option" where
  "rootTaskId st =
     (case Option.bind (stMetadata st) mtRootTaskId of
        Some r \<Rightarrow> if trim r \<noteq> [] then Some r else None
      | None \<Rightarrow> None)"

definition configuredMaxConcurrent :: "task_store \<Rightarrow> int option" where
  "configuredMaxConcurrent st =
     (case stMetadata st of
        None \<Rightarrow> None
      | Some m \<Rightarrow> (let v = js_Number (mtMaxConcurrent m)
          in if is_safe_integer v \<and> 0 < to_int v then Some (to_int v) else None))"

definition hasPendingHumanConversationInput :: "task_store \<Rightarrow> string \<Rightarrow> bool" where
  "hasPendingHumanConversationInput st k \<longleftrightarrow> k \<in> set (stHumanInput st)"

definition allowsTaskExecution :: "task_store \<Rightarrow> string \<Rightarrow> bool" where
  "allowsTaskExecution st k \<longleftrightarrow> projectLifecycle st = Some ''active'' \<or> hasPendingHumanConversationInput st k"

definition eventKey :: "js_record \<Rightarrow> int option" where
  "eventKey event = (let n = js_Number (rget event ''eventId'')
     in if is_safe_integer n \<and> 0 < to_int n then Some (to_int n) else None)"

definition hasTaskEvent :: "task_store \<Rightarrow> string \<Rightarrow> js_record \<Rightarrow> bool" where
  "hasTaskEvent st k event = (case eventKey event of None \<Rightarrow> False | Some i \<Rightarrow> (k, i) \<in> set (stEvents st))"

definition readTaskConditions :: "task_store \<Rightarrow> string \<Rightarrow> task_condition list" where
  "readTaskConditions st k =
     List.map_filter (\<lambda>i. dget (stConditions st) i) (sort (map snd (filter (\<lambda>r. fst r = k) (stRoutes st))))"

section \<open>Settings\<close>

definition bumpRevision :: "task_store \<Rightarrow> task_store" where
  "bumpRevision st = st\<lparr>stRevision := stRevision st + 1\<rparr>"

definition setProjectLifecycle :: "string \<Rightarrow> task_store \<Rightarrow> task_store result" where
  "setProjectLifecycle lifecycle st =
     (if stAuthority st \<noteq> Some ''resources'' then Inl ''Task resource lifecycle requires active resource authority''
      else case stMetadata st of
          None \<Rightarrow> Inl ''Task resource store has no App metadata''
        | Some m \<Rightarrow> Inr (bumpRevision (st\<lparr>stMetadata := Some (m\<lparr>mtLifecycle := Some lifecycle\<rparr>)\<rparr>)))"

definition setConfiguredMaxConcurrent :: "jsnum \<Rightarrow> task_store \<Rightarrow> task_store result" where
  "setConfiguredMaxConcurrent n st =
     (if \<not> is_safe_integer n \<or> to_int n < 1 then Inl ''Task resource maxConcurrent must be a positive safe integer''
      else if stAuthority st \<noteq> Some ''resources''
      then Inl ''Task resource configuration requires active resource authority''
      else case stMetadata st of
          None \<Rightarrow> Inl ''Task resource store has no App metadata''
        | Some m \<Rightarrow>
            if mtMaxConcurrent m = JNum n then Inr st
            else Inr (bumpRevision (st\<lparr>stMetadata := Some (m\<lparr>mtMaxConcurrent := JNum n\<rparr>)\<rparr>)))"

section \<open>Writing rows\<close>

definition taskChanged :: "task_resource \<Rightarrow> task_trigger option \<Rightarrow> bool" where
  "taskChanged r trigger \<longleftrightarrow> trigger \<noteq> None \<or> tkPhase r \<noteq> PhRunning \<and> tkObservedGeneration r < tkGeneration r"

definition attemptLeaseUntil :: "task_attempt \<Rightarrow> int option" where
  "attemptLeaseUntil a = Option.bind (atLease a) (\<lambda>l. isoMillis (leExpiresAt l))"

definition finVal :: "jsnum \<Rightarrow> rat" where
  "finVal n = (case n of Fin r \<Rightarrow> r | _ \<Rightarrow> 0)"

definition declaredRelations :: "task_resource \<Rightarrow> (string \<times> relation_kind \<times> string) list" where
  "declaredRelations r =
     (let parent = trim (spParentId (tkSpec r))
      in (if parent \<noteq> [] then [(tkId r, ParentRel, parent)] else []) @
         map (\<lambda>d. (tkId r, DependencyRel, d))
           (uniq (filter (\<lambda>d. d \<noteq> []) (map trim (listOr (spDependsOn (tkSpec r)))))))"

definition putTaskRelations :: "task_resource \<Rightarrow> task_store \<Rightarrow> task_store" where
  "putTaskRelations r st =
     st\<lparr>stRelations := filter (\<lambda>(s, _). s \<noteq> tkId r) (stRelations st) @ declaredRelations r\<rparr>"

definition taskRow :: "task_store \<Rightarrow> int \<Rightarrow> task_resource \<Rightarrow> task_trigger option \<Rightarrow> bool \<Rightarrow> rat option \<Rightarrow> task_row" where
  "taskRow st now r trigger ready next =
     (let retryAt = pendingTaskExecutionRetryAt r now; exhausted = taskExecutionRetryExhausted r
      in \<lparr>rwResource = r, rwTrigger = trigger,
          rwChanged = (retryAt = None \<and> \<not> exhausted \<and> taskChanged r trigger),
          rwReady = (retryAt = None \<and> \<not> exhausted \<and> ready),
          rwNextCheckAt = (case retryAt of Some t \<Rightarrow> Some (finVal t) | None \<Rightarrow> next),
          rwLeaseUntil = (case tkCurrentAttemptId r of
             None \<Rightarrow> None
           | Some a \<Rightarrow> if a = [] then None else Option.bind (dget (stAttempts st) a) attemptLeaseUntil),
          rwUpdatedAt = tkUpdatedAt r\<rparr>)"

definition putTask ::
  "int \<Rightarrow> task_resource \<Rightarrow> task_trigger option \<Rightarrow> bool \<Rightarrow> rat option \<Rightarrow> task_store \<Rightarrow> task_store result" where
  "putTask now r trigger ready next st =
     (if normalizeAppId (stAppId st) = [] \<or> trim (tkId r) = []
      then Inl ''Task reference requires App and Task ids''
      else Inr (putTaskRelations r
        (st\<lparr>stTasks := dset (stTasks st) (tkId r) (taskRow st now r trigger ready next)\<rparr>)))"

definition putTaskConditionRoutes :: "task_resource \<Rightarrow> task_store \<Rightarrow> task_store" where
  "putTaskConditionRoutes r st =
     st\<lparr>stRoutes := filter (\<lambda>(t, _). t \<noteq> tkId r) (stRoutes st) @
        map (\<lambda>c. (tkId r, c))
          (filter (\<lambda>c. dget (stConditions st) c \<noteq> None) (uniq (listOr (tkConditionIds r))))\<rparr>"

definition putCancellation :: "task_cancellation \<Rightarrow> task_store \<Rightarrow> task_store result" where
  "putCancellation c st =
     (if caAppId c \<noteq> stAppId st then Inl ''Task cancellation belongs to another App''
      else if dget (stCancellations st) (caTaskId c) \<noteq> None then Inl ''UNIQUE constraint failed''
      else Inr (st\<lparr>stCancellations := dset (stCancellations st) (caTaskId c) c\<rparr>))"

text \<open>The delivery identities of a trigger are remembered for the Task.\<close>

definition recordTriggerEvents :: "string \<Rightarrow> task_trigger option \<Rightarrow> task_store \<Rightarrow> task_store" where
  "recordTriggerEvents k trigger st =
     (let entries = (case trigger of
          None \<Rightarrow> []
        | Some t \<Rightarrow> (case ttEvents t of
            Some es \<Rightarrow> map teEvent es | None \<Rightarrow> [ttEvent t]))
      in st\<lparr>stEvents := foldl (\<lambda>es i. sadd es (k, i)) (stEvents st) (List.map_filter eventKey entries)\<rparr>)"

definition deleteTask :: "string \<Rightarrow> task_store \<Rightarrow> task_store" where
  "deleteTask k st =
     st\<lparr>stTasks := ddel (stTasks st) k, stEvents := filter (\<lambda>(t, _). t \<noteq> k) (stEvents st),
        stRelations := filter (\<lambda>(s, _). s \<noteq> k) (stRelations st),
        stRoutes := filter (\<lambda>(t, _). t \<noteq> k) (stRoutes st)\<rparr>"

definition putAttempt :: "task_attempt \<Rightarrow> task_store \<Rightarrow> task_store" where
  "putAttempt a st =
     (let st' = st\<lparr>stAttempts := dset (stAttempts st) (atId a) a\<rparr>
      in if atState a \<noteq> ARunning then st'
         else case dget (stTasks st') (atTaskId a) of
             Some row \<Rightarrow>
               if tkCurrentAttemptId (rwResource row) = Some (atId a)
               then st'\<lparr>stTasks := dset (stTasks st') (atTaskId a) (row\<lparr>rwLeaseUntil := attemptLeaseUntil a\<rparr>)\<rparr>
               else st'
           | None \<Rightarrow> st')"

definition deleteCondition :: "string \<Rightarrow> task_store \<Rightarrow> task_store" where
  "deleteCondition c st =
     st\<lparr>stConditions := ddel (stConditions st) c, stRoutes := filter (\<lambda>(_, i). i \<noteq> c) (stRoutes st)\<rparr>"

definition pruneCondition :: "string \<Rightarrow> task_store \<Rightarrow> task_store" where
  "pruneCondition c st =
     (if list_ex (\<lambda>(_, i). i = c) (stRoutes st) then st
      else st\<lparr>stConditions := ddel (stConditions st) c\<rparr>)"

section \<open>Commit\<close>

record task_fence =
  fnTaskId :: string
  fnVersion :: nat
  fnGeneration :: "nat option"
  fnCurrentAttemptId :: "string option option"

record task_write =
  twResource :: task_resource
  twTrigger :: "task_trigger option"
  twReady :: bool
  twNextCheckAt :: "rat option"

record task_mutation =
  muFences :: "task_fence list"
  muRequireUnpausedTask :: "string option"
  muExpectMissing :: "string list"
  muTasks :: "task_write list"
  muDeleteTasks :: "string list"
  muAttempts :: "task_attempt list"
  muDeleteAttempts :: "string list"
  muConditions :: "task_condition list"
  muDeleteConditions :: "string list"
  muPruneConditions :: "string list"
  muReceipts :: "completion_receipt list"
  muDeleteReceipts :: "string list"
  muAdmissions :: "(string \<times> task_admission) list"
  muDeleteAdmissions :: "string list"
  muCancellations :: "task_cancellation list"
  muReopen :: "string list"
  muControls :: "control_receipt list"

definition noMutation :: task_mutation where
  "noMutation = \<lparr>muFences = [], muRequireUnpausedTask = None, muExpectMissing = [], muTasks = [],
     muDeleteTasks = [], muAttempts = [], muDeleteAttempts = [], muConditions = [],
     muDeleteConditions = [], muPruneConditions = [], muReceipts = [], muDeleteReceipts = [],
     muAdmissions = [], muDeleteAdmissions = [], muCancellations = [], muReopen = [], muControls = []\<rparr>"

definition fenceHolds :: "task_store \<Rightarrow> task_fence \<Rightarrow> bool" where
  "fenceHolds st f =
     (case readTask st (fnTaskId f) of
        None \<Rightarrow> False
      | Some r \<Rightarrow> tkVersion r = fnVersion f \<and>
          (case fnGeneration f of None \<Rightarrow> True | Some g \<Rightarrow> tkGeneration r = g) \<and>
          (case fnCurrentAttemptId f of None \<Rightarrow> True | Some a \<Rightarrow> tkCurrentAttemptId r = a))"

text \<open>An App may stop only a leaf: a live child of the Task rejects the commit.\<close>

definition hasLiveChild :: "task_store \<Rightarrow> string \<Rightarrow> bool" where
  "hasLiveChild st k =
     list_ex (\<lambda>(s, kind, target). kind = ParentRel \<and> target = k \<and> dget (stTasks st) s \<noteq> None \<and>
       \<not> isCancelled st s) (stRelations st)"

definition leafRule :: "task_store \<Rightarrow> task_cancellation \<Rightarrow> bool" where
  "leafRule st c = (case caDecidedBy c of Some (ByApp _ _) \<Rightarrow> \<not> hasLiveChild st (caTaskId c) | _ \<Rightarrow> True)"

definition restoredClosure :: "task_store \<Rightarrow> task_mutation \<Rightarrow> task_resource \<Rightarrow> bool" where
  "restoredClosure st m r \<longleftrightarrow> readTask st (tkId r) = None \<and>
     list_ex (\<lambda>c. caTaskId c = tkId r \<and> caKind c = Some Closed \<and> caGeneration c = tkGeneration r \<and>
       map_option rcGeneration (readReceipt st (tkId r)) = Some (caGeneration c)) (muCancellations m)"

text \<open>The checks of one Task write: \<open>Inl\<close> throws, \<open>Inr False\<close> rejects the commit.\<close>

definition admitWrite :: "task_store \<Rightarrow> task_mutation \<Rightarrow> task_resource \<Rightarrow> bool result" where
  "admitWrite st m r =
     (let previous = readTask st (tkId r)
      in if (case previous of None \<Rightarrow> False | Some p \<Rightarrow> tkCreator p \<noteq> tkCreator r)
         then Inl ''Task creator is immutable''
         else Inr (\<not> (map_option (\<lambda>p. spParentId (tkSpec p)) previous \<noteq> Some (spParentId (tkSpec r)) \<and>
           isCancelled st (spParentId (tkSpec r)) \<and> \<not> restoredClosure st m r)))"

fun admitWrites :: "task_store \<Rightarrow> task_mutation \<Rightarrow> task_write list \<Rightarrow> bool result" where
  "admitWrites st m [] = Inr True"
| "admitWrites st m (w # ws) =
     rbind (admitWrite st m (twResource w)) (\<lambda>ok. if ok then admitWrites st m ws else Inr False)"

definition reopenTask :: "task_mutation \<Rightarrow> task_store \<Rightarrow> string \<Rightarrow> task_store result" where
  "reopenTask m st k =
     (let receipt = find (\<lambda>e. ctTaskId e = k \<and> ctAction e = CtlReopen) (muControls m);
          next = map_option twResource (find (\<lambda>w. tkId (twResource w) = k) (muTasks m))
      in case (readCancellation st k, receipt) of
           (Some closure, Some rc) \<Rightarrow>
             if ctClosure rc \<noteq> Some closure \<or> ctExpectedGeneration rc \<noteq> caGeneration closure \<or>
                ctExpectedVersion rc \<noteq> caVersion closure \<or>
                map_option tkGeneration next \<noteq> Some (caGeneration closure + 1) \<or>
                \<not> list_ex (\<lambda>f. fnTaskId f = k \<and> fnVersion f = caVersion closure) (muFences m)
             then Inl ''Task reopening requires its exact closure, next generation and durable control receipt''
             else Inr (st\<lparr>stCancellations := ddel (stCancellations st) k\<rparr>)
         | _ \<Rightarrow> Inl ''Task reopening requires its exact closure, next generation and durable control receipt'')"

definition writeTask :: "int \<Rightarrow> task_store \<Rightarrow> task_write \<Rightarrow> task_store result" where
  "writeTask now st w =
     rbind (putTask now (twResource w) (twTrigger w) (twReady w) (twNextCheckAt w) st)
       (\<lambda>st'. Inr (recordTriggerEvents (tkId (twResource w)) (twTrigger w) st'))"

definition putReceipt :: "task_store \<Rightarrow> completion_receipt \<Rightarrow> task_store result" where
  "putReceipt st rc =
     (if normalizeAppId (stAppId st) = [] \<or> trim (rcId rc) = []
      then Inl ''Task reference requires App and Task ids''
      else Inr (st\<lparr>stReceipts := dset (stReceipts st) (rcId rc) rc\<rparr>))"

definition putControlReceipt :: "task_store \<Rightarrow> control_receipt \<Rightarrow> task_store result" where
  "putControlReceipt st rc =
     (if ctAppId rc \<noteq> stAppId st then Inl ''Task control receipt belongs to another App''
      else if dget (stControls st) (ctKey rc) \<noteq> None then Inl ''UNIQUE constraint failed''
      else Inr (st\<lparr>stControls := dset (stControls st) (ctKey rc) rc\<rparr>))"

definition writeConditions :: "task_mutation \<Rightarrow> task_store \<Rightarrow> task_store" where
  "writeConditions m st =
     (let st1 = foldl (\<lambda>s c. deleteCondition c s) st (muDeleteConditions m);
          st2 = foldl (\<lambda>s c. s\<lparr>stConditions := dset (stConditions s) (cnId c) c\<rparr>) st1 (muConditions m);
          st3 = foldl (\<lambda>s w. putTaskConditionRoutes (twResource w) s) st2 (muTasks m)
      in foldl (\<lambda>s c. pruneCondition c s) st3 (muPruneConditions m))"

definition writeAttempts :: "task_mutation \<Rightarrow> task_store \<Rightarrow> task_store" where
  "writeAttempts m st =
     foldl (\<lambda>s a. putAttempt a s)
       (foldl (\<lambda>s k. s\<lparr>stAttempts := ddel (stAttempts s) k\<rparr>) st (muDeleteAttempts m)) (muAttempts m)"

definition writeAdmissions :: "task_mutation \<Rightarrow> task_store \<Rightarrow> task_store" where
  "writeAdmissions m st =
     foldl (\<lambda>s (k, v). s\<lparr>stAdmissions := dset (stAdmissions s) k v\<rparr>)
       (foldl (\<lambda>s k. s\<lparr>stAdmissions := ddel (stAdmissions s) k\<rparr>) st (muDeleteAdmissions m)) (muAdmissions m)"

definition applyMutation :: "int \<Rightarrow> task_mutation \<Rightarrow> task_store \<Rightarrow> task_store result" where
  "applyMutation now m st =
     rbind (rfold (reopenTask m) st (uniq (muReopen m))) (\<lambda>st1.
     rbind (rfold (writeTask now) (foldl (\<lambda>s k. deleteTask k s) st1 (muDeleteTasks m)) (muTasks m)) (\<lambda>st2.
     rbind (rfold putReceipt
       ((\<lambda>s. foldl (\<lambda>s k. s\<lparr>stReceipts := ddel (stReceipts s) k\<rparr>) s (muDeleteReceipts m))
         (writeConditions m (writeAttempts m st2))) (muReceipts m)) (\<lambda>st3.
     rbind (rfold (\<lambda>s c. putCancellation c s) (writeAdmissions m st3) (muCancellations m)) (\<lambda>st4.
     rbind (rfold putControlReceipt st4 (muControls m)) (\<lambda>st5.
     Inr (bumpRevision st5))))))"

definition commit :: "int \<Rightarrow> task_mutation \<Rightarrow> task_store \<Rightarrow> (bool \<times> task_store) result" where
  "commit now m st =
     (if muFences m = [] \<and> muExpectMissing m = []
      then Inl ''Task resource mutation requires at least one existing or missing-task fence''
      else if (case muRequireUnpausedTask m of
                 None \<Rightarrow> False | Some k \<Rightarrow> k \<noteq> [] \<and> \<not> allowsTaskExecution st k)
      then Inr (False, st)
      else if \<not> list_all (fenceHolds st) (muFences m) then Inr (False, st)
      else if list_ex (\<lambda>k. dget (stTasks st) k \<noteq> None) (muExpectMissing m) then Inr (False, st)
      else if \<not> list_all (leafRule st) (muCancellations m) then Inr (False, st)
      else rbind (admitWrites st m (muTasks m)) (\<lambda>ok.
        if \<not> ok then Inr (False, st)
        else rbind (applyMutation now m st) (\<lambda>st'. Inr (True, st'))))"

definition replaceTask ::
  "int \<Rightarrow> nat \<Rightarrow> task_write \<Rightarrow> task_store \<Rightarrow> (bool \<times> task_store) result" where
  "replaceTask now expectedVersion w st =
     commit now (noMutation\<lparr>muFences := [\<lparr>fnTaskId = tkId (twResource w), fnVersion = expectedVersion,
       fnGeneration = None, fnCurrentAttemptId = None\<rparr>], muTasks := [w]\<rparr>) st"

section \<open>Recovery index\<close>

record recovery_cursor =
  cuLane :: app_task_lane
  cuUpdatedAt :: int
  cuTaskId :: string

record recovery_candidate =
  rcaTaskId :: string
  rcaLane :: app_task_lane
  rcaReady :: bool
  rcaChanged :: bool
  rcaNextCheckAt :: "rat option"
  rcaLeaseUntil :: "int option"

definition rowLane :: "task_row \<Rightarrow> app_task_lane" where
  "rowLane row = (case tkLane (rwResource row) of Some l \<Rightarrow> l | None \<Rightarrow> Normal)"

definition laneRank :: "app_task_lane \<Rightarrow> nat" where
  "laneRank l = (if l = Human then 0 else 1)"

type_synonym recovery_key = "nat \<times> int \<times> string"

text \<open>The \<open>ORDER BY\<close> key of the recovery query, and the key a cursor stands for.\<close>

definition rowKey :: "string \<times> task_row \<Rightarrow> recovery_key" where
  "rowKey p = (laneRank (rowLane (snd p)), rwUpdatedAt (snd p), fst p)"

definition cursorKey :: "recovery_cursor \<Rightarrow> recovery_key" where
  "cursorKey c = (laneRank (cuLane c), cuUpdatedAt c, cuTaskId c)"

definition isDue :: "int \<Rightarrow> task_row \<Rightarrow> bool" where
  "isDue now row \<longleftrightarrow> rwReady row \<or> rwChanged row \<or>
     (case rwNextCheckAt row of Some t \<Rightarrow> t \<le> of_int now | None \<Rightarrow> False) \<or>
     (case rwLeaseUntil row of Some t \<Rightarrow> t \<le> now | None \<Rightarrow> False)"

definition boundedPageLimit :: "nat \<Rightarrow> rat \<Rightarrow> nat" where
  "boundedPageLimit cap limit = nat (max 1 (min (int cap) \<lfloor>limit\<rfloor>))"

definition recoveryRows :: "task_store \<Rightarrow> int \<Rightarrow> recovery_cursor option \<Rightarrow> (string \<times> task_row) list" where
  "recoveryRows st now after =
     sort_key rowKey (filter (\<lambda>p. isDue now (snd p) \<and> \<not> isCancelled st (fst p) \<and>
       (case after of None \<Rightarrow> True | Some c \<Rightarrow> cursorKey c < rowKey p)) (stTasks st))"

definition candidateOf :: "string \<times> task_row \<Rightarrow> recovery_candidate" where
  "candidateOf p = \<lparr>rcaTaskId = fst p, rcaLane = rowLane (snd p), rcaReady = rwReady (snd p),
     rcaChanged = rwChanged (snd p), rcaNextCheckAt = rwNextCheckAt (snd p), rcaLeaseUntil = rwLeaseUntil (snd p)\<rparr>"

definition listRecoveryCandidates ::
  "task_store \<Rightarrow> int \<Rightarrow> rat \<Rightarrow> recovery_cursor option \<Rightarrow> recovery_candidate list \<times> recovery_cursor option" where
  "listRecoveryCandidates st now limit after =
     (let bounded = boundedPageLimit 10000 limit;
          rows = take bounded (recoveryRows st now after)
      in (map candidateOf rows,
          if length rows = bounded \<and> rows \<noteq> []
          then Some \<lparr>cuLane = rowLane (snd (last rows)), cuUpdatedAt = rwUpdatedAt (snd (last rows)),
                     cuTaskId = fst (last rows)\<rparr>
          else None))"

definition nextDueAt :: "task_store \<Rightarrow> rat option" where
  "nextDueAt st =
     (let due = List.map_filter (\<lambda>(k, row). if isCancelled st k then None else rwNextCheckAt row) (stTasks st)
      in if due = [] then None else Some (foldl min (hd due) (tl due)))"

definition byUpdate :: "string \<times> task_row \<Rightarrow> int \<times> string" where
  "byUpdate p = (rwUpdatedAt (snd p), fst p)"

definition listTaskIdsByPhase :: "task_store \<Rightarrow> task_phase list \<Rightarrow> rat \<Rightarrow> string list" where
  "listTaskIdsByPhase st phases limit =
     (if phases = [] then []
      else filter (\<lambda>k. k \<noteq> []) (map fst (take (boundedPageLimit 10000 limit) (sort_key byUpdate
        (filter (\<lambda>p. tkPhase (rwResource (snd p)) \<in> set phases \<and> \<not> isCancelled st (fst p)) (stTasks st))))))"

definition hasUnfinishedTasks :: "task_store \<Rightarrow> bool" where
  "hasUnfinishedTasks st =
     list_ex (\<lambda>p. tkPhase (rwResource (snd p)) \<noteq> PhConverged \<and> \<not> isCancelled st (fst p)) (stTasks st)"

definition listLiveTaskIds :: "task_store \<Rightarrow> string \<Rightarrow> rat \<Rightarrow> string list" where
  "listLiveTaskIds st exclude limit =
     filter (\<lambda>k. k \<noteq> []) (map fst (take (boundedPageLimit 1000 limit)
       (sort_key (\<lambda>p. (- rwUpdatedAt (snd p), fst p))
         (filter (\<lambda>p. fst p \<noteq> exclude \<and> tkPhase (rwResource (snd p)) \<noteq> PhConverged \<and>
            \<not> isCancelled st (fst p)) (stTasks st)))))"

record recovery_update =
  ruReady :: "bool option"
  ruChanged :: "bool option"
  ruNextCheckAt :: "rat option option"
  ruExpectedRevision :: "nat option"

definition effectiveUpdate :: "task_resource option \<Rightarrow> int \<Rightarrow> recovery_update \<Rightarrow> recovery_update" where
  "effectiveUpdate resource now u =
     (case resource of
        None \<Rightarrow> u
      | Some r \<Rightarrow>
          (let u1 = (case pendingTaskExecutionRetryAt r now of
                None \<Rightarrow> u
              | Some t \<Rightarrow> u\<lparr>ruReady := Some False, ruChanged := Some False, ruNextCheckAt := Some (Some (finVal t))\<rparr>)
           in if taskExecutionRetryExhausted r then u1\<lparr>ruReady := Some False, ruChanged := Some False\<rparr> else u1))"

definition updateRow :: "recovery_update \<Rightarrow> task_row \<Rightarrow> task_row" where
  "updateRow u row = row\<lparr>
     rwReady := (case ruReady u of Some b \<Rightarrow> b | None \<Rightarrow> rwReady row),
     rwChanged := (case ruChanged u of Some b \<Rightarrow> b | None \<Rightarrow> rwChanged row),
     rwNextCheckAt := (case ruNextCheckAt u of Some t \<Rightarrow> t | None \<Rightarrow> rwNextCheckAt row)\<rparr>"

definition setRecoveryState :: "int \<Rightarrow> string \<Rightarrow> recovery_update \<Rightarrow> task_store \<Rightarrow> bool \<times> task_store" where
  "setRecoveryState now k input st =
     (let u = effectiveUpdate (readTask st k) now input
      in case dget (stTasks st) k of
           None \<Rightarrow> (False, st)
         | Some row \<Rightarrow>
             if updateRow u row = row \<or> isCancelled st k \<or>
                (case ruExpectedRevision u of None \<Rightarrow> False | Some r \<Rightarrow> r \<noteq> stRevision st)
             then (False, st)
             else (True, st\<lparr>stTasks := dset (stTasks st) k (updateRow u row)\<rparr>))"

text \<open>\<open>repairWaitingConditionRecovery\<close>: a waiting Task with an open Condition is checked again soon.\<close>

definition hasOpenRoute :: "task_store \<Rightarrow> string \<Rightarrow> bool" where
  "hasOpenRoute st k =
     list_ex (\<lambda>(t, c). t = k \<and> (case dget (stConditions st) c of
       Some cond \<Rightarrow> cnState cond \<noteq> CondTrue | None \<Rightarrow> False)) (stRoutes st)"

definition storedRetryAt :: "rat \<Rightarrow> task_resource \<Rightarrow> rat" where
  "storedRetryAt dflt r = (case tkExecutionRetryAt r of Some (Fin t) \<Rightarrow> t | _ \<Rightarrow> dflt)"

definition needsConditionCheck :: "task_store \<Rightarrow> int \<Rightarrow> string \<Rightarrow> task_row \<Rightarrow> bool" where
  "needsConditionCheck st now k row \<longleftrightarrow> tkPhase (rwResource row) = PhWaiting \<and>
     (case rwNextCheckAt row of
        None \<Rightarrow> True
      | Some t \<Rightarrow> max (of_int (now + CONDITION_RECOVERY_INTERVAL_MS)) (storedRetryAt (of_int now) (rwResource row)) < t) \<and>
     \<not> isCancelled st k \<and> hasOpenRoute st k"

definition repairWaitingConditionRecovery :: "int \<Rightarrow> task_store \<Rightarrow> nat \<times> task_store" where
  "repairWaitingConditionRecovery now st =
     (length (filter (\<lambda>(k, row). needsConditionCheck st now k row) (stTasks st)),
      st\<lparr>stTasks := map (\<lambda>(k, row). (k, if needsConditionCheck st now k row
          then row\<lparr>rwNextCheckAt := Some (max (of_int now) (storedRetryAt (of_int now) (rwResource row)))\<rparr>
          else row)) (stTasks st)\<rparr>)"

section \<open>Persisted wakes\<close>

text \<open>
  \<open>persistExactTaskWake\<close> (\<open>lib/db-writer.ts\<close>) writes the same tables outside \<open>commit\<close>: the transaction
  that records a fenced emission or a resolved escalation also puts the event into the trigger of the
  Task it is addressed to. An event for another App's Task leaves this App's rows alone.
\<close>

definition readTaskEventTarget :: "js \<Rightarrow> (string option \<times> string) option" where
  "readTaskEventTarget value =
     (if \<not> isRecord value then None
      else
        (let target = recordOf value;
             taskId = (case rget target ''taskId'' of JStr s \<Rightarrow> trim s | _ \<Rightarrow> []);
             named = find (\<lambda>v. case v of JStr s \<Rightarrow> trim s \<noteq> [] | _ \<Rightarrow> False)
               [rget target ''appId'', rget target ''project''];
             appId = (case named of Some (JStr s) \<Rightarrow> normalizeAppId s | _ \<Rightarrow> [])
         in if taskId = [] then None else Some (if appId = [] then None else Some appId, taskId)))"

definition wakeRow :: "js_record \<Rightarrow> int \<Rightarrow> string \<Rightarrow> task_row \<Rightarrow> task_row" where
  "wakeRow canonical observedAt taskId row =
     (let previous = rwTrigger row;
          previousEvents = (case previous of
              None \<Rightarrow> []
            | Some t \<Rightarrow> (case ttEvents t of
                Some es \<Rightarrow> es | None \<Rightarrow> [\<lparr>teEvent = ttEvent t, teObservedAt = ttObservedAt t\<rparr>]));
          r = rwResource row
      in row\<lparr>rwChanged := True, rwReady := True, rwUpdatedAt := observedAt,
             rwResource := r\<lparr>tkVersion := tkVersion r + 1\<rparr>,
             rwTrigger := Some \<lparr>ttTaskId = taskId, ttTaskGeneration = tkGeneration r,
               ttVersion = (case previous of None \<Rightarrow> 0 | Some t \<Rightarrow> ttVersion t) + 1,
               ttEvents = Some (previousEvents @ [\<lparr>teEvent = canonical, teObservedAt = observedAt\<rparr>]),
               ttEvent = canonical, ttObservedAt = observedAt\<rparr>\<rparr>)"

definition persistExactTaskWake :: "js_record \<Rightarrow> js \<Rightarrow> int \<Rightarrow> int \<Rightarrow> task_store \<Rightarrow> task_store result" where
  "persistExactTaskWake event target eventId observedAt st =
     (case readTaskEventTarget target of
        Some (Some appId, taskId) \<Rightarrow>
          if appId \<noteq> stAppId st \<or> stAuthority st \<noteq> Some ''resources'' then Inr st
          else (case dget (stTasks st) taskId of
              None \<Rightarrow> Inl (''Task emission target does not exist: '' @ appId @ ''/'' @ taskId)
            | Some row \<Rightarrow>
                (let canonical = dset event ''eventId'' (JNum (num_int eventId))
                 in Inr (bumpRevision (st\<lparr>stEvents := sadd (stEvents st) (taskId, eventId),
                      stTasks := dset (stTasks st) taskId (wakeRow canonical observedAt taskId row)\<rparr>))))
      | _ \<Rightarrow> Inr st)"

section \<open>Condition routes\<close>

definition routeLive :: "task_row \<Rightarrow> bool" where
  "routeLive row \<longleftrightarrow> tkPhase (rwResource row) \<in> {PhWaiting, PhRunning, PhPending} \<or>
     tkPhase (rwResource row) = PhAttention \<and> tkRetryExhausted (rwResource row) \<noteq> None"

definition readConditionRoutes ::
  "task_store \<Rightarrow> string \<Rightarrow> string list option \<Rightarrow> (task_condition \<times> string list) list" where
  "readConditionRoutes st eventType taskIds =
     (let ids = map_option uniq taskIds in
      if ids = Some [] then []
      else
        (let rows = sort (List.map_filter (\<lambda>(t, c).
               case (dget (stConditions st) c, dget (stTasks st) t) of
                 (Some cond, Some row) \<Rightarrow>
                   if csType (cnSpec cond) = eventType \<and> (case ids of None \<Rightarrow> True | Some xs \<Rightarrow> t \<in> set xs) \<and>
                      cnState cond \<noteq> CondTrue \<and> routeLive row then Some (c, t) else None
               | _ \<Rightarrow> None) (stRoutes st));
             routes = foldl (\<lambda>m (c, t). if c = [] \<or> t = [] then m
               else dset m c ((case dget m c of None \<Rightarrow> [] | Some ts \<Rightarrow> ts) @ [t])) [] rows
         in List.map_filter (\<lambda>(c, ts). map_option (\<lambda>cond. (cond, ts)) (dget (stConditions st) c)) routes))"

section \<open>Snapshots\<close>

definition normalizeTaskGroup :: "string \<Rightarrow> task_group \<Rightarrow> task_group" where
  "normalizeTaskGroup k g = g\<lparr>grId := k, grOwner := trimmed (grOwner g)\<rparr>"

definition normalizeTaskStateInPlace :: "task_tree \<Rightarrow> task_tree" where
  "normalizeTaskStateInPlace tree =
     (let groups = map (\<lambda>(k, g). (k, normalizeTaskGroup k g)) (trGroups tree)
      in tree\<lparr>trGroups := groups,
           trRootTaskId := (case trRootTaskId tree of
              Some r \<Rightarrow> Some r
            | None \<Rightarrow> map_option (\<lambda>(_, g). grId g) (find (\<lambda>(_, g). grParentId g = Some None) groups))\<rparr>)"

definition triggersOf :: "(string, task_row) dict \<Rightarrow> (string, task_trigger) dict" where
  "triggersOf rows = List.map_filter (\<lambda>(k, row). map_option (\<lambda>t. (k, t)) (rwTrigger row)) rows"

definition resourcesOf :: "(string, task_row) dict \<Rightarrow> (string, task_resource) dict" where
  "resourcesOf rows = map (\<lambda>(k, row). (k, rwResource row)) rows"

text \<open>
  The rows of a table in the order a query without \<open>ORDER BY\<close> lists them, which is the database's own
  choice: \<open>scan\<close> takes the table and its keys to that order.
\<close>

definition scanRows :: "(string \<Rightarrow> string list \<Rightarrow> string list) \<Rightarrow> string \<Rightarrow> (string, 'v) dict \<Rightarrow> (string, 'v) dict" where
  "scanRows scan table d = List.map_filter (\<lambda>k. map_option (Pair k) (dget d k)) (scan table (dkeys d))"

definition readSnapshot :: "(string \<Rightarrow> string list \<Rightarrow> string list) \<Rightarrow> task_store \<Rightarrow> task_tree result" where
  "readSnapshot scan st =
     (case stMetadata st of
        None \<Rightarrow> Inl ''Task resource store has no imported App metadata''
      | Some m \<Rightarrow>
          (let rows = filter (\<lambda>p. fst p \<noteq> []) (scanRows scan ''app_tasks'' (stTasks st))
           in Inr \<lparr>trProject = mtProject m, trLifecycle = mtLifecycle m, trRootTaskId = mtRootTaskId m,
                trUpdatedAt = mtUpdatedAt m, trConditions = scanRows scan ''app_task_conditions'' (stConditions st),
                trResources = resourcesOf rows, trAttempts = scanRows scan ''app_task_attempts'' (stAttempts st),
                trTriggers = triggersOf rows, trAdmissions = scanRows scan ''app_task_admissions'' (stAdmissions st),
                trReceipts = scanRows scan ''app_task_receipts'' (stReceipts st),
                trCancellations = scanRows scan ''app_task_cancellations'' (stCancellations st),
                trGroups = map (\<lambda>(k, g). (k, normalizeTaskGroup k g))
                  (scanRows scan ''app_task_groups'' (stGroups st))\<rparr>))"

subsection \<open>The bounded context of named Tasks\<close>

type_synonym found_rows = "(string, task_row) dict"

definition relatedIds :: "task_resource \<Rightarrow> string list" where
  "relatedIds r = spParentId (tkSpec r) # listOr (spDependsOn (tkSpec r))"

definition contextRow :: "found_rows \<times> string list \<Rightarrow> string \<times> task_row \<Rightarrow> found_rows \<times> string list" where
  "contextRow acc p =
     (case acc of (found, todo) \<Rightarrow>
        if fst p = [] \<or> dget found (fst p) \<noteq> None then acc
        else
          (let found' = dset found (fst p) (snd p)
           in (found', foldl (\<lambda>ps i. if i = [] \<or> dget found' i \<noteq> None then ps else sadd ps i) todo
                 (relatedIds (rwResource (snd p))))))"

definition contextPass :: "task_store \<Rightarrow> string list \<Rightarrow> found_rows \<Rightarrow> found_rows \<times> string list" where
  "contextPass st todo found =
     foldl contextRow (found, []) (filter (\<lambda>p. fst p \<in> set todo) (stTasks st))"

definition unfound :: "task_store \<Rightarrow> found_rows \<Rightarrow> string set" where
  "unfound st found = {k \<in> set (dkeys (stTasks st)). dget found k = None}"

lemma contextRow_grows:
  "dget found k \<noteq> None \<Longrightarrow> dget (fst (contextRow (found, ps) p)) k \<noteq> None"
  by (simp add: contextRow_def Let_def)

lemma contextRows_grow:
  "dget (fst acc) k \<noteq> None \<Longrightarrow> dget (fst (foldl contextRow acc rows)) k \<noteq> None"
proof (induction rows arbitrary: acc)
  case (Cons p rows)
  then show ?case using contextRow_grows [of "fst acc" k "snd acc" p] by simp
qed simp

lemma contextRows_pending:
  assumes "snd (foldl contextRow (found, []) rows) \<noteq> []"
  shows "\<exists>p \<in> set rows. dget found (fst p) = None \<and> dget (fst (foldl contextRow (found, []) rows)) (fst p) \<noteq> None"
  using assms
proof (induction rows)
  case (Cons p rows)
  show ?case
  proof (cases "fst p = [] \<or> dget found (fst p) \<noteq> None")
    case True
    then have "contextRow (found, []) p = (found, [])" by (simp add: contextRow_def)
    with Cons show ?thesis by auto
  next
    case False
    then have "dget (fst (contextRow (found, []) p)) (fst p) \<noteq> None" by (simp add: contextRow_def Let_def)
    from contextRows_grow [OF this, of rows] False show ?thesis by auto
  qed
qed simp

lemma contextPass_shrinks:
  assumes "contextPass st todo found = (found', todo')"
  shows "unfound st found' \<subseteq> unfound st found \<and> (todo' \<noteq> [] \<longrightarrow> unfound st found' \<noteq> unfound st found)"
proof -
  let ?rows = "filter (\<lambda>p. fst p \<in> set todo) (stTasks st)"
  have eq: "foldl contextRow (found, []) ?rows = (found', todo')" using assms by (simp add: contextPass_def)
  have grow: "dget found k \<noteq> None \<Longrightarrow> dget found' k \<noteq> None" for k
    using contextRows_grow [of "(found, [])" k ?rows] by (simp add: eq)
  have "unfound st found' \<noteq> unfound st found" if ne: "todo' \<noteq> []"
  proof -
    obtain p where p: "p \<in> set (stTasks st)" "dget found (fst p) = None" "dget found' (fst p) \<noteq> None"
      using contextRows_pending [of found ?rows] ne by (auto simp: eq)
    then have "fst p \<in> unfound st found" "fst p \<notin> unfound st found'" by (auto simp: unfound_def dkeys_def)
    then show ?thesis by auto
  qed
  moreover have "unfound st found' \<subseteq> unfound st found" unfolding unfound_def using grow by blast
  ultimately show ?thesis by blast
qed

function contextLoop :: "task_store \<Rightarrow> string list \<Rightarrow> found_rows \<Rightarrow> found_rows" where
  "contextLoop st todo found =
     (if todo = [] then found
      else (case contextPass st todo found of (found', todo') \<Rightarrow> contextLoop st todo' found'))"
  by pat_completeness auto
termination
proof (relation "measure (\<lambda>(st, todo, found). 2 * card (unfound st found) + (if todo = [] then 0 else 1))")
  fix st :: task_store and todo :: "string list" and found found' :: found_rows and todo' :: "string list"
  assume ne: "todo \<noteq> []" and p: "(found', todo') = contextPass st todo found"
  have fin: "finite (unfound st found)" by (simp add: unfound_def)
  note s = contextPass_shrinks [OF p [symmetric]]
  have "card (unfound st found') \<le> card (unfound st found)" using s fin by (simp add: card_mono)
  moreover have "card (unfound st found') < card (unfound st found)" if "todo' \<noteq> []"
    using s that fin by (simp add: psubset_card_mono psubset_eq)
  ultimately show "((st, todo', found'), (st, todo, found)) \<in>
    measure (\<lambda>(st, todo, found). 2 * card (unfound st found) + (if todo = [] then 0 else 1))"
    using ne by auto
qed simp

declare contextLoop.simps [simp del]

text \<open>Related Tasks of the named ones: without a limit every dependent and child, else the first live children.\<close>

definition relatedRows :: "task_store \<Rightarrow> string list \<Rightarrow> jsnum option \<Rightarrow> (string \<times> task_row) list" where
  "relatedRows st requested limit =
     (case limit of
        Some n \<Rightarrow>
          if is_integer n \<and> 0 < to_int n
          then concat (map (\<lambda>target. take (nat (min 1000 (to_int n)))
                 (List.map_filter (\<lambda>s. map_option (\<lambda>row. (s, row)) (dget (stTasks st) s))
                   (sort (filter (\<lambda>s. dget (stTasks st) s \<noteq> None \<and> \<not> isCancelled st s)
                     (map fst (filter (\<lambda>(_, kind, t). kind = ParentRel \<and> t = target) (stRelations st)))))))
                 requested)
          else filter (\<lambda>(k, _). list_ex (\<lambda>(s, _, t). s = k \<and> t \<in> set requested) (stRelations st)) (stTasks st)
      | None \<Rightarrow> filter (\<lambda>(k, _). list_ex (\<lambda>(s, _, t). s = k \<and> t \<in> set requested) (stRelations st)) (stTasks st))"

definition routedRows :: "task_store \<Rightarrow> string list \<Rightarrow> (string \<times> task_row) list" where
  "routedRows st conditionIds =
     filter (\<lambda>(k, _). list_ex (\<lambda>(t, c). t = k \<and> c \<in> set conditionIds) (stRoutes st)) (stTasks st)"

definition addRows :: "found_rows \<Rightarrow> (string \<times> task_row) list \<Rightarrow> found_rows" where
  "addRows found rows = foldl (\<lambda>m (k, row). if k = [] then m else dset m k row) found rows"

definition contextAttempts :: "task_store \<Rightarrow> found_rows \<Rightarrow> (string, task_attempt) dict" where
  "contextAttempts st found =
     (let referenced = filter (\<lambda>i. i \<noteq> []) (concat (map (\<lambda>(_, row). List.map_filter id
            [tkCurrentAttemptId (rwResource row), tkObservedAttemptId (rwResource row)]) found));
          ofTask = (\<lambda>k. take 16 (sort_key (\<lambda>(i, a). (if i \<in> set referenced then 0 else 1 :: nat, - atStartedAt a))
            (rev (sort_key fst (filter (\<lambda>(_, a). atTaskId a = k) (stAttempts st))))));
          selected = concat (map ofTask (dkeys found))
      in filter (\<lambda>(i, _). i \<noteq> [] \<and> i \<in> fst ` set selected) (stAttempts st))"

definition groupRow ::
  "found_rows \<Rightarrow> (string, task_group) dict \<times> string list \<Rightarrow> string \<times> task_group \<Rightarrow> (string, task_group) dict \<times> string list" where
  "groupRow found acc p =
     (case acc of (groups, todo) \<Rightarrow>
        if fst p = [] \<or> dget groups (fst p) \<noteq> None then acc
        else
          (let g = normalizeTaskGroup (fst p) (snd p); groups' = dset groups (fst p) g
           in (groups', case grParentId g of
                 Some (Some parent) \<Rightarrow>
                   if parent \<noteq> [] \<and> dget groups' parent = None \<and> dget found parent = None then todo @ [parent] else todo
               | _ \<Rightarrow> todo)))"

definition groupPass ::
  "task_store \<Rightarrow> found_rows \<Rightarrow> string list \<Rightarrow> (string, task_group) dict \<Rightarrow> (string, task_group) dict \<times> string list" where
  "groupPass st found todo groups =
     foldl (groupRow found) (groups, []) (filter (\<lambda>p. fst p \<in> set todo) (stGroups st))"

definition missingGroups :: "task_store \<Rightarrow> (string, task_group) dict \<Rightarrow> string set" where
  "missingGroups st groups = {k \<in> set (dkeys (stGroups st)). dget groups k = None}"

lemma groupRows_grow:
  "dget (fst acc) k \<noteq> None \<Longrightarrow> dget (fst (foldl (groupRow found) acc rows)) k \<noteq> None"
proof (induction rows arbitrary: acc)
  case (Cons p rows)
  have "dget (fst (groupRow found acc p)) k \<noteq> None"
    using Cons.prems by (cases acc) (simp add: groupRow_def Let_def)
  with Cons.IH show ?case by simp
qed simp

lemma groupRows_todo:
  assumes "snd (foldl (groupRow found) (groups, []) rows) \<noteq> []"
  shows "\<exists>p \<in> set rows. dget groups (fst p) = None \<and> dget (fst (foldl (groupRow found) (groups, []) rows)) (fst p) \<noteq> None"
  using assms
proof (induction rows)
  case (Cons p rows)
  show ?case
  proof (cases "fst p = [] \<or> dget groups (fst p) \<noteq> None")
    case True
    then have "groupRow found (groups, []) p = (groups, [])" by (simp add: groupRow_def)
    with Cons show ?thesis by auto
  next
    case False
    then have "dget (fst (groupRow found (groups, []) p)) (fst p) \<noteq> None" by (simp add: groupRow_def Let_def)
    from groupRows_grow [OF this, of found rows] False show ?thesis by auto
  qed
qed simp

lemma groupPass_shrinks:
  assumes "groupPass st found todo groups = (groups', todo')"
  shows "missingGroups st groups' \<subseteq> missingGroups st groups \<and>
    (todo' \<noteq> [] \<longrightarrow> missingGroups st groups' \<noteq> missingGroups st groups)"
proof -
  let ?rows = "filter (\<lambda>p. fst p \<in> set todo) (stGroups st)"
  have eq: "foldl (groupRow found) (groups, []) ?rows = (groups', todo')" using assms by (simp add: groupPass_def)
  have grow: "dget groups k \<noteq> None \<Longrightarrow> dget groups' k \<noteq> None" for k
    using groupRows_grow [of "(groups, [])" k found ?rows] by (simp add: eq)
  have "missingGroups st groups' \<noteq> missingGroups st groups" if ne: "todo' \<noteq> []"
  proof -
    obtain p where p: "p \<in> set (stGroups st)" "dget groups (fst p) = None" "dget groups' (fst p) \<noteq> None"
      using groupRows_todo [of found groups ?rows] ne by (auto simp: eq)
    then have "fst p \<in> missingGroups st groups" "fst p \<notin> missingGroups st groups'"
      by (auto simp: missingGroups_def dkeys_def)
    then show ?thesis by auto
  qed
  moreover have "missingGroups st groups' \<subseteq> missingGroups st groups" unfolding missingGroups_def using grow by blast
  ultimately show ?thesis by blast
qed

function groupLoop ::
  "task_store \<Rightarrow> found_rows \<Rightarrow> string list \<Rightarrow> (string, task_group) dict \<Rightarrow> (string, task_group) dict" where
  "groupLoop st found todo groups =
     (if todo = [] then groups
      else (case groupPass st found todo groups of (groups', todo') \<Rightarrow> groupLoop st found todo' groups'))"
  by pat_completeness auto
termination
proof (relation "measure (\<lambda>(st, found, todo, groups). 2 * card (missingGroups st groups) + (if todo = [] then 0 else 1))")
  fix st :: task_store and found :: found_rows and todo todo' :: "string list"
    and groups groups' :: "(string, task_group) dict"
  assume ne: "todo \<noteq> []" and p: "(groups', todo') = groupPass st found todo groups"
  have fin: "finite (missingGroups st groups)" by (simp add: missingGroups_def)
  note s = groupPass_shrinks [OF p [symmetric]]
  have "card (missingGroups st groups') \<le> card (missingGroups st groups)" using s fin by (simp add: card_mono)
  moreover have "card (missingGroups st groups') < card (missingGroups st groups)" if "todo' \<noteq> []"
    using s that fin by (simp add: psubset_card_mono psubset_eq)
  ultimately show "((st, found, todo', groups'), (st, found, todo, groups)) \<in>
    measure (\<lambda>(st, found, todo, groups). 2 * card (missingGroups st groups) + (if todo = [] then 0 else 1))"
    using ne by auto
qed simp

declare groupLoop.simps [simp del]

record context_scope =
  scTaskIds :: "string list"
  scAdmissionIds :: "string list"
  scConditionIds :: "string list"

definition taskScope :: "string list \<Rightarrow> context_scope" where
  "taskScope ids = \<lparr>scTaskIds = ids, scAdmissionIds = [], scConditionIds = []\<rparr>"

definition cleanIds :: "string list \<Rightarrow> string list" where
  "cleanIds ids = uniq (filter (\<lambda>i. i \<noteq> []) (map trim ids))"

definition contextRows :: "task_store \<Rightarrow> context_scope \<Rightarrow> jsnum option \<Rightarrow> found_rows" where
  "contextRows st sc childLimit =
     (let requested = cleanIds (scTaskIds sc);
          found = contextLoop st requested [];
          found1 = (if requested \<noteq> [] \<and> childLimit \<noteq> Some (num_int 0)
                    then addRows found (relatedRows st requested childLimit) else found);
          conds = cleanIds (scConditionIds sc)
      in if conds = [] then found1 else addRows found1 (routedRows st conds))"

definition contextGroups :: "task_store \<Rightarrow> string list \<Rightarrow> found_rows \<Rightarrow> (string, task_group) dict" where
  "contextGroups st requested found =
     groupLoop st found (uniq (filter (\<lambda>k. dget found k = None) requested @
       List.map_filter (\<lambda>(_, row). let parent = spParentId (tkSpec (rwResource row))
         in if parent \<noteq> [] \<and> dget found parent = None then Some parent else None) found)) []"

definition readTaskContext :: "task_store \<Rightarrow> context_scope \<Rightarrow> bool \<Rightarrow> jsnum option \<Rightarrow> task_tree result" where
  "readTaskContext st sc includeHistory childLimit =
     (case stMetadata st of
        None \<Rightarrow> Inl ''Task resource store has no imported App metadata''
      | Some m \<Rightarrow>
          (let requested = cleanIds (scTaskIds sc);
               found = contextRows st sc childLimit;
               conditionIds = concat (map (\<lambda>(_, row). listOr (tkConditionIds (rwResource row))) found) @ scConditionIds sc;
               receiptIds = requested @ concat (map (\<lambda>(_, row). listOr (spDependsOn (tkSpec (rwResource row)))) found)
           in Inr \<lparr>trProject = mtProject m, trLifecycle = mtLifecycle m, trRootTaskId = mtRootTaskId m,
                trUpdatedAt = mtUpdatedAt m,
                trConditions = filter (\<lambda>(k, _). k \<in> set conditionIds \<and> k \<noteq> []) (stConditions st),
                trResources = resourcesOf found,
                trAttempts = (if includeHistory then contextAttempts st found else []),
                trTriggers = triggersOf found,
                trAdmissions = filter (\<lambda>(k, _). k \<in> set (scAdmissionIds sc) \<and> k \<noteq> []) (stAdmissions st),
                trReceipts = filter (\<lambda>(k, rc). k \<noteq> [] \<and> (k \<in> set receiptIds \<or>
                  includeHistory \<and> rcParentId rc \<in> set requested)) (stReceipts st),
                trCancellations = filter (\<lambda>(k, _). k \<in> fst ` set found) (stCancellations st),
                trGroups = contextGroups st requested found\<rparr>))"

section \<open>Bootstrap\<close>

text \<open>The positive integer event ids among JSON values.\<close>

definition jsonEventId :: "js \<Rightarrow> int option" where
  "jsonEventId v = (case v of JNum n \<Rightarrow> if is_safe_integer n \<and> 0 < to_int n then Some (to_int n) else None | _ \<Rightarrow> None)"

definition attemptEventIds :: "task_attempt \<Rightarrow> int list" where
  "attemptEventIds a =
     List.map_filter (\<lambda>e. jsonEventId (rget (teEvent e) ''eventId'')) (listOr (atEvents a)) @
     List.map_filter (\<lambda>e. jsonEventId (rget e ''eventId'')) (case atTrigger a of None \<Rightarrow> [] | Some e \<Rightarrow> [e]) @
     filter (\<lambda>i. 0 < i \<and> i \<le> max_safe_integer)
       (case atAcceptedResult a of None \<Rightarrow> [] | Some r \<Rightarrow> listOr (arAcceptedLiveEventIds r))"

definition triggerEventIds :: "task_trigger \<Rightarrow> int list" where
  "triggerEventIds t =
     List.map_filter (\<lambda>e. jsonEventId (rget (teEvent e) ''eventId'')) (listOr (ttEvents t)) @
     List.map_filter (\<lambda>e. jsonEventId (rget e ''eventId'')) [ttEvent t]"

definition backfillTaskEventReceipts :: "task_store \<Rightarrow> task_store" where
  "backfillTaskEventReceipts st =
     st\<lparr>stEvents := foldl sadd (stEvents st)
        (concat (map (\<lambda>(_, a). if dget (stTasks st) (atTaskId a) = None then []
             else map (\<lambda>i. (atTaskId a, i)) (attemptEventIds a)) (stAttempts st)) @
         concat (map (\<lambda>(k, row). case rwTrigger row of
             None \<Rightarrow> [] | Some t \<Rightarrow> map (\<lambda>i. (k, i)) (triggerEventIds t)) (stTasks st)))\<rparr>"

definition insertNew :: "('k, 'v) dict \<Rightarrow> 'k \<Rightarrow> 'v \<Rightarrow> ('k, 'v) dict result" where
  "insertNew d k v = (if dget d k \<noteq> None then Inl ''UNIQUE constraint failed'' else Inr (dset d k v))"

definition seedAttempt :: "task_store \<Rightarrow> task_attempt \<Rightarrow> task_store result" where
  "seedAttempt st a =
     rbind (insertNew (stAttempts st) (atId a) a) (\<lambda>attempts.
       Inr (case (atState a, atLease a, dget (stTasks st) (atTaskId a)) of
         (ARunning, Some l, Some row) \<Rightarrow>
           st\<lparr>stAttempts := attempts,
              stTasks := dset (stTasks st) (atTaskId a) (row\<lparr>rwLeaseUntil := isoMillis (leExpiresAt l)\<rparr>)\<rparr>
       | _ \<Rightarrow> st\<lparr>stAttempts := attempts\<rparr>))"

definition seedTask :: "int \<Rightarrow> task_tree \<Rightarrow> string list \<Rightarrow> task_store \<Rightarrow> task_resource \<Rightarrow> task_store result" where
  "seedTask now tree ready st r =
     (let trigger = dget (trTriggers tree) (tkId r)
      in rbind (putTask now r trigger (tkId r \<in> set ready) None st)
           (\<lambda>st'. Inr (recordTriggerEvents (tkId r) trigger st')))"

definition clearedStore :: "task_store \<Rightarrow> task_store" where
  "clearedStore st = st\<lparr>stTasks := [], stEvents := [], stRelations := [], stAttempts := [], stConditions := [],
     stRoutes := [], stReceipts := [], stCancellations := [], stGroups := [], stAdmissions := []\<rparr>"

definition seedCondition :: "task_store \<Rightarrow> task_condition \<Rightarrow> task_store result" where
  "seedCondition st c = rbind (insertNew (stConditions st) (cnId c) c) (\<lambda>d. Inr (st\<lparr>stConditions := d\<rparr>))"

definition seedReceipt :: "task_store \<Rightarrow> completion_receipt \<Rightarrow> task_store result" where
  "seedReceipt st rc =
     rbind (insertNew (stReceipts st) (rcId rc) rc) (\<lambda>d.
       if normalizeAppId (stAppId st) = [] \<or> trim (rcId rc) = []
       then Inl ''Task reference requires App and Task ids''
       else Inr (st\<lparr>stReceipts := d\<rparr>))"

definition seedGroup :: "task_store \<Rightarrow> string \<times> task_group \<Rightarrow> task_store result" where
  "seedGroup st p = rbind (insertNew (stGroups st) (fst p) (snd p)) (\<lambda>d. Inr (st\<lparr>stGroups := d\<rparr>))"

definition seedAdmission :: "task_store \<Rightarrow> string \<times> task_admission \<Rightarrow> task_store result" where
  "seedAdmission st p = rbind (insertNew (stAdmissions st) (fst p) (snd p)) (\<lambda>d. Inr (st\<lparr>stAdmissions := d\<rparr>))"

definition activate :: "task_tree \<Rightarrow> task_store \<Rightarrow> task_store" where
  "activate tree st =
     bumpRevision ((backfillTaskEventReceipts st)\<lparr>stAuthority := Some ''resources'',
       stMetadata := Some \<lparr>mtProject = trProject tree, mtUpdatedAt = trUpdatedAt tree,
         mtLifecycle = Some (if trLifecycle tree = Some ''paused'' then ''paused'' else ''active''),
         mtRootTaskId = trRootTaskId tree, mtMaxConcurrent = JUndef\<rparr>\<rparr>)"

definition seedStore :: "int \<Rightarrow> task_tree \<Rightarrow> string list \<Rightarrow> task_store \<Rightarrow> task_store result" where
  "seedStore now tree ready st =
     rbind (rfold (\<lambda>s c. putCancellation c s) (clearedStore st) (dvals (trCancellations tree))) (\<lambda>st1.
     rbind (rfold (seedTask now tree ready) st1 (dvals (trResources tree))) (\<lambda>st2.
     rbind (rfold seedAttempt st2 (dvals (trAttempts tree))) (\<lambda>st3.
     rbind (rfold seedCondition st3 (dvals (trConditions tree))) (\<lambda>st4.
     rbind (rfold seedReceipt (foldl (\<lambda>s r. putTaskConditionRoutes r s) st4 (dvals (trResources tree)))
       (dvals (trReceipts tree))) (\<lambda>st5.
     rbind (rfold seedGroup st5 (trGroups tree)) (\<lambda>st6.
     rbind (rfold seedAdmission st6 (trAdmissions tree)) (\<lambda>st7.
     Inr (activate tree st7))))))))"

definition bootstrapSnapshot :: "int \<Rightarrow> task_tree \<Rightarrow> string list \<Rightarrow> task_store \<Rightarrow> task_store result" where
  "bootstrapSnapshot now treeInput ready st =
     (let tree = normalizeTaskStateInPlace treeInput;
          project = (case trProject tree of None \<Rightarrow> [] | Some p \<Rightarrow> p) in
      if project \<noteq> [] \<and> (if ends_with project ''.app'' then take (length project - 4) project else project) \<noteq> stAppId st
      then Inl ''Task snapshot project does not match App''
      else if (case stAuthority st of None \<Rightarrow> False | Some a \<Rightarrow> a \<noteq> [])
      then Inl ''Task resource bootstrap found existing authority''
      else seedStore now tree ready st)"

end
