(* ===== verification/Store_Invariants.thy ===== *)
theory Store_Invariants
  imports Resource_Store
begin

text \<open>
  Invariants of the Task store. \<open>store_ok\<close> is what its tables always satisfy: rows are filed under
  their own ids, the relation table is exactly what the stored Tasks declare, a Condition route leads
  from a stored Task that lists the Condition to a stored Condition, delivery receipts belong to stored
  Tasks, and a Task whose retries are exhausted carries no ready or changed mark unless an event waits
  in its trigger. Every operation keeps it (\<open>store_step\<close>), whatever sequence of mutations the reconciler commits.
\<close>

definition rows_ok :: "(string, task_row) dict \<Rightarrow> bool" where
  "rows_ok tasks \<longleftrightarrow> dict_wf tasks \<and>
     (\<forall>k row. (k, row) \<in> set tasks \<longrightarrow> tkId (rwResource row) = k \<and>
        (taskExecutionRetryExhausted (rwResource row) \<and> rwTrigger row = None \<longrightarrow> \<not> rwReady row \<and> \<not> rwChanged row))"

definition allDeclared :: "(string, task_row) dict \<Rightarrow> (string \<times> relation_kind \<times> string) set" where
  "allDeclared d = (\<Union>p \<in> set d. set (declaredRelations (rwResource (snd p))))"

definition relations_ok :: "task_store \<Rightarrow> bool" where
  "relations_ok st \<longleftrightarrow> set (stRelations st) = allDeclared (stTasks st)"

definition routes_ok :: "string set \<Rightarrow> task_store \<Rightarrow> bool" where
  "routes_ok W st \<longleftrightarrow> (\<forall>t c. (t, c) \<in> set (stRoutes st) \<longrightarrow> dget (stConditions st) c \<noteq> None \<and>
     (t \<in> W \<or> (\<exists>row. dget (stTasks st) t = Some row \<and> c \<in> set (listOr (tkConditionIds (rwResource row))))))"

definition events_ok :: "task_store \<Rightarrow> bool" where
  "events_ok st \<longleftrightarrow> (\<forall>t i. (t, i) \<in> set (stEvents st) \<longrightarrow> dget (stTasks st) t \<noteq> None)"

definition store_ok :: "task_store \<Rightarrow> bool" where
  "store_ok st \<longleftrightarrow> rows_ok (stTasks st) \<and> relations_ok st \<and> routes_ok {} st \<and> events_ok st"

lemmas store_parts = rows_ok_def relations_ok_def routes_ok_def events_ok_def

section \<open>Single rows\<close>

lemma set_dset: "dict_wf d \<Longrightarrow> set (dset d k v) = insert (k, v) {p \<in> set d. fst p \<noteq> k}"
  by (induction d k v rule: dset.induct) (auto simp: dict_wf_def image_iff)

lemma set_ddel: "set (ddel d k) = {p \<in> set d. fst p \<noteq> k}"
  by (auto simp: ddel_def)

lemma taskRow_fields [simp]:
  "rwResource (taskRow st now r t ready next) = r" "rwTrigger (taskRow st now r t ready next) = t"
  by (simp_all add: taskRow_def Let_def)

lemma taskRow_exhausted:
  "taskExecutionRetryExhausted r \<Longrightarrow> \<not> rwReady (taskRow st now r t ready next) \<and> \<not> rwChanged (taskRow st now r t ready next)"
  by (simp add: taskRow_def Let_def)

lemma rows_ok_dset:
  assumes "rows_ok d" and "tkId (rwResource row) = k"
    and "taskExecutionRetryExhausted (rwResource row) \<Longrightarrow> rwTrigger row = None \<Longrightarrow> \<not> rwReady row \<and> \<not> rwChanged row"
  shows "rows_ok (dset d k row)"
  using assms by (auto simp: rows_ok_def set_dset)

lemma rows_ok_ddel: "rows_ok d \<Longrightarrow> rows_ok (ddel d k)"
  by (auto simp: rows_ok_def set_ddel)

lemma rows_ok_get:
  "rows_ok d \<Longrightarrow> dget d k = Some row \<Longrightarrow> tkId (rwResource row) = k \<and> dict_wf d \<and>
     (taskExecutionRetryExhausted (rwResource row) \<and> rwTrigger row = None \<longrightarrow> \<not> rwReady row \<and> \<not> rwChanged row)"
  using dget_Some_in [of d k row] by (auto simp: rows_ok_def)

lemma declaredRelations_source: "(s, x) \<in> set (declaredRelations r) \<Longrightarrow> s = tkId r"
  by (auto simp: declaredRelations_def Let_def split: if_splits)

lemma declared_source:
  "rows_ok d \<Longrightarrow> p \<in> set d \<Longrightarrow> x \<in> set (declaredRelations (rwResource (snd p))) \<Longrightarrow> fst x = fst p"
  using declaredRelations_source [of "fst x" "snd x"] by (cases p) (auto simp: rows_ok_def)

lemma allDeclared_ddel:
  assumes "rows_ok d"
  shows "allDeclared (ddel d k) = {x \<in> allDeclared d. fst x \<noteq> k}"
  using declared_source [OF assms] by (fastforce simp: allDeclared_def set_ddel)

lemma allDeclared_dset:
  assumes "rows_ok d" and "tkId (rwResource row) = k"
  shows "allDeclared (dset d k row) = {x \<in> allDeclared d. fst x \<noteq> k} \<union> set (declaredRelations (rwResource row))"
proof -
  have wf: "dict_wf d" using assms(1) by (simp add: rows_ok_def)
  have "allDeclared (dset d k row) = allDeclared (ddel d k) \<union> set (declaredRelations (rwResource row))"
    by (auto simp: allDeclared_def set_dset [OF wf] set_ddel)
  then show ?thesis by (simp add: allDeclared_ddel [OF assms(1)])
qed

text \<open>A row rewritten in place keeps everything that depends only on its Task.\<close>

lemma relations_same_resource:
  assumes "rows_ok d" and "dget d k = Some row" and "tkId (rwResource row') = tkId (rwResource row)"
    and "declaredRelations (rwResource row') = declaredRelations (rwResource row)"
  shows "allDeclared (dset d k row') = allDeclared d"
proof -
  have k: "tkId (rwResource row) = k" and wf: "dict_wf d" using rows_ok_get [OF assms(1,2)] by simp_all
  have "{x \<in> allDeclared d. fst x = k} = set (declaredRelations (rwResource row))"
  proof (rule set_eqI, rule iffI)
    fix x assume x: "x \<in> {x \<in> allDeclared d. fst x = k}"
    then obtain p where p: "p \<in> set d" "x \<in> set (declaredRelations (rwResource (snd p)))" by (auto simp: allDeclared_def)
    then have "fst p = k" using declared_source [OF assms(1) p] x by simp
    with p(1) have "(k, snd p) \<in> set d" by auto
    with dict_wf_dget [OF wf this] assms(2) have "snd p = row" by simp
    with p show "x \<in> set (declaredRelations (rwResource row))" by simp
  next
    fix x assume x: "x \<in> set (declaredRelations (rwResource row))"
    have in_d: "(k, row) \<in> set d" using assms(2) by (rule dget_Some_in)
    then have "x \<in> allDeclared d" using x by (auto simp: allDeclared_def intro!: bexI [of _ "(k, row)"])
    moreover have "fst x = k" using declared_source [OF assms(1) in_d, of x] x by simp
    ultimately show "x \<in> {x \<in> allDeclared d. fst x = k}" by simp
  qed
  then have "allDeclared d = {x \<in> allDeclared d. fst x \<noteq> k} \<union> set (declaredRelations (rwResource row))" by blast
  then show ?thesis using allDeclared_dset [OF assms(1), of row' k] k assms(3,4) by simp
qed

lemma store_ok_row:
  assumes "store_ok st" and "dget (stTasks st) k = Some row" and "tkId (rwResource row') = tkId (rwResource row)"
    and "declaredRelations (rwResource row') = declaredRelations (rwResource row)"
    and "tkConditionIds (rwResource row') = tkConditionIds (rwResource row)"
    and "taskExecutionRetryExhausted (rwResource row') \<Longrightarrow> rwTrigger row' = None \<Longrightarrow> \<not> rwReady row' \<and> \<not> rwChanged row'"
  shows "store_ok (st\<lparr>stTasks := dset (stTasks st) k row'\<rparr>)"
proof -
  have ok: "rows_ok (stTasks st)" using assms(1) by (simp add: store_ok_def)
  have "rows_ok (dset (stTasks st) k row')"
    using ok rows_ok_get [OF ok assms(2)] assms(3,6) by (intro rows_ok_dset) simp_all
  moreover have "relations_ok (st\<lparr>stTasks := dset (stTasks st) k row'\<rparr>)"
    using assms(1) relations_same_resource [OF ok assms(2-4)] by (simp add: store_ok_def relations_ok_def)
  moreover have "routes_ok {} (st\<lparr>stTasks := dset (stTasks st) k row'\<rparr>)"
    using assms(1,2,5) by (fastforce simp: store_ok_def routes_ok_def)
  ultimately show ?thesis using assms(1) by (auto simp: store_ok_def events_ok_def)
qed

section \<open>The steps of a commit\<close>

definition mid_ok :: "string set \<Rightarrow> task_store \<Rightarrow> bool" where
  "mid_ok W st \<longleftrightarrow> rows_ok (stTasks st) \<and> relations_ok st \<and> routes_ok W st \<and> events_ok st"

lemma mid_ok_start: "store_ok st \<Longrightarrow> mid_ok W st"
  by (auto simp: store_ok_def mid_ok_def routes_ok_def)

lemma mid_ok_frame:
  assumes "mid_ok W st" and "stTasks st' = stTasks st" and "stRelations st' = stRelations st"
    and "stRoutes st' = stRoutes st" and "stEvents st' = stEvents st" and "stConditions st' = stConditions st"
  shows "mid_ok W st'"
  using assms by (simp add: mid_ok_def relations_ok_def routes_ok_def events_ok_def)

lemma mid_ok_deleteTask:
  assumes "mid_ok W st"
  shows "mid_ok W (deleteTask k st)"
proof -
  have "relations_ok (deleteTask k st)"
    using assms allDeclared_ddel [of "stTasks st" k] by (auto simp: mid_ok_def relations_ok_def deleteTask_def)
  moreover have "rows_ok (stTasks (deleteTask k st))" using assms by (simp add: mid_ok_def deleteTask_def rows_ok_ddel)
  ultimately show ?thesis using assms
    by (auto simp: mid_ok_def routes_ok_def events_ok_def deleteTask_def)
qed

lemma putTask_ok:
  assumes "mid_ok W st" and "putTask now r t ready next st = Inr st'" and "tkId r \<in> W"
  shows "mid_ok W st'"
proof -
  let ?row = "taskRow st now r t ready next"
  have st': "st' = putTaskRelations r (st\<lparr>stTasks := dset (stTasks st) (tkId r) ?row\<rparr>)"
    using assms(2) by (simp add: putTask_def split: if_splits)
  have ok: "rows_ok (stTasks st)" "dict_wf (stTasks st)" using assms(1) by (simp_all add: mid_ok_def rows_ok_def)
  have "rows_ok (stTasks st')"
    unfolding st' putTaskRelations_def
    by (simp, rule rows_ok_dset) (use ok taskRow_exhausted [of r st now t ready "next"] in auto)
  moreover have "relations_ok st'"
    using assms(1) allDeclared_dset [OF ok(1), of ?row "tkId r"]
    by (auto simp: st' mid_ok_def relations_ok_def putTaskRelations_def)
  moreover have "routes_ok W st'"
    using assms(1,3) by (auto simp: st' mid_ok_def routes_ok_def putTaskRelations_def)
  moreover have "events_ok st'" using assms(1) by (auto simp: st' mid_ok_def events_ok_def putTaskRelations_def)
  ultimately show ?thesis by (simp add: mid_ok_def)
qed

lemma foldl_sadd_set: "set (foldl (\<lambda>es i. sadd es (f i)) es is) = set es \<union> f ` set is"
  by (induction "is" arbitrary: es) auto

lemma recordTriggerEvents_ok:
  assumes "mid_ok W st" and "dget (stTasks st) k \<noteq> None"
  shows "mid_ok W (recordTriggerEvents k t st)"
  using assms
  by (auto simp: mid_ok_def relations_ok_def routes_ok_def events_ok_def recordTriggerEvents_def Let_def foldl_sadd_set)

lemma writeTask_ok:
  assumes "mid_ok W st" and "writeTask now st w = Inr st'" and "tkId (twResource w) \<in> W"
  shows "mid_ok W st'"
proof -
  from assms(2) obtain st1 where p: "putTask now (twResource w) (twTrigger w) (twReady w) (twNextCheckAt w) st = Inr st1"
    and st': "st' = recordTriggerEvents (tkId (twResource w)) (twTrigger w) st1"
    by (auto simp: writeTask_def rbind_Inr)
  have "dget (stTasks st1) (tkId (twResource w)) \<noteq> None"
    using p by (auto simp: putTask_def putTaskRelations_def split: if_splits)
  with putTask_ok [OF assms(1) p assms(3)] show ?thesis unfolding st' by (rule recordTriggerEvents_ok)
qed

lemma putAttempt_ok:
  assumes "mid_ok W st"
  shows "mid_ok W (putAttempt a st)"
proof -
  let ?st = "st\<lparr>stAttempts := dset (stAttempts st) (atId a) a\<rparr>"
  have base: "mid_ok W ?st" using assms by (rule mid_ok_frame) simp_all
  show ?thesis
  proof (cases "\<exists>row. dget (stTasks st) (atTaskId a) = Some row \<and> atState a = ARunning \<and>
      tkCurrentAttemptId (rwResource row) = Some (atId a)")
    case True
    then obtain row where row: "dget (stTasks st) (atTaskId a) = Some row" "atState a = ARunning"
      "tkCurrentAttemptId (rwResource row) = Some (atId a)" by blast
    let ?row = "row\<lparr>rwLeaseUntil := attemptLeaseUntil a\<rparr>"
    have eq: "putAttempt a st = ?st\<lparr>stTasks := dset (stTasks st) (atTaskId a) ?row\<rparr>"
      using row by (simp add: putAttempt_def Let_def)
    have ok: "rows_ok (stTasks st)" using assms by (simp add: mid_ok_def)
    have "rows_ok (dset (stTasks st) (atTaskId a) ?row)"
      using rows_ok_get [OF ok row(1)] ok by (intro rows_ok_dset) simp_all
    moreover have "relations_ok (putAttempt a st)"
      using assms relations_same_resource [OF ok row(1), of ?row] by (simp add: eq mid_ok_def relations_ok_def)
    moreover have "routes_ok W (putAttempt a st)"
      using assms row(1) by (force simp: eq mid_ok_def routes_ok_def)
    ultimately show ?thesis using assms by (auto simp: eq mid_ok_def events_ok_def)
  next
    case False
    then have "putAttempt a st = ?st" by (auto simp: putAttempt_def Let_def split: option.splits)
    with base show ?thesis by simp
  qed
qed

lemma writeAttempts_ok: "mid_ok W st \<Longrightarrow> mid_ok W (writeAttempts m st)"
  unfolding writeAttempts_def
  by (intro foldl_invariant [where P = "mid_ok W"] putAttempt_ok) (auto intro: mid_ok_frame)

lemma deleteCondition_ok: "mid_ok W st \<Longrightarrow> mid_ok W (deleteCondition c st)"
  by (auto simp: mid_ok_def relations_ok_def routes_ok_def events_ok_def deleteCondition_def)

lemma putCondition_ok: "mid_ok W st \<Longrightarrow> mid_ok W (st\<lparr>stConditions := dset (stConditions st) c v\<rparr>)"
  by (auto simp: mid_ok_def relations_ok_def routes_ok_def events_ok_def)

lemma pruneCondition_ok: "mid_ok W st \<Longrightarrow> mid_ok W (pruneCondition c st)"
  by (auto simp: mid_ok_def relations_ok_def routes_ok_def events_ok_def pruneCondition_def list_ex_iff)

lemma putRoutes_ok:
  assumes "mid_ok W st" and "dget (stTasks st) (tkId r) = Some row" and "rwResource row = r"
  shows "mid_ok (W - {tkId r}) (putTaskConditionRoutes r st)"
  using assms by (auto simp: mid_ok_def relations_ok_def routes_ok_def events_ok_def putTaskConditionRoutes_def)

lemma putRoutes_tasks [simp]: "stTasks (putTaskConditionRoutes r st) = stTasks st"
  by (simp add: putTaskConditionRoutes_def)

text \<open>After the routes of every written Task are refreshed, no route is stale.\<close>

definition written :: "task_write list \<Rightarrow> string set" where
  "written ws = (\<lambda>w. tkId (twResource w)) ` set ws"

definition lastWrite :: "task_write list \<Rightarrow> string \<Rightarrow> task_write option" where
  "lastWrite ws t = find (\<lambda>w. tkId (twResource w) = t) (rev ws)"

lemma lastWrite_simps [simp]:
  "lastWrite [] t = None"
  "lastWrite (ws @ [w]) t = (if tkId (twResource w) = t then Some w else lastWrite ws t)"
  by (simp_all add: lastWrite_def)

lemma lastWrite_None: "lastWrite ws t = None \<longleftrightarrow> t \<notin> written ws"
  by (auto simp: lastWrite_def written_def find_None_iff)

abbreviation storedTask :: "task_store \<Rightarrow> string \<Rightarrow> task_resource option" where
  "storedTask st t \<equiv> map_option rwResource (dget (stTasks st) t)"

lemma writeTask_get:
  assumes "writeTask now st w = Inr st'"
  shows "storedTask st' t = (if t = tkId (twResource w) then Some (twResource w) else storedTask st t)"
  using assms
  by (auto simp: writeTask_def rbind_Inr putTask_def putTaskRelations_def recordTriggerEvents_def Let_def split: if_splits)

lemma writeTasks_get:
  "rfold (writeTask now) st ws = Inr st' \<Longrightarrow>
     storedTask st' t = (case lastWrite ws t of Some w \<Rightarrow> Some (twResource w) | None \<Rightarrow> storedTask st t)"
proof (induction ws arbitrary: st' rule: rev_induct)
  case (snoc w ws)
  then obtain st1 where "rfold (writeTask now) st ws = Inr st1" "writeTask now st1 w = Inr st'"
    by (auto simp: rfold_append rbind_Inr)
  with snoc.IH [of st1] writeTask_get [of now st1 w st' t] show ?case by (auto split: option.splits)
qed simp

lemma putRoutes_mem:
  "(t, c) \<in> set (stRoutes (putTaskConditionRoutes r st)) \<longleftrightarrow>
     (if t = tkId r then c \<in> set (listOr (tkConditionIds r)) \<and> dget (stConditions st) c \<noteq> None
      else (t, c) \<in> set (stRoutes st))"
  by (auto simp: putTaskConditionRoutes_def)

lemma putRoutes_all:
  "(t, c) \<in> set (stRoutes (foldl (\<lambda>s w. putTaskConditionRoutes (twResource w) s) st ws)) \<Longrightarrow>
     (case lastWrite ws t of
        None \<Rightarrow> (t, c) \<in> set (stRoutes st)
      | Some w \<Rightarrow> c \<in> set (listOr (tkConditionIds (twResource w))) \<and> dget (stConditions st) c \<noteq> None)"
proof (induction ws rule: rev_induct)
  case (snoc w ws)
  have frame: "stConditions (foldl (\<lambda>s w. putTaskConditionRoutes (twResource w) s) st ws) = stConditions st"
    by (rule foldl_invariant [where P = "\<lambda>s. stConditions s = stConditions st"])
      (simp_all add: putTaskConditionRoutes_def)
  from snoc show ?case by (auto simp: putRoutes_mem frame split: if_splits)
qed simp

lemma routes_refreshed:
  assumes "mid_ok (written ws) st"
    and "\<And>t. storedTask st t = (case lastWrite ws t of Some w \<Rightarrow> Some (twResource w) | None \<Rightarrow> storedTask st t)"
  shows "mid_ok {} (foldl (\<lambda>s w. putTaskConditionRoutes (twResource w) s) st ws)"
proof -
  let ?st = "foldl (\<lambda>s w. putTaskConditionRoutes (twResource w) s) st ws"
  have frame: "stTasks ?st = stTasks st \<and> stRelations ?st = stRelations st \<and> stEvents ?st = stEvents st \<and>
    stConditions ?st = stConditions st"
    by (rule foldl_invariant [where P = "\<lambda>s. stTasks s = stTasks st \<and> stRelations s = stRelations st \<and>
        stEvents s = stEvents st \<and> stConditions s = stConditions st"])
      (simp_all add: putTaskConditionRoutes_def)
  have "routes_ok {} ?st"
  proof -
    have "dget (stConditions st) c \<noteq> None \<and>
        (\<exists>row. dget (stTasks st) t = Some row \<and> c \<in> set (listOr (tkConditionIds (rwResource row))))"
      if tc: "(t, c) \<in> set (stRoutes ?st)" for t c
    proof (cases "lastWrite ws t")
      case None
      with putRoutes_all [OF tc] lastWrite_None [of ws t] assms(1) show ?thesis
        by (auto simp: mid_ok_def routes_ok_def)
    next
      case (Some w)
      with putRoutes_all [OF tc] assms(2) [of t] show ?thesis by auto
    qed
    then show ?thesis by (simp add: routes_ok_def frame)
  qed
  then show ?thesis using assms(1) frame by (simp add: mid_ok_def relations_ok_def events_ok_def)
qed

lemma storedTask_putAttempt [simp]: "storedTask (putAttempt a st) t = storedTask st t"
  by (simp add: putAttempt_def Let_def split: option.splits)

lemma storedTask_writeAttempts [simp]: "storedTask (writeAttempts m st) t = storedTask st t"
  unfolding writeAttempts_def
  by (rule foldl_invariant [where P = "\<lambda>s. storedTask s t = storedTask st t"],
      rule foldl_invariant [where P = "\<lambda>s. storedTask s t = storedTask st t"]) simp_all

lemma writeConditions_ok:
  assumes "mid_ok (written (muTasks m)) st"
    and "\<And>t. storedTask st t = (case lastWrite (muTasks m) t of Some w \<Rightarrow> Some (twResource w) | None \<Rightarrow> storedTask st t)"
  shows "mid_ok {} (writeConditions m st)" and "stTasks (writeConditions m st) = stTasks st"
proof -
  let ?st1 = "foldl (\<lambda>s c. deleteCondition c s) st (muDeleteConditions m)"
  let ?st2 = "foldl (\<lambda>s c. s\<lparr>stConditions := dset (stConditions s) (cnId c) c\<rparr>) ?st1 (muConditions m)"
  have t1: "stTasks ?st1 = stTasks st"
    by (rule foldl_invariant [where P = "\<lambda>s. stTasks s = stTasks st"]) (simp_all add: deleteCondition_def)
  have t2: "stTasks ?st2 = stTasks st"
    by (rule foldl_invariant [where P = "\<lambda>s. stTasks s = stTasks st"]) (simp_all add: t1)
  have "mid_ok (written (muTasks m)) ?st1"
    using assms(1) by (rule foldl_invariant) (rule deleteCondition_ok)
  then have "mid_ok (written (muTasks m)) ?st2" by (rule foldl_invariant) (rule putCondition_ok)
  then have r: "mid_ok {} (foldl (\<lambda>s w. putTaskConditionRoutes (twResource w) s) ?st2 (muTasks m))"
    by (rule routes_refreshed) (simp only: t2, rule assms(2))
  show "mid_ok {} (writeConditions m st)"
    unfolding writeConditions_def Let_def using r by (rule foldl_invariant) (rule pruneCondition_ok)
  show "stTasks (writeConditions m st) = stTasks st"
    unfolding writeConditions_def Let_def
    by (rule foldl_invariant [where P = "\<lambda>s. stTasks s = stTasks st"],
        rule foldl_invariant [where P = "\<lambda>s. stTasks s = stTasks st"])
      (simp_all add: t2 pruneCondition_def)
qed

lemma mid_ok_rfold_frame:
  assumes "rfold f st xs = Inr st'" and "mid_ok W st"
    and "\<And>s x s'. f s x = Inr s' \<Longrightarrow> stTasks s' = stTasks s \<and> stRelations s' = stRelations s \<and>
      stRoutes s' = stRoutes s \<and> stEvents s' = stEvents s \<and> stConditions s' = stConditions s"
  shows "mid_ok W st'"
  using assms(1,2)
proof (rule rfold_invariant)
  fix s x s' assume "mid_ok W s" "f s x = Inr s'"
  with assms(3) [OF this(2)] show "mid_ok W s'" by (auto intro: mid_ok_frame)
qed

lemma reopenTask_frame:
  "reopenTask m st k = Inr st' \<Longrightarrow> st' = st\<lparr>stCancellations := ddel (stCancellations st) k\<rparr>"
  by (auto simp: reopenTask_def Let_def split: option.splits if_splits)

lemma putCancellation_frame:
  "putCancellation c st = Inr st' \<Longrightarrow> st' = st\<lparr>stCancellations := dset (stCancellations st) (caTaskId c) c\<rparr> \<and>
     dget (stCancellations st) (caTaskId c) = None"
  by (auto simp: putCancellation_def split: if_splits)

lemma writeAdmissions_frame:
  "\<exists>d. writeAdmissions m st = st\<lparr>stAdmissions := d\<rparr>"
proof -
  have h: "\<exists>d. foldl (\<lambda>s k. s\<lparr>stAdmissions := ddel (stAdmissions s) k\<rparr>) st (muDeleteAdmissions m) = st\<lparr>stAdmissions := d\<rparr>"
    by (rule foldl_invariant [where P = "\<lambda>s. \<exists>d. s = st\<lparr>stAdmissions := d\<rparr>"]) (auto intro: exI [of _ "stAdmissions st"])
  show ?thesis unfolding writeAdmissions_def
    by (rule foldl_invariant [where P = "\<lambda>s. \<exists>d. s = st\<lparr>stAdmissions := d\<rparr>", OF h]) auto
qed

lemma deleteReceipts_frame:
  "\<exists>d. foldl (\<lambda>s k. s\<lparr>stReceipts := ddel (stReceipts s) k\<rparr>) st ks = st\<lparr>stReceipts := d\<rparr>"
  by (rule foldl_invariant [where P = "\<lambda>s. \<exists>d. s = st\<lparr>stReceipts := d\<rparr>"]) (auto intro: exI [of _ "stReceipts st"])

text \<open>Everything a committed mutation does, in order.\<close>

lemma applyMutation_cases:
  assumes "applyMutation now m st = Inr st'"
  obtains st1 st2 st3 st4 st5 where "rfold (reopenTask m) st (uniq (muReopen m)) = Inr st1"
    and "rfold (writeTask now) (foldl (\<lambda>s k. deleteTask k s) st1 (muDeleteTasks m)) (muTasks m) = Inr st2"
    and "rfold putReceipt (foldl (\<lambda>s k. s\<lparr>stReceipts := ddel (stReceipts s) k\<rparr>)
        (writeConditions m (writeAttempts m st2)) (muDeleteReceipts m)) (muReceipts m) = Inr st3"
    and "rfold (\<lambda>s c. putCancellation c s) (writeAdmissions m st3) (muCancellations m) = Inr st4"
    and "rfold putControlReceipt st4 (muControls m) = Inr st5" and "st' = bumpRevision st5"
  using assms unfolding applyMutation_def by (auto simp: rbind_Inr)

lemma applyMutation_ok:
  assumes "store_ok st" and "applyMutation now m st = Inr st'"
  shows "store_ok st'"
proof -
  let ?W = "written (muTasks m)"
  from assms(2) show ?thesis
  proof (rule applyMutation_cases)
    fix st1 st2 st3 st4 st5
    assume st1: "rfold (reopenTask m) st (uniq (muReopen m)) = Inr st1"
      and st2: "rfold (writeTask now) (foldl (\<lambda>s k. deleteTask k s) st1 (muDeleteTasks m)) (muTasks m) = Inr st2"
      and st3: "rfold putReceipt (foldl (\<lambda>s k. s\<lparr>stReceipts := ddel (stReceipts s) k\<rparr>)
          (writeConditions m (writeAttempts m st2)) (muDeleteReceipts m)) (muReceipts m) = Inr st3"
      and st4: "rfold (\<lambda>s c. putCancellation c s) (writeAdmissions m st3) (muCancellations m) = Inr st4"
      and st5: "rfold putControlReceipt st4 (muControls m) = Inr st5" and st': "st' = bumpRevision st5"
    have "mid_ok ?W st1" using st1 mid_ok_start [OF assms(1)]
      by (rule mid_ok_rfold_frame) (auto dest: reopenTask_frame)
    then have "mid_ok ?W (foldl (\<lambda>s k. deleteTask k s) st1 (muDeleteTasks m))"
      by (rule foldl_invariant) (rule mid_ok_deleteTask)
    with st2 have "mid_ok ?W st2"
      by (rule rfold_invariant) (auto simp: written_def intro: writeTask_ok)
    then have "mid_ok ?W (writeAttempts m st2)" by (rule writeAttempts_ok)
    moreover have "storedTask (writeAttempts m st2) t = (case lastWrite (muTasks m) t of
        Some w \<Rightarrow> Some (twResource w) | None \<Rightarrow> storedTask (writeAttempts m st2) t)" for t
      using writeTasks_get [OF st2, of t] by (simp split: option.splits)
    ultimately have c: "mid_ok {} (writeConditions m (writeAttempts m st2))" by (rule writeConditions_ok)
    obtain d where d: "foldl (\<lambda>s k. s\<lparr>stReceipts := ddel (stReceipts s) k\<rparr>)
        (writeConditions m (writeAttempts m st2)) (muDeleteReceipts m) =
        (writeConditions m (writeAttempts m st2))\<lparr>stReceipts := d\<rparr>" using deleteReceipts_frame by blast
    have "mid_ok {} ((writeConditions m (writeAttempts m st2))\<lparr>stReceipts := d\<rparr>)"
      using c by (rule mid_ok_frame) simp_all
    with st3 have "mid_ok {} st3" unfolding d
      by (rule mid_ok_rfold_frame) (auto simp: putReceipt_def split: if_splits)
    then have "mid_ok {} (writeAdmissions m st3)"
      using writeAdmissions_frame [of m st3] by (auto intro: mid_ok_frame)
    with st4 have "mid_ok {} st4" by (rule mid_ok_rfold_frame) (auto dest: putCancellation_frame)
    with st5 have "mid_ok {} st5"
      by (rule mid_ok_rfold_frame) (auto simp: putControlReceipt_def split: if_splits)
    then have "mid_ok {} st'" unfolding st' by (rule mid_ok_frame) (simp_all add: bumpRevision_def)
    then show ?thesis by (simp add: mid_ok_def store_ok_def)
  qed
qed

lemma commit_cases:
  assumes "commit now m st = Inr (b, st')"
  shows "(\<not> b \<and> st' = st) \<or> (b \<and> applyMutation now m st = Inr st' \<and> list_all (fenceHolds st) (muFences m) \<and>
    list_all (\<lambda>k. dget (stTasks st) k = None) (muExpectMissing m) \<and> list_all (leafRule st) (muCancellations m) \<and>
    admitWrites st m (muTasks m) = Inr True \<and> (muFences m \<noteq> [] \<or> muExpectMissing m \<noteq> []) \<and>
    (\<forall>k. muRequireUnpausedTask m = Some k \<and> k \<noteq> [] \<longrightarrow> allowsTaskExecution st k))"
  using assms
  by (auto simp: commit_def rbind_Inr list_ex_iff list_all_iff split: if_splits option.splits)

section \<open>Reachable stores\<close>

inductive store_step :: "task_store \<Rightarrow> task_store \<Rightarrow> bool" where
  committed: "commit now m st = Inr (b, st') \<Longrightarrow> store_step st st'"
| recovery: "store_step st (snd (setRecoveryState now k u st))"
| repaired: "store_step st (snd (repairWaitingConditionRecovery now st))"
| lifecycle: "setProjectLifecycle l st = Inr st' \<Longrightarrow> store_step st st'"
| configured: "setConfiguredMaxConcurrent n st = Inr st' \<Longrightarrow> store_step st st'"
| inbox: "store_step st (st\<lparr>stHumanInput := ks\<rparr>)"
| woken: "persistExactTaskWake event target i at' st = Inr st' \<Longrightarrow> store_step st st'"
| seeded: "bootstrapSnapshot now tree ready st = Inr st' \<Longrightarrow> store_step st st'"

inductive store_reach :: "task_store \<Rightarrow> bool" where
  start: "fromDb app = Inr st \<Longrightarrow> store_reach st"
| step: "store_reach st \<Longrightarrow> store_step st st' \<Longrightarrow> store_reach st'"

lemma store_ok_frame:
  assumes "store_ok st" and "stTasks st' = stTasks st" and "stRelations st' = stRelations st"
    and "stRoutes st' = stRoutes st" and "stEvents st' = stEvents st" and "stConditions st' = stConditions st"
  shows "store_ok st'"
  using mid_ok_frame [OF mid_ok_start [OF assms(1), of "{}"] assms(2-6)] by (simp add: mid_ok_def store_ok_def)

lemma store_ok_recovery:
  assumes "store_ok st"
  shows "store_ok (snd (setRecoveryState now k u st))"
proof (cases "dget (stTasks st) k")
  case None
  with assms show ?thesis by (simp add: setRecoveryState_def Let_def)
next
  case (Some row)
  let ?u = "effectiveUpdate (readTask st k) now u"
  have "\<not> rwReady (updateRow ?u row) \<and> \<not> rwChanged (updateRow ?u row)"
    if "taskExecutionRetryExhausted (rwResource row)"
    using that Some by (simp add: effectiveUpdate_def readTask_def updateRow_def Let_def)
  then have "store_ok (st\<lparr>stTasks := dset (stTasks st) k (updateRow ?u row)\<rparr>)"
    by (intro store_ok_row [OF assms Some]) (simp_all add: updateRow_def)
  with assms Some show ?thesis by (simp add: setRecoveryState_def Let_def)
qed

lemma store_ok_mapped:
  assumes "store_ok st" and "\<And>k row. rwResource (f k row) = rwResource row \<and> rwReady (f k row) = rwReady row \<and>
      rwChanged (f k row) = rwChanged row \<and> rwTrigger (f k row) = rwTrigger row"
  shows "store_ok (st\<lparr>stTasks := map (\<lambda>(k, row). (k, f k row)) (stTasks st)\<rparr>)"
proof -
  let ?d = "map (\<lambda>(k, row). (k, f k row)) (stTasks st)"
  have get: "dget ?d k = map_option (f k) (dget (stTasks st) k)" for k by (rule dget_map)
  have keys: "map fst ?d = map fst (stTasks st)" by auto
  have "rows_ok ?d" using assms by (auto simp: store_ok_def rows_ok_def dict_wf_def keys simp del: map_map)
  moreover have "allDeclared ?d = allDeclared (stTasks st)"
    using assms(2) by (auto simp: allDeclared_def split: prod.splits)
  moreover have "routes_ok {} (st\<lparr>stTasks := ?d\<rparr>)"
    using assms by (fastforce simp: store_ok_def routes_ok_def get)
  ultimately show ?thesis using assms(1)
    by (auto simp: store_ok_def relations_ok_def events_ok_def get)
qed

text \<open>A persisted wake touches one row: its marks, its trigger, its update time and its version.\<close>

lemma wakeRow_fields [simp]:
  "rwResource (wakeRow e t k row) = (rwResource row)\<lparr>tkVersion := Suc (tkVersion (rwResource row))\<rparr>"
  "rwTrigger (wakeRow e t k row) \<noteq> None"
  by (simp_all add: wakeRow_def Let_def)

lemma persistExactTaskWake_cases:
  assumes "persistExactTaskWake event target i t st = Inr st'"
  obtains "st' = st" | k row where "dget (stTasks st) k = Some row"
    "st' = bumpRevision (st\<lparr>stEvents := sadd (stEvents st) (k, i),
       stTasks := dset (stTasks st) k (wakeRow (dset event ''eventId'' (JNum (num_int i))) t k row)\<rparr>)"
proof -
  consider "st' = st" | a k row where "readTaskEventTarget target = Some (Some a, k)" "dget (stTasks st) k = Some row"
    "\<not> (a \<noteq> stAppId st \<or> stAuthority st \<noteq> Some ''resources'')"
    using assms unfolding persistExactTaskWake_def
    by (simp split: option.split_asm if_split_asm prod.split_asm)
  then show ?thesis
  proof cases
    case 1
    then show ?thesis by (rule that(1))
  next
    case (2 a k row)
    then show ?thesis using assms by (intro that(2) [of k row]) (simp_all add: persistExactTaskWake_def Let_def)
  qed
qed

lemma store_ok_woken:
  assumes "store_ok st" and "persistExactTaskWake event target i t st = Inr st'"
  shows "store_ok st'"
  using assms(2)
proof (cases rule: persistExactTaskWake_cases)
  case (2 k row)
  let ?row = "wakeRow (dset event ''eventId'' (JNum (num_int i))) t k row"
  let ?st = "st\<lparr>stTasks := dset (stTasks st) k ?row\<rparr>"
  have "store_ok ?st"
    by (rule store_ok_row [OF assms(1) 2(1)]) (simp_all add: declaredRelations_def Let_def)
  then have "store_ok (?st\<lparr>stEvents := sadd (stEvents st) (k, i)\<rparr>)"
    by (auto simp: store_ok_def relations_ok_def routes_ok_def events_ok_def)
  then show ?thesis unfolding 2(2) by (rule store_ok_frame) (simp_all add: bumpRevision_def)
qed (use assms(1) in simp)

text \<open>Seeding writes a Task the way a commit does.\<close>

definition seedWrite :: "task_tree \<Rightarrow> string list \<Rightarrow> task_resource \<Rightarrow> task_write" where
  "seedWrite tree ready r = \<lparr>twResource = r, twTrigger = dget (trTriggers tree) (tkId r),
     twReady = (tkId r \<in> set ready), twNextCheckAt = None\<rparr>"

lemma seedTask_eq: "seedTask now tree ready st r = writeTask now st (seedWrite tree ready r)"
  by (simp add: seedTask_def writeTask_def seedWrite_def Let_def)

lemma seedAttempt_ok:
  assumes "mid_ok W st" and "seedAttempt st a = Inr st'"
  shows "mid_ok W st' \<and> (\<forall>t. storedTask st' t = storedTask st t)"
proof -
  have ok: "rows_ok (stTasks st)" using assms(1) by (simp add: mid_ok_def)
  from assms(2) obtain d where d: "insertNew (stAttempts st) (atId a) a = Inr d" by (auto simp: seedAttempt_def rbind_Inr)
  consider (plain) "st' = st\<lparr>stAttempts := d\<rparr>"
    | (lease) row l where "dget (stTasks st) (atTaskId a) = Some row"
        "st' = st\<lparr>stAttempts := d, stTasks := dset (stTasks st) (atTaskId a) (row\<lparr>rwLeaseUntil := l\<rparr>)\<rparr>"
    using assms(2) d by (auto simp: seedAttempt_def split: attempt_state.splits option.splits)
  then show ?thesis
  proof cases
    case plain
    have "mid_ok W (st\<lparr>stAttempts := d\<rparr>)" using assms(1) by (rule mid_ok_frame) simp_all
    then show ?thesis by (simp add: plain)
  next
    case lease
    have "rows_ok (dset (stTasks st) (atTaskId a) (row\<lparr>rwLeaseUntil := l\<rparr>))"
      using rows_ok_get [OF ok lease(1)] ok by (intro rows_ok_dset) simp_all
    moreover have "routes_ok W st'" using assms(1) lease(1) by (force simp: lease(2) mid_ok_def routes_ok_def)
    ultimately show ?thesis
      using assms(1) relations_same_resource [OF ok lease(1), of "row\<lparr>rwLeaseUntil := l\<rparr>"] lease(1)
      by (auto simp: lease(2) mid_ok_def relations_ok_def events_ok_def)
  qed
qed

lemma backfill_ok:
  assumes "store_ok st"
  shows "store_ok (backfillTaskEventReceipts st)"
proof -
  have sadds: "set (foldl sadd es xs) = set es \<union> set xs" for es xs :: "(string \<times> int) list"
    by (induction xs arbitrary: es) auto
  have "(t, i) \<in> set (stEvents (backfillTaskEventReceipts st)) \<Longrightarrow> dget (stTasks st) t \<noteq> None" for t i
    using assms
    by (auto simp: backfillTaskEventReceipts_def sadds store_ok_def events_ok_def rows_ok_def
        dest!: dict_wf_dget split: if_splits option.splits)
  then show ?thesis using assms
    by (simp add: store_ok_def relations_ok_def routes_ok_def events_ok_def backfillTaskEventReceipts_def)
qed

lemma seedStore_cases:
  assumes "seedStore now tree ready st = Inr st'"
  obtains st1 st2 st3 st4 st5 st6 st7 where
    "rfold (\<lambda>s c. putCancellation c s) (clearedStore st) (dvals (trCancellations tree)) = Inr st1"
    and "rfold (writeTask now) st1 (map (seedWrite tree ready) (dvals (trResources tree))) = Inr st2"
    and "rfold seedAttempt st2 (dvals (trAttempts tree)) = Inr st3"
    and "rfold seedCondition st3 (dvals (trConditions tree)) = Inr st4"
    and "rfold seedReceipt (foldl (\<lambda>s w. putTaskConditionRoutes (twResource w) s) st4
        (map (seedWrite tree ready) (dvals (trResources tree)))) (dvals (trReceipts tree)) = Inr st5"
    and "rfold seedGroup st5 (trGroups tree) = Inr st6"
    and "rfold seedAdmission st6 (trAdmissions tree) = Inr st7" and "st' = activate tree st7"
proof -
  have w: "twResource (seedWrite tree ready r) = r" for r by (simp add: seedWrite_def)
  have t: "seedTask now tree ready = (\<lambda>s r. writeTask now s (seedWrite tree ready r))"
    by (intro ext) (rule seedTask_eq)
  from assms show ?thesis
    unfolding seedStore_def t rfold_map [symmetric]
    by (elim rbind_InrE) (rule that, assumption+, simp add: foldl_map w, assumption+, simp)
qed

lemma store_ok_seed:
  assumes "seedStore now tree ready st = Inr st'"
  shows "store_ok st'"
  using assms
proof (rule seedStore_cases)
  fix st1 st2 st3 st4 st5 st6 st7
  let ?ws = "map (seedWrite tree ready) (dvals (trResources tree))"
  assume st1: "rfold (\<lambda>s c. putCancellation c s) (clearedStore st) (dvals (trCancellations tree)) = Inr st1"
    and st2: "rfold (writeTask now) st1 ?ws = Inr st2"
    and st3: "rfold seedAttempt st2 (dvals (trAttempts tree)) = Inr st3"
    and st4: "rfold seedCondition st3 (dvals (trConditions tree)) = Inr st4"
    and st5: "rfold seedReceipt (foldl (\<lambda>s w. putTaskConditionRoutes (twResource w) s) st4 ?ws)
        (dvals (trReceipts tree)) = Inr st5"
    and st6: "rfold seedGroup st5 (trGroups tree) = Inr st6"
    and st7: "rfold seedAdmission st6 (trAdmissions tree) = Inr st7" and st': "st' = activate tree st7"
  have "mid_ok (written ?ws) (clearedStore st)"
    by (simp add: clearedStore_def mid_ok_def rows_ok_def relations_ok_def allDeclared_def routes_ok_def events_ok_def)
  with st1 have "mid_ok (written ?ws) st1" by (rule mid_ok_rfold_frame) (auto dest: putCancellation_frame)
  with st2 have m2: "mid_ok (written ?ws) st2"
    by (rule rfold_invariant) (auto simp: written_def intro: writeTask_ok)
  have s3: "mid_ok (written ?ws) st3 \<and> (\<forall>t. storedTask st3 t = storedTask st2 t)"
    by (rule rfold_invariant [OF st3]) (use m2 seedAttempt_ok in \<open>simp, metis\<close>)
  have s4: "mid_ok (written ?ws) st4 \<and> stTasks st4 = stTasks st3"
    by (rule rfold_invariant [OF st4])
      (use s3 in \<open>auto simp: seedCondition_def insertNew_def rbind_def intro: putCondition_ok split: if_splits\<close>)
  have "storedTask st4 t = (case lastWrite ?ws t of Some w \<Rightarrow> Some (twResource w) | None \<Rightarrow> storedTask st4 t)" for t
    using writeTasks_get [OF st2, of t] s3 s4 by (simp split: option.splits)
  with s4 have "mid_ok {} (foldl (\<lambda>s w. putTaskConditionRoutes (twResource w) s) st4 ?ws)"
    by (intro routes_refreshed) simp_all
  with st5 have "mid_ok {} st5"
    by (rule mid_ok_rfold_frame) (auto simp: seedReceipt_def insertNew_def rbind_def split: if_splits)
  with st6 have "mid_ok {} st6"
    by (rule mid_ok_rfold_frame) (auto simp: seedGroup_def insertNew_def rbind_def split: if_splits)
  with st7 have "mid_ok {} st7"
    by (rule mid_ok_rfold_frame) (auto simp: seedAdmission_def insertNew_def rbind_def split: if_splits)
  then have "store_ok st7" by (simp add: mid_ok_def store_ok_def)
  from backfill_ok [OF this] show "store_ok st'" unfolding st' activate_def
    by (rule store_ok_frame) (simp_all add: bumpRevision_def)
qed

lemma bootstrap_seed:
  "bootstrapSnapshot now tree ready st = Inr st' \<Longrightarrow>
     seedStore now (normalizeTaskStateInPlace tree) ready st = Inr st' \<and> (stAuthority st = None \<or> stAuthority st = Some [])"
  by (auto simp: bootstrapSnapshot_def Let_def split: if_splits option.splits)

end
