(* ===== verification/Store_Properties.thy ===== *)
theory Store_Properties
  imports Store_Invariants Task_Recovery "HOL-Library.Multiset"
begin

text \<open>
  What clients of \<open>AppTaskResourceStore\<close> rely on: a commit is fenced, atomic and does exactly its
  writes; closures and creators survive; every reachable store is consistent; recovery pages cover the
  due Tasks; a seeded store reads back its snapshot; and a Task context is closed under parents and
  dependencies.
\<close>

section \<open>Effects of a commit\<close>

abbreviation storedWork :: "task_store \<Rightarrow> string \<Rightarrow> (task_resource \<times> task_trigger option) option" where
  "storedWork st t \<equiv> map_option (\<lambda>row. (rwResource row, rwTrigger row)) (dget (stTasks st) t)"

abbreviation side :: "task_store \<Rightarrow> nat \<times> (string, control_receipt) dict \<times> string option \<times> store_metadata option" where
  "side s \<equiv> (stRevision s, stControls s, stAuthority s, stMetadata s)"

lemma storedWork_task: "storedWork st t = storedWork st' t \<Longrightarrow> storedTask st t = storedTask st' t"
  by (cases "dget (stTasks st) t"; cases "dget (stTasks st') t") simp_all

lemma writeTask_work:
  assumes "writeTask now st w = Inr st'"
  shows "storedWork st' t = (if t = tkId (twResource w) then Some (twResource w, twTrigger w) else storedWork st t)"
  using assms
  by (auto simp: writeTask_def rbind_Inr putTask_def putTaskRelations_def recordTriggerEvents_def Let_def
      taskRow_def split: if_splits)

lemma writeTasks_work:
  "rfold (writeTask now) st ws = Inr st' \<Longrightarrow>
     storedWork st' t = (case lastWrite ws t of Some w \<Rightarrow> Some (twResource w, twTrigger w) | None \<Rightarrow> storedWork st t)"
proof (induction ws arbitrary: st' rule: rev_induct)
  case (snoc w ws)
  then obtain st1 where "rfold (writeTask now) st ws = Inr st1" "writeTask now st1 w = Inr st'"
    by (auto simp: rfold_append rbind_Inr)
  with snoc.IH [of st1] writeTask_work [of now st1 w st' t] show ?case by (auto split: option.splits)
qed simp

lemma deleteTasks_work:
  "storedWork (foldl (\<lambda>s k. deleteTask k s) st ks) t = (if t \<in> set ks then None else storedWork st t)"
  by (induction ks arbitrary: st) (auto simp: deleteTask_def)

lemma storedWork_putAttempt [simp]: "storedWork (putAttempt a st) t = storedWork st t"
  by (simp add: putAttempt_def Let_def split: option.splits)

lemma writeAttempts_work: "storedWork (writeAttempts m st) t = storedWork st t"
  unfolding writeAttempts_def
  by (rule foldl_invariant [where P = "\<lambda>s. storedWork s t = storedWork st t"],
      rule foldl_invariant [where P = "\<lambda>s. storedWork s t = storedWork st t"]) simp_all

lemma writeConditions_frame:
  "stTasks (writeConditions m st) = stTasks st \<and> stCancellations (writeConditions m st) = stCancellations st \<and>
   side (writeConditions m st) = side st"
  unfolding writeConditions_def Let_def
  by (intro foldl_invariant [where P = "\<lambda>s. stTasks s = stTasks st \<and> stCancellations s = stCancellations st \<and> side s = side st"])
    (auto simp: pruneCondition_def putTaskConditionRoutes_def deleteCondition_def)

lemma writeTasks_frame:
  assumes "rfold (writeTask now) st ws = Inr st'"
  shows "stCancellations st' = stCancellations st \<and> side st' = side st"
  by (rule rfold_invariant [OF assms])
    (auto simp: writeTask_def rbind_Inr putTask_def putTaskRelations_def recordTriggerEvents_def Let_def split: if_splits)

lemma deleteTasks_frame:
  "stCancellations (foldl (\<lambda>s k. deleteTask k s) st ks) = stCancellations st \<and>
   side (foldl (\<lambda>s k. deleteTask k s) st ks) = side st"
  by (rule foldl_invariant [where P = "\<lambda>s. stCancellations s = stCancellations st \<and> side s = side st"])
    (auto simp: deleteTask_def)

lemma writeAttempts_frame:
  "stCancellations (writeAttempts m st) = stCancellations st \<and> side (writeAttempts m st) = side st"
  unfolding writeAttempts_def
  by (rule foldl_invariant [where P = "\<lambda>s. stCancellations s = stCancellations st \<and> side s = side st"],
      rule foldl_invariant [where P = "\<lambda>s. stCancellations s = stCancellations st \<and> side s = side st"])
    (auto simp: putAttempt_def Let_def split: option.splits)

lemma putReceipts_frame:
  assumes "rfold putReceipt st rcs = Inr st'"
  shows "stTasks st' = stTasks st \<and> stCancellations st' = stCancellations st \<and> side st' = side st"
  by (rule rfold_invariant [OF assms]) (auto simp: putReceipt_def split: if_splits)

lemma putCancellations_effect:
  assumes "rfold (\<lambda>s c. putCancellation c s) st cs = Inr st'"
  shows "stTasks st' = stTasks st \<and> side st' = side st \<and>
    (\<forall>k c. dget (stCancellations st) k = Some c \<longrightarrow> dget (stCancellations st') k = Some c)"
  by (rule rfold_invariant [OF assms]) (auto dest!: putCancellation_frame)

lemma putControls_effect:
  assumes "rfold putControlReceipt st rcs = Inr st'"
  shows "stTasks st' = stTasks st \<and> stRevision st' = stRevision st \<and> stCancellations st' = stCancellations st \<and>
    (\<forall>k c. dget (stControls st) k = Some c \<longrightarrow> dget (stControls st') k = Some c)"
  by (rule rfold_invariant [OF assms]) (auto simp: putControlReceipt_def split: if_splits)

text \<open>A reopening is accepted only against the closure the store holds.\<close>

definition exactReopening :: "task_mutation \<Rightarrow> string \<Rightarrow> task_cancellation \<Rightarrow> bool" where
  "exactReopening m k c \<longleftrightarrow>
     (\<exists>rc \<in> set (muControls m). ctTaskId rc = k \<and> ctAction rc = CtlReopen \<and> ctClosure rc = Some c \<and>
        ctExpectedGeneration rc = caGeneration c \<and> ctExpectedVersion rc = caVersion c) \<and>
     (\<exists>w \<in> set (muTasks m). tkId (twResource w) = k \<and> tkGeneration (twResource w) = caGeneration c + 1) \<and>
     (\<exists>f \<in> set (muFences m). fnTaskId f = k \<and> fnVersion f = caVersion c)"

lemma reopenTask_exact:
  assumes "reopenTask m st k = Inr st'"
  shows "\<exists>c. dget (stCancellations st) k = Some c \<and> exactReopening m k c"
proof -
  from assms obtain c rc where c: "dget (stCancellations st) k = Some c"
    and rc: "find (\<lambda>e. ctTaskId e = k \<and> ctAction e = CtlReopen) (muControls m) = Some rc"
    and ok: "ctClosure rc = Some c" "ctExpectedGeneration rc = caGeneration c" "ctExpectedVersion rc = caVersion c"
      "map_option tkGeneration (map_option twResource (find (\<lambda>w. tkId (twResource w) = k) (muTasks m))) =
         Some (caGeneration c + 1)"
      "list_ex (\<lambda>f. fnTaskId f = k \<and> fnVersion f = caVersion c) (muFences m)"
    by (auto simp: reopenTask_def Let_def readCancellation_def split: option.splits if_splits)
  from ok(4) obtain w where w: "find (\<lambda>w. tkId (twResource w) = k) (muTasks m) = Some w"
    "tkGeneration (twResource w) = caGeneration c + 1" by auto
  have "rc \<in> set (muControls m) \<and> ctTaskId rc = k \<and> ctAction rc = CtlReopen"
    using rc by (auto simp: find_Some_iff)
  moreover have "w \<in> set (muTasks m) \<and> tkId (twResource w) = k" using w(1) by (auto simp: find_Some_iff)
  ultimately show ?thesis using c ok w(2) by (auto simp: exactReopening_def list_ex_iff)
qed

lemma reopenTasks_frame:
  assumes "rfold (reopenTask m) st ks = Inr st'"
  shows "stTasks st' = stTasks st \<and> side st' = side st"
  by (rule rfold_invariant [OF assms]) (auto dest!: reopenTask_frame)

lemma reopenTasks_other:
  assumes "rfold (reopenTask m) st ks = Inr st'" and "k \<notin> set ks"
  shows "dget (stCancellations st') k = dget (stCancellations st) k"
  by (rule rfold_invariant [OF assms(1)]) (use assms(2) in \<open>auto dest!: reopenTask_frame\<close>)

lemma reopenTasks_exact:
  "rfold (reopenTask m) st ks = Inr st' \<Longrightarrow> distinct ks \<Longrightarrow> k \<in> set ks \<Longrightarrow>
     \<exists>c. dget (stCancellations st) k = Some c \<and> exactReopening m k c"
proof (induction ks arbitrary: st)
  case (Cons i ks)
  from Cons.prems(1) obtain st1 where s: "reopenTask m st i = Inr st1" "rfold (reopenTask m) st1 ks = Inr st'"
    by (auto simp: rbind_Inr)
  show ?case
  proof (cases "k = i")
    case True
    with reopenTask_exact [OF s(1)] show ?thesis by simp
  next
    case False
    with Cons.prems(2,3) Cons.IH [OF s(2)] reopenTask_frame [OF s(1)] show ?thesis by simp
  qed
qed simp

lemma applyMutation_effects:
  assumes "applyMutation now m st = Inr st'"
  shows "storedWork st' t = (case lastWrite (muTasks m) t of
      Some w \<Rightarrow> Some (twResource w, twTrigger w)
    | None \<Rightarrow> if t \<in> set (muDeleteTasks m) then None else storedWork st t)"
    and "stRevision st' = Suc (stRevision st)"
    and "dget (stCancellations st) k = Some c \<Longrightarrow>
      dget (stCancellations st') k = Some c \<or> k \<in> set (muReopen m) \<and> exactReopening m k c"
    and "dget (stControls st) i = Some rc \<Longrightarrow> dget (stControls st') i = Some rc"
proof -
  obtain st1 st2 st3 st4 st5 where st1: "rfold (reopenTask m) st (uniq (muReopen m)) = Inr st1"
    and st2: "rfold (writeTask now) (foldl (\<lambda>s k. deleteTask k s) st1 (muDeleteTasks m)) (muTasks m) = Inr st2"
    and st3: "rfold putReceipt (foldl (\<lambda>s k. s\<lparr>stReceipts := ddel (stReceipts s) k\<rparr>)
        (writeConditions m (writeAttempts m st2)) (muDeleteReceipts m)) (muReceipts m) = Inr st3"
    and st4: "rfold (\<lambda>s c. putCancellation c s) (writeAdmissions m st3) (muCancellations m) = Inr st4"
    and st5: "rfold putControlReceipt st4 (muControls m) = Inr st5" and st': "st' = bumpRevision st5"
    using assms by (rule applyMutation_cases)
  note e1 = reopenTasks_frame [OF st1]
  obtain d where d: "foldl (\<lambda>s k. s\<lparr>stReceipts := ddel (stReceipts s) k\<rparr>)
      (writeConditions m (writeAttempts m st2)) (muDeleteReceipts m) =
      (writeConditions m (writeAttempts m st2))\<lparr>stReceipts := d\<rparr>" using deleteReceipts_frame by blast
  obtain a where a: "writeAdmissions m st3 = st3\<lparr>stAdmissions := a\<rparr>" using writeAdmissions_frame by blast
  have m3: "storedWork st3 t = storedWork st2 t \<and> stCancellations st3 = stCancellations st1 \<and> side st3 = side st1"
    using putReceipts_frame [OF st3] writeConditions_frame [of m "writeAttempts m st2"] writeAttempts_frame [of m st2]
      writeAttempts_work [of m st2 t] writeTasks_frame [OF st2] deleteTasks_frame [of st1 "muDeleteTasks m"]
    by (simp add: d)
  have m5: "storedWork st' t = storedWork st3 t \<and> stRevision st' = Suc (stRevision st3) \<and>
      (dget (stCancellations st3) k = Some c \<longrightarrow> dget (stCancellations st') k = Some c) \<and>
      (dget (stControls st3) i = Some rc \<longrightarrow> dget (stControls st') i = Some rc)"
    using putControls_effect [OF st5] putCancellations_effect [OF st4] by (simp add: st' bumpRevision_def a)
  show "storedWork st' t = (case lastWrite (muTasks m) t of
      Some w \<Rightarrow> Some (twResource w, twTrigger w)
    | None \<Rightarrow> if t \<in> set (muDeleteTasks m) then None else storedWork st t)"
    using m5 m3 writeTasks_work [OF st2, of t] deleteTasks_work [of st1 "muDeleteTasks m" t] e1
    by (simp split: option.splits)
  show "stRevision st' = Suc (stRevision st)" using m5 m3 e1 by simp
  show "dget (stCancellations st') k = Some c \<or> k \<in> set (muReopen m) \<and> exactReopening m k c"
    if "dget (stCancellations st) k = Some c"
    using that m5 m3 reopenTasks_other [OF st1, of k] reopenTasks_exact [OF st1 distinct_uniq, of k]
    by (cases "k \<in> set (muReopen m)") simp_all
  show "dget (stControls st') i = Some rc" if "dget (stControls st) i = Some rc"
    using that m5 m3 e1 by simp
qed

lemma admitWrites_creator:
  "admitWrites st m ws = Inr True \<Longrightarrow> w \<in> set ws \<Longrightarrow> readTask st (tkId (twResource w)) = Some r \<Longrightarrow>
     tkCreator (twResource w) = tkCreator r"
  by (induction ws) (auto simp: rbind_Inr admitWrite_def Let_def split: if_splits)

lemma lastWrite_Some: "lastWrite ws t = Some w \<Longrightarrow> w \<in> set ws \<and> tkId (twResource w) = t"
  unfolding lastWrite_def by (auto simp: find_Some_iff rev_nth)

lemma readTask_work: "readTask st t = map_option fst (storedWork st t)"
  by (cases "dget (stTasks st) t") (simp_all add: readTask_def)

lemma readTrigger_work: "readTrigger st t = Option.bind (storedWork st t) snd"
  by (cases "dget (stTasks st) t") (simp_all add: readTrigger_def)

lemma applyMutation_reads:
  assumes "applyMutation now m st = Inr st'"
  shows "(readTask st' t, readTrigger st' t) =
    (case lastWrite (muTasks m) t of
       Some w \<Rightarrow> (Some (twResource w), twTrigger w)
     | None \<Rightarrow> if t \<in> set (muDeleteTasks m) then (None, None) else (readTask st t, readTrigger st t))"
  using applyMutation_effects(1) [OF assms, of t]
  by (simp add: readTask_work readTrigger_work split: option.splits)

lemma commit_True: "commit now m st = Inr (True, st') \<Longrightarrow> applyMutation now m st = Inr st'"
  using commit_cases [of now m st True st'] by simp

section \<open>A demonstration store\<close>

definition demoWrite :: "nat \<Rightarrow> task_write" where
  "demoWrite v = \<lparr>twResource = (blankTask ''t'')\<lparr>tkVersion := v\<rparr>, twTrigger = None, twReady = True, twNextCheckAt = None\<rparr>"

definition demoCreate :: task_mutation where
  "demoCreate = noMutation\<lparr>muExpectMissing := [''t''], muTasks := [demoWrite 1]\<rparr>"

definition demoUpdate :: task_mutation where
  "demoUpdate = noMutation\<lparr>muFences := [\<lparr>fnTaskId = ''t'', fnVersion = 1, fnGeneration = Some 1,
     fnCurrentAttemptId = None\<rparr>], muTasks := [demoWrite 2]\<rparr>"

definition committed :: "(bool \<times> task_store) result \<Rightarrow> task_store" where
  "committed r = (case r of Inr (True, st) \<Rightarrow> st | _ \<Rightarrow> emptyStore [])"

definition demoStore :: task_store where
  "demoStore = committed (commit 0 demoCreate (emptyStore ''demo''))"

lemma demoCreate_commits: "commit 0 demoCreate (emptyStore ''demo'') = Inr (True, demoStore)"
  by code_simp

lemma demoUpdate_commits: "commit 0 demoUpdate demoStore = Inr (True, committed (commit 0 demoUpdate demoStore))"
  by code_simp

section \<open>Properties of commits\<close>



text \<open>A step of the store that keeps Task \<open>k\<close> and does not take its version back.\<close>

definition forward :: "string \<Rightarrow> task_store \<Rightarrow> task_store \<Rightarrow> bool" where
  "forward k st st' \<longleftrightarrow> store_step st st' \<and>
     (\<exists>r r'. readTask st k = Some r \<and> readTask st' k = Some r' \<and> tkVersion r \<le> tkVersion r')"

lemma forward_version:
  assumes "(forward k)\<^sup>*\<^sup>* st st'" and "readTask st k = Some r"
  shows "\<exists>r'. readTask st' k = Some r' \<and> tkVersion r \<le> tkVersion r'"
  using assms
proof (induction rule: rtranclp_induct)
  case (step u v)
  then obtain s where s: "readTask u k = Some s" "tkVersion r \<le> tkVersion s" by blast
  with step.hyps(2) obtain s' where "readTask v k = Some s'" "tkVersion s \<le> tkVersion s'" by (auto simp: forward_def)
  with s(2) show ?case by (meson order_trans)
qed simp

lemma stale_fence_rejected:
  assumes "f \<in> set (muFences m)" and "readTask st (fnTaskId f) = Some r" and "tkVersion r \<noteq> fnVersion f"
  shows "commit now m st = Inr (False, st)"
proof -
  have "\<not> fenceHolds st f" using assms(2,3) by (simp add: fenceHolds_def)
  with assms(1) have "\<not> list_all (fenceHolds st) (muFences m)" "muFences m \<noteq> []" by (auto simp: list_all_iff)
  then show ?thesis by (simp add: commit_def)
qed

text \<open>
  C27. No update is lost. Once a commit moved Task \<open>k\<close> away from version \<open>v\<close>, the next commit fenced on
  \<open>k\<close> at \<open>v\<close> is rejected and changes nothing; and if the commit raised the version above \<open>v\<close>, so is
  every later commit fenced at \<open>v\<close>, whatever commits, persisted wakes and other steps of the store
  came in between, as long as none of them deleted the Task or lowered its version.
\<close>

theorem no_lost_update:
  assumes "commit n1 m1 st = Inr (True, st1)" and "lastWrite (muTasks m1) k = Some w"
    and "tkVersion (twResource w) \<noteq> v" and "f \<in> set (muFences m2)" and "fnTaskId f = k" and "fnVersion f = v"
    and "st2 = st1 \<or> v < tkVersion (twResource w) \<and> (forward k)\<^sup>*\<^sup>* st1 st2"
  shows "commit n2 m2 st2 = Inr (False, st2)"
proof -
  have st1: "readTask st1 k = Some (twResource w)"
    using applyMutation_reads [OF commit_True [OF assms(1)], of k] assms(2) by simp
  with assms(3,7) obtain r where "readTask st2 k = Some r" "tkVersion r \<noteq> v"
    using forward_version [of k st1 st2] by force
  with assms(4-6) show ?thesis by (metis stale_fence_rejected)
qed

theorem no_lost_update_witness:
  "commit 5 demoUpdate (snd (setRecoveryState 3 ''t'' \<lparr>ruReady = Some True, ruChanged = None, ruNextCheckAt = None,
       ruExpectedRevision = None\<rparr> (committed (commit 0 demoUpdate demoStore)))) =
   Inr (False, snd (setRecoveryState 3 ''t'' \<lparr>ruReady = Some True, ruChanged = None, ruNextCheckAt = None,
       ruExpectedRevision = None\<rparr> (committed (commit 0 demoUpdate demoStore))))"
proof -
  let ?st1 = "committed (commit 0 demoUpdate demoStore)"
  let ?st2 = "snd (setRecoveryState 3 ''t'' \<lparr>ruReady = Some True, ruChanged = None, ruNextCheckAt = None,
    ruExpectedRevision = None\<rparr> ?st1)"
  have "map_option tkVersion (readTask ?st1 ''t'') = Some 2" "map_option tkVersion (readTask ?st2 ''t'') = Some 2"
    by code_simp+
  then have "forward ''t'' ?st1 ?st2" by (auto simp: forward_def intro: store_step.recovery)
  then have run: "(forward ''t'')\<^sup>*\<^sup>* ?st1 ?st2" by (rule r_into_rtranclp)
  have fence: "hd (muFences demoUpdate) \<in> set (muFences demoUpdate)" "fnTaskId (hd (muFences demoUpdate)) = ''t''"
    "fnVersion (hd (muFences demoUpdate)) = 1" by (simp_all add: demoUpdate_def noMutation_def)
  have wr: "lastWrite (muTasks demoUpdate) ''t'' = Some (demoWrite 2)" "tkVersion (twResource (demoWrite 2)) = 2"
    by (simp_all add: demoUpdate_def noMutation_def demoWrite_def blankTask_def lastWrite_def)
  show ?thesis by (rule no_lost_update [OF demoUpdate_commits wr(1) _ fence]) (use run wr(2) in simp_all)
qed

text \<open>
  C28. A commit does exactly its writes. Afterwards a written Task reads back as its last write, with
  that write's trigger; a deleted Task is gone; every other Task and trigger is what it was.
\<close>

theorem commit_exact:
  assumes "commit now m st = Inr (True, st')"
  shows "(readTask st' t, readTrigger st' t) =
    (case lastWrite (muTasks m) t of
       Some w \<Rightarrow> (Some (twResource w), twTrigger w)
     | None \<Rightarrow> if t \<in> set (muDeleteTasks m) then (None, None) else (readTask st t, readTrigger st t))"
  using commit_True [OF assms] by (rule applyMutation_reads)

theorem commit_exact_witness:
  "readTask (committed (commit 0 demoUpdate demoStore)) ''t'' = Some ((blankTask ''t'')\<lparr>tkVersion := 2\<rparr>)"
  using commit_exact [OF demoUpdate_commits, of "''t''"]
  by (simp add: demoUpdate_def noMutation_def demoWrite_def blankTask_def lastWrite_def)

text \<open>
  C29. The creator of a Task never changes: whatever a commit writes, a Task stored before and after it
  has the same creator.
\<close>

theorem creator_immutable:
  assumes "commit now m st = Inr (b, st')" and "readTask st k = Some r" and "readTask st' k = Some r'"
  shows "tkCreator r' = tkCreator r"
proof (cases b)
  case True
  with assms(1) have ok: "applyMutation now m st = Inr st'" "admitWrites st m (muTasks m) = Inr True"
    using commit_cases [OF assms(1)] by auto
  show ?thesis
  proof (cases "lastWrite (muTasks m) k")
    case None
    with applyMutation_reads [OF ok(1), of k] assms(2,3) show ?thesis by (simp split: if_splits)
  next
    case (Some w)
    then have w: "w \<in> set (muTasks m)" "tkId (twResource w) = k" by (simp_all add: lastWrite_Some)
    have "r' = twResource w" using applyMutation_reads [OF ok(1), of k] assms(3) Some by simp
    with admitWrites_creator [OF ok(2) w(1)] assms(2) w(2) show ?thesis by simp
  qed
next
  case False
  with commit_cases [OF assms(1)] assms(2,3) show ?thesis by simp
qed

theorem creator_immutable_witness:
  "tkCreator (the (readTask (committed (commit 0 demoUpdate demoStore)) ''t'')) = None"
proof -
  have "readTask demoStore ''t'' = Some (blankTask ''t'')" by code_simp
  moreover have "readTask (committed (commit 0 demoUpdate demoStore)) ''t'' = Some ((blankTask ''t'')\<lparr>tkVersion := 2\<rparr>)"
    by code_simp
  ultimately show ?thesis using creator_immutable [OF demoUpdate_commits] by (simp add: blankTask_def)
qed

text \<open>
  C30. Closures and control receipts are durable. A commit never changes or drops the closure of a Task,
  unless it reopens that Task with a control receipt that names exactly this closure, the next
  generation of the Task and a fence at the closed version; and a control receipt, once recorded, keeps
  its content.
\<close>

theorem closures_durable:
  assumes "commit now m st = Inr (b, st')"
  shows "(readCancellation st k = Some c \<longrightarrow>
      readCancellation st' k = Some c \<or> k \<in> set (muReopen m) \<and> exactReopening m k c) \<and>
    (readControlReceipt st i = Some rc \<longrightarrow> readControlReceipt st' i = Some rc)"
  using commit_cases [OF assms] applyMutation_effects(3,4) [of now m st st']
  by (auto simp: readCancellation_def readControlReceipt_def)

definition demoClosure :: task_cancellation where
  "demoClosure = \<lparr>caKind = Some Closed, caAcceptedResultAttemptId = None, caAppId = ''demo'', caTaskId = ''x'',
     caGeneration = 1, caVersion = 3, caOutcome = [], caReason = [], caSummary = [], caCancelledAt = 0,
     caDecidedBy = None, caResponse = None, caResult = None, caFacts = None\<rparr>"

theorem closures_durable_witness:
  "readCancellation (committed (commit 0 demoUpdate (demoStore\<lparr>stCancellations := [(''x'', demoClosure)]\<rparr>))) ''x'' =
     Some demoClosure"
proof -
  let ?st = "demoStore\<lparr>stCancellations := [(''x'', demoClosure)]\<rparr>"
  have c: "commit 0 demoUpdate ?st = Inr (True, committed (commit 0 demoUpdate ?st))" by code_simp
  show ?thesis using closures_durable [OF c, of "''x''" demoClosure] by (simp add: readCancellation_def demoUpdate_def noMutation_def)
qed

section \<open>Reachable stores\<close>

lemma store_ok_step: "store_step st st' \<Longrightarrow> store_ok st \<Longrightarrow> store_ok st'"
proof (induction rule: store_step.induct)
  case (committed now m st b st')
  then show ?case using commit_cases [OF committed(1)] applyMutation_ok by blast
next
  case (recovery st now k u)
  then show ?case by (rule store_ok_recovery)
next
  case (repaired st now)
  then show ?case unfolding repairWaitingConditionRecovery_def snd_conv
    by (intro store_ok_mapped) auto
next
  case (lifecycle l st st')
  then show ?case by (auto simp: setProjectLifecycle_def bumpRevision_def split: if_splits option.splits intro: store_ok_frame)
next
  case (configured n st st')
  then show ?case
    by (auto simp: setConfiguredMaxConcurrent_def bumpRevision_def split: if_splits option.splits intro: store_ok_frame)
next
  case (inbox st ks)
  then show ?case by (auto intro: store_ok_frame)
next
  case (woken event target i at' st st')
  then show ?case by (blast intro: store_ok_woken)
next
  case (seeded now tree ready st st')
  then show ?case using bootstrap_seed store_ok_seed by blast
qed

lemma store_ok_reach: "store_reach st \<Longrightarrow> store_ok st"
proof (induction rule: store_reach.induct)
  case (start app st)
  then show ?case by (auto simp: fromDb_def emptyStore_def store_ok_def rows_ok_def relations_ok_def allDeclared_def
        routes_ok_def events_ok_def split: if_splits)
next
  case (step st st')
  then show ?case using store_ok_step by blast
qed

lemma demo_reach: "store_reach demoStore"
proof -
  have "store_reach (emptyStore ''demo'')" by (rule store_reach.start [of "''demo''"]) code_simp
  then show ?thesis by (rule store_reach.step) (rule store_step.committed [OF demoCreate_commits])
qed

text \<open>
  C31. Every reachable store is consistent, whatever sequence of commits, recovery updates, startup
  repairs, settings, persisted wakes, seeding and inbox changes led to it. A Task is stored under its
  own id and once; one whose retries are exhausted is neither ready nor changed unless an event waits
  in its trigger; the relation rows are exactly the parent and dependencies the stored Tasks declare;
  a Condition route joins a stored Task to a stored Condition it lists; and every delivery identity
  belongs to a stored Task.
\<close>

theorem reachable_store_consistent:
  assumes "store_reach st"
  shows "distinct (dkeys (stTasks st)) \<and>
    (\<forall>k row. (k, row) \<in> set (stTasks st) \<longrightarrow> tkId (rwResource row) = k \<and>
       (taskExecutionRetryExhausted (rwResource row) \<and> rwTrigger row = None \<longrightarrow> \<not> rwReady row \<and> \<not> rwChanged row)) \<and>
    set (stRelations st) = (\<Union>(k, row) \<in> set (stTasks st). set (declaredRelations (rwResource row))) \<and>
    (\<forall>t c. (t, c) \<in> set (stRoutes st) \<longrightarrow> dget (stConditions st) c \<noteq> None \<and>
       (\<exists>row. dget (stTasks st) t = Some row \<and> c \<in> set (listOr (tkConditionIds (rwResource row))))) \<and>
    (\<forall>t i. (t, i) \<in> set (stEvents st) \<longrightarrow> readTask st t \<noteq> None)"
  using store_ok_reach [OF assms]
  by (auto simp: store_ok_def store_parts allDeclared_def dict_wf_def dkeys_def readTask_def)

theorem reachable_store_consistent_witness:
  "set (stRelations demoStore) = {(''t'', ParentRel, ''root'')}"
proof -
  have "map (\<lambda>(k, row). declaredRelations (rwResource row)) (stTasks demoStore) = [[(''t'', ParentRel, ''root'')]]"
    by code_simp
  then show ?thesis using reachable_store_consistent [OF demo_reach] by auto
qed

section \<open>Recovery pages\<close>

text \<open>The recovery source the scheduler of \<open>Task_Recovery\<close> is given: the store's candidate query.\<close>

definition storePages ::
  "task_store \<Rightarrow> int \<Rightarrow> int \<Rightarrow> recovery_cursor option \<Rightarrow> recovery_cursor candidate_page" where
  "storePages st now limit after =
     (case listRecoveryCandidates st now (of_int limit) after of (items, cur) \<Rightarrow>
        \<lparr>pageItems = map (\<lambda>c. (rcaTaskId c, rcaLane c)) items, nextCursor = cur\<rparr>)"

abbreviation recoverOnce ::
  "task_store \<Rightarrow> int option \<Rightarrow> int \<Rightarrow> recovery_cursor recovery \<Rightarrow> recovery_cursor recovery" where
  "recoverOnce st due now r \<equiv> snd (recover (storePages st, due) now r)"

definition rowItem :: "string \<times> task_row \<Rightarrow> string \<times> app_task_lane" where
  "rowItem p = (fst p, rowLane (snd p))"

definition rowCursor :: "string \<times> task_row \<Rightarrow> recovery_cursor" where
  "rowCursor p = \<lparr>cuLane = rowLane (snd p), cuUpdatedAt = rwUpdatedAt (snd p), cuTaskId = fst p\<rparr>"

lemma cursorKey_rowCursor [simp]: "cursorKey (rowCursor p) = rowKey p"
  by (simp add: cursorKey_def rowCursor_def rowKey_def)

abbreviation dueRows :: "task_store \<Rightarrow> int \<Rightarrow> (string \<times> task_row) list" where
  "dueRows st now \<equiv> recoveryRows st now None"

lemma recoveryRows_after:
  "recoveryRows st now (Some c) = filter (\<lambda>p. cursorKey c < rowKey p) (dueRows st now)"
  by (simp add: recoveryRows_def filter_sort conj_ac)

lemma filter_after_nth:
  "sorted_wrt (<) (map f xs) \<Longrightarrow> i < length xs \<Longrightarrow> filter (\<lambda>p. (f (xs ! i) :: 'k :: linorder) < f p) xs = drop (Suc i) xs"
proof (induction xs arbitrary: i)
  case (Cons x xs)
  show ?case
  proof (cases i)
    case 0
    with Cons.prems show ?thesis by (auto intro!: filter_True)
  next
    case (Suc j)
    with Cons.prems have "f x < f (xs ! j)" by simp
    then have "\<not> f (xs ! j) < f x" by simp
    with Suc Cons show ?thesis by simp
  qed
qed simp

lemma dueRows_sorted:
  assumes "dict_wf (stTasks st)"
  shows "sorted_wrt (<) (map rowKey (dueRows st now))"
proof -
  let ?xs = "filter (\<lambda>p. isDue now (snd p) \<and> \<not> isCancelled st (fst p)) (stTasks st)"
  have rows: "dueRows st now = sort_key rowKey ?xs" by (simp add: recoveryRows_def)
  have "distinct (map fst ?xs)" using assms by (simp add: dict_wf_def distinct_map_filter)
  then have "distinct (map rowKey ?xs)"
    by (auto simp: distinct_map inj_on_def rowKey_def)
  then have "distinct (map rowKey (dueRows st now))" by (simp add: rows distinct_map)
  moreover have "sorted (map rowKey (dueRows st now))" by (simp add: rows)
  ultimately show ?thesis by (simp add: strict_sorted_iff)
qed

lemma dueRows_iff:
  assumes "dict_wf (stTasks st)"
  shows "(k, row) \<in> set (dueRows st now) \<longleftrightarrow> dget (stTasks st) k = Some row \<and> isDue now row \<and> \<not> isCancelled st k"
  using dict_wf_dget [OF assms, of k row] dget_Some_in [of "stTasks st" k row] by (auto simp: recoveryRows_def)

lemma dueRows_ids:
  assumes "dict_wf (stTasks st)"
  shows "fst ` set (dueRows st now) = {k. \<exists>row. dget (stTasks st) k = Some row \<and> isDue now row \<and> \<not> isCancelled st k}"
proof -
  have "fst ` set (dueRows st now) = {k. \<exists>row. (k, row) \<in> set (dueRows st now)}" by force
  then show ?thesis by (simp only: dueRows_iff [OF assms])
qed

lemma dueRows_distinct:
  assumes "dict_wf (stTasks st)"
  shows "distinct (map fst (dueRows st now))"
proof -
  have "distinct (map fst (filter P (stTasks st)))" for P
    using assms by (simp add: dict_wf_def distinct_map_filter)
  then show ?thesis by (simp add: recoveryRows_def distinct_map)
qed

lemma page_step:
  assumes "dict_wf (stTasks st)" and "n \<le> length (dueRows st now)"
    and "after = (if n = 0 then None else Some (rowCursor (dueRows st now ! (n - 1))))"
  shows "recoveryRows st now after = drop n (dueRows st now)"
proof (cases n)
  case (Suc i)
  with assms filter_after_nth [OF dueRows_sorted [OF assms(1), of now], of i] show ?thesis
    by (simp add: recoveryRows_after)
qed (use assms in simp)

lemma recoverOnce_page:
  assumes "\<not> recoveryClosed r" and "1 \<le> pageSize r" and "pageSize r \<le> 10000"
    and rows: "recoveryRows st now (recoveryCursor r) = drop n (dueRows st now)" and "n \<le> length (dueRows st now)"
  shows "recoverOnce st d now r = r\<lparr>lastRecoveryAt := Some now,
    recoveryCursor := (if n + nat (pageSize r) \<le> length (dueRows st now)
      then Some (rowCursor (dueRows st now ! (n + nat (pageSize r) - 1))) else None),
    recovered := recovered r @ map rowItem (take (nat (pageSize r)) (drop n (dueRows st now)))\<rparr>"
proof -
  let ?p = "nat (pageSize r)"
  have b: "boundedPageLimit 10000 (of_int (pageSize r)) = ?p" using assms(2,3) by (simp add: boundedPageLimit_def)
  have p: "0 < ?p" using assms(2) by simp
  have "last (take ?p (drop n (dueRows st now))) = dueRows st now ! (n + ?p - 1)" if "n + ?p \<le> length (dueRows st now)"
    using that p by (subst last_conv_nth) auto
  moreover have "length (take ?p (drop n (dueRows st now))) = ?p \<longleftrightarrow> n + ?p \<le> length (dueRows st now)"
    using assms(5) by auto
  ultimately show ?thesis using assms(1) p
    by (auto simp: recover_def storePages_def listRecoveryCandidates_def Let_def b rows candidateOf_def rowItem_def
        rowCursor_def simp del: length_take take_drop)
qed

lemma recovery_pages:
  assumes wf: "dict_wf (stTasks st)" and r: "\<not> recoveryClosed r" "recoveryCursor r = None"
    and p: "1 \<le> pageSize r" "pageSize r \<le> 10000"
    and "j * nat (pageSize r) \<le> length (dueRows st now)"
  shows "let r' = (recoverOnce st d now ^^ j) r; n = j * nat (pageSize r)
    in recovered r' = recovered r @ map rowItem (take n (dueRows st now)) \<and> \<not> recoveryClosed r' \<and>
       pageSize r' = pageSize r \<and>
       recoveryCursor r' = (if n = 0 then None else Some (rowCursor (dueRows st now ! (n - 1))))"
  using assms(6)
proof (induction j)
  case (Suc j)
  let ?n = "j * nat (pageSize r)" and ?r = "(recoverOnce st d now ^^ j) r"
  have n: "?n + nat (pageSize r) \<le> length (dueRows st now)" using Suc.prems by (simp add: add.commute)
  with Suc.IH have IH: "recovered ?r = recovered r @ map rowItem (take ?n (dueRows st now))" "\<not> recoveryClosed ?r"
    "pageSize ?r = pageSize r" "recoveryCursor ?r = (if ?n = 0 then None else Some (rowCursor (dueRows st now ! (?n - 1))))"
    by (simp_all add: Let_def)
  have "recoverOnce st d now ?r = ?r\<lparr>lastRecoveryAt := Some now,
    recoveryCursor := Some (rowCursor (dueRows st now ! (?n + nat (pageSize r) - 1))),
    recovered := recovered ?r @ map rowItem (take (nat (pageSize r)) (drop ?n (dueRows st now)))\<rparr>"
    using recoverOnce_page [OF IH(2), of st now ?n d] page_step [OF wf _ IH(4)] n p by (simp add: IH(3))
  with IH p show ?case by (simp add: Let_def add.commute take_add [symmetric] map_append [symmetric] del: map_append)
qed (use r in simp)

text \<open>
  C32. Recovery reaches every due Task. While the store does not change, the scheduler's bounded queries
  for one moment, each continuing at the cursor of the one before, end after one more page than the due Tasks fill;
  together they handed over every due Task that is not closed, each exactly once, those of the human
  lane before all others, and the next query starts from the beginning.
\<close>

theorem recovery_pages_cover:
  assumes "store_reach st" and "\<not> recoveryClosed r" and "recoveryCursor r = None"
    and "1 \<le> pageSize r" and "pageSize r \<le> 10000"
  shows "\<exists>items. let r' = (recoverOnce st d now ^^ Suc (length items div nat (pageSize r))) r
    in recoveryCursor r' = None \<and> recovered r' = recovered r @ items \<and> distinct (map fst items) \<and>
       sorted (map (laneRank \<circ> snd) items) \<and>
       fst ` set items = {k. \<exists>row. dget (stTasks st) k = Some row \<and> isDue now row \<and> \<not> isCancelled st k}"
proof -
  have wf: "dict_wf (stTasks st)" using store_ok_reach [OF assms(1)] by (simp add: store_ok_def rows_ok_def)
  let ?rows = "dueRows st now" let ?p = "nat (pageSize r)" let ?j = "length ?rows div nat (pageSize r)"
  let ?r = "(recoverOnce st d now ^^ ?j) r" let ?n = "?j * ?p"
  have n: "?n \<le> length ?rows" by simp
  have more: "\<not> ?n + ?p \<le> length ?rows" using assms(4) dividend_less_div_times [of ?p "length ?rows"] by simp
  note IH = recovery_pages [OF wf assms(2-5) n, of d, unfolded Let_def]
  have r: "\<not> recoveryClosed ?r" "pageSize ?r = pageSize r" using IH by blast+
  have pr: "1 \<le> pageSize ?r" "pageSize ?r \<le> 10000" unfolding r(2) by (fact assms(4), fact assms(5))
  have rows: "recoveryRows st now (recoveryCursor ?r) = drop ?n ?rows"
    by (rule page_step [OF wf n]) (use IH in blast)
  have step: "recoverOnce st d now ?r = ?r\<lparr>lastRecoveryAt := Some now, recoveryCursor := None,
    recovered := recovered ?r @ map rowItem (take ?p (drop ?n ?rows))\<rparr>"
    using recoverOnce_page [OF r(1) pr rows n, of d, unfolded r(2)] unfolding if_not_P [OF more] .
  have all: "take ?n ?rows @ take ?p (drop ?n ?rows) = ?rows" using more by (simp add: take_add [symmetric])
  have "recovered (recoverOnce st d now ?r) = recovered r @ map rowItem ?rows"
    using step IH arg_cong [OF all, of "map rowItem"] by simp
  moreover have "map fst (map rowItem ?rows) = map fst ?rows" by (simp add: rowItem_def comp_def)
  moreover have "distinct (map fst ?rows)" using wf by (rule dueRows_distinct)
  moreover have "sorted (map (laneRank \<circ> snd) (map rowItem ?rows))"
  proof -
    have "sorted (map fst (map rowKey ?rows))"
      using dueRows_sorted [OF wf, of now] unfolding sorted_wrt_map
      by (rule sorted_wrt_mono_rel [rotated]) (auto simp: less_prod_def)
    then show ?thesis by (simp add: rowKey_def rowItem_def comp_def)
  qed
  moreover have "fst ` set (map rowItem ?rows) = fst ` set ?rows" by (simp add: image_image rowItem_def)
  moreover have "(recoverOnce st d now ^^ Suc ?j) r = recoverOnce st d now ?r" by simp
  ultimately show ?thesis using step dueRows_ids [OF wf, of now]
    by (intro exI [of _ "map rowItem ?rows"]) (simp only: Let_def length_map, simp)
qed

theorem recovery_pages_cover_witness:
  "\<exists>n. let r' = (recoverOnce demoStore None 0 ^^ n) (newRecovery None (Some 1)) in
     recoveryCursor r' = None \<and> ''t'' \<in> fst ` set (recovered r')"
proof -
  have "case dget (stTasks demoStore) ''t'' of Some row \<Rightarrow> isDue 0 row \<and> \<not> isCancelled demoStore ''t'' | None \<Rightarrow> False"
    by code_simp
  then obtain row where row: "dget (stTasks demoStore) ''t'' = Some row" "isDue 0 row" "\<not> isCancelled demoStore ''t''"
    by (auto split: option.splits)
  let ?r = "newRecovery None (Some 1) :: recovery_cursor recovery"
  have r: "\<not> recoveryClosed ?r" "recoveryCursor ?r = None" "1 \<le> pageSize ?r" "pageSize ?r \<le> 10000" "recovered ?r = []"
    by (simp_all add: newRecovery_def)
  from recovery_pages_cover [OF demo_reach r(1-4), of None 0] obtain n items where
    n: "recoveryCursor ((recoverOnce demoStore None 0 ^^ n) ?r) = None"
      "recovered ((recoverOnce demoStore None 0 ^^ n) ?r) = recovered ?r @ items"
    and i: "fst ` set items = {k. \<exists>row. dget (stTasks demoStore) k = Some row \<and> isDue 0 row \<and> \<not> isCancelled demoStore k}"
    unfolding Let_def by (elim exE conjE) (rule that)
  have "''t'' \<in> fst ` set items" unfolding i using row by blast
  with n r(5) have "recoveryCursor ((recoverOnce demoStore None 0 ^^ n) ?r) = None \<and>
    ''t'' \<in> fst ` set (recovered ((recoverOnce demoStore None 0 ^^ n) ?r))" by simp
  then show ?thesis unfolding Let_def by (rule exI)
qed

section \<open>Seeding and reading back\<close>

definition keyed :: "('v \<Rightarrow> 'k) \<Rightarrow> ('k, 'v) dict \<Rightarrow> bool" where
  "keyed f d \<longleftrightarrow> dict_wf d \<and> (\<forall>(k, v) \<in> set d. f v = k)"

text \<open>A snapshot as the code keeps it: every record of the tree under its own id.\<close>

definition snapshot_wf :: "task_tree \<Rightarrow> bool" where
  "snapshot_wf tree \<longleftrightarrow> keyed tkId (trResources tree) \<and> keyed atId (trAttempts tree) \<and>
     keyed cnId (trConditions tree) \<and> keyed rcId (trReceipts tree) \<and> keyed caTaskId (trCancellations tree) \<and>
     dict_wf (trGroups tree) \<and> dict_wf (trAdmissions tree)"

lemma keyed_vals: "keyed f d \<Longrightarrow> map (\<lambda>v. (f v, v)) (dvals d) = d"
  by (induction d) (auto simp: keyed_def dvals_def dict_wf_def)

lemma map_dset_same:
  "dget d k = Some v \<Longrightarrow> f v' = f v \<Longrightarrow> map (\<lambda>(k, v). (k, f v)) (dset d k v') = map (\<lambda>(k, v). (k, f v)) d"
  by (induction d k v' rule: dset.induct) auto

lemma rfold_collect:
  assumes "rfold f s xs = Inr s'" and "T s = P []"
    and "\<And>s x s' ys. x \<in> set xs \<Longrightarrow> f s x = Inr s' \<Longrightarrow> T s = P ys \<Longrightarrow> T s' = P (ys @ [h x])"
  shows "T s' = P (map h xs)"
  using assms(1,3)
proof (induction xs arbitrary: s' rule: rev_induct)
  case Nil
  with assms(2) show ?case by simp
next
  case (snoc x xs)
  then obtain s1 where s1: "rfold f s xs = Inr s1" "f s1 x = Inr s'" by (auto simp: rfold_append rbind_Inr)
  have "T s1 = P (map h xs)" by (rule snoc.IH [OF s1(1)]) (auto intro: snoc.prems(2))
  from snoc.prems(2) [OF _ s1(2) this] show ?case by simp
qed

lemma insertNew_Inr: "insertNew d k v = Inr d' \<longleftrightarrow> dget d k = None \<and> d' = d @ [(k, v)]"
  by (auto simp: insertNew_def dset_fresh)

definition rowWork :: "task_store \<Rightarrow> (string \<times> task_resource \<times> task_trigger option) list" where
  "rowWork st = map (\<lambda>(k, row). (k, rwResource row, rwTrigger row)) (stTasks st)"

lemma seedAttempt_work: "seedAttempt st a = Inr st' \<Longrightarrow> rowWork st' = rowWork st \<and> stAttempts st' = stAttempts st @ [(atId a, a)]"
  using map_dset_same [where f = "\<lambda>row. (rwResource row, rwTrigger row)"]
  by (fastforce simp: seedAttempt_def rbind_Inr insertNew_Inr rowWork_def split: attempt_state.splits option.splits)

lemma writeTask_fresh:
  assumes "writeTask now st w = Inr st'" and "tkId (twResource w) \<notin> set (map fst (rowWork st))"
  shows "rowWork st' = rowWork st @ [(tkId (twResource w), twResource w, twTrigger w)]"
proof -
  have "dget (stTasks st) (tkId (twResource w)) = None"
    using assms(2) by (force simp: rowWork_def dget_None_iff dkeys_def)
  with assms(1) show ?thesis
    by (auto simp: writeTask_def rbind_Inr putTask_def putTaskRelations_def recordTriggerEvents_def Let_def rowWork_def
        dset_fresh taskRow_def split: if_splits)
qed

lemma writeTasks_fresh:
  assumes "rfold (writeTask now) st ws = Inr st'"
    and "distinct (map fst (rowWork st) @ map (\<lambda>w. tkId (twResource w)) ws)"
  shows "rowWork st' = rowWork st @ map (\<lambda>w. (tkId (twResource w), twResource w, twTrigger w)) ws"
  using assms
proof (induction ws arbitrary: st)
  case (Cons w ws)
  then obtain st1 where s: "writeTask now st w = Inr st1" "rfold (writeTask now) st1 ws = Inr st'"
    by (auto simp: rbind_Inr)
  have f: "rowWork st1 = rowWork st @ [(tkId (twResource w), twResource w, twTrigger w)]"
    using s(1) by (rule writeTask_fresh) (use Cons.prems(2) in auto)
  have "rowWork st' = rowWork st1 @ map (\<lambda>w. (tkId (twResource w), twResource w, twTrigger w)) ws"
    by (rule Cons.IH [OF s(2)]) (use Cons.prems(2) in \<open>auto simp: f\<close>)
  then show ?case by (simp add: f)
qed simp

lemma trimmed_idem [simp]: "trimmed (trimmed v) = trimmed v"
  by (simp add: trimmed_def split: option.splits)

lemma normalizeTaskGroup_idem [simp]: "normalizeTaskGroup k (normalizeTaskGroup k g) = normalizeTaskGroup k g"
  by (simp add: normalizeTaskGroup_def)

lemma normalize_wf: "snapshot_wf tree \<Longrightarrow> snapshot_wf (normalizeTaskStateInPlace tree)"
  by (simp add: snapshot_wf_def normalizeTaskStateInPlace_def Let_def dict_wf_def comp_def case_prod_unfold)

lemma rowWork_resources: "resourcesOf (stTasks st) = map (\<lambda>(k, r, t). (k, r)) (rowWork st)"
  by (simp add: resourcesOf_def rowWork_def case_prod_unfold)

lemma rowWork_triggers: "triggersOf (stTasks st) = List.map_filter (\<lambda>(k, r, t). map_option (Pair k) t) (rowWork st)"
proof -
  have "triggersOf rows = List.map_filter (\<lambda>(k, r, t). map_option (Pair k) t)
      (map (\<lambda>(k, row). (k, rwResource row, rwTrigger row)) rows)" for rows
    by (induction rows) (auto simp: triggersOf_def map_filter_simps split: option.splits)
  then show ?thesis by (simp add: rowWork_def)
qed

text \<open>What each stage of seeding does to the tables.\<close>

definition tables where
  "tables s = (rowWork s, stAttempts s, stConditions s, stReceipts s, stCancellations s, stGroups s, stAdmissions s)"

lemma seed_cancellations:
  assumes "rfold (\<lambda>s c. putCancellation c s) s cs = Inr s'" and "tables s = (w, a, c, r, x, g, d)"
  shows "tables s' = (w, a, c, r, x @ map (\<lambda>v. (caTaskId v, v)) cs, g, d)"
  by (rule rfold_collect [OF assms(1), where T = tables and h = "(\<lambda>v. (caTaskId v, v))" and P = "\<lambda>ys. (w, a, c, r, x @ ys, g, d)"])
    (use assms(2) in \<open>auto simp: tables_def rowWork_def dset_fresh dest!: putCancellation_frame\<close>)

lemma seed_tasks:
  assumes "rfold (writeTask now) s ws = Inr s'" and "tables s = ([], a, c, r, x, g, d)"
    and "distinct (map (\<lambda>w. tkId (twResource w)) ws)"
  shows "tables s' = (map (\<lambda>w. (tkId (twResource w), twResource w, twTrigger w)) ws, a, c, r, x, g, d)"
proof -
  have "stAttempts s' = a \<and> stConditions s' = c \<and> stReceipts s' = r \<and> stCancellations s' = x \<and> stGroups s' = g \<and>
      stAdmissions s' = d"
    by (rule rfold_invariant [OF assms(1)])
      (use assms(2) in \<open>auto simp: tables_def writeTask_def rbind_Inr putTask_def putTaskRelations_def
        recordTriggerEvents_def Let_def split: if_splits\<close>)
  with writeTasks_fresh [OF assms(1)] assms(2,3) show ?thesis by (simp add: tables_def)
qed

lemma seedAttempt_tables:
  assumes "seedAttempt s v = Inr s'" and "tables s = (w, a, c, r, x, g, d)"
  shows "tables s' = (w, a @ [(atId v, v)], c, r, x, g, d)"
proof -
  have "stConditions s' = stConditions s \<and> stReceipts s' = stReceipts s \<and> stCancellations s' = stCancellations s \<and>
      stGroups s' = stGroups s \<and> stAdmissions s' = stAdmissions s"
    using assms(1) by (cases "atState v"; cases "atLease v"; cases "dget (stTasks s) (atTaskId v)") (auto simp: seedAttempt_def rbind_Inr)
  with seedAttempt_work [OF assms(1)] assms(2) show ?thesis by (simp add: tables_def)
qed

lemma seed_attempts:
  assumes "rfold seedAttempt s as = Inr s'" and "tables s = (w, a, c, r, x, g, d)"
  shows "tables s' = (w, a @ map (\<lambda>v. (atId v, v)) as, c, r, x, g, d)"
  by (rule rfold_collect [OF assms(1), where T = tables and h = "(\<lambda>v. (atId v, v))" and P = "\<lambda>ys. (w, a @ ys, c, r, x, g, d)"])
    (use assms(2) in \<open>auto dest: seedAttempt_tables\<close>)

lemma seed_conditions:
  assumes "rfold seedCondition s cs = Inr s'" and "tables s = (w, a, c, r, x, g, d)"
  shows "tables s' = (w, a, c @ map (\<lambda>v. (cnId v, v)) cs, r, x, g, d)"
  by (rule rfold_collect [OF assms(1), where T = tables and h = "(\<lambda>v. (cnId v, v))" and P = "\<lambda>ys. (w, a, c @ ys, r, x, g, d)"])
    (use assms(2) in \<open>auto simp: tables_def rowWork_def seedCondition_def rbind_Inr insertNew_Inr\<close>)

lemma seed_receipts:
  assumes "rfold seedReceipt s rs = Inr s'" and "tables s = (w, a, c, r, x, g, d)"
  shows "tables s' = (w, a, c, r @ map (\<lambda>v. (rcId v, v)) rs, x, g, d)"
  by (rule rfold_collect [OF assms(1), where T = tables and h = "(\<lambda>v. (rcId v, v))" and P = "\<lambda>ys. (w, a, c, r @ ys, x, g, d)"])
    (use assms(2) in \<open>auto simp: tables_def rowWork_def seedReceipt_def rbind_Inr insertNew_Inr split: if_splits\<close>)

lemma seed_groups:
  assumes "rfold seedGroup s gs = Inr s'" and "tables s = (w, a, c, r, x, g, d)"
  shows "tables s' = (w, a, c, r, x, g @ gs, d)"
proof -
  have "tables s' = (w, a, c, r, x, g @ map (\<lambda>p. p) gs, d)"
    by (rule rfold_collect [OF assms(1), where T = tables and h = "\<lambda>p. p" and P = "\<lambda>ys. (w, a, c, r, x, g @ ys, d)"])
      (use assms(2) in \<open>auto simp: tables_def rowWork_def seedGroup_def rbind_Inr insertNew_Inr\<close>)
  then show ?thesis by simp
qed

lemma seed_admissions:
  assumes "rfold seedAdmission s ds = Inr s'" and "tables s = (w, a, c, r, x, g, d)"
  shows "tables s' = (w, a, c, r, x, g, d @ ds)"
proof -
  have "tables s' = (w, a, c, r, x, g, d @ map (\<lambda>p. p) ds)"
    by (rule rfold_collect [OF assms(1), where T = tables and h = "\<lambda>p. p" and P = "\<lambda>ys. (w, a, c, r, x, g, d @ ys)"])
      (use assms(2) in \<open>auto simp: tables_def rowWork_def seedAdmission_def rbind_Inr insertNew_Inr\<close>)
  then show ?thesis by simp
qed

lemma seed_routes: "tables (foldl (\<lambda>s w. putTaskConditionRoutes (twResource w) s) s ws) = tables s"
  by (rule foldl_invariant [where P = "\<lambda>t. tables t = tables s"])
    (simp_all add: tables_def rowWork_def putTaskConditionRoutes_def)

lemma seedStore_tables:
  assumes "seedStore now tree ready st = Inr st'" and "snapshot_wf tree"
  shows "tables st' = (map (\<lambda>(k, r). (k, r, dget (trTriggers tree) k)) (trResources tree), trAttempts tree,
      trConditions tree, trReceipts tree, trCancellations tree, trGroups tree, trAdmissions tree)"
proof -
  let ?ws = "map (seedWrite tree ready) (dvals (trResources tree))"
  note vals = assms(2) [unfolded snapshot_wf_def]
  have ids: "map (\<lambda>w. tkId (twResource w)) ?ws = dkeys (trResources tree)"
    using keyed_vals [of tkId "trResources tree"] vals
    by (simp add: seedWrite_def dkeys_def comp_def) (metis (no_types, lifting) fst_conv map_eq_conv map_map comp_apply)
  have works: "map (\<lambda>w. (tkId (twResource w), twResource w, twTrigger w)) ?ws =
      map (\<lambda>(k, r). (k, r, dget (trTriggers tree) k)) (trResources tree)"
    using vals by (auto simp: seedWrite_def dvals_def keyed_def)
  from assms(1) show ?thesis
  proof (rule seedStore_cases)
    fix st1 st2 st3 st4 st5 st6 st7
    assume s: "rfold (\<lambda>s c. putCancellation c s) (clearedStore st) (dvals (trCancellations tree)) = Inr st1"
      "rfold (writeTask now) st1 ?ws = Inr st2" "rfold seedAttempt st2 (dvals (trAttempts tree)) = Inr st3"
      "rfold seedCondition st3 (dvals (trConditions tree)) = Inr st4"
      "rfold seedReceipt (foldl (\<lambda>s w. putTaskConditionRoutes (twResource w) s) st4 ?ws)
        (dvals (trReceipts tree)) = Inr st5"
      "rfold seedGroup st5 (trGroups tree) = Inr st6" "rfold seedAdmission st6 (trAdmissions tree) = Inr st7"
      and st': "st' = activate tree st7"
    have "tables (clearedStore st) = ([], [], [], [], [], [], [])" by (simp add: tables_def rowWork_def clearedStore_def)
    note t1 = seed_cancellations [OF s(1) this, unfolded keyed_vals]
    have d: "distinct (map (\<lambda>w. tkId (twResource w)) ?ws)"
      unfolding ids using vals by (simp add: keyed_def dict_wf_def dkeys_def)
    note t2 = seed_tasks [OF s(2) t1 [simplified] d]
    note t5 = seed_receipts [OF s(5) seed_routes [THEN trans, OF seed_conditions [OF s(4) seed_attempts [OF s(3) t2]]]]
    note t7 = seed_admissions [OF s(7) seed_groups [OF s(6) t5]]
    have "tables st' = tables st7"
      by (simp add: st' activate_def bumpRevision_def backfillTaskEventReceipts_def tables_def rowWork_def)
    with t7 show ?thesis using vals by (simp only: works) (simp add: keyed_vals)
  qed
qed

lemma seedStore_metadata:
  assumes "seedStore now tree ready st = Inr st'"
  shows "stMetadata st' = Some \<lparr>mtProject = trProject tree, mtUpdatedAt = trUpdatedAt tree,
       mtLifecycle = Some (if trLifecycle tree = Some ''paused'' then ''paused'' else ''active''),
       mtRootTaskId = trRootTaskId tree, mtMaxConcurrent = JUndef\<rparr>"
  using assms by (rule seedStore_cases) (simp add: activate_def bumpRevision_def)

lemma writeTasks_named:
  "rfold (writeTask now) s ws = Inr s' \<Longrightarrow> w \<in> set ws \<Longrightarrow> trim (tkId (twResource w)) \<noteq> []"
proof (induction ws arbitrary: s)
  case (Cons v ws)
  then show ?case by (auto simp: rbind_Inr writeTask_def putTask_def split: if_splits)
qed simp

lemma seedStore_named:
  assumes "seedStore now tree ready st = Inr st'" and "snapshot_wf tree"
  shows "filter (\<lambda>p. fst p \<noteq> []) (stTasks st') = stTasks st'"
proof (rule filter_True, rule ballI)
  fix p assume p: "p \<in> set (stTasks st')"
  have w: "rowWork st' = map (\<lambda>(k, r). (k, r, dget (trTriggers tree) k)) (trResources tree)"
    using seedStore_tables [OF assms] by (simp add: tables_def)
  have "map fst (stTasks st') = map fst (rowWork st')" by (simp add: rowWork_def case_prod_unfold comp_def)
  then have "map fst (stTasks st') = map fst (trResources tree)" by (simp add: w case_prod_unfold comp_def)
  moreover have "fst p \<in> set (map fst (stTasks st'))" using p by simp
  ultimately have "fst p \<in> fst ` set (trResources tree)" by simp
  then obtain r where r: "(fst p, r) \<in> set (trResources tree)" by force
  have "tkId r = fst p" using r assms(2) by (auto simp: snapshot_wf_def keyed_def)
  moreover have "r \<in> set (dvals (trResources tree))" using image_eqI [OF _ r, of r snd] by (simp add: dvals_def)
  moreover have "trim (tkId r) \<noteq> []" if "r \<in> set (dvals (trResources tree))"
    using assms(1)
  proof (rule seedStore_cases)
    fix st1 st2 assume "rfold (writeTask now) st1 (map (seedWrite tree ready) (dvals (trResources tree))) = Inr st2"
    from writeTasks_named [OF this, of "seedWrite tree ready r"] that show ?thesis by (simp add: seedWrite_def)
  qed
  ultimately show "fst p \<noteq> []" by (auto simp: trim_def)
qed

text \<open>Whatever order the database lists rows in, the snapshot holds each of them once.\<close>

lemma mset_map_filter:
  "mset (List.map_filter f xs) = image_mset (the \<circ> f) (filter_mset (\<lambda>x. f x \<noteq> None) (mset xs))"
  by (simp add: List.map_filter_def multiset.map_comp flip: mset_filter mset_map)

lemma scan_keys: "dict_wf d \<Longrightarrow> List.map_filter (\<lambda>k. map_option (Pair k) (dget d k)) (dkeys d) = d"
proof -
  assume "dict_wf d"
  then have "map (\<lambda>k. map_option (Pair k) (dget d k)) (dkeys d) = map Some d"
    by (auto simp: dkeys_def dict_wf_dget)
  then have "map the (filter (\<lambda>x. x \<noteq> None) (map (\<lambda>k. map_option (Pair k) (dget d k)) (dkeys d))) = d"
    by (simp add: filter_map comp_def)
  then show ?thesis by (simp add: List.map_filter_def filter_map comp_def)
qed

lemma mset_scanRows:
  assumes "dict_wf d" and "mset (scan table (dkeys d)) = mset (dkeys d)"
  shows "mset (scanRows scan table d) = mset d"
  using arg_cong [OF scan_keys [OF assms(1)], of mset] assms(2) by (simp add: scanRows_def mset_map_filter)

lemma rowTables_mset:
  assumes "mset a = mset b"
  shows "mset (resourcesOf a) = mset (resourcesOf b)" "mset (triggersOf a) = mset (triggersOf b)"
  using assms by (simp_all add: resourcesOf_def triggersOf_def mset_map_filter)

text \<open>Two trees with the same settings and the same entries, in whatever order.\<close>

definition sameEntries :: "task_tree \<Rightarrow> task_tree \<Rightarrow> bool" where
  "sameEntries a b \<longleftrightarrow> trProject a = trProject b \<and> trLifecycle a = trLifecycle b \<and>
     trRootTaskId a = trRootTaskId b \<and> trUpdatedAt a = trUpdatedAt b \<and>
     mset (trConditions a) = mset (trConditions b) \<and> mset (trResources a) = mset (trResources b) \<and>
     mset (trAttempts a) = mset (trAttempts b) \<and> mset (trTriggers a) = mset (trTriggers b) \<and>
     mset (trAdmissions a) = mset (trAdmissions b) \<and> mset (trReceipts a) = mset (trReceipts b) \<and>
     mset (trCancellations a) = mset (trCancellations b) \<and> mset (trGroups a) = mset (trGroups b)"

text \<open>
  C33. Seeding and reading back. A seeded store returns the snapshot it was given, normalized, whatever
  order the database lists the rows of a table in: the same project and root, every resource, attempt,
  Condition, receipt, closure, group and admission exactly once and nothing else, with the lifecycle
  \<open>paused\<close> or \<open>active\<close>; of the triggers exactly those of seeded Tasks. A row is identified with the
  JSON text it is stored as.
\<close>

theorem seed_read_roundtrip:
  assumes "bootstrapSnapshot now tree ready st = Inr st'" and "snapshot_wf tree"
    and "\<And>table keys. mset (scan table keys) = mset keys"
  shows "\<exists>tree'. readSnapshot scan st' = Inr tree' \<and> sameEntries tree' ((normalizeTaskStateInPlace tree)\<lparr>
    trLifecycle := Some (if trLifecycle tree = Some ''paused'' then ''paused'' else ''active''),
    trTriggers := List.map_filter (\<lambda>(k, _). map_option (Pair k) (dget (trTriggers tree) k)) (trResources tree)\<rparr>)"
proof -
  let ?tree = "normalizeTaskStateInPlace tree"
  have seed: "seedStore now ?tree ready st = Inr st'" using bootstrap_seed [OF assms(1)] by simp
  have tabs: "rowWork st' = map (\<lambda>(k, r). (k, r, dget (trTriggers ?tree) k)) (trResources ?tree)"
    "stAttempts st' = trAttempts ?tree" "stConditions st' = trConditions ?tree" "stReceipts st' = trReceipts ?tree"
    "stCancellations st' = trCancellations ?tree" "stGroups st' = trGroups ?tree" "stAdmissions st' = trAdmissions ?tree"
    using seedStore_tables [OF seed normalize_wf [OF assms(2)]] by (simp_all add: tables_def)
  have meta: "stMetadata st' = Some \<lparr>mtProject = trProject ?tree, mtUpdatedAt = trUpdatedAt ?tree,
       mtLifecycle = Some (if trLifecycle ?tree = Some ''paused'' then ''paused'' else ''active''),
       mtRootTaskId = trRootTaskId ?tree, mtMaxConcurrent = JUndef\<rparr>"
    using seed by (rule seedStore_metadata)
  have named: "filter (\<lambda>p. fst p \<noteq> []) (stTasks st') = stTasks st'"
    using seed normalize_wf [OF assms(2)] by (rule seedStore_named)
  have n: "trLifecycle ?tree = trLifecycle tree" "trResources ?tree = trResources tree" "trTriggers ?tree = trTriggers tree"
    "map (\<lambda>(k, g). (k, normalizeTaskGroup k g)) (trGroups ?tree) = trGroups ?tree"
    by (simp_all add: normalizeTaskStateInPlace_def Let_def case_prod_unfold)
  have "map fst (stTasks st') = map fst (rowWork st')" by (simp add: rowWork_def case_prod_unfold comp_def)
  then have "map fst (stTasks st') = map fst (trResources tree)" by (simp add: tabs(1) n(2) case_prod_unfold comp_def)
  then have "dict_wf (stTasks st')" using assms(2) by (simp add: dict_wf_def snapshot_wf_def keyed_def)
  then have rows: "mset (scanRows scan ''app_tasks'' (stTasks st')) = mset (stTasks st')"
    by (rule mset_scanRows) (rule assms(3))
  have "resourcesOf (stTasks st') = trResources tree"
    unfolding rowWork_resources tabs(1) n by (simp add: case_prod_unfold comp_def)
  moreover have "triggersOf (stTasks st') =
      List.map_filter (\<lambda>(k, _). map_option (Pair k) (dget (trTriggers tree) k)) (trResources tree)"
    unfolding rowWork_triggers tabs(1) n by (simp add: List.map_filter_def filter_map comp_def case_prod_unfold)
  moreover have "mset (filter (\<lambda>p. fst p \<noteq> []) (scanRows scan ''app_tasks'' (stTasks st'))) = mset (stTasks st')"
    using arg_cong [OF named, of mset] by (simp add: rows)
  note rowTables_mset [OF this]
  moreover have "mset (scanRows scan table (trAttempts ?tree)) = mset (trAttempts ?tree)"
    "mset (scanRows scan table (trConditions ?tree)) = mset (trConditions ?tree)"
    "mset (scanRows scan table (trReceipts ?tree)) = mset (trReceipts ?tree)"
    "mset (scanRows scan table (trCancellations ?tree)) = mset (trCancellations ?tree)"
    "mset (scanRows scan table (trGroups ?tree)) = mset (trGroups ?tree)"
    "mset (scanRows scan table (trAdmissions ?tree)) = mset (trAdmissions ?tree)" for table
    using normalize_wf [OF assms(2)] by (auto simp: snapshot_wf_def keyed_def intro!: mset_scanRows assms(3))
  ultimately show ?thesis
    using arg_cong [OF n(4), of mset] by (simp add: readSnapshot_def meta Let_def sameEntries_def tabs n(1,2))
qed

definition demoTree :: task_tree where
  "demoTree = emptyTree\<lparr>trResources := [(''t'', blankTask ''t''), (''s'', blankTask ''s'')],
     trAttempts := [(''a'', blankAttempt ''a'' ''t'')]\<rparr>"

theorem seed_read_roundtrip_witness:
  "\<exists>st' tree. bootstrapSnapshot 0 demoTree [] (emptyStore ''demo'') = Inr st' \<and>
     readSnapshot (\<lambda>_. sort) st' = Inr tree \<and>
     mset (trResources tree) = mset [(''t'', blankTask ''t''), (''s'', blankTask ''s'')] \<and>
     mset (trAttempts tree) = mset [(''a'', blankAttempt ''a'' ''t'')]"
proof -
  have wf: "snapshot_wf demoTree"
    by (simp add: snapshot_wf_def demoTree_def emptyTree_def keyed_def blankTask_def blankAttempt_def dict_wf_def)
  have "\<not> isl (bootstrapSnapshot 0 demoTree [] (emptyStore ''demo''))" by code_simp
  then obtain st' where st': "bootstrapSnapshot 0 demoTree [] (emptyStore ''demo'') = Inr st'"
    by (cases "bootstrapSnapshot 0 demoTree [] (emptyStore ''demo'')") auto
  show ?thesis using seed_read_roundtrip [OF st' wf, of "\<lambda>_. sort"] st'
    by (auto simp: sameEntries_def demoTree_def emptyTree_def normalizeTaskStateInPlace_def Let_def)
qed

section \<open>Task contexts\<close>

text \<open>The Tasks a context must hold: the named ones that exist and, of each, its parents and dependencies.\<close>

inductive contextReach :: "task_store \<Rightarrow> string list \<Rightarrow> string \<Rightarrow> bool" for st req where
  named: "k \<in> set req \<Longrightarrow> k \<noteq> [] \<Longrightarrow> readTask st k \<noteq> None \<Longrightarrow> contextReach st req k"
| related: "contextReach st req k \<Longrightarrow> readTask st k = Some r \<Longrightarrow> i \<in> set (relatedIds r) \<Longrightarrow> i \<noteq> [] \<Longrightarrow>
    readTask st i \<noteq> None \<Longrightarrow> contextReach st req i"

lemma contextReach_stored: "contextReach st req k \<Longrightarrow> k \<noteq> [] \<and> readTask st k \<noteq> None"
  by (induction rule: contextReach.induct) simp_all

lemma foldl_related:
  "set (foldl (\<lambda>ps i. if i = [] \<or> dget found i \<noteq> None then ps else sadd ps i) todo is) =
     set todo \<union> {i \<in> set is. i \<noteq> [] \<and> dget found i = None}"
  by (induction "is" arbitrary: todo) auto

text \<open>
  The state of the loop: what is found is reachable and as stored; what is still to do is reachable if
  stored; and every stored Task that is named or related to a found one is found, to do, or in \<open>old\<close>.
\<close>

definition contextInv :: "task_store \<Rightarrow> string list \<Rightarrow> string set \<Rightarrow> found_rows \<times> string list \<Rightarrow> bool" where
  "contextInv st req old acc \<longleftrightarrow>
     (\<forall>k row. dget (fst acc) k = Some row \<longrightarrow> contextReach st req k \<and> dget (stTasks st) k = Some row) \<and>
     (\<forall>i \<in> set (snd acc). i \<noteq> [] \<and> (readTask st i \<noteq> None \<longrightarrow> contextReach st req i)) \<and>
     (\<forall>i. i \<noteq> [] \<and> readTask st i \<noteq> None \<and>
        (i \<in> set req \<or> (\<exists>k row. dget (fst acc) k = Some row \<and> i \<in> set (relatedIds (rwResource row)))) \<longrightarrow>
        dget (fst acc) i \<noteq> None \<or> i \<in> set (snd acc) \<or> i \<in> old)"

lemma contextRow_inv:
  assumes inv: "contextInv st req old acc" and p: "dget (stTasks st) (fst p) = Some (snd p)"
    and reach: "fst p \<noteq> [] \<Longrightarrow> contextReach st req (fst p)"
  shows "contextInv st req old (contextRow acc p)"
proof (cases "fst p = [] \<or> dget (fst acc) (fst p) \<noteq> None")
  case True
  then have "contextRow acc p = acc" by (cases acc) (simp add: contextRow_def)
  with inv show ?thesis by simp
next
  case False
  let ?found = "dset (fst acc) (fst p) (snd p)"
  let ?rel = "{i \<in> set (relatedIds (rwResource (snd p))). i \<noteq> [] \<and> dget ?found i = None}"
  have row: "fst (contextRow acc p) = ?found" "set (snd (contextRow acc p)) = set (snd acc) \<union> ?rel"
    using False foldl_related [of ?found "snd acc" "relatedIds (rwResource (snd p))"]
    by (simp_all add: contextRow_def Let_def case_prod_unfold del: dget_dset)
  have rt: "readTask st (fst p) = Some (rwResource (snd p))" using p by (simp add: readTask_def)
  have "contextReach st req i" if "i \<in> ?rel" "readTask st i \<noteq> None" for i
    using contextReach.related [OF reach rt, of i] that False by simp
  with inv False reach p show ?thesis
    unfolding contextInv_def row by (auto split: if_splits)
qed

lemma contextRows_found:
  "p \<in> set rows \<Longrightarrow> fst p \<noteq> [] \<Longrightarrow> dget (fst (foldl contextRow acc rows)) (fst p) \<noteq> None"
proof (induction rows arbitrary: acc)
  case (Cons q rows)
  have "dget (fst (contextRow acc p)) (fst p) \<noteq> None" using Cons.prems(2)
    by (cases acc) (simp add: contextRow_def Let_def)
  then have "dget (fst (foldl contextRow (contextRow acc p) rows)) (fst p) \<noteq> None" by (rule contextRows_grow)
  moreover have "dget (fst (foldl contextRow (contextRow acc q) rows)) (fst p) \<noteq> None" if "p \<in> set rows"
    using that Cons.prems(2) by (rule Cons.IH)
  ultimately show ?case using Cons.prems(1) by auto
qed simp

lemma contextPass_inv:
  assumes wf: "dict_wf (stTasks st)" and inv: "contextInv st req {} (found, todo)"
  shows "contextInv st req {} (contextPass st todo found)"
proof -
  let ?rows = "filter (\<lambda>p. fst p \<in> set todo) (stTasks st)"
  have "contextInv st req (set todo) (found, [])" using inv by (auto simp: contextInv_def)
  then have J: "contextInv st req (set todo) (foldl contextRow (found, []) ?rows)"
  proof (rule foldl_invariant)
    fix acc p assume acc: "contextInv st req (set todo) acc" and "p \<in> set ?rows"
    then have p: "dget (stTasks st) (fst p) = Some (snd p)" "fst p \<in> set todo"
      using dict_wf_dget [OF wf, of "fst p" "snd p"] by simp_all
    with inv have "contextReach st req (fst p)" by (auto simp: contextInv_def readTask_def)
    with acc p show "contextInv st req (set todo) (contextRow acc p)" by (intro contextRow_inv) auto
  qed
  have got: "dget (fst (foldl contextRow (found, []) ?rows)) i \<noteq> None"
    if "i \<in> set todo" "i \<noteq> []" "readTask st i \<noteq> None" for i
  proof -
    from that(3) obtain row where "dget (stTasks st) i = Some row" by (auto simp: readTask_def)
    with that(1) have "(i, row) \<in> set ?rows" by (simp add: dget_Some_in)
    from contextRows_found [OF this] that(2) show ?thesis by simp
  qed
  show ?thesis unfolding contextPass_def contextInv_def
  proof (intro conjI allI impI)
    fix i assume i: "i \<noteq> [] \<and> readTask st i \<noteq> None \<and> (i \<in> set req \<or> (\<exists>k row.
      dget (fst (foldl contextRow (found, []) ?rows)) k = Some row \<and> i \<in> set (relatedIds (rwResource row))))"
    with J have "dget (fst (foldl contextRow (found, []) ?rows)) i \<noteq> None \<or>
      i \<in> set (snd (foldl contextRow (found, []) ?rows)) \<or> i \<in> set todo" unfolding contextInv_def by blast
    with i got show "dget (fst (foldl contextRow (found, []) ?rows)) i \<noteq> None \<or>
      i \<in> set (snd (foldl contextRow (found, []) ?rows)) \<or> i \<in> {}" by blast
  qed (use J in \<open>simp_all add: contextInv_def\<close>)
qed

lemma contextLoop_inv:
  "dict_wf (stTasks st) \<Longrightarrow> contextInv st req {} (found, todo) \<Longrightarrow> contextInv st req {} (contextLoop st todo found, [])"
proof (induction st todo found rule: contextLoop.induct)
  case (1 st todo found)
  show ?case
  proof (cases "todo = []")
    case False
    obtain found' todo' where pass: "contextPass st todo found = (found', todo')" by (cases "contextPass st todo found")
    with 1 contextPass_inv [OF 1(2,3)] False show ?thesis by (simp add: contextLoop.simps [of st todo])
  qed (use 1(3) in \<open>simp add: contextLoop.simps\<close>)
qed

lemma contextLoop_exact:
  assumes "dict_wf (stTasks st)" and "[] \<notin> set req"
  shows "dget (contextLoop st req []) k = Some row \<longleftrightarrow> contextReach st req k \<and> dget (stTasks st) k = Some row"
proof -
  have "contextInv st req {} ([], req)"
    unfolding contextInv_def using assms(2) by (auto intro: contextReach.named)
  from contextLoop_inv [OF assms(1) this]
  have sound: "\<And>k row. dget (contextLoop st req []) k = Some row \<Longrightarrow> contextReach st req k \<and> dget (stTasks st) k = Some row"
    and total: "\<And>i. i \<noteq> [] \<Longrightarrow> readTask st i \<noteq> None \<Longrightarrow> i \<in> set req \<or>
        (\<exists>k row. dget (contextLoop st req []) k = Some row \<and> i \<in> set (relatedIds (rwResource row))) \<Longrightarrow>
        dget (contextLoop st req []) i \<noteq> None"
    unfolding contextInv_def by auto
  have "dget (contextLoop st req []) i \<noteq> None" if "contextReach st req i" for i
    using that
  proof (induction rule: contextReach.induct)
    case (named i)
    then show ?case using total by blast
  next
    case (related i r j)
    then obtain row where row: "dget (contextLoop st req []) i = Some row" by blast
    with sound related have "rwResource row = r" by (fastforce simp: readTask_def)
    with row related total show ?case by blast
  qed
  with sound show ?thesis by fastforce
qed

lemma addRows_stored:
  assumes "dget found k = Some row" and "list_all (\<lambda>p. dget (stTasks st) (fst p) = Some (snd p)) rows"
    and "dget (stTasks st) k = Some row"
  shows "dget (addRows found rows) k = Some row"
  unfolding addRows_def
  by (rule foldl_invariant [where P = "\<lambda>m. dget m k = Some row", OF assms(1)]) (use assms(2,3) in \<open>fastforce simp: list_all_iff\<close>)

lemma cleanIds_named: "[] \<notin> set (cleanIds ids)"
  by (simp add: cleanIds_def)

lemma relatedRows_stored:
  assumes "dict_wf (stTasks st)"
  shows "list_all (\<lambda>p. dget (stTasks st) (fst p) = Some (snd p)) (relatedRows st req limit)"
  using dict_wf_dget [OF assms]
  by (auto simp: relatedRows_def list_all_iff List.map_filter_def split: option.splits dest!: in_set_takeD)

lemma contextRows_reach:
  assumes "dict_wf (stTasks st)" and "contextReach st (cleanIds (scTaskIds sc)) k"
  shows "dget (contextRows st sc limit) k = dget (stTasks st) k"
proof -
  from contextReach_stored [OF assms(2)] obtain row where row: "dget (stTasks st) k = Some row" by (auto simp: readTask_def)
  with assms contextLoop_exact [OF assms(1) cleanIds_named, of "scTaskIds sc" k row]
  have loop: "dget (contextLoop st (cleanIds (scTaskIds sc)) []) k = Some row" by simp
  have "list_all (\<lambda>p. dget (stTasks st) (fst p) = Some (snd p)) (routedRows st ids)" for ids
    using dict_wf_dget [OF assms(1)] by (auto simp: routedRows_def list_all_iff)
  then have add: "dget (addRows m (routedRows st ids)) k = Some row \<and>
      dget (addRows m (relatedRows st req limit)) k = Some row" if "dget m k = Some row" for m ids req limit
    using that row relatedRows_stored [OF assms(1)] by (blast intro: addRows_stored)
  show ?thesis unfolding row contextRows_def Let_def using loop by (simp only: add split: if_split) simp
qed

text \<open>
  C34. A Task context is closed. Reading the context of named Tasks ends, whatever cycles the parents and
  dependencies form, and the result holds every stored Task reachable from a named one over parents and
  dependencies, as stored; with no children asked for and no Conditions named, it holds nothing else.
\<close>

theorem task_context_closed:
  assumes "store_reach st" and "stMetadata st \<noteq> None"
  shows "\<exists>tree. readTaskContext st sc hist limit = Inr tree \<and>
    (\<forall>k. contextReach st (cleanIds (scTaskIds sc)) k \<longrightarrow> dget (trResources tree) k = readTask st k) \<and>
    (limit = Some (num_int 0) \<and> scConditionIds sc = [] \<longrightarrow>
       (\<forall>k. dget (trResources tree) k \<noteq> None \<longrightarrow> contextReach st (cleanIds (scTaskIds sc)) k))"
proof -
  have wf: "dict_wf (stTasks st)" using store_ok_reach [OF assms(1)] by (simp add: store_ok_def rows_ok_def)
  obtain tree where tree: "readTaskContext st sc hist limit = Inr tree"
    and res: "trResources tree = resourcesOf (contextRows st sc limit)"
    using assms(2) by (auto simp: readTaskContext_def Let_def)
  have get: "dget (trResources tree) k = map_option rwResource (dget (contextRows st sc limit) k)" for k
    by (simp add: res resourcesOf_def dget_map)
  have "contextRows st sc (Some (num_int 0)) = contextLoop st (cleanIds (scTaskIds sc)) []" if "scConditionIds sc = []"
    using that by (simp add: contextRows_def Let_def cleanIds_def)
  with contextLoop_exact [OF wf cleanIds_named] tree show ?thesis
    by (auto simp: get contextRows_reach [OF wf] readTask_def intro!: exI [of _ tree])
qed

definition demoCycle :: task_tree where
  "demoCycle = emptyTree\<lparr>trResources :=
     [(''a'', (blankTask ''a'')\<lparr>tkSpec := blankSpec\<lparr>spParentId := ''b''\<rparr>\<rparr>),
      (''b'', (blankTask ''b'')\<lparr>tkSpec := blankSpec\<lparr>spParentId := ''a'', spDependsOn := Some [''c'']\<rparr>\<rparr>),
      (''c'', blankTask ''c''), (''d'', blankTask ''d'')]\<rparr>"

definition demoCycleStore :: task_store where
  "demoCycleStore = (case bootstrapSnapshot 0 demoCycle [] (emptyStore ''demo'') of Inr st \<Rightarrow> st | Inl _ \<Rightarrow> emptyStore [])"

theorem task_context_closed_witness:
  "\<exists>tree. readTaskContext demoCycleStore (taskScope [''a'']) True (Some (num_int 0)) = Inr tree \<and>
     dget (trResources tree) ''c'' \<noteq> None"
proof -
  have boot: "bootstrapSnapshot 0 demoCycle [] (emptyStore ''demo'') = Inr demoCycleStore" by code_simp
  have "store_reach (emptyStore ''demo'')" by (rule store_reach.start [of "''demo''"]) code_simp
  then have reach: "store_reach demoCycleStore" by (rule store_reach.step) (rule store_step.seeded [OF boot])
  have meta: "stMetadata demoCycleStore \<noteq> None" by code_simp
  have ids: "cleanIds (scTaskIds (taskScope [''a''])) = [''a'']" by code_simp
  have stored: "map (readTask demoCycleStore) [''a'', ''b'', ''c''] = map (\<lambda>p. Some (snd p)) (take 3 (trResources demoCycle))"
    by code_simp
  have "contextReach demoCycleStore [''a''] ''a''" by (rule contextReach.named) (use stored in \<open>simp_all add: demoCycle_def\<close>)
  then have "contextReach demoCycleStore [''a''] ''b''"
    by (rule contextReach.related [where r = "snd (trResources demoCycle ! 0)"]) (use stored in \<open>simp_all add: demoCycle_def relatedIds_def blankTask_def blankSpec_def\<close>)
  then have "contextReach demoCycleStore [''a''] ''c''"
    by (rule contextReach.related [where r = "snd (trResources demoCycle ! 1)"]) (use stored in \<open>simp_all add: demoCycle_def relatedIds_def listOr_def blankTask_def blankSpec_def\<close>)
  with task_context_closed [OF reach meta, of "taskScope [''a'']" True "Some (num_int 0)"] stored
  show ?thesis unfolding ids by (auto simp: demoCycle_def)
qed

end
