(* ===== verification/Task_Projection.thy ===== *)
theory Task_Projection
  imports Task_State
begin

text \<open>
  What an operator sees of a Task tree (\<open>core/tasks/app-task-store.ts\<close>): the Agent a Task inherits
  along its parents, whether a Task may be claimed now, and the projection of the whole tree with its
  integrity findings. \<open>resolvedAgent\<close> of \<open>app-task-reconciler.ts\<close> walks the same parent chain with
  the App's Agent as the last resort.

  The walk up the parents stops at a parent it has seen, so it ends on a cyclic tree too. Its
  reference is \<open>inheritsOwner\<close>, which has no such check.
\<close>

section \<open>Inherited owner\<close>

text \<open>The owner a parent entry declares, and its own parent; a Task hides a group of the same id.\<close>

definition ownerAt :: "(string, task_group) dict \<Rightarrow> (string, task_resource) dict \<Rightarrow> string \<Rightarrow> string option" where
  "ownerAt groups resources p =
     (case dget resources p of
        Some r \<Rightarrow> trimmed (spOwner (tkSpec r))
      | None \<Rightarrow> (case dget groups p of Some g \<Rightarrow> trimmed (grOwner g) | None \<Rightarrow> None))"

definition parentAt :: "(string, task_group) dict \<Rightarrow> (string, task_resource) dict \<Rightarrow> string \<Rightarrow> string option" where
  "parentAt groups resources p =
     (case dget resources p of
        Some r \<Rightarrow> Some (spParentId (tkSpec r))
      | None \<Rightarrow> (case dget groups p of
          Some g \<Rightarrow> (case grParentId g of Some parent \<Rightarrow> parent | None \<Rightarrow> None)
        | None \<Rightarrow> None))"

lemma parentAt_key: "parentAt groups resources p \<noteq> None \<Longrightarrow> p \<in> set (dkeys resources @ dkeys groups)"
  using dget_None_iff [of resources p] dget_None_iff [of groups p] by (auto simp: parentAt_def split: option.splits)

lemma unseen_key_less:
  assumes "p \<notin> set seen" "p \<in> set keys"
  shows "card (set keys - set (p # seen)) < card (set keys - set seen)"
proof -
  have "card (set keys - set seen - {p}) < card (set keys - set seen)"
    using assms by (intro card_Diff1_less finite_Diff finite_set) simp
  moreover have "set keys - set (p # seen) = set keys - set seen - {p}" by auto
  ultimately show ?thesis by simp
qed

function ownerLoop ::
  "(string, task_group) dict \<Rightarrow> (string, task_resource) dict \<Rightarrow> string list \<Rightarrow> string option \<Rightarrow> string option" where
  "ownerLoop groups resources seen parentId =
     (case parentId of
        None \<Rightarrow> None
      | Some p \<Rightarrow>
          if p = [] \<or> p \<in> set seen then None
          else case ownerAt groups resources p of
              Some owner \<Rightarrow> Some owner
            | None \<Rightarrow> if parentAt groups resources p = None then None
                      else ownerLoop groups resources (p # seen) (parentAt groups resources p))"
  by pat_completeness auto
termination
proof (relation "measure (\<lambda>(groups, resources, seen, _). card (set (dkeys resources @ dkeys groups) - set seen))")
  fix groups :: "(string, task_group) dict" and resources :: "(string, task_resource) dict"
    and seen :: "string list" and parentId :: "string option" and p :: string
  assume "parentId = Some p" "\<not> (p = [] \<or> p \<in> set seen)" "parentAt groups resources p \<noteq> None"
  then show "((groups, resources, p # seen, parentAt groups resources p), (groups, resources, seen, parentId)) \<in>
    measure (\<lambda>(groups, resources, seen, _). card (set (dkeys resources @ dkeys groups) - set seen))"
    using unseen_key_less [of p seen, OF _ parentAt_key] by simp
qed simp

declare ownerLoop.simps [simp del]

definition projectedTaskOwner ::
  "task_resource \<Rightarrow> (string, task_group) dict \<Rightarrow> (string, task_resource) dict \<Rightarrow> string option" where
  "projectedTaskOwner r groups resources =
     (case trimmed (spOwner (tkSpec r)) of
        Some owner \<Rightarrow> Some owner
      | None \<Rightarrow> ownerLoop groups resources [] (Some (spParentId (tkSpec r))))"

text \<open>The reconciler has a loop of its own, which falls back to the App's Agent.\<close>

function agentLoop ::
  "(string, task_group) dict \<Rightarrow> (string, task_resource) dict \<Rightarrow> string \<Rightarrow> string list \<Rightarrow> string option \<Rightarrow> string" where
  "agentLoop groups resources appAgent seen parentId =
     (case parentId of
        None \<Rightarrow> appAgent
      | Some p \<Rightarrow>
          if p = [] \<or> p \<in> set seen then appAgent
          else case dget resources p of
              Some r \<Rightarrow> (case trimmed (spOwner (tkSpec r)) of
                  Some owner \<Rightarrow> owner
                | None \<Rightarrow> agentLoop groups resources appAgent (p # seen) (Some (spParentId (tkSpec r))))
            | None \<Rightarrow> (case dget groups p of
                  None \<Rightarrow> appAgent
                | Some g \<Rightarrow> (case trimmed (grOwner g) of
                      Some owner \<Rightarrow> owner
                    | None \<Rightarrow> agentLoop groups resources appAgent (p # seen)
                        (case grParentId g of Some parent \<Rightarrow> parent | None \<Rightarrow> None))))"
  by pat_completeness auto
termination
proof (relation "measure (\<lambda>(groups, resources, _, seen, _). card (set (dkeys resources @ dkeys groups) - set seen))")
  fix groups :: "(string, task_group) dict" and resources :: "(string, task_resource) dict" and appAgent :: string
    and seen :: "string list" and parentId :: "string option" and p :: string and q :: "string option"
  have less: "((groups, resources, appAgent, p # seen, q), (groups, resources, appAgent, seen, parentId)) \<in>
      measure (\<lambda>(groups, resources, _, seen, _). card (set (dkeys resources @ dkeys groups) - set seen))"
    if "\<not> (p = [] \<or> p \<in> set seen)" "p \<in> set (dkeys resources @ dkeys groups)" for q
    using that unseen_key_less [of p seen "dkeys resources @ dkeys groups"] by simp
  have keys: "dget resources p = Some r \<Longrightarrow> p \<in> set (dkeys resources @ dkeys groups)"
    "dget groups p = Some g \<Longrightarrow> p \<in> set (dkeys resources @ dkeys groups)" for r g
    using dget_None_iff [of resources p] dget_None_iff [of groups p] by auto
  show "((groups, resources, appAgent, p # seen, Some (spParentId (tkSpec r))),
      (groups, resources, appAgent, seen, parentId)) \<in>
    measure (\<lambda>(groups, resources, _, seen, _). card (set (dkeys resources @ dkeys groups) - set seen))"
    if "\<not> (p = [] \<or> p \<in> set seen)" "dget resources p = Some r" for r
    by (rule less [OF that(1) keys(1) [OF that(2)]])
  show "((groups, resources, appAgent, p # seen, case grParentId g of Some parent \<Rightarrow> parent | None \<Rightarrow> None),
      (groups, resources, appAgent, seen, parentId)) \<in>
    measure (\<lambda>(groups, resources, _, seen, _). card (set (dkeys resources @ dkeys groups) - set seen))"
    if "\<not> (p = [] \<or> p \<in> set seen)" "dget groups p = Some g" for g
    by (rule less [OF that(1) keys(2) [OF that(2)]])
qed simp

declare agentLoop.simps [simp del]

definition resolvedAgent :: "task_tree \<Rightarrow> task_spec \<Rightarrow> string \<Rightarrow> string" where
  "resolvedAgent tree spec appAgent =
     (case trimmed (spOwner spec) of
        Some owner \<Rightarrow> owner
      | None \<Rightarrow> agentLoop (trGroups tree) (trResources tree) appAgent [] (Some (spParentId spec)))"

lemma agentLoop_owner:
  "agentLoop groups resources appAgent seen parentId =
     (case ownerLoop groups resources seen parentId of Some owner \<Rightarrow> owner | None \<Rightarrow> appAgent)"
proof (induction groups resources appAgent seen parentId rule: agentLoop.induct)
  case (1 groups resources appAgent seen parentId)
  have none: "ownerLoop groups resources seen' None = None" "agentLoop groups resources appAgent seen' None = appAgent"
    for seen' by (subst ownerLoop.simps agentLoop.simps, simp)+
  show ?case
  proof (cases parentId)
    case (Some p)
    show ?thesis
    proof (cases "p = [] \<or> p \<in> set seen")
      case False
      note IH = "1.IH" [OF Some False]
      from Some False show ?thesis
        by (subst agentLoop.simps, subst ownerLoop.simps)
          (auto simp: ownerAt_def parentAt_def none IH split: option.splits)
    qed (use Some in \<open>subst agentLoop.simps, subst ownerLoop.simps, simp\<close>)
  qed (subst agentLoop.simps, subst ownerLoop.simps, simp)
qed

text \<open>The reference: an entry without an owner has the owner of its parent, in \<open>n\<close> steps.\<close>

inductive inheritsOwner ::
  "(string, task_group) dict \<Rightarrow> (string, task_resource) dict \<Rightarrow> nat \<Rightarrow> string \<Rightarrow> string \<Rightarrow> bool"
  for groups resources where
  own: "p \<noteq> [] \<Longrightarrow> ownerAt groups resources p = Some owner \<Longrightarrow> inheritsOwner groups resources 0 p owner"
| up: "p \<noteq> [] \<Longrightarrow> ownerAt groups resources p = None \<Longrightarrow> parentAt groups resources p = Some q \<Longrightarrow>
    inheritsOwner groups resources n q owner \<Longrightarrow> inheritsOwner groups resources (Suc n) p owner"

lemma inheritsOwner_unowned:
  assumes "inheritsOwner groups resources n p owner" "ownerAt groups resources p = None"
  shows "\<exists>m q. n = Suc m \<and> parentAt groups resources p = Some q \<and> inheritsOwner groups resources m q owner"
  using assms by cases auto

lemma inheritsOwner_det:
  "inheritsOwner groups resources n p owner \<Longrightarrow> inheritsOwner groups resources m p owner' \<Longrightarrow> n = m \<and> owner = owner'"
proof (induction arbitrary: m owner' rule: inheritsOwner.induct)
  case (own p owner)
  from own.prems own.hyps show ?case by cases simp_all
next
  case (up p q n owner)
  from up.prems obtain k where "m = Suc k" "inheritsOwner groups resources k q owner'"
    using up.hyps(2,3) by cases simp_all
  with up.IH [of k owner'] show ?case by simp
qed

lemma ownerLoop_sound:
  "ownerLoop groups resources seen parentId = Some owner \<Longrightarrow>
   \<exists>p n. parentId = Some p \<and> inheritsOwner groups resources n p owner"
proof (induction groups resources seen parentId rule: ownerLoop.induct)
  case (1 groups resources seen parentId)
  then obtain p where p: "parentId = Some p" by (subst (asm) (2) ownerLoop.simps) (auto split: option.splits)
  from 1(2) p have ne: "p \<noteq> []" and ns: "p \<notin> set seen"
    by (subst (asm) ownerLoop.simps, auto split: if_splits)+
  show ?case
  proof (cases "ownerAt groups resources p")
    case (Some o')
    with 1(2) p ne ns have "o' = owner" by (subst (asm) ownerLoop.simps) simp
    with Some p ne show ?thesis by (auto intro: inheritsOwner.own)
  next
    case None
    with 1(2) p ne ns have up: "parentAt groups resources p \<noteq> None"
      "ownerLoop groups resources (p # seen) (parentAt groups resources p) = Some owner"
      by (subst (asm) ownerLoop.simps, auto split: if_splits)+
    from "1.IH" [OF p _ None up] ne ns obtain q n where
      "parentAt groups resources p = Some q" "inheritsOwner groups resources n q owner" by auto
    with p ne None show ?thesis by (auto intro: inheritsOwner.up)
  qed
qed

text \<open>
  Completeness: a chain from a parent seen before is longer than the one from here, so a chain that
  comes back to a seen parent has no end.
\<close>

lemma ownerLoop_complete:
  assumes "inheritsOwner groups resources n p owner"
    and "\<And>q m. q \<in> set seen \<Longrightarrow> inheritsOwner groups resources m q owner \<Longrightarrow> n < m"
  shows "ownerLoop groups resources seen (Some p) = Some owner"
  using assms
proof (induction arbitrary: seen rule: inheritsOwner.induct)
  case (own p owner)
  have "p \<notin> set seen" using own.prems [OF _ inheritsOwner.own [OF own.hyps]] by blast
  then show ?case using own.hyps by (subst ownerLoop.simps) simp
next
  case (up p q n owner)
  have here: "inheritsOwner groups resources (Suc n) p owner" by (rule inheritsOwner.up [OF up.hyps])
  have "p \<notin> set seen" using up.prems [OF _ here] by blast
  moreover have "ownerLoop groups resources (p # seen) (Some q) = Some owner"
  proof (rule up.IH)
    fix q' m assume q': "q' \<in> set (p # seen)" "inheritsOwner groups resources m q' owner"
    show "n < m"
    proof (cases "q' = p")
      case True
      with inheritsOwner_det [OF here] q'(2) have "Suc n = m" by simp
      then show ?thesis by simp
    next
      case False
      with q' have "Suc n < m" by (auto intro: up.prems)
      then show ?thesis by simp
    qed
  qed
  ultimately show ?case using up.hyps by (subst ownerLoop.simps) simp
qed

lemma ownerLoop_exact:
  "ownerLoop groups resources [] (Some p) = Some owner \<longleftrightarrow> (\<exists>n. inheritsOwner groups resources n p owner)"
  using ownerLoop_sound [of groups resources "[]" "Some p" owner] ownerLoop_complete [of groups resources _ p owner "[]"]
  by auto

text \<open>
  C38. The Agent of a Task is the first one declared along its parents: with no owner of its own, the
  operator's projection and the reconciler both give the owner that the parent chain inherits in
  finitely many steps, and only when the chain has none (it ends, or runs in a cycle) does the
  reconciler take the App's Agent.
\<close>

theorem owner_is_first_declared:
  "(projectedTaskOwner r (trGroups tree) (trResources tree) = Some owner \<longleftrightarrow>
     trimmed (spOwner (tkSpec r)) = Some owner \<or>
     trimmed (spOwner (tkSpec r)) = None \<and>
       (\<exists>n. inheritsOwner (trGroups tree) (trResources tree) n (spParentId (tkSpec r)) owner)) \<and>
   resolvedAgent tree (tkSpec r) appAgent =
     (case projectedTaskOwner r (trGroups tree) (trResources tree) of Some a \<Rightarrow> a | None \<Rightarrow> appAgent)"
  by (cases "trimmed (spOwner (tkSpec r))")
    (simp_all add: projectedTaskOwner_def resolvedAgent_def agentLoop_owner ownerLoop_exact [symmetric])

section \<open>Readiness\<close>

datatype readiness_state = Ready | DependencyBlocked | ConditionBlocked | CapacityBlocked | Paused | NotApplicable

record app_task_readiness =
  rdState :: readiness_state
  rdReason :: string
  rdRelatedIds :: "string list"

fun phaseName :: "task_phase \<Rightarrow> string" where
  "phaseName PhPending = ''pending''"
| "phaseName PhRunning = ''running''"
| "phaseName PhConverged = ''converged''"
| "phaseName PhWaiting = ''waiting''"
| "phaseName PhAttention = ''attention''"

definition dependencySatisfied :: "task_tree \<Rightarrow> string \<Rightarrow> bool" where
  "dependencySatisfied tree d =
     (case dget (trResources tree) d of
        None \<Rightarrow> False
      | Some r \<Rightarrow> tkPhase r = PhConverged \<and> tkObservedGeneration r = tkGeneration r)"

definition satisfiedDependencyIds :: "task_tree \<Rightarrow> string list" where
  "satisfiedDependencyIds tree =
     sort (uniq (filter (dependencySatisfied tree)
       (concat (map (\<lambda>r. listOr (spDependsOn (tkSpec r))) (dvals (trResources tree))))))"

definition appTaskReadiness :: "task_tree \<Rightarrow> task_resource \<Rightarrow> string list \<Rightarrow> int \<Rightarrow> nat \<Rightarrow> app_task_readiness" where
  "appTaskReadiness tree r satisfied maxConcurrent activeCount =
     (let conditionIds = listOr (tkConditionIds r);
          satisfiedConditionIds = filter (\<lambda>c. case dget (trConditions tree) c of
            Some cond \<Rightarrow> cnState cond = CondTrue | None \<Rightarrow> False) conditionIds;
          conditionWokeTask = (tkPhase r = PhWaiting \<and> satisfiedConditionIds \<noteq> []);
          unmet = filter (\<lambda>d. d \<notin> set satisfied) (listOr (spDependsOn (tkSpec r)))
      in if tkPhase r = PhWaiting \<and> \<not> conditionWokeTask
         then \<lparr>rdState = ConditionBlocked,
                rdReason = (if conditionIds \<noteq> [] then ''Waiting for '' @ intersperse '', '' conditionIds
                            else ''Waiting without a linked Condition''),
                rdRelatedIds = conditionIds\<rparr>
         else if tkPhase r \<noteq> PhPending \<and> \<not> conditionWokeTask
         then \<lparr>rdState = NotApplicable, rdReason = ''Task phase is '' @ phaseName (tkPhase r), rdRelatedIds = []\<rparr>
         else if trLifecycle tree = Some ''paused''
         then \<lparr>rdState = Paused, rdReason = ''Project task reconciliation is paused'', rdRelatedIds = []\<rparr>
         else if unmet \<noteq> []
         then \<lparr>rdState = DependencyBlocked, rdReason = ''Waiting for '' @ intersperse '', '' unmet, rdRelatedIds = unmet\<rparr>
         else if maxConcurrent \<le> int activeCount
         then \<lparr>rdState = CapacityBlocked,
                rdReason = ''Concurrency '' @ show_nat activeCount @ ''/'' @ show_int maxConcurrent @ '' is full'',
                rdRelatedIds = []\<rparr>
         else if conditionWokeTask
         then \<lparr>rdState = Ready, rdReason = ''Condition satisfied: '' @ intersperse '', '' satisfiedConditionIds,
                rdRelatedIds = satisfiedConditionIds\<rparr>
         else \<lparr>rdState = Ready, rdReason = ''Dependencies and capacity allow claim'', rdRelatedIds = []\<rparr>)"

definition effectiveConcurrency :: "jsnum \<Rightarrow> int" where
  "effectiveConcurrency n = (if is_integer n \<and> 0 < to_int n then to_int n else 1)"

definition activeResources :: "task_tree \<Rightarrow> task_resource list" where
  "activeResources tree = filter (\<lambda>r. tkPhase r = PhRunning) (dvals (trResources tree))"

text \<open>\<open>Object.fromEntries\<close>: a later entry of the same key replaces the value.\<close>

definition fromEntries :: "('k \<times> 'v) list \<Rightarrow> ('k, 'v) dict" where
  "fromEntries es = foldl (\<lambda>d (k, v). dset d k v) [] es"

definition appTaskReadinessById :: "task_tree \<Rightarrow> jsnum \<Rightarrow> (string, app_task_readiness) dict" where
  "appTaskReadinessById tree configuredMaxConcurrent =
     (let maxConcurrent = effectiveConcurrency configuredMaxConcurrent;
          satisfied = satisfiedDependencyIds tree;
          activeCount = length (activeResources tree)
      in fromEntries (map (\<lambda>r. (tkId r, appTaskReadiness tree r satisfied maxConcurrent activeCount))
           (dvals (trResources tree))))"

section \<open>Projection\<close>

definition projectedTaskChildren ::
  "(string, task_group) dict \<Rightarrow> (string, task_resource) dict \<Rightarrow> (string, string list) dict" where
  "projectedTaskChildren groups resources =
     (let links = map (\<lambda>(k, g). (case grParentId g of Some (Some p) \<Rightarrow> p | _ \<Rightarrow> [], k)) groups @
            map (\<lambda>(k, r). (spParentId (tkSpec r), k)) resources;
          sets = foldl (\<lambda>d (parent, child). if parent = [] then d
            else dset d parent (sadd (case dget d parent of Some cs \<Rightarrow> cs | None \<Rightarrow> []) child)) [] links
      in map (\<lambda>(parent, children). (parent, sort children)) sets)"

record active_attempt =
  aaId :: string
  aaHandler :: string
  aaState :: attempt_state
  aaReason :: string
  aaStartedAt :: int

record task_item =
  tiOutcome :: string
  tiCategory :: "string option"
  tiPriority :: app_task_priority
  tiWorkflow :: "string option"
  tiExecutor :: "string option"
  tiGeneration :: nat
  tiVersion :: nat
  tiPhase :: task_phase
  tiObservedGeneration :: nat
  tiSynchronized :: bool
  tiReadiness :: "app_task_readiness option"
  tiDependsOn :: "string list"
  tiOutputs :: "string list"
  tiAcceptance :: "string list"
  tiInput :: "js_record option"
  tiTrigger :: "js_record option"
  tiSummary :: "string option"
  tiFacts :: "string list option"
  tiConditionIds :: "string list"
  tiUpdatedAt :: int
  tiAttemptCount :: nat
  tiActiveAttempt :: "active_attempt option"

text \<open>One row of the projection: a group, or a Task with its details.\<close>

record projection_item =
  piId :: string
  piParentId :: "string option"
  piChildren :: "string list"
  piOwner :: "string option"
  piTask :: "task_item option"

text \<open>\<open>...(text ? { key: text } : {})\<close>\<close>

definition whenText :: "string option \<Rightarrow> string option" where
  "whenText v = (case v of Some s \<Rightarrow> if s = [] then None else Some s | None \<Rightarrow> None)"

definition activeAttemptOf :: "task_tree \<Rightarrow> task_resource \<Rightarrow> active_attempt option" where
  "activeAttemptOf tree r =
     map_option (\<lambda>a. \<lparr>aaId = atId a, aaHandler = atHandler a, aaState = atState a, aaReason = atReason a,
         aaStartedAt = atStartedAt a\<rparr>)
       (Option.bind (whenText (tkCurrentAttemptId r)) (dget (trAttempts tree)))"

definition groupItem :: "(string, string list) dict \<Rightarrow> string \<Rightarrow> task_group \<Rightarrow> projection_item" where
  "groupItem childrenById k g =
     \<lparr>piId = k, piParentId = (case grParentId g of Some p \<Rightarrow> p | None \<Rightarrow> None),
      piChildren = listOr (dget childrenById k), piOwner = whenText (grOwner g), piTask = None\<rparr>"

definition taskItem ::
  "task_tree \<Rightarrow> (string, app_task_readiness) dict \<Rightarrow> (string, string list) dict \<Rightarrow> string \<Rightarrow> task_resource \<Rightarrow> projection_item" where
  "taskItem tree readinessById childrenById k r =
     (let sp = tkSpec r in
      \<lparr>piId = k, piParentId = Some (spParentId sp), piChildren = listOr (dget childrenById k),
       piOwner = whenText (projectedTaskOwner r (trGroups tree) (trResources tree)),
       piTask = Some
        \<lparr>tiOutcome = spOutcome sp, tiCategory = whenText (spCategory sp),
         tiPriority = (case spPriority sp of Some p \<Rightarrow> p | None \<Rightarrow> P2),
         tiWorkflow = whenText (spWorkflow sp), tiExecutor = whenText (spExecutor sp),
         tiGeneration = tkGeneration r, tiVersion = tkVersion r, tiPhase = tkPhase r,
         tiObservedGeneration = tkObservedGeneration r,
         tiSynchronized = (tkObservedGeneration r = tkGeneration r), tiReadiness = dget readinessById k,
         tiDependsOn = listOr (spDependsOn sp), tiOutputs = listOr (spOutputs sp), tiAcceptance = spAcceptance sp,
         tiInput = spInput sp, tiTrigger = map_option ttEvent (dget (trTriggers tree) k),
         tiSummary = whenText (tkSummary r), tiFacts = tkFacts r, tiConditionIds = listOr (tkConditionIds r),
         tiUpdatedAt = tkUpdatedAt r,
         tiAttemptCount = length (filter (\<lambda>a. atTaskId a = k \<and> atRuntimeId a \<noteq> ''retired:task-receipt'')
           (dvals (trAttempts tree))),
         tiActiveAttempt = activeAttemptOf tree r\<rparr>\<rparr>)"

datatype integrity_code = MissingParent | MissingDependency | MissingCondition | WaitingWithoutCondition
  | RunningWithoutAttempt | GenerationInversion

record integrity_finding =
  ifCode :: integrity_code
  ifTaskId :: string
  ifRelatedIds :: "string list"
  ifMessage :: string

definition parentFindings :: "(string, projection_item) dict \<Rightarrow> projection_item \<Rightarrow> integrity_finding list" where
  "parentFindings tasks item =
     (case piParentId item of
        Some p \<Rightarrow> if p \<noteq> [] \<and> dget tasks p = None
          then [\<lparr>ifCode = MissingParent, ifTaskId = piId item, ifRelatedIds = [p],
                 ifMessage = ''Parent '' @ p @ '' is missing''\<rparr>] else []
      | None \<Rightarrow> [])"

definition taskFindings ::
  "task_tree \<Rightarrow> string list \<Rightarrow> (string, projection_item) dict \<Rightarrow> string \<Rightarrow> task_item \<Rightarrow> integrity_finding list" where
  "taskFindings tree satisfied tasks k t =
     (let missingDependencies = filter (\<lambda>d. dget tasks d = None \<and> d \<notin> set satisfied) (tiDependsOn t);
          missingConditions = filter (\<lambda>c. dget (trConditions tree) c = None) (tiConditionIds t) in
      (if tiGeneration t < tiObservedGeneration t
       then [\<lparr>ifCode = GenerationInversion, ifTaskId = k, ifRelatedIds = [],
              ifMessage = ''Observed generation '' @ show_nat (tiObservedGeneration t) @
                '' exceeds desired generation '' @ show_nat (tiGeneration t)\<rparr>] else []) @
      (if missingDependencies \<noteq> []
       then [\<lparr>ifCode = MissingDependency, ifTaskId = k, ifRelatedIds = missingDependencies,
              ifMessage = ''Dependencies are missing: '' @ intersperse '', '' missingDependencies\<rparr>] else []) @
      (if tiPhase t = PhRunning \<and> tiActiveAttempt t = None
       then [\<lparr>ifCode = RunningWithoutAttempt, ifTaskId = k, ifRelatedIds = [],
              ifMessage = ''Running task has no current attempt''\<rparr>] else []) @
      (if tiPhase t = PhWaiting \<and> tiConditionIds t = []
       then [\<lparr>ifCode = WaitingWithoutCondition, ifTaskId = k, ifRelatedIds = [],
              ifMessage = ''Waiting task has no linked Condition''\<rparr>] else []) @
      (if missingConditions \<noteq> []
       then [\<lparr>ifCode = MissingCondition, ifTaskId = k, ifRelatedIds = missingConditions,
              ifMessage = ''Conditions are missing: '' @ intersperse '', '' missingConditions\<rparr>] else []))"

record task_tree_projection =
  tpProject :: "string option"
  tpLifecycle :: "string option"
  tpRootTaskId :: "string option"
  tpUpdatedAt :: "int option"
  tpMaxConcurrent :: int
  tpActiveTaskIds :: "string list"
  tpConditions :: "(string, task_condition) dict"
  tpSatisfiedDependencyIds :: "string list"
  tpIntegrity :: "integrity_finding list"
  tpTasks :: "(string, projection_item) dict"

definition projectedItems :: "task_tree \<Rightarrow> jsnum \<Rightarrow> (string, projection_item) dict" where
  "projectedItems tree maxConcurrent =
     (let childrenById = projectedTaskChildren (trGroups tree) (trResources tree);
          readinessById = appTaskReadinessById tree maxConcurrent
      in fromEntries (map (\<lambda>(k, g). (k, groupItem childrenById k g)) (trGroups tree) @
           map (\<lambda>(k, r). (k, taskItem tree readinessById childrenById k r)) (trResources tree)))"

definition integrityFindings :: "task_tree \<Rightarrow> string list \<Rightarrow> (string, projection_item) dict \<Rightarrow> integrity_finding list" where
  "integrityFindings tree satisfied tasks =
     concat (map (\<lambda>item. parentFindings tasks item @
       (case piTask item of None \<Rightarrow> [] | Some t \<Rightarrow> taskFindings tree satisfied tasks (piId item) t)) (dvals tasks))"

definition buildAppTaskTreeProjection :: "task_tree \<Rightarrow> jsnum \<Rightarrow> task_tree_projection" where
  "buildAppTaskTreeProjection tree configuredMaxConcurrent =
     (let maxConcurrent = effectiveConcurrency configuredMaxConcurrent;
          satisfiedIds = satisfiedDependencyIds tree;
          tasks = projectedItems tree (num_int maxConcurrent)
      in \<lparr>tpProject = whenText (trProject tree), tpLifecycle = whenText (trLifecycle tree),
          tpRootTaskId = whenText (trRootTaskId tree), tpUpdatedAt = trUpdatedAt tree,
          tpMaxConcurrent = maxConcurrent, tpActiveTaskIds = sort (map tkId (activeResources tree)),
          tpConditions = trConditions tree, tpSatisfiedDependencyIds = satisfiedIds,
          tpIntegrity = integrityFindings tree satisfiedIds tasks, tpTasks = tasks\<rparr>)"

section \<open>What the projection says\<close>

lemma dget_fromEntries: "dget (fromEntries es) k = dget (rev es) k"
proof -
  have "dget (foldl (\<lambda>d (k, v). dset d k v) d es) k = (case dget (rev es) k of Some v \<Rightarrow> Some v | None \<Rightarrow> dget d k)" for d
    by (induction es arbitrary: d) (auto split: option.splits)
  then show ?thesis by (auto simp: fromEntries_def split: option.splits)
qed

lemma dict_wf_fromEntries: "dict_wf (fromEntries es)"
  unfolding fromEntries_def by (rule foldl_invariant) auto

lemma dget_rev: "dict_wf d \<Longrightarrow> dget (rev d) k = dget d k"
proof (cases "dget d k")
  case None
  then have "dget (rev d) k = None" by (simp add: dget_None_iff dkeys_def)
  with None show ?thesis by simp
next
  case (Some v)
  moreover assume "dict_wf d"
  ultimately show ?thesis
    using dict_wf_dget [of "rev d" k v] dget_Some_in [OF Some] by (simp add: dict_wf_def rev_map [symmetric])
qed

lemma set_dvals: "dict_wf d \<Longrightarrow> v \<in> set (dvals d) \<longleftrightarrow> (\<exists>k. dget d k = Some v)"
  by (force simp: dvals_def dest: dget_Some_in dict_wf_dget)

lemma dict_wf_map: "dict_wf (map (\<lambda>(k, v). (k, f k v)) d) \<longleftrightarrow> dict_wf d"
  by (simp add: dict_wf_def case_prod_beta' comp_def)

text \<open>The trees the store hands out: one entry per id, filed under the Task's own id.\<close>

definition tree_filed :: "task_tree \<Rightarrow> bool" where
  "tree_filed tree \<longleftrightarrow> dict_wf (trResources tree) \<and> dict_wf (trGroups tree) \<and>
     list_all (\<lambda>(k, r). tkId r = k) (trResources tree)"

lemma tree_filedD: "tree_filed tree \<Longrightarrow> dget (trResources tree) k = Some r \<Longrightarrow> tkId r = k"
  using dget_Some_in [of "trResources tree" k r] by (auto simp: tree_filed_def list_all_iff)

lemma satisfiedDependencyIds_iff:
  assumes "dget (trResources tree) k = Some r" "d \<in> set (listOr (spDependsOn (tkSpec r)))"
  shows "d \<in> set (satisfiedDependencyIds tree) \<longleftrightarrow> dependencySatisfied tree d"
  using assms(2) dget_Some_val [OF assms(1)] by (auto simp: satisfiedDependencyIds_def)

lemma readinessById_get:
  assumes "tree_filed tree" "dget (trResources tree) k = Some r"
  shows "dget (appTaskReadinessById tree n) k =
    Some (appTaskReadiness tree r (satisfiedDependencyIds tree) (effectiveConcurrency n) (length (activeResources tree)))"
proof -
  let ?f = "\<lambda>r. appTaskReadiness tree r (satisfiedDependencyIds tree) (effectiveConcurrency n) (length (activeResources tree))"
  have "map (\<lambda>r. (tkId r, ?f r)) (dvals (trResources tree)) = map (\<lambda>(k, r). (k, ?f r)) (trResources tree)"
    using assms(1) by (auto simp: dvals_def tree_filed_def list_all_iff)
  then have "appTaskReadinessById tree n = fromEntries (map (\<lambda>(k, r). (k, ?f r)) (trResources tree))"
    by (simp add: appTaskReadinessById_def)
  moreover have "dict_wf (map (\<lambda>(k, r). (k, ?f r)) (trResources tree))"
    using assms(1) by (simp add: dict_wf_map tree_filed_def)
  ultimately show ?thesis using assms(2) by (simp add: dget_fromEntries dget_rev dget_map [of "\<lambda>_. ?f"])
qed

text \<open>
  C39. Operators see a Task of a stored tree as ready exactly when it is pending, or waiting with a
  satisfied linked Condition; the project is not paused; every dependency is a Task of the tree that
  has converged at its current generation; and fewer Tasks are running than the configured limit, or
  than one if the limit is not a positive integer.
\<close>

theorem readiness_exact:
  assumes "tree_filed tree" "dget (trResources tree) k = Some r"
  shows "map_option rdState (dget (appTaskReadinessById tree n) k) = Some Ready \<longleftrightarrow>
    (tkPhase r = PhPending \<or> tkPhase r = PhWaiting \<and>
       (\<exists>c \<in> set (listOr (tkConditionIds r)). map_option cnState (dget (trConditions tree) c) = Some CondTrue)) \<and>
    trLifecycle tree \<noteq> Some ''paused'' \<and>
    (\<forall>d \<in> set (listOr (spDependsOn (tkSpec r))). \<exists>p. dget (trResources tree) d = Some p \<and>
       tkPhase p = PhConverged \<and> tkObservedGeneration p = tkGeneration p) \<and>
    int (length (filter (\<lambda>r. tkPhase r = PhRunning) (dvals (trResources tree)))) <
      (if is_integer n \<and> 0 < to_int n then to_int n else 1)"
proof -
  have sat: "dependencySatisfied tree d \<longleftrightarrow> (\<exists>p. dget (trResources tree) d = Some p \<and>
      tkPhase p = PhConverged \<and> tkObservedGeneration p = tkGeneration p)" for d
    by (simp add: dependencySatisfied_def split: option.split)
  have unmet: "filter (\<lambda>d. d \<notin> set (satisfiedDependencyIds tree)) (listOr (spDependsOn (tkSpec r))) = [] \<longleftrightarrow>
    (\<forall>d \<in> set (listOr (spDependsOn (tkSpec r))). dependencySatisfied tree d)"
    by (simp add: filter_empty_conv satisfiedDependencyIds_iff [OF assms(2)])
  have woke: "filter (\<lambda>c. case dget (trConditions tree) c of Some cond \<Rightarrow> cnState cond = CondTrue | None \<Rightarrow> False)
      (listOr (tkConditionIds r)) = [] \<longleftrightarrow>
    \<not> (\<exists>c \<in> set (listOr (tkConditionIds r)). map_option cnState (dget (trConditions tree) c) = Some CondTrue)"
    by (auto simp: filter_empty_conv split: option.splits)
  show ?thesis
    unfolding readinessById_get [OF assms] appTaskReadiness_def Let_def option.map if_distrib [of rdState] unmet woke
      activeResources_def sat [symmetric] effectiveConcurrency_def [symmetric]
    by auto
qed

definition projectionDemo :: task_tree where
  "projectionDemo = emptyTree\<lparr>
     trGroups := [(''root'', \<lparr>grId = ''root'', grParentId = Some None, grOwner = Some ''lead''\<rparr>)],
     trResources := [(''a'', (blankTask ''a'')\<lparr>tkPhase := PhConverged, tkObservedGeneration := 1\<rparr>),
       (''b'', (blankTask ''b'')\<lparr>tkSpec := blankSpec\<lparr>spDependsOn := Some [''a'']\<rparr>\<rparr>)]\<rparr>"

theorem readiness_exact_witness:
  "map_option rdState (dget (appTaskReadinessById projectionDemo (num_int 2)) ''b'') = Some Ready"
  by (subst readiness_exact [where r = "(blankTask ''b'')\<lparr>tkSpec := blankSpec\<lparr>spDependsOn := Some [''a'']\<rparr>\<rparr>"])
    (simp_all add: projectionDemo_def tree_filed_def emptyTree_def blankTask_def dvals_def
      num_int_def dict_wf_def blankSpec_def)

text \<open>Integrity: what an empty list of findings certifies.\<close>

definition entryExists :: "task_tree \<Rightarrow> string \<Rightarrow> bool" where
  "entryExists tree k \<longleftrightarrow> dget (trResources tree) k \<noteq> None \<or> dget (trGroups tree) k \<noteq> None"

definition task_sound :: "task_tree \<Rightarrow> task_resource \<Rightarrow> bool" where
  "task_sound tree r \<longleftrightarrow>
     (spParentId (tkSpec r) \<noteq> [] \<longrightarrow> entryExists tree (spParentId (tkSpec r))) \<and>
     tkObservedGeneration r \<le> tkGeneration r \<and>
     (\<forall>d \<in> set (listOr (spDependsOn (tkSpec r))). entryExists tree d) \<and>
     (tkPhase r = PhRunning \<longrightarrow>
        (\<exists>i a. tkCurrentAttemptId r = Some i \<and> i \<noteq> [] \<and> dget (trAttempts tree) i = Some a)) \<and>
     (tkPhase r = PhWaiting \<longrightarrow> listOr (tkConditionIds r) \<noteq> []) \<and>
     (\<forall>c \<in> set (listOr (tkConditionIds r)). dget (trConditions tree) c \<noteq> None)"

lemma projectedItems_get:
  assumes "tree_filed tree"
  shows "dget (projectedItems tree n) k =
    (case dget (trResources tree) k of
       Some r \<Rightarrow> Some (taskItem tree (appTaskReadinessById tree n)
         (projectedTaskChildren (trGroups tree) (trResources tree)) k r)
     | None \<Rightarrow> map_option (groupItem (projectedTaskChildren (trGroups tree) (trResources tree)) k) (dget (trGroups tree) k))"
  using assms
  by (simp add: projectedItems_def Let_def dget_fromEntries dget_rev dict_wf_map tree_filed_def dget_map split: option.splits)

lemma projectedItems_exists: "tree_filed tree \<Longrightarrow> dget (projectedItems tree n) k = None \<longleftrightarrow> \<not> entryExists tree k"
  by (simp add: projectedItems_get entryExists_def split: option.splits)

lemma dependency_missing:
  assumes "tree_filed tree" "dget (trResources tree) k = Some r" "d \<in> set (listOr (spDependsOn (tkSpec r)))"
  shows "dget (projectedItems tree n) d = None \<and> d \<notin> set (satisfiedDependencyIds tree) \<longleftrightarrow> \<not> entryExists tree d"
  using satisfiedDependencyIds_iff [OF assms(2,3)]
  by (auto simp: projectedItems_exists [OF assms(1)] dependencySatisfied_def entryExists_def split: option.splits)

lemma task_findings_none:
  assumes "tree_filed tree" "dget (trResources tree) k = Some r"
    and item: "item = taskItem tree rd ch k r"
  shows "parentFindings (projectedItems tree n) item @
      taskFindings tree (satisfiedDependencyIds tree) (projectedItems tree n) k (the (piTask item)) = [] \<longleftrightarrow> task_sound tree r"
proof -
  have "filter (\<lambda>d. dget (projectedItems tree n) d = None \<and> d \<notin> set (satisfiedDependencyIds tree))
      (listOr (spDependsOn (tkSpec r))) = [] \<longleftrightarrow> (\<forall>d \<in> set (listOr (spDependsOn (tkSpec r))). entryExists tree d)"
    using dependency_missing [OF assms(1,2)] by (auto simp: filter_empty_conv)
  moreover have "activeAttemptOf tree r = None \<longleftrightarrow>
      \<not> (\<exists>i a. tkCurrentAttemptId r = Some i \<and> i \<noteq> [] \<and> dget (trAttempts tree) i = Some a)"
    by (auto simp: activeAttemptOf_def whenText_def split: option.splits)
  ultimately show ?thesis
    by (auto simp: item taskItem_def Let_def parentFindings_def taskFindings_def task_sound_def
        projectedItems_exists [OF assms(1)] filter_empty_conv not_less)
qed

text \<open>
  C40. An operator's projection reports no integrity finding exactly when the tree is sound: every
  Task has an existing parent and existing dependencies, has not observed a later generation than
  it has, runs only with its attempt on record, waits only on linked Conditions, all of which exist;
  and every group that no Task hides has an existing parent.
\<close>

theorem integrity_exact:
  assumes "tree_filed tree"
  shows "tpIntegrity (buildAppTaskTreeProjection tree n) = [] \<longleftrightarrow>
    (\<forall>k r. dget (trResources tree) k = Some r \<longrightarrow> task_sound tree r) \<and>
    (\<forall>k g p. dget (trGroups tree) k = Some g \<and> dget (trResources tree) k = None \<and>
       grParentId g = Some (Some p) \<and> p \<noteq> [] \<longrightarrow> entryExists tree p)"
proof -
  define c where "c = num_int (effectiveConcurrency n)"
  let ?tasks = "projectedItems tree c"
  define F where "F item = parentFindings ?tasks item @ (case piTask item of None \<Rightarrow> []
    | Some t \<Rightarrow> taskFindings tree (satisfiedDependencyIds tree) ?tasks (piId item) t)" for item
  let ?ch = "projectedTaskChildren (trGroups tree) (trResources tree)"
  have wf: "dict_wf ?tasks" by (simp add: projectedItems_def Let_def dict_wf_fromEntries)
  have "tpIntegrity (buildAppTaskTreeProjection tree n) = [] \<longleftrightarrow> (\<forall>k item. dget ?tasks k = Some item \<longrightarrow> F item = [])"
    using set_dvals [OF wf]
    unfolding buildAppTaskTreeProjection_def Let_def integrityFindings_def c_def [symmetric] F_def [symmetric] by auto
  also have "\<dots> \<longleftrightarrow>
      (\<forall>k r. dget (trResources tree) k = Some r \<longrightarrow> F (taskItem tree (appTaskReadinessById tree c) ?ch k r) = []) \<and>
      (\<forall>k g. dget (trGroups tree) k = Some g \<longrightarrow> dget (trResources tree) k = None \<longrightarrow> F (groupItem ?ch k g) = [])"
    by (auto simp: projectedItems_get [OF assms] split: option.splits)
  finally have eq: "tpIntegrity (buildAppTaskTreeProjection tree n) = [] \<longleftrightarrow> \<dots>" .
  have task: "F (taskItem tree rd ch k r) = [] \<longleftrightarrow> task_sound tree r" if "dget (trResources tree) k = Some r" for k r rd ch
    using task_findings_none [OF assms that refl, of c rd ch] by (simp add: taskItem_def Let_def F_def)
  have group: "F (groupItem ch k g) = [] \<longleftrightarrow> (\<forall>p. grParentId g = Some (Some p) \<and> p \<noteq> [] \<longrightarrow> entryExists tree p)" for k g ch
    by (auto simp: groupItem_def parentFindings_def projectedItems_exists [OF assms] F_def split: option.splits)
  show ?thesis unfolding eq by (auto simp: task group)
qed

theorem integrity_exact_witness: "tpIntegrity (buildAppTaskTreeProjection projectionDemo (num_int 2)) = []"
proof (subst integrity_exact)
  show "tree_filed projectionDemo" by (simp add: projectionDemo_def tree_filed_def emptyTree_def blankTask_def dict_wf_def)
  show "(\<forall>k r. dget (trResources projectionDemo) k = Some r \<longrightarrow> task_sound projectionDemo r) \<and>
    (\<forall>k g p. dget (trGroups projectionDemo) k = Some g \<and> dget (trResources projectionDemo) k = None \<and>
       grParentId g = Some (Some p) \<and> p \<noteq> [] \<longrightarrow> entryExists projectionDemo p)"
    by (auto simp: projectionDemo_def emptyTree_def blankTask_def blankSpec_def task_sound_def entryExists_def)
qed

end
