(* ===== verification/Task_Reconcile.thy ===== *)
theory Task_Reconcile
  imports Task_Events Task_Projection Resource_Store
begin

text \<open>
  The shared vocabulary of the Task reconciler (\<open>core/tasks/app-task-reconciler.ts\<close>): desired work and
  its identity, attempts and their leases, the bookkeeping of results and of the inputs they answer,
  the Conditions a Task is linked to, and the mutation scope every operation commits through.

  An operation reads a bounded \<open>TaskTree\<close>, changes it in place and commits the rows it names. Here a
  change in place is a function on the tree; a resource or attempt the source holds by reference is
  named by its id. One operation reads the clock once (\<open>now\<close>).
\<close>

section \<open>Context\<close>

datatype failure_limit = Limit nat | Unlimited

record task_context =
  cxAppDir :: string
  cxProjectDir :: string
  cxAgent :: string
  cxMaxConcurrent :: jsnum
  cxMaxConsecutiveFailures :: "failure_limit option"

definition appTaskContext ::
  "string \<Rightarrow> string \<Rightarrow> string \<Rightarrow> jsnum \<Rightarrow> jsnum option option \<Rightarrow> task_context result" where
  "appTaskContext appDir projectDir agentInput maxConcurrent maxFailures =
     (if trim agentInput = [] then Inl ''Task reconciliation requires a default agent''
      else if (case maxFailures of Some (Some n) \<Rightarrow> \<not> is_safe_integer n \<or> to_int n \<le> 0 | _ \<Rightarrow> False)
      then Inl ''Task maxConsecutiveFailures must be a positive safe integer or unlimited''
      else Inr \<lparr>cxAppDir = appDir, cxProjectDir = projectDir, cxAgent = trim agentInput,
        cxMaxConcurrent = maxConcurrent,
        cxMaxConsecutiveFailures = (case maxFailures of
            None \<Rightarrow> None | Some None \<Rightarrow> Some Unlimited | Some (Some n) \<Rightarrow> Some (Limit (nat (to_int n))))\<rparr>)"

definition DEFAULT_MAX_CONSECUTIVE_FAILURES :: nat where
  "DEFAULT_MAX_CONSECUTIVE_FAILURES = 3"

definition failureLimit :: "task_context \<Rightarrow> failure_limit" where
  "failureLimit cx = (case cxMaxConsecutiveFailures cx of Some l \<Rightarrow> l | None \<Rightarrow> Limit DEFAULT_MAX_CONSECUTIVE_FAILURES)"

text \<open>Committing through \<open>commitTaskMutation\<close>: a rejected commit throws.\<close>

definition staleFence :: error where
  "staleFence = ''Resource-backed task mutation was rejected by a stale fence''"

definition commitTaskMutation :: "int \<Rightarrow> task_mutation \<Rightarrow> task_store \<Rightarrow> task_store result" where
  "commitTaskMutation now m st =
     rbind (commit now m st) (\<lambda>(ok, st'). if ok then Inr st' else Inl staleFence)"

section \<open>Handlers and leases\<close>

definition managedAgentHandler :: "string \<Rightarrow> string" where
  "managedAgentHandler agent = ''agent:'' @ agent"

definition isManagedAgentHandler :: "string \<Rightarrow> string option \<Rightarrow> bool" where
  "isManagedAgentHandler handler agent =
     (case whenText agent of
        Some a \<Rightarrow> handler = managedAgentHandler a \<or> handler = ''owner:'' @ a
      | None \<Rightarrow> starts_with handler ''agent:'' \<or> starts_with handler ''owner:'')"

definition APP_TASK_ATTEMPT_LEASE_DURATION_MS :: int where
  "APP_TASK_ATTEMPT_LEASE_DURATION_MS = 15 * 60000"

text \<open>The activity time a lease records: within \<open>[0, now + 1s]\<close>, and its expiry.\<close>

definition boundedLeaseTimes :: "jsnum \<Rightarrow> int \<Rightarrow> int \<times> int" where
  "boundedLeaseTimes nowMs now =
     (let activity = (if is_finite nowMs then max 0 (min (to_int nowMs) (now + 1000)) else now)
      in (activity, activity + APP_TASK_ATTEMPT_LEASE_DURATION_MS))"

record session_activity =
  saSessionId :: string
  saLastActivityAt :: "jsnum option"

definition leaseIsFresh :: "task_attempt \<Rightarrow> int \<Rightarrow> session_activity option \<Rightarrow> bool" where
  "leaseIsFresh a nowMs activity =
     (case atLease a of
        None \<Rightarrow> False
      | Some l \<Rightarrow>
          if leRuntimeId l \<noteq> atRuntimeId a \<or> leSessionId l \<noteq> atSessionId a then False
          else if (case isoMillis (leExpiresAt l) of Some e \<Rightarrow> nowMs < e | None \<Rightarrow> False) then True
          else case (whenText (atSessionId a), activity) of
              (Some sid, Some sa) \<Rightarrow>
                (case saLastActivityAt sa of
                   Some n \<Rightarrow> saSessionId sa = sid \<and> is_finite n \<and>
                     of_int nowMs < max 0 (min (finVal n) (of_int (nowMs + 1000))) + of_int APP_TASK_ATTEMPT_LEASE_DURATION_MS
                 | None \<Rightarrow> False)
            | _ \<Rightarrow> False)"

section \<open>Desired work\<close>

definition optStr :: "string option \<Rightarrow> js" where
  "optStr v = (case v of Some s \<Rightarrow> JStr s | None \<Rightarrow> JNull)"

text \<open>The identity of desired work: a hash of its canonical JSON text, kept as the canonical value.\<close>

definition taskSpecHash :: "task_spec \<Rightarrow> string option \<Rightarrow> string option \<Rightarrow> spec_hash" where
  "taskSpecHash sp effectiveAgent legacyMode =
     jsonCanon (JObj ([(''outcome'', JStr (spOutcome sp)), (''acceptance'', JArr (map JStr (spAcceptance sp)))] @
       (case whenText legacyMode of Some m \<Rightarrow> [(''mode'', JStr m)] | None \<Rightarrow> []) @
       [(''owner'', optStr (case effectiveAgent of Some a \<Rightarrow> Some a | None \<Rightarrow> spOwner sp)),
        (''workflow'', optStr (spWorkflow sp)),
        (''executor'', JStr (case spExecutor sp of Some e \<Rightarrow> e | None \<Rightarrow> ''agent'')),
        (''input'', JObj (case spInput sp of Some i \<Rightarrow> i | None \<Rightarrow> [])),
        (''outputs'', JArr (map JStr (listOr (spOutputs sp)))),
        (''dependsOn'', JArr (map JStr (listOr (spDependsOn sp))))]))"

definition appTaskSpecHash :: "task_spec \<Rightarrow> string option \<Rightarrow> spec_hash" where
  "appTaskSpecHash sp effectiveAgent = taskSpecHash sp effectiveAgent None"

definition matchesAppTaskSpecHash :: "task_spec \<Rightarrow> string \<Rightarrow> spec_hash \<Rightarrow> bool" where
  "matchesAppTaskSpecHash sp effectiveAgent hash =
     list_ex (\<lambda>mode. taskSpecHash sp (Some effectiveAgent) mode = hash) [None, Some ''achieve'', Some ''maintain'']"

definition canonInput :: "js_record \<Rightarrow> js_record" where
  "canonInput i = recordOf (jsonCanon (JObj i))"

definition resourceSpec :: "task_spec \<Rightarrow> task_spec" where
  "resourceSpec sp = \<lparr>spParentId = spParentId sp, spOutcome = spOutcome sp, spAcceptance = spAcceptance sp,
     spAgent = None, spOwner = trimmed (spOwner sp), spWorkflow = trimmed (spWorkflow sp),
     spExecutor = whenText (spExecutor sp), spInput = map_option canonInput (spInput sp),
     spOutputs = spOutputs sp, spDependsOn = spDependsOn sp, spPriority = spPriority sp,
     spCategory = trimmed (spCategory sp)\<rparr>"

definition resourceIntent :: "task_resource \<Rightarrow> task_intent" where
  "resourceIntent r =
     (let sp = tkSpec r in
      \<lparr>inId = tkId r, inSpec = \<lparr>spParentId = spParentId sp, spOutcome = spOutcome sp,
         spAcceptance = spAcceptance sp, spAgent = None, spOwner = whenText (spOwner sp),
         spWorkflow = whenText (spWorkflow sp), spExecutor = whenText (spExecutor sp), spInput = spInput sp,
         spOutputs = spOutputs sp, spDependsOn = spDependsOn sp, spPriority = spPriority sp,
         spCategory = whenText (spCategory sp)\<rparr>\<rparr>)"

text \<open>The comparison \<open>JSON.stringify(stableValue(a)) === JSON.stringify(stableValue(b))\<close> of two specs.\<close>

definition specValue :: "task_spec \<Rightarrow> task_spec" where
  "specValue sp = sp\<lparr>spInput := map_option canonInput (spInput sp)\<rparr>"

section \<open>Attempts\<close>

definition putResource :: "task_resource \<Rightarrow> task_tree \<Rightarrow> task_tree" where
  "putResource r tree = tree\<lparr>trResources := dset (trResources tree) (tkId r) r\<rparr>"

definition updResource :: "string \<Rightarrow> (task_resource \<Rightarrow> task_resource) \<Rightarrow> task_tree \<Rightarrow> task_tree" where
  "updResource k f tree =
     (case dget (trResources tree) k of
        None \<Rightarrow> tree
      | Some r \<Rightarrow> tree\<lparr>trResources := dset (trResources tree) k (f r)\<rparr>)"

definition updAttempt :: "string \<Rightarrow> (task_attempt \<Rightarrow> task_attempt) \<Rightarrow> task_tree \<Rightarrow> task_tree" where
  "updAttempt k f tree =
     (case dget (trAttempts tree) k of
        None \<Rightarrow> tree
      | Some a \<Rightarrow> tree\<lparr>trAttempts := dset (trAttempts tree) k (f a)\<rparr>)"

definition currentResourceAttempt :: "task_tree \<Rightarrow> task_resource \<Rightarrow> task_attempt option result" where
  "currentResourceAttempt tree r =
     (case whenText (tkCurrentAttemptId r) of
        None \<Rightarrow> Inr None
      | Some i \<Rightarrow>
          (case dget (trAttempts tree) i of
             None \<Rightarrow> Inr None
           | Some a \<Rightarrow>
               if atTaskId a \<noteq> tkId r
               then Inl (''Task '' @ tkId r @ '' current attempt '' @ i @ '' belongs to '' @ atTaskId a @
                 ''; refusing cross-Task recovery'')
               else Inr (if atState a = ARunning then Some a else None)))"

definition latestTaskAttempt :: "task_tree \<Rightarrow> string \<Rightarrow> nat option \<Rightarrow> task_attempt option" where
  "latestTaskAttempt tree taskId generation =
     (case sort_key (\<lambda>a. - atStartedAt a) (filter (\<lambda>a. atTaskId a = taskId \<and>
         (case generation of None \<Rightarrow> True | Some g \<Rightarrow> atTaskGeneration a = g)) (dvals (trAttempts tree))) of
        [] \<Rightarrow> None
      | a # _ \<Rightarrow> Some a)"

record previous_attempt =
  paAttemptId :: string
  paGeneration :: nat
  paState :: attempt_state
  paSummary :: "string option"
  paFailureReason :: "string option"
  paSessionId :: "string option"
  paWorkspacePath :: "string option"
  paUnacceptedResult :: "unaccepted_result option"
  paAcceptedResult :: "accepted_result option"

text \<open>The accepted result is shown without its report flag, basis and live events.\<close>

definition previousAttemptFacts :: "task_attempt \<Rightarrow> previous_attempt" where
  "previousAttemptFacts a =
     \<lparr>paAttemptId = atId a, paGeneration = atTaskGeneration a, paState = atState a,
      paSummary = whenText (atSummary a), paFailureReason = whenText (atFailureReason a),
      paSessionId = whenText (atSessionId a), paWorkspacePath = map_option wsPath (atWorkspace a),
      paUnacceptedResult = atUnacceptedResult a,
      paAcceptedResult = map_option (\<lambda>r. r\<lparr>arReport := False, arAcceptanceBasis := None,
        arAcceptedLiveEventIds := None, arResponse := whenText (arResponse r)\<rparr>) (atAcceptedResult a)\<rparr>"

definition hasLegacyWorkflowHandoff :: "task_tree \<Rightarrow> task_resource \<Rightarrow> bool" where
  "hasLegacyWorkflowHandoff tree r \<longleftrightarrow> tkPhase r = PhAttention \<and>
     (case latestTaskAttempt tree (tkId r) (Some (tkGeneration r)) of
        None \<Rightarrow> False
      | Some a \<Rightarrow> starts_with (atHandler a) ''workflow:'' \<and>
          (atFailureReason a = Some ''needs-agent'' \<or> atFailureReason a = Some ''needs-owner''))"

text \<open>
  \<open>touchResource\<close> merges a partial status, here a function on the resource. A Task whose automatic
  allowance is exhausted does not become pending by losing its attempt.
\<close>

definition settlePhase :: "task_resource \<Rightarrow> task_resource" where
  "settlePhase r =
     (if tkRetryExhausted r \<noteq> None \<and> tkPhase r = PhPending \<and> whenText (tkCurrentAttemptId r) = None
      then r\<lparr>tkPhase := PhAttention\<rparr> else r)"

definition touchResource :: "int \<Rightarrow> (task_resource \<Rightarrow> task_resource) \<Rightarrow> task_resource \<Rightarrow> task_resource" where
  "touchResource now status r =
     settlePhase ((status r)\<lparr>tkVersion := tkVersion r + 1, tkUpdatedAt := now\<rparr>)"

definition settledAttempt :: "attempt_state \<Rightarrow> string \<Rightarrow> int \<Rightarrow> task_attempt \<Rightarrow> task_attempt" where
  "settledAttempt state summary now a =
     a\<lparr>atVersion := atVersion a + 1, atState := state, atFinishedAt := Some now, atSummary := Some summary,
       atUnacceptedResult := (if state = ACompleted \<and> atAcceptedResult a \<noteq> None then None else atUnacceptedResult a)\<rparr>"

definition clearFailures :: "task_resource \<Rightarrow> task_resource" where
  "clearFailures r = r\<lparr>tkExecutionFailures := None, tkExecutionFailureAttemptId := Some None,
     tkExecutionRetryAt := None, tkRetryExhausted := None\<rparr>"

definition finishAttempt :: "string \<Rightarrow> attempt_state \<Rightarrow> string \<Rightarrow> int \<Rightarrow> task_tree \<Rightarrow> task_tree" where
  "finishAttempt taskId state summary now tree =
     (case Option.bind (dget (trResources tree) taskId) (\<lambda>r. whenText (tkCurrentAttemptId r)) of
        Some i \<Rightarrow>
          (case dget (trAttempts tree) i of
             Some a \<Rightarrow> updResource taskId (\<lambda>r. (if state = ACompleted then clearFailures r else r)\<lparr>tkCurrentAttemptId := None\<rparr>)
               (updAttempt i (settledAttempt state summary now) tree)
           | None \<Rightarrow> updResource taskId (\<lambda>r. r\<lparr>tkCurrentAttemptId := None\<rparr>) tree)
      | None \<Rightarrow> updResource taskId (\<lambda>r. r\<lparr>tkCurrentAttemptId := None\<rparr>) tree)"

section \<open>Results and the inputs they answer\<close>

record result_input =
  riSummary :: string
  riResponse :: "string option"
  riResult :: "js_record option"
  riReviewAt :: "int option"
  riFacts :: "string list option"
  riAcceptedLiveEventIds :: "int list option"
  riInputKeys :: "string list option"
  riReport :: bool

definition acceptedAttemptResult ::
  "task_tree \<Rightarrow> string \<Rightarrow> result_state \<Rightarrow> result_input \<Rightarrow> acceptance_basis \<Rightarrow> accepted_result" where
  "acceptedAttemptResult tree taskId state input basis =
     (let acceptedIds = listOr (riAcceptedLiveEventIds input);
          covered = listOr (riInputKeys input);
          live = uniq (List.map_filter (\<lambda>e. case eventKey (teEvent e) of
              None \<Rightarrow> None
            | Some i \<Rightarrow> if i \<in> set acceptedIds \<or> list_ex (\<lambda>key. key \<in> set covered) (taskInputAdmissionKeys [e] [])
                then Some i else None)
            (case dget (trTriggers tree) taskId of None \<Rightarrow> [] | Some t \<Rightarrow> taskTriggerEvents t))
      in \<lparr>arState = state, arReviewAt = riReviewAt input, arContinue = False, arReport = False,
          arSummary = riSummary input, arResponse = riResponse input, arResult = riResult input,
          arFacts = listOr (riFacts input), arAcceptanceBasis = Some basis,
          arAcceptedLiveEventIds = (if live = [] then None else Some live), arInputKeys = riInputKeys input\<rparr>)"

text \<open>The identity of a claim that its results are checked against.\<close>

record claim_ref =
  cfTaskId :: string
  cfAttemptId :: string
  cfGeneration :: nat

definition readAdmission :: "task_store \<Rightarrow> string \<Rightarrow> task_admission option" where
  "readAdmission st key = (if key = [] then None else dget (stAdmissions st) key)"

text \<open>An admitted input that the claim's Task still owes an answer.\<close>

definition outstanding :: "task_store \<Rightarrow> claim_ref \<Rightarrow> string \<Rightarrow> bool" where
  "outstanding st cf key =
     (case readAdmission st key of
        None \<Rightarrow> False
      | Some ad \<Rightarrow> adTaskId ad = cfTaskId cf \<and> adTaskGeneration ad \<le> cfGeneration cf \<and>
          whenText (adResultAttemptId ad) = None)"

definition assignedInputKeys :: "task_tree \<Rightarrow> claim_ref \<Rightarrow> int list option \<Rightarrow> string list" where
  "assignedInputKeys tree cf acceptedLiveEventIds =
     (let attempt = dget (trAttempts tree) (cfAttemptId cf);
          live = filter (\<lambda>e. list_ex (\<lambda>i. js_Number (rget (teEvent e) ''eventId'') = num_int i) (listOr acceptedLiveEventIds))
            (case dget (trTriggers tree) (cfTaskId cf) of None \<Rightarrow> [] | Some t \<Rightarrow> taskTriggerEvents t)
      in taskInputAdmissionKeys
           ((case attempt of None \<Rightarrow> [] | Some a \<Rightarrow> listOr (atEvents a)) @ live)
           (case attempt of None \<Rightarrow> [] | Some a \<Rightarrow> listOr (atContinuedInputKeys a)))"

definition resultInputKeys ::
  "task_store \<Rightarrow> task_tree \<Rightarrow> claim_ref \<Rightarrow> int list option \<Rightarrow> string list option \<Rightarrow> string list result" where
  "resultInputKeys st tree cf acceptedLiveEventIds inputKeys =
     (case inputKeys of
        None \<Rightarrow> Inr (assignedInputKeys tree cf acceptedLiveEventIds)
      | Some keys \<Rightarrow>
          if 64 < length keys \<or> list_ex (\<lambda>key. trim key = []) keys
          then Inl ''inputKeys must contain at most 64 non-empty exact keys''
          else case find (\<lambda>key. \<not> outstanding st cf key) keys of
              Some key \<Rightarrow> Inl (''inputKeys contains input not outstanding on this Task: '' @ key)
            | None \<Rightarrow> Inr (uniq keys))"

datatype attempt_report = Reported accepted_result | ExecutionError string "string list"

definition exhaustionPrefix :: "task_attempt \<Rightarrow> string" where
  "exhaustionPrefix a =
     (case atRetryExhausted a of
        None \<Rightarrow> []
      | Some e \<Rightarrow> ''Automatic retries exhausted after '' @ show_nat (reFailures e) @
          '' unsuccessful attempts (limit '' @ show_nat (reLimit e) @
          ''); owner repair or explicit retry required. '')"

definition appTaskAttemptReport :: "task_attempt \<Rightarrow> attempt_report option" where
  "appTaskAttemptReport a =
     (case atAcceptedResult a of
        Some r \<Rightarrow>
          if arState r = RIncomplete \<or> arState r = RWaiting \<and> arReport r
          then Some (Reported (r\<lparr>arSummary := exhaustionPrefix a @ arSummary r\<rparr>)) else None
      | None \<Rightarrow>
          if atState a = AFailed
          then Some (ExecutionError (exhaustionPrefix a @ ''Execution failed before an accepted result: '' @
            take 1024 (case atSummary a of Some s \<Rightarrow> s | None \<Rightarrow>
              (case atFailureReason a of Some s \<Rightarrow> s | None \<Rightarrow> ''Unknown execution failure'')))
            [''task-attempt:'' @ atId a])
          else None)"

definition admissionFeedback :: "task_store \<Rightarrow> task_admission \<Rightarrow> (report_kind, feedback_entry) dict" where
  "admissionFeedback st ad =
     (case whenText (adReportAttemptId ad) of
        None \<Rightarrow> adFeedback ad
      | Some i \<Rightarrow>
          (case readAttempt st i of
             None \<Rightarrow> adFeedback ad
           | Some a \<Rightarrow>
               if appTaskAttemptReport a = None then adFeedback ad
               else
                 (let kind = (if map_option arState (atAcceptedResult a) = Some RWaiting then RProgress else RFailure)
                  in if dget (adFeedback ad) kind \<noteq> None then adFeedback ad
                     else dset (adFeedback ad) kind \<lparr>fbAttemptId = i,
                       fbRevision = (case adReportRevision ad of Some n \<Rightarrow> n | None \<Rightarrow> 1), fbLegacyBlocked = True\<rparr>)))"

datatype outcome_kind = KAnswer | KFeedback report_kind | KRetain

definition feedbackWrite ::
  "task_store \<Rightarrow> claim_ref \<Rightarrow> bool \<Rightarrow> report_kind \<Rightarrow> task_admission \<Rightarrow> task_admission option" where
  "feedbackWrite st cf report kind ad =
     (let feedback = admissionFeedback st ad;
          migrated = list_ex (\<lambda>e. Some (fbAttemptId e) = adReportAttemptId ad) (dvals feedback);
          revision = foldl max (case adReportRevision ad of Some n \<Rightarrow> n | None \<Rightarrow> 0) (map fbRevision (dvals feedback)) + 1
      in if dget feedback kind \<noteq> None \<and> \<not> report then None
         else Some (ad\<lparr>adFeedback := dset feedback kind
                \<lparr>fbAttemptId = cfAttemptId cf, fbRevision = revision, fbLegacyBlocked = False\<rparr>,
              adReportAttemptId := (if migrated then None else adReportAttemptId ad),
              adReportRevision := (if migrated then None else adReportRevision ad)\<rparr>))"

definition waitsOf :: "task_resource \<Rightarrow> (string, input_wait) dict" where
  "waitsOf r = (case tkInputWaits r of None \<Rightarrow> [] | Some ws \<Rightarrow> ws)"

text \<open>The wait of an input that stays pending: what it waited for is kept.\<close>

definition pendingWait :: "nat \<Rightarrow> task_resource \<Rightarrow> string \<Rightarrow> input_wait" where
  "pendingWait generation r key =
     (case dget (waitsOf r) key of
        Some w \<Rightarrow> w\<lparr>iwPending := True\<rparr>
      | None \<Rightarrow> \<lparr>iwTaskGeneration = generation, iwPending = True, iwConditions = [], iwReviewAt = None\<rparr>)"

definition retainPending :: "task_store \<Rightarrow> nat \<Rightarrow> task_resource \<Rightarrow> string \<Rightarrow> task_resource" where
  "retainPending st generation r key =
     retainTaskInputWait (readAdmission st) [key] (pendingWait generation r key) r"

definition dropWait :: "string \<Rightarrow> task_resource \<Rightarrow> task_resource" where
  "dropWait key r = r\<lparr>tkInputWaits := map_option (\<lambda>ws. ddel ws key) (tkInputWaits r)\<rparr>"

definition dropEmptyWaits :: "task_resource \<Rightarrow> task_resource" where
  "dropEmptyWaits r = (if tkInputWaits r = Some [] then r\<lparr>tkInputWaits := None\<rparr> else r)"

definition outcomeWrites ::
  "task_store \<Rightarrow> claim_ref \<Rightarrow> bool \<Rightarrow> outcome_kind \<Rightarrow> string list \<Rightarrow> (string \<times> task_admission) list" where
  "outcomeWrites st cf report kind keys =
     (case kind of
        KRetain \<Rightarrow> []
      | KFeedback fk \<Rightarrow> List.map_filter (\<lambda>key. if outstanding st cf key
          then Option.bind (readAdmission st key) (\<lambda>ad. map_option (\<lambda>v. (key, v)) (feedbackWrite st cf report fk ad))
          else None) keys
      | KAnswer \<Rightarrow> List.map_filter (\<lambda>key. if outstanding st cf key
          then map_option (\<lambda>ad. (key, ad\<lparr>adResultAttemptId := Some (cfAttemptId cf)\<rparr>)) (readAdmission st key)
          else None) keys)"

definition inputOutcomeAdmissions ::
  "task_store \<Rightarrow> claim_ref \<Rightarrow> result_input \<Rightarrow> outcome_kind \<Rightarrow> task_tree \<Rightarrow>
     (string list \<times> (string \<times> task_admission) list \<times> task_tree) result" where
  "inputOutcomeAdmissions st cf input kind tree =
     rbind (resultInputKeys st tree cf (riAcceptedLiveEventIds input) (riInputKeys input)) (\<lambda>keys.
       let assigned = assignedInputKeys tree cf (riAcceptedLiveEventIds input);
           retain = (\<lambda>r. foldl (\<lambda>r key. if dget (waitsOf r) key = None \<or> key \<notin> set keys
             then retainPending st (cfGeneration cf) r key else r) r assigned);
           writes = outcomeWrites st cf (riReport input) kind keys;
           settle = (\<lambda>r. if kind = KAnswer then foldl (\<lambda>r (key, _). dropWait key r) r writes else r)
       in Inr (keys, writes, updResource (cfTaskId cf) (\<lambda>r. dropEmptyWaits (settle (retain r))) tree))"

datatype outcome_request = AskAnswer | AskReport | AskFeedback report_kind

record admission_outcome =
  aoAttemptId :: string
  aoGeneration :: nat
  aoReportRevision :: "nat option"
  aoReportBlocked :: bool
  aoReport :: attempt_report

definition readAppTaskAdmissionOutcome ::
  "task_store \<Rightarrow> string \<Rightarrow> string \<Rightarrow> outcome_request \<Rightarrow> admission_outcome option" where
  "readAppTaskAdmissionOutcome st taskId key kind =
     (case readAdmission st key of
        None \<Rightarrow> None
      | Some ad \<Rightarrow>
          if adTaskId ad \<noteq> taskId then None
          else
            (let feedback = admissionFeedback st ad;
                 selected = (case kind of
                     AskAnswer \<Rightarrow> None
                   | AskReport \<Rightarrow> (case sort_key (\<lambda>e. - int (fbRevision e)) (dvals feedback) of [] \<Rightarrow> None | e # _ \<Rightarrow> Some e)
                   | AskFeedback k \<Rightarrow> dget feedback k);
                 attemptId = whenText (if kind = AskAnswer then adResultAttemptId ad else map_option fbAttemptId selected)
             in case Option.bind attemptId (readAttempt st) of
                  None \<Rightarrow> None
                | Some a \<Rightarrow>
                    if atTaskId a \<noteq> taskId \<or> atTaskGeneration a < adTaskGeneration ad then None
                    else
                      (let report = (if kind = AskAnswer
                             then (case atAcceptedResult a of
                                 Some r \<Rightarrow> if arState r = RConverged then Some (Reported r) else None
                               | None \<Rightarrow> None)
                             else appTaskAttemptReport a)
                       in map_option (\<lambda>rp. \<lparr>aoAttemptId = atId a, aoGeneration = atTaskGeneration a,
                            aoReportRevision = map_option fbRevision selected,
                            aoReportBlocked = (case selected of Some e \<Rightarrow> fbLegacyBlocked e | None \<Rightarrow> False),
                            aoReport = rp\<rparr>) report)))"

section \<open>Linked Conditions\<close>

definition taskConditionIds :: "task_tree \<Rightarrow> string \<Rightarrow> string list" where
  "taskConditionIds tree taskId =
     (case dget (trResources tree) taskId of None \<Rightarrow> [] | Some r \<Rightarrow> listOr (tkConditionIds r))"

definition taskConditionEntries :: "task_tree \<Rightarrow> string \<Rightarrow> (string \<times> task_condition) list" where
  "taskConditionEntries tree taskId =
     filter (\<lambda>(k, _). k \<in> set (taskConditionIds tree taskId)) (trConditions tree)"

definition openTaskConditionIds :: "task_tree \<Rightarrow> string \<Rightarrow> string list" where
  "openTaskConditionIds tree taskId =
     uniq (map fst (filter (\<lambda>(_, c). cnState c \<noteq> CondTrue) (taskConditionEntries tree taskId)))"

definition hasSatisfiedTaskCondition :: "task_tree \<Rightarrow> string \<Rightarrow> bool" where
  "hasSatisfiedTaskCondition tree taskId =
     list_ex (\<lambda>(_, c). cnState c = CondTrue) (taskConditionEntries tree taskId)"

definition linksCondition :: "string \<Rightarrow> task_resource \<Rightarrow> bool" where
  "linksCondition cid r \<longleftrightarrow> cid \<in> set (listOr (tkConditionIds r))"

definition pruneUnlinkedConditions :: "task_tree \<Rightarrow> task_tree" where
  "pruneUnlinkedConditions tree =
     tree\<lparr>trConditions := filter (\<lambda>(k, _). list_ex (linksCondition k) (dvals (trResources tree))) (trConditions tree)\<rparr>"

definition unlinkExactTaskCondition :: "int \<Rightarrow> string \<Rightarrow> string \<Rightarrow> task_tree \<Rightarrow> task_tree" where
  "unlinkExactTaskCondition now taskId conditionId tree =
     (case dget (trResources tree) taskId of
        None \<Rightarrow> tree
      | Some r \<Rightarrow>
          if \<not> linksCondition conditionId r then tree
          else pruneUnlinkedConditions (putResource (touchResource now
            (\<lambda>r. r\<lparr>tkConditionIds := Some (filter (\<lambda>i. i \<noteq> conditionId) (listOr (tkConditionIds r)))\<rparr>) r) tree))"

definition isSatisfiedCondition :: "task_condition option \<Rightarrow> bool" where
  "isSatisfiedCondition c = (case c of Some c \<Rightarrow> cnState c = CondTrue | None \<Rightarrow> False)"

definition unlinkSatisfiedTaskConditions :: "int \<Rightarrow> string \<Rightarrow> task_tree \<Rightarrow> task_tree" where
  "unlinkSatisfiedTaskConditions now taskId tree =
     (case dget (trResources tree) taskId of
        None \<Rightarrow> tree
      | Some r \<Rightarrow>
          (let remaining = filter (\<lambda>i. \<not> isSatisfiedCondition (dget (trConditions tree) i)) (listOr (tkConditionIds r))
           in if length remaining = length (listOr (tkConditionIds r)) then tree
              else pruneUnlinkedConditions (putResource (touchResource now
                (\<lambda>r. r\<lparr>tkConditionIds := Some remaining\<rparr>) r) tree)))"

text \<open>A Condition a result declares, with its id.\<close>

record condition_decl =
  dcId :: string
  dcSpec :: condition_spec

definition condSpecValue :: "condition_spec \<Rightarrow> condition_spec" where
  "condSpecValue sp = sp\<lparr>csExpected := jsonCanon (csExpected sp)\<rparr>"

definition sameDeclaration :: "condition_decl \<Rightarrow> condition_decl \<Rightarrow> bool" where
  "sameDeclaration a b \<longleftrightarrow> dcId a = dcId b \<and> condSpecValue (dcSpec a) = condSpecValue (dcSpec b)"

definition declareCondition ::
  "(string, condition_decl) dict \<Rightarrow> condition_decl \<Rightarrow> (string, condition_decl) dict result" where
  "declareCondition ds c =
     (case dget ds (trim (dcId c)) of
        Some previous \<Rightarrow>
          if \<not> sameDeclaration previous c
          then Inl (''Task result contains conflicting declarations for Condition '' @ trim (dcId c))
          else Inr (dset ds (trim (dcId c)) c)
      | None \<Rightarrow> Inr (dset ds (trim (dcId c)) c))"

definition declaredSpec :: "condition_decl \<Rightarrow> task_condition option \<Rightarrow> condition_spec" where
  "declaredSpec d current =
     (let sp = dcSpec d in
      \<lparr>csType = trim (csType sp), csSubject = trim (csSubject sp), csExpected = csExpected sp,
       csRequestedAction = trimmed (csRequestedAction sp), csOwner = map_option trim (csOwner sp),
       csReviewAfterMs = (case csReviewAfterMs sp of Some n \<Rightarrow> Some n
         | None \<Rightarrow> Option.bind current (\<lambda>c. csReviewAfterMs (cnSpec c))),
       csProgress = (case csProgress sp of Some p \<Rightarrow> Some p
         | None \<Rightarrow> Option.bind current (\<lambda>c. csProgress (cnSpec c)))\<rparr>)"

definition freshCondition :: "string \<Rightarrow> condition_spec \<Rightarrow> task_condition option \<Rightarrow> int \<Rightarrow> task_condition" where
  "freshCondition cid sp current now =
     \<lparr>cnId = cid, cnGeneration = (case current of Some c \<Rightarrow> cnGeneration c | None \<Rightarrow> 0) + 1,
      cnVersion = (case current of Some c \<Rightarrow> cnVersion c | None \<Rightarrow> 0) + 1, cnSpec = sp,
      cnObservedGeneration = 0, cnState = CondUnknown, cnCreatedAt = Some (Iso now), cnObserved = JUndef,
      cnReports = [], cnObservedAt = Some (Iso now), cnFacts = None\<rparr>"

text \<open>A change of attention interest keeps the observed fact and every wait correlated with it.\<close>

definition retargetWaits :: "string \<Rightarrow> nat \<Rightarrow> nat \<Rightarrow> task_resource \<Rightarrow> task_resource" where
  "retargetWaits cid old new r =
     r\<lparr>tkInputWaits := map_option (map (\<lambda>(k, w). (k, w\<lparr>iwConditions :=
        map (\<lambda>(i, g). if i = cid \<and> g = old then (i, new) else (i, g)) (iwConditions w)\<rparr>))) (tkInputWaits r)\<rparr>"

definition materializeOne ::
  "string \<Rightarrow> string list \<Rightarrow> int \<Rightarrow> task_tree \<times> string list \<Rightarrow> condition_decl \<Rightarrow> (task_tree \<times> string list) result" where
  "materializeOne taskId previousIds now acc d =
     (case acc of (tree, ids) \<Rightarrow>
       (let cid = trim (dcId d);
            ids' = (if cid \<in> set previousIds then ids else ids @ [cid]);
            current = dget (trConditions tree) cid;
            sp = declaredSpec d current;
            sameSpec = (case current of Some c \<Rightarrow> condSpecValue (cnSpec c) = condSpecValue sp | None \<Rightarrow> False);
            linkedToAnotherTask = list_ex (\<lambda>r. tkId r \<noteq> taskId \<and> linksCondition cid r) (dvals (trResources tree))
        in if csOwner (dcSpec d) = None then Inl ''TypeError''
           else case current of
               None \<Rightarrow> Inr (tree\<lparr>trConditions := dset (trConditions tree) cid (freshCondition cid sp None now)\<rparr>, ids')
             | Some c \<Rightarrow>
                 if \<not> sameSpec \<and> linkedToAnotherTask
                 then Inl (''Condition '' @ cid @ '' is already linked to another task with a different specification'')
                 else if sameSpec then Inr (tree, ids')
                 else if condSpecValue (cnSpec c)\<lparr>csProgress := None\<rparr> = condSpecValue sp\<lparr>csProgress := None\<rparr>
                 then Inr (updResource taskId (retargetWaits cid (cnGeneration c) (cnGeneration c + 1))
                   (tree\<lparr>trConditions := dset (trConditions tree) cid (c\<lparr>cnSpec := sp,
                      cnGeneration := cnGeneration c + 1, cnVersion := cnVersion c + 1,
                      cnObservedGeneration := (if cnState c = CondUnknown then 0 else cnGeneration c + 1)\<rparr>)\<rparr>), ids')
                 else Inr (tree\<lparr>trConditions := dset (trConditions tree) cid (freshCondition cid sp current now)\<rparr>, ids')))"

definition materializeWaitingConditions ::
  "string \<Rightarrow> condition_decl list \<Rightarrow> int \<Rightarrow> task_tree \<Rightarrow> task_tree result" where
  "materializeWaitingConditions taskId conditions now tree =
     (let ids = taskConditionIds tree taskId in
      rbind (rfold declareCondition [] conditions) (\<lambda>declarations.
      rbind (rfold (materializeOne taskId ids now) (tree, ids) (dvals declarations)) (\<lambda>(tree', ids').
      Inr (pruneUnlinkedConditions (updResource taskId
        (touchResource now (\<lambda>r. r\<lparr>tkConditionIds := Some ids'\<rparr>)) tree')))))"

section \<open>When a Task is checked next\<close>

definition acceptedTaskReviewAt :: "task_resource \<Rightarrow> int option" where
  "acceptedTaskReviewAt r =
     (if tkPhase r \<noteq> PhWaiting then None
      else
        (let deadlines = filter (\<lambda>t. 0 < t \<and> t \<le> max_safe_integer)
               (List.map_filter id (tkReviewAt r # map iwReviewAt (dvals (waitsOf r))))
         in if deadlines = [] then None else Some (foldl min (hd deadlines) (tl deadlines))))"

definition nextTaskCheckAt :: "int \<Rightarrow> task_tree \<Rightarrow> task_resource \<Rightarrow> int option" where
  "nextTaskCheckAt now tree r =
     (let recovery = (if (tkPhase r = PhWaiting \<or> taskExecutionRetryExhausted r) \<and> openTaskConditionIds tree (tkId r) \<noteq> []
            then Some (now + CONDITION_RECOVERY_INTERVAL_MS) else None)
      in case (recovery, acceptedTaskReviewAt r) of
           (Some a, Some b) \<Rightarrow> Some (min a b) | (Some a, None) \<Rightarrow> Some a | (None, d) \<Rightarrow> d)"

definition resourceWrite :: "int \<Rightarrow> task_tree \<Rightarrow> task_resource \<Rightarrow> bool \<Rightarrow> task_write" where
  "resourceWrite now tree r ready =
     \<lparr>twResource = r, twTrigger = dget (trTriggers tree) (tkId r), twReady = ready,
      twNextCheckAt = map_option of_int (nextTaskCheckAt now tree r)\<rparr>"

definition dependenciesSatisfied :: "task_tree \<Rightarrow> task_spec \<Rightarrow> bool" where
  "dependenciesSatisfied tree sp = list_all (dependencySatisfied tree) (listOr (spDependsOn sp))"

definition isRunnableOnPassiveResync :: "int \<Rightarrow> task_tree \<Rightarrow> task_resource \<Rightarrow> bool result" where
  "isRunnableOnPassiveResync now tree r =
     (if dget (trCancellations tree) (tkId r) \<noteq> None \<or> taskExecutionRetryExhausted r \<or>
         pendingTaskExecutionRetryAt r now \<noteq> None \<or> \<not> dependenciesSatisfied tree (tkSpec r)
      then Inr False
      else rbind (currentResourceAttempt tree r) (\<lambda>current. Inr (
        if current \<noteq> None then False
        else if dget (trTriggers tree) (tkId r) \<noteq> None then True
        else if tkObservedGeneration r < tkGeneration r then True
        else case tkPhase r of
            PhPending \<Rightarrow> True
          | PhWaiting \<Rightarrow>
              hasSatisfiedTaskCondition tree (tkId r) \<or>
              (case acceptedTaskReviewAt r of Some t \<Rightarrow> t \<le> now | None \<Rightarrow> listOr (tkConditionIds r) = [])
          | PhAttention \<Rightarrow> hasLegacyWorkflowHandoff tree r
          | PhRunning \<Rightarrow> True
          | PhConverged \<Rightarrow> False)))"

text \<open>An indexed wake that found its Task durably blocked is cleared, unless the store changed meanwhile.\<close>

definition acknowledgeIndexedRecoveryWait ::
  "int \<Rightarrow> string \<Rightarrow> nat \<Rightarrow> rat option \<Rightarrow> task_store \<Rightarrow> task_store" where
  "acknowledgeIndexedRecoveryWait now taskId expectedRevision nextCheckAt st =
     snd (setRecoveryState now taskId \<lparr>ruReady = Some False, ruChanged = Some False,
       ruNextCheckAt = Some nextCheckAt, ruExpectedRevision = Some expectedRevision\<rparr> st)"

section \<open>Mutation scopes\<close>

record mutation_scope =
  msWriteTaskIds :: "string list"
  msConditionIds :: "string list"
  msConditionVersions :: "(string, nat) dict"
  msAttemptVersions :: "(string, nat) dict"
  msFences :: "task_fence list"

definition emptyResourceMutationScope :: "task_tree \<Rightarrow> mutation_scope" where
  "emptyResourceMutationScope tree =
     \<lparr>msWriteTaskIds = [], msConditionIds = [],
      msConditionVersions = fromEntries (map (\<lambda>c. (cnId c, cnVersion c)) (dvals (trConditions tree))),
      msAttemptVersions = fromEntries (map (\<lambda>a. (atId a, atVersion a)) (dvals (trAttempts tree))),
      msFences = []\<rparr>"

definition resourceFence :: "task_resource \<Rightarrow> task_fence" where
  "resourceFence r = \<lparr>fnTaskId = tkId r, fnVersion = tkVersion r, fnGeneration = Some (tkGeneration r),
     fnCurrentAttemptId = Some (tkCurrentAttemptId r)\<rparr>"

definition fenceResourceMutationTask :: "task_tree \<Rightarrow> string \<Rightarrow> mutation_scope \<Rightarrow> mutation_scope" where
  "fenceResourceMutationTask tree taskId scope =
     (if taskId = [] then scope
      else case dget (trResources tree) taskId of
          None \<Rightarrow> scope
        | Some r \<Rightarrow>
            if list_ex (\<lambda>f. fnTaskId f = taskId) (msFences scope) then scope
            else scope\<lparr>msFences := msFences scope @ [(resourceFence r)\<lparr>fnTaskId := taskId\<rparr>]\<rparr>)"

definition trackResourceMutationTask :: "task_tree \<Rightarrow> string \<Rightarrow> mutation_scope \<Rightarrow> mutation_scope" where
  "trackResourceMutationTask tree taskId scope =
     (if taskId = [] then scope
      else
        (let scope1 = fenceResourceMutationTask tree taskId
               (scope\<lparr>msWriteTaskIds := sadd (msWriteTaskIds scope) taskId\<rparr>)
         in case dget (trResources tree) taskId of
              None \<Rightarrow> scope1
            | Some r \<Rightarrow> scope1\<lparr>msConditionIds := foldl sadd (msConditionIds scope1) (listOr (tkConditionIds r))\<rparr>))"

definition beginResourceMutationScopeForTasks :: "task_tree \<Rightarrow> string list \<Rightarrow> mutation_scope" where
  "beginResourceMutationScopeForTasks tree taskIds =
     foldl (\<lambda>scope k. trackResourceMutationTask tree k scope) (emptyResourceMutationScope tree) taskIds"

definition parentOfTask :: "task_tree \<Rightarrow> string \<Rightarrow> string" where
  "parentOfTask tree taskId =
     (case dget (trResources tree) taskId of Some r \<Rightarrow> spParentId (tkSpec r) | None \<Rightarrow> [])"

text \<open>The scope of a settlement: the claimed Task, a fence on its parent, and the Tasks it unblocks.\<close>

definition beginResourceMutationScope :: "task_tree \<Rightarrow> string \<Rightarrow> string list \<Rightarrow> mutation_scope" where
  "beginResourceMutationScope tree claimTaskId unblocked =
     foldl (\<lambda>scope k. trackResourceMutationTask tree k scope)
       (fenceResourceMutationTask tree (parentOfTask tree claimTaskId)
         (trackResourceMutationTask tree claimTaskId (emptyResourceMutationScope tree))) unblocked"

primrec rmap :: "('a \<Rightarrow> 'b result) \<Rightarrow> 'a list \<Rightarrow> 'b list result" where
  "rmap f [] = Inr []"
| "rmap f (x # xs) = rbind (f x) (\<lambda>y. rbind (rmap f xs) (\<lambda>ys. Inr (y # ys)))"

definition finishResourceMutationScope :: "int \<Rightarrow> mutation_scope \<Rightarrow> task_tree \<Rightarrow> task_mutation result" where
  "finishResourceMutationScope now scope0 tree =
     (let scope = foldl (\<lambda>scope k. trackResourceMutationTask tree k scope) scope0 (msWriteTaskIds scope0) in
      rbind (rmap (\<lambda>r. rbind (isRunnableOnPassiveResync now tree r) (\<lambda>ready. Inr (resourceWrite now tree r ready)))
        (List.map_filter (dget (trResources tree)) (msWriteTaskIds scope))) (\<lambda>tasks.
      Inr (noMutation\<lparr>muFences := msFences scope, muTasks := tasks,
        muAttempts := filter (\<lambda>a. atTaskId a \<in> set (msWriteTaskIds scope) \<and>
          dget (msAttemptVersions scope) (atId a) \<noteq> Some (atVersion a)) (dvals (trAttempts tree)),
        muConditions := List.map_filter (\<lambda>c. case dget (trConditions tree) c of
            Some cond \<Rightarrow> if dget (msConditionVersions scope) c \<noteq> Some (cnVersion cond) then Some cond else None
          | None \<Rightarrow> None) (msConditionIds scope),
        muDeleteConditions := filter (\<lambda>c. dget (trConditions tree) c = None) (msConditionIds scope)\<rparr>)))"

end
