(* ===== verification/Commit_Effects.thy ===== *)
theory Commit_Effects
  imports Task_Reconcile Store_Properties
begin

text \<open>
  What the reconciler's operations rely on when they read and write the store: the context an
  operation reads holds the stored Tasks, and a committed mutation leaves exactly its Tasks, attempts
  and admissions behind.
\<close>

section \<open>Commits of the reconciler\<close>

lemma commitTaskMutation_commit:
  "commitTaskMutation now m st = Inr st' \<longleftrightarrow> commit now m st = Inr (True, st')"
  by (auto simp: commitTaskMutation_def rbind_Inr split: if_splits)

lemma commitTaskMutation_reach:
  "store_reach st \<Longrightarrow> commitTaskMutation now m st = Inr st' \<Longrightarrow> store_reach st'"
  by (auto simp: commitTaskMutation_commit intro: store_reach.step store_step.committed)

lemma commitTaskMutation_reads:
  assumes "commitTaskMutation now m st = Inr st'"
  shows "(readTask st' t, readTrigger st' t) =
    (case lastWrite (muTasks m) t of
       Some w \<Rightarrow> (Some (twResource w), twTrigger w)
     | None \<Rightarrow> if t \<in> set (muDeleteTasks m) then (None, None) else (readTask st t, readTrigger st t))"
  using assms by (simp only: commitTaskMutation_commit) (rule applyMutation_reads [OF commit_True])

lemma commit_one_task:
  assumes "commitTaskMutation now m st = Inr st'" "muTasks m = [w]" "muDeleteTasks m = []"
  shows "readTask st' t = (if t = tkId (twResource w) then Some (twResource w) else readTask st t)"
    and "readTrigger st' t = (if t = tkId (twResource w) then twTrigger w else readTrigger st t)"
  using commitTaskMutation_reads [OF assms(1), of t] assms(2,3)
  by (auto simp: lastWrite_def split: if_splits)

section \<open>Contexts\<close>

lemma addRows_from:
  assumes "dget (addRows found rows) k = Some row" and "\<And>k row. dget found k = Some row \<Longrightarrow> dget (stTasks st) k = Some row"
    and "list_all (\<lambda>p. dget (stTasks st) (fst p) = Some (snd p)) rows"
  shows "dget (stTasks st) k = Some row"
proof -
  have "\<forall>k row. dget (addRows found rows) k = Some row \<longrightarrow> dget (stTasks st) k = Some row"
    unfolding addRows_def
    by (rule foldl_invariant) (use assms(2,3) in \<open>auto simp: list_all_iff split: if_splits\<close>)
  with assms(1) show ?thesis by blast
qed

lemma contextRows_stored:
  assumes "dict_wf (stTasks st)" "dget (contextRows st sc limit) k = Some row"
  shows "dget (stTasks st) k = Some row"
proof -
  let ?req = "cleanIds (scTaskIds sc)"
  have loop: "dget (contextLoop st ?req []) k = Some row \<Longrightarrow> dget (stTasks st) k = Some row" for k row
    using contextLoop_exact [OF assms(1) cleanIds_named] by blast
  have rel: "dget (addRows (contextLoop st ?req []) (relatedRows st ?req limit)) k = Some row \<Longrightarrow>
      dget (stTasks st) k = Some row" for k row
    by (erule addRows_from) (auto intro: loop relatedRows_stored [OF assms(1)])
  have routed: "list_all (\<lambda>p. dget (stTasks st) (fst p) = Some (snd p)) (routedRows st ids)" for ids
    using dict_wf_dget [OF assms(1)] by (auto simp: routedRows_def list_all_iff)
  show ?thesis
    using assms(2) addRows_from [OF _ loop routed] addRows_from [OF _ rel routed] loop rel
    by (auto simp: contextRows_def Let_def split: if_splits)
qed

text \<open>What a reconciler operation reads is what is stored.\<close>

lemma context_stored:
  assumes "store_ok st" "readTaskContext st sc hist limit = Inr tree" "dget (trResources tree) k = Some r"
  shows "readTask st k = Some r \<and> tkId r = k"
proof -
  have wf: "dict_wf (stTasks st)" using assms(1) by (simp add: store_ok_def rows_ok_def)
  from assms(2,3) obtain row where row: "dget (contextRows st sc limit) k = Some row" "rwResource row = r"
    by (auto simp: readTaskContext_def Let_def resourcesOf_def dget_map split: option.splits)
  from contextRows_stored [OF wf row(1)] row(2) assms(1) show ?thesis
    by (auto simp: readTask_def store_ok_def rows_ok_def dest: dget_Some_in)
qed

lemma context_reads:
  assumes "store_ok st" "readTaskContext st sc hist limit = Inr tree" "contextReach st (cleanIds (scTaskIds sc)) k"
  shows "dget (trResources tree) k = readTask st k"
proof -
  have "dict_wf (stTasks st)" using assms(1) by (simp add: store_ok_def rows_ok_def)
  from contextRows_reach [OF this assms(3)] assms(2) show ?thesis
    by (auto simp: readTaskContext_def Let_def resourcesOf_def dget_map readTask_def split: option.splits)
qed

lemma touchResource_frame [simp]:
  "tkId (touchResource now f r) = tkId (f r)" "tkSpec (touchResource now f r) = tkSpec (f r)"
  "tkGeneration (touchResource now f r) = tkGeneration (f r)" "tkCreator (touchResource now f r) = tkCreator (f r)"
  "tkVersion (touchResource now f r) = Suc (tkVersion r)" "tkCurrentAttemptId (touchResource now f r) = tkCurrentAttemptId (f r)"
  by (simp_all add: touchResource_def settlePhase_def)

section \<open>Attempts and admissions after a commit\<close>

definition attemptsAfter :: "task_mutation \<Rightarrow> (string, task_attempt) dict \<Rightarrow> (string, task_attempt) dict" where
  "attemptsAfter m d = foldl (\<lambda>d a. dset d (atId a) a) (foldl ddel d (muDeleteAttempts m)) (muAttempts m)"

definition admissionsAfter :: "task_mutation \<Rightarrow> (string, task_admission) dict \<Rightarrow> (string, task_admission) dict" where
  "admissionsAfter m d = foldl (\<lambda>d (k, v). dset d k v) (foldl ddel d (muDeleteAdmissions m)) (muAdmissions m)"

abbreviation ledger where
  "ledger s \<equiv> (stAttempts s, stAdmissions s, stAppId s, stHumanInput s, stGroups s)"

lemma writeAttempts_attempts: "stAttempts (writeAttempts m st) = attemptsAfter m (stAttempts st)"
proof -
  have del: "stAttempts (foldl (\<lambda>s k. s\<lparr>stAttempts := ddel (stAttempts s) k\<rparr>) s ks) = foldl ddel (stAttempts s) ks" for s ks
    by (induction ks arbitrary: s) simp_all
  have "stAttempts (foldl (\<lambda>s a. putAttempt a s) s as) = foldl (\<lambda>d a. dset d (atId a) a) (stAttempts s) as" for s as
    by (induction as arbitrary: s) (simp_all add: putAttempt_def Let_def split: option.splits)
  then show ?thesis by (simp add: writeAttempts_def attemptsAfter_def del)
qed

lemma writeAttempts_rest:
  "(stAdmissions (writeAttempts m st), stAppId (writeAttempts m st), stHumanInput (writeAttempts m st), stGroups (writeAttempts m st)) =
   (stAdmissions st, stAppId st, stHumanInput st, stGroups st)"
  unfolding writeAttempts_def
  by (rule foldl_invariant [where P = "\<lambda>s. (stAdmissions s, stAppId s, stHumanInput s, stGroups s) = (stAdmissions st, stAppId st, stHumanInput st, stGroups st)"],
      rule foldl_invariant [where P = "\<lambda>s. (stAdmissions s, stAppId s, stHumanInput s, stGroups s) = (stAdmissions st, stAppId st, stHumanInput st, stGroups st)"])
    (auto simp: putAttempt_def Let_def split: option.splits)

lemma writeAdmissions_admissions:
  "writeAdmissions m st = st\<lparr>stAdmissions := admissionsAfter m (stAdmissions st)\<rparr>"
proof -
  have del: "foldl (\<lambda>s k. s\<lparr>stAdmissions := ddel (stAdmissions s) k\<rparr>) s ks = s\<lparr>stAdmissions := foldl ddel (stAdmissions s) ks\<rparr>" for s :: task_store and ks
    by (induction ks arbitrary: s) simp_all
  have "foldl (\<lambda>s (k, v). s\<lparr>stAdmissions := dset (stAdmissions s) k v\<rparr>) s as =
      s\<lparr>stAdmissions := foldl (\<lambda>d (k, v). dset d k v) (stAdmissions s) as\<rparr>" for s :: task_store and as
    by (induction as arbitrary: s) auto
  then show ?thesis by (simp add: writeAdmissions_def admissionsAfter_def del)
qed

lemma ledger_frames:
  "rfold (reopenTask m) st ks = Inr st' \<Longrightarrow> ledger st' = ledger st"
  "rfold (writeTask now) st ws = Inr st' \<Longrightarrow> ledger st' = ledger st"
  "rfold putReceipt st rcs = Inr st' \<Longrightarrow> ledger st' = ledger st"
  "rfold (\<lambda>s c. putCancellation c s) st cs = Inr st' \<Longrightarrow> ledger st' = ledger st"
  "rfold putControlReceipt st cts = Inr st' \<Longrightarrow> ledger st' = ledger st"
  by (erule rfold_invariant; auto simp: reopenTask_def putReceipt_def putCancellation_def putControlReceipt_def
      writeTask_def rbind_Inr putTask_def putTaskRelations_def recordTriggerEvents_def Let_def
      split: if_splits option.splits)+

lemma ledger_deleteTasks: "ledger (foldl (\<lambda>s k. deleteTask k s) st ks) = ledger st"
  by (rule foldl_invariant [where P = "\<lambda>s. ledger s = ledger st"]) (auto simp: deleteTask_def)

lemma ledger_writeConditions: "ledger (writeConditions m st) = ledger st"
  unfolding writeConditions_def Let_def
  by (intro foldl_invariant [where P = "\<lambda>s. ledger s = ledger st"])
    (auto simp: pruneCondition_def putTaskConditionRoutes_def deleteCondition_def)

lemma applyMutation_ledger:
  assumes "applyMutation now m st = Inr st'"
  shows "ledger st' = (attemptsAfter m (stAttempts st), admissionsAfter m (stAdmissions st), stAppId st, stHumanInput st, stGroups st)"
  using assms
proof (rule applyMutation_cases)
  fix st1 st2 st3 st4 st5
  assume st1: "rfold (reopenTask m) st (uniq (muReopen m)) = Inr st1"
    and st2: "rfold (writeTask now) (foldl (\<lambda>s k. deleteTask k s) st1 (muDeleteTasks m)) (muTasks m) = Inr st2"
    and st3: "rfold putReceipt (foldl (\<lambda>s k. s\<lparr>stReceipts := ddel (stReceipts s) k\<rparr>)
        (writeConditions m (writeAttempts m st2)) (muDeleteReceipts m)) (muReceipts m) = Inr st3"
    and st4: "rfold (\<lambda>s c. putCancellation c s) (writeAdmissions m st3) (muCancellations m) = Inr st4"
    and st5: "rfold putControlReceipt st4 (muControls m) = Inr st5" and st': "st' = bumpRevision st5"
  obtain d where d: "foldl (\<lambda>s k. s\<lparr>stReceipts := ddel (stReceipts s) k\<rparr>)
      (writeConditions m (writeAttempts m st2)) (muDeleteReceipts m) =
      (writeConditions m (writeAttempts m st2))\<lparr>stReceipts := d\<rparr>" using deleteReceipts_frame by blast
  show ?thesis
    using ledger_frames(1) [OF st1] ledger_frames(2) [OF st2] ledger_frames(3) [OF st3] ledger_frames(4) [OF st4]
      ledger_frames(5) [OF st5] ledger_deleteTasks [of st1 "muDeleteTasks m"] ledger_writeConditions [of m "writeAttempts m st2"]
      writeAttempts_attempts [of m st2] writeAttempts_rest [of m st2]
    by (simp add: st' d bumpRevision_def writeAdmissions_admissions)
qed

lemma commit_ledger:
  assumes "commitTaskMutation now m st = Inr st'"
  shows "stAttempts st' = attemptsAfter m (stAttempts st)" "stAdmissions st' = admissionsAfter m (stAdmissions st)"
    "stAppId st' = stAppId st" "stHumanInput st' = stHumanInput st" "stGroups st' = stGroups st"
  using assms applyMutation_ledger [of now m st st'] by (auto simp: commitTaskMutation_commit dest!: commit_True)

end
