(* ===== verification/Task_Admission.thy ===== *)
theory Task_Admission
  imports Task_Reconcile
begin

text \<open>
  Admission of desired work and wakes (\<open>app-task-reconciler.ts\<close>): validation of a Task intent and of its
  place in the containment tree, \<open>observeAppTaskIntent\<close>, which creates or revises a Task and records the
  input that asked for it, \<open>recordAppTaskTrigger\<close>, and the queue entries the controller is fed with.
\<close>

section \<open>Normalization and validation\<close>

definition selectedAgent :: "string \<Rightarrow> task_spec \<Rightarrow> string option result" where
  "selectedAgent label sp =
     (let agent = trimmed (spAgent sp); owner = trimmed (spOwner sp) in
      if spAgent sp \<noteq> None \<and> agent = None then Inl (label @ '' agent must be a non-empty string when present'')
      else if spOwner sp \<noteq> None \<and> owner = None
      then Inl (label @ '' legacy owner must be a non-empty string when present'')
      else if agent \<noteq> None \<and> owner \<noteq> None \<and> agent \<noteq> owner
      then Inl (label @ '' declares conflicting agent and legacy owner values'')
      else Inr (case agent of Some a \<Rightarrow> Some a | None \<Rightarrow> owner))"

definition normalizeTaskAgent :: "task_intent \<Rightarrow> task_intent result" where
  "normalizeTaskAgent i =
     rbind (selectedAgent (''Task '' @ inId i) (inSpec i)) (\<lambda>owner.
       Inr (i\<lparr>inSpec := (inSpec i)\<lparr>spAgent := None, spOwner := owner\<rparr>\<rparr>))"

definition isLowerLetter :: "char \<Rightarrow> bool" where
  "isLowerLetter c \<longleftrightarrow> (let n = of_char c :: nat in 97 \<le> n \<and> n \<le> 122)"

definition executorName :: "string \<Rightarrow> bool" where
  "executorName s = (case s of [] \<Rightarrow> False | c # cs \<Rightarrow> isLowerLetter c \<and> length cs \<le> 63 \<and>
     list_all (\<lambda>d. isLowerLetter d \<or> is_digit d \<or> d = CHR ''-'') cs)"

definition validateIntent :: "task_intent \<Rightarrow> unit result" where
  "validateIntent i =
     (let sp = inSpec i; task = ''Task '' @ inId i in
      if trim (inId i) = [] then Inl ''Task reconciliation requires a non-empty task id''
      else if trim (spParentId sp) = [] then Inl (task @ '' requires a parentId'')
      else if trim (spOutcome sp) = [] then Inl (task @ '' requires an outcome'')
      else if spAcceptance sp = [] then Inl (task @ '' requires acceptance criteria'')
      else if (case spWorkflow sp of Some w \<Rightarrow> trim w = [] | None \<Rightarrow> False)
      then Inl (task @ '' workflow must be a non-empty string when present'')
      else if (case spWorkflow sp of Some w \<Rightarrow> trim w = ''project'' | None \<Rightarrow> False)
      then Inl (task @ '' workflow must name a real workflow; omit workflow for agent-handled project work'')
      else if (case spExecutor sp of Some e \<Rightarrow> \<not> executorName e | None \<Rightarrow> False)
      then Inl (task @ '' executor must be a lowercase name of at most 64 characters'')
      else if whenText (spWorkflow sp) \<noteq> None \<and> whenText (spExecutor sp) \<noteq> None
      then Inl (task @ '' cannot configure both workflow and executor'')
      else Inr ())"

text \<open>The walk up the parents: it refuses to meet the Task itself, or any parent twice.\<close>

function parentWalk :: "task_tree \<Rightarrow> string \<Rightarrow> string list \<Rightarrow> string option \<Rightarrow> unit result" where
  "parentWalk tree taskId seen cursor =
     (case cursor of
        None \<Rightarrow> Inr ()
      | Some c \<Rightarrow>
          if c = [] then Inr ()
          else if c \<in> set seen
          then Inl (''Task '' @ taskId @ '' parent chain already contains a containment cycle at '' @ c)
          else if c = taskId then Inl (''Task '' @ taskId @ '' parent would create a containment cycle'')
          else if parentAt (trGroups tree) (trResources tree) c = None then Inr ()
          else parentWalk tree taskId (c # seen) (parentAt (trGroups tree) (trResources tree) c))"
  by pat_completeness auto
termination
proof (relation "measure (\<lambda>(tree, _, seen, _). card (set (dkeys (trResources tree) @ dkeys (trGroups tree)) - set seen))")
  fix tree :: task_tree and taskId c :: string and seen :: "string list" and cursor :: "string option"
  assume "cursor = Some c" "c \<notin> set seen" "parentAt (trGroups tree) (trResources tree) c \<noteq> None"
  then show "((tree, taskId, c # seen, parentAt (trGroups tree) (trResources tree) c), (tree, taskId, seen, cursor)) \<in>
    measure (\<lambda>(tree, _, seen, _). card (set (dkeys (trResources tree) @ dkeys (trGroups tree)) - set seen))"
    using unseen_key_less [of c seen, OF _ parentAt_key] by simp
qed simp

declare parentWalk.simps [simp del]

definition validateParentReference :: "task_tree \<Rightarrow> string \<Rightarrow> string \<Rightarrow> unit result" where
  "validateParentReference tree taskId parentId =
     (if map_option (\<lambda>r. spParentId (tkSpec r)) (dget (trResources tree) taskId) \<noteq> Some parentId \<and>
         dget (trCancellations tree) parentId \<noteq> None
      then Inl (''Cannot attach '' @ taskId @ '' to cancelled parent '' @ parentId)
      else if dget (trResources tree) parentId = None \<and> dget (trGroups tree) parentId = None
      then Inl (''Task '' @ taskId @ '' parent does not exist in the live graph: '' @ parentId)
      else if parentId = taskId then Inl (''Task '' @ taskId @ '' cannot be its own parent'')
      else parentWalk tree taskId [] (Some parentId))"

definition assertResourceCreator :: "resource_creator option \<Rightarrow> resource_creator \<Rightarrow> unit result" where
  "assertResourceCreator creator actor =
     (case creator of
        Some c \<Rightarrow> if crAppId c \<noteq> crAppId actor \<or> crTaskId c \<noteq> crTaskId actor
          then Inl ''Only the recorded creator may change this resource's spec'' else Inr ()
      | None \<Rightarrow> Inl ''Only the recorded creator may change this resource's spec'')"

section \<open>Observing an intent\<close>

record observe_input =
  obIntent :: task_intent
  obAppAgent :: string
  obTrigger :: "js_record option"
  obAdmissionKey :: "string option"
  obCreator :: "resource_creator option"
  obCreatorRevision :: bool

record observation_result =
  orTaskId :: string
  orGeneration :: nat
  orChanged :: bool

text \<open>Requirements are a spec without its execution binding.\<close>

definition requirementsOf :: "task_spec \<Rightarrow> task_spec" where
  "requirementsOf sp = (specValue sp)\<lparr>spOwner := None, spWorkflow := None, spExecutor := None\<rparr>"

definition checkAuthority :: "task_store \<Rightarrow> observe_input \<Rightarrow> task_resource \<Rightarrow> task_spec \<Rightarrow> unit result" where
  "checkAuthority st input existing nextSpec =
     (let actor = (case obCreator input of Some c \<Rightarrow> c | None \<Rightarrow> \<lparr>crAppId = stAppId st, crTaskId = None\<rparr>);
          old = tkSpec existing in
      rbind (if requirementsOf old \<noteq> requirementsOf nextSpec then assertResourceCreator (tkCreator existing) actor else Inr ())
        (\<lambda>_. if (spOwner old \<noteq> spOwner nextSpec \<or> spWorkflow old \<noteq> spWorkflow nextSpec \<or>
                 spExecutor old \<noteq> spExecutor nextSpec) \<and>
                Option.bind (obCreator input) (\<lambda>c. whenText (crTaskId c)) \<noteq> None \<and> \<not> obCreatorRevision input
             then Inl ''Execution selection belongs to the responsible App'' else Inr ()))"

definition createdResource ::
  "string \<Rightarrow> resource_creator \<Rightarrow> nat \<Rightarrow> task_spec \<Rightarrow> int \<Rightarrow> app_task_lane \<Rightarrow> task_resource" where
  "createdResource k creator generation sp now reqLane =
     \<lparr>tkId = k, tkCreator = Some creator, tkGeneration = generation, tkVersion = 1,
       tkReopenedAfterEventId = None, tkSpec = sp, tkObservedGeneration = 0, tkPhase = PhPending,
       tkLane = (if reqLane = Human then Some Human else None),
       tkCurrentAttemptId = None, tkObservedAttemptId = None, tkWorkspaceAttemptId = None,
       tkExecutionFailures = None, tkExecutionFailureAttemptId = Some None, tkAdmissionFailures = None,
       tkRetryExhausted = None, tkExecutionRetryAt = None, tkReviewAt = None, tkFreshHumanInput = False,
       tkSummary = None, tkResponse = None, tkResult = None, tkFacts = None, tkConditionIds = None,
       tkInputWaits = None, tkUpdatedAt = now\<rparr>"

definition observedResource ::
  "task_store \<Rightarrow> observe_input \<Rightarrow> task_resource option \<Rightarrow> bool \<Rightarrow> task_spec \<Rightarrow> nat \<Rightarrow> int \<Rightarrow> task_resource" where
  "observedResource st input existing sameSpec nextSpec generation now =
     (let reqLane = taskTriggerLane (obTrigger input);
          dflt = \<lparr>crAppId = stAppId st, crTaskId = None\<rparr>;
          given = (case obCreator input of Some c \<Rightarrow> c | None \<Rightarrow> dflt)
      in case existing of
           None \<Rightarrow> createdResource (inId (obIntent input)) given generation nextSpec now reqLane
         | Some r \<Rightarrow>
             (let laneChanged = (reqLane = Human \<and> tkLane r \<noteq> Some Human);
                  relaned = (if laneChanged then r\<lparr>tkLane := Some Human\<rparr> else r)
              in if sameSpec
                 then (if specValue (tkSpec r) \<noteq> specValue nextSpec \<or> laneChanged \<or> obTrigger input \<noteq> None
                       then relaned\<lparr>tkVersion := tkVersion r + 1, tkSpec := nextSpec, tkUpdatedAt := now\<rparr>
                       else r)
                 else relaned\<lparr>tkId := inId (obIntent input),
                   tkCreator := Some (case tkCreator r of Some c \<Rightarrow> c | None \<Rightarrow> given),
                   tkGeneration := generation, tkVersion := tkVersion r + 1, tkSpec := nextSpec\<rparr>))"

text \<open>A newly admitted human request waives retry pacing.\<close>

definition isHumanRequest :: "js_record option \<Rightarrow> bool" where
  "isHumanRequest trigger =
     (case trigger of
        None \<Rightarrow> False
      | Some e \<Rightarrow>
          (let request = jget (rget e ''data'') ''request'';
               source = jget request ''source''
           in rget e ''type'' = JStr ''app.task.requested'' \<and> isRecord (rget e ''data'') \<and> isRecord request \<and>
              isRecord source \<and> jget source ''kind'' = JStr ''human''))"

definition admitTrigger :: "string \<Rightarrow> nat \<Rightarrow> string \<Rightarrow> js_record \<Rightarrow> int \<Rightarrow> task_tree \<Rightarrow> task_tree" where
  "admitTrigger k generation agent event now tree =
     (let previous = dget (trTriggers tree) k;
          events = appendTaskTriggerEvent (case previous of None \<Rightarrow> [] | Some t \<Rightarrow> taskTriggerEvents t) event now
      in tree\<lparr>trTriggers := dset (trTriggers tree) k
           \<lparr>ttTaskId = k, ttTaskGeneration = generation,
            ttVersion = (case previous of None \<Rightarrow> 0 | Some t \<Rightarrow> ttVersion t) + 1,
            ttEvents = Some events, ttEvent = preferredOf events agent, ttObservedAt = now\<rparr>\<rparr>)"

definition retargetTrigger :: "string \<Rightarrow> nat \<Rightarrow> task_tree \<Rightarrow> task_tree" where
  "retargetTrigger k generation tree =
     (case dget (trTriggers tree) k of
        None \<Rightarrow> tree
      | Some t \<Rightarrow> tree\<lparr>trTriggers := dset (trTriggers tree) k (t\<lparr>ttTaskGeneration := generation\<rparr>)\<rparr>)"

definition admissionOf :: "observe_input \<Rightarrow> nat \<Rightarrow> spec_hash \<Rightarrow> int \<Rightarrow> task_admission" where
  "admissionOf input generation specHash now =
     \<lparr>adTaskId = inId (obIntent input), adTaskGeneration = generation, adSpecHash = specHash, adAdmittedAt = now,
      adInputEvent = obTrigger input, adResultAttemptId = None, adFeedback = [], adReportAttemptId = None,
      adReportRevision = None\<rparr>"

definition observeMutation ::
  "int \<Rightarrow> task_tree \<Rightarrow> task_resource option \<Rightarrow> task_resource \<Rightarrow> (string \<times> task_admission) list \<Rightarrow> task_mutation result" where
  "observeMutation now tree existing r admissions =
     (let relevant = uniq ((case existing of None \<Rightarrow> [] | Some e \<Rightarrow> listOr (tkConditionIds e)) @ listOr (tkConditionIds r)) in
      rbind (isRunnableOnPassiveResync now tree r) (\<lambda>ready.
        Inr (noMutation\<lparr>muFences := (case existing of Some e \<Rightarrow> [resourceFence e] | None \<Rightarrow> []),
          muExpectMissing := (case existing of Some _ \<Rightarrow> [] | None \<Rightarrow> [tkId r]),
          muTasks := [resourceWrite now tree r ready],
          muConditions := List.map_filter (dget (trConditions tree)) relevant,
          muDeleteConditions := filter (\<lambda>c. dget (trConditions tree) c = None) relevant,
          muAdmissions := admissions\<rparr>)))"

text \<open>Whether the existing Task already asks for this work, and the generation of the admitted one.\<close>

definition sameSpec :: "observe_input \<Rightarrow> task_tree \<Rightarrow> bool" where
  "sameSpec input tree =
     (case dget (trResources tree) (inId (obIntent input)) of
        None \<Rightarrow> False
      | Some r \<Rightarrow>
          (let old = inSpec (resourceIntent r); sp = inSpec (obIntent input)
           in appTaskSpecHash old (Some (resolvedAgent tree old (obAppAgent input))) =
              appTaskSpecHash sp (Some (resolvedAgent tree sp (obAppAgent input)))))"

definition previousGeneration :: "observe_input \<Rightarrow> task_tree \<Rightarrow> nat" where
  "previousGeneration input tree =
     (case dget (trResources tree) (inId (obIntent input)) of Some r \<Rightarrow> tkGeneration r | None \<Rightarrow> 0)"

definition admittedGeneration :: "observe_input \<Rightarrow> task_tree \<Rightarrow> nat" where
  "admittedGeneration input tree =
     (if sameSpec input tree then previousGeneration input tree else max 1 (previousGeneration input tree + 1))"

definition desiredStateChanged :: "observe_input \<Rightarrow> task_tree \<Rightarrow> bool" where
  "desiredStateChanged input tree =
     (case dget (trResources tree) (inId (obIntent input)) of
        Some r \<Rightarrow> specValue (tkSpec r) \<noteq> specValue (resourceSpec (inSpec (obIntent input))) | None \<Rightarrow> True)"

definition admittedResource ::
  "int \<Rightarrow> observe_input \<Rightarrow> string option \<Rightarrow> task_tree \<Rightarrow> task_store \<Rightarrow> task_resource" where
  "admittedResource now input admissionKey tree st =
     (let r = observedResource st input (dget (trResources tree) (inId (obIntent input))) (sameSpec input tree)
            (resourceSpec (inSpec (obIntent input))) (admittedGeneration input tree) now
      in if admissionKey \<noteq> None \<and> isHumanRequest (obTrigger input)
         then touchResource now (\<lambda>r. r\<lparr>tkExecutionRetryAt := None, tkFreshHumanInput := True\<rparr>) r else r)"

definition admittedTree ::
  "int \<Rightarrow> observe_input \<Rightarrow> string option \<Rightarrow> task_tree \<Rightarrow> task_store \<Rightarrow> task_tree" where
  "admittedTree now input admissionKey tree st =
     (let k = inId (obIntent input); sp = inSpec (obIntent input);
          generation = admittedGeneration input tree;
          tree1 = (if previousGeneration input tree < generation then retargetTrigger k generation tree else tree);
          tree2 = (case obTrigger input of
            Some e \<Rightarrow> admitTrigger k generation (resolvedAgent tree sp (obAppAgent input)) e now tree1 | None \<Rightarrow> tree1)
      in putResource (admittedResource now input admissionKey tree st) tree2)"

definition admittedInput :: "int \<Rightarrow> observe_input \<Rightarrow> string option \<Rightarrow> task_tree \<Rightarrow> (string \<times> task_admission) list" where
  "admittedInput now input admissionKey tree =
     (case admissionKey of
        None \<Rightarrow> []
      | Some key \<Rightarrow> (let sp = inSpec (obIntent input)
          in [(key, admissionOf input (admittedGeneration input tree)
                (appTaskSpecHash sp (Some (resolvedAgent tree sp (obAppAgent input)))) now)]))"

text \<open>The second half of \<open>observeAppTaskIntent\<close>: create or revise the Task and commit.\<close>

definition admitIntent ::
  "int \<Rightarrow> observe_input \<Rightarrow> string option \<Rightarrow> task_tree \<Rightarrow> task_store \<Rightarrow> (observation_result \<times> task_store) result" where
  "admitIntent now input admissionKey tree st =
     (let existing = dget (trResources tree) (inId (obIntent input));
          generation = admittedGeneration input tree;
          laneChanged = (taskTriggerLane (obTrigger input) = Human \<and> Option.bind existing tkLane \<noteq> Some Human);
          changed = (existing = None \<or> generation \<noteq> previousGeneration input tree \<or>
            desiredStateChanged input tree \<or> laneChanged)
      in rbind (case existing of
            Some e \<Rightarrow> if desiredStateChanged input tree
              then checkAuthority st input e (resourceSpec (inSpec (obIntent input))) else Inr ()
          | None \<Rightarrow> Inr ()) (\<lambda>_.
         rbind (observeMutation now (admittedTree now input admissionKey tree st) existing
           (admittedResource now input admissionKey tree st) (admittedInput now input admissionKey tree)) (\<lambda>m.
         rbind (commitTaskMutation now m st) (\<lambda>st'.
         Inr (\<lparr>orTaskId = inId (obIntent input), orGeneration = generation, orChanged = changed\<rparr>, st')))))"

definition observeScope :: "task_intent \<Rightarrow> string option \<Rightarrow> context_scope" where
  "observeScope i admissionKey =
     \<lparr>scTaskIds = inId i # spParentId (inSpec i) # listOr (spDependsOn (inSpec i)),
      scAdmissionIds = (case admissionKey of Some key \<Rightarrow> [key] | None \<Rightarrow> []), scConditionIds = []\<rparr>"

text \<open>With the Task's context read: a replay of an admission, or a new one.\<close>

definition observeInContext ::
  "int \<Rightarrow> observe_input \<Rightarrow> string option \<Rightarrow> task_tree \<Rightarrow> task_store \<Rightarrow> (observation_result \<times> task_store) result" where
  "observeInContext now input key tree st =
     (let intent = obIntent input; k = inId intent in
      rbind (validateParentReference tree k (spParentId (inSpec intent))) (\<lambda>_.
        case Option.bind key (dget (trAdmissions tree)) of
          None \<Rightarrow> admitIntent now input key tree st
        | Some ad \<Rightarrow>
            if adTaskId ad \<noteq> k \<or> \<not> matchesAppTaskSpecHash (inSpec intent)
                 (resolvedAgent tree (inSpec intent) (obAppAgent input)) (adSpecHash ad)
            then Inl (''Task admission key '' @ the key @ '' was already used for different desired work'')
            else case dget (trResources tree) (adTaskId ad) of
                Some r \<Rightarrow> Inr (\<lparr>orTaskId = tkId r, orGeneration = tkGeneration r, orChanged = False\<rparr>, st)
              | None \<Rightarrow> admitIntent now input key tree st))"

definition observeNormalized ::
  "int \<Rightarrow> observe_input \<Rightarrow> task_store \<Rightarrow> (observation_result \<times> task_store) result" where
  "observeNormalized now input st =
     (let intent = obIntent input; k = inId intent; key = trimmed (obAdmissionKey input) in
      if isCancelled st k
      then Inl (''Cannot admit input for closed or cancelled task '' @ k @ ''; explicit reopening is required'')
      else if obAdmissionKey input \<noteq> None \<and> key = None
      then Inl ''Task admission key must be non-empty when provided''
      else rbind (readTaskContext st (observeScope intent key) True None) (\<lambda>tree.
        let current = dget (trResources tree) k in
        if taskEventPredatesReopening current (obTrigger input)
        then Inr (\<lparr>orTaskId = k, orGeneration = (case current of Some r \<Rightarrow> tkGeneration r | None \<Rightarrow> 0), orChanged = False\<rparr>, st)
        else observeInContext now input key tree st))"

definition observeAppTaskIntent ::
  "int \<Rightarrow> observe_input \<Rightarrow> task_store \<Rightarrow> (observation_result \<times> task_store) result" where
  "observeAppTaskIntent now input st =
     rbind (normalizeTaskAgent (obIntent input)) (\<lambda>intent.
     rbind (validateIntent intent) (\<lambda>_. observeNormalized now (input\<lparr>obIntent := intent\<rparr>) st))"

section \<open>Reads\<close>

definition readAppTaskIntent :: "task_store \<Rightarrow> string \<Rightarrow> task_intent option" where
  "readAppTaskIntent st taskId = map_option resourceIntent (readTask st taskId)"

definition readAppTaskAgent :: "task_context \<Rightarrow> task_store \<Rightarrow> string \<Rightarrow> string option result" where
  "readAppTaskAgent cx st taskId =
     rbind (readTaskContext st (taskScope [taskId]) False (Some (num_int 0))) (\<lambda>tree.
       Inr (map_option (\<lambda>r. resolvedAgent tree (inSpec (resourceIntent r)) (cxAgent cx)) (dget (trResources tree) taskId)))"

definition isAppTaskConverged :: "task_store \<Rightarrow> string \<Rightarrow> nat option \<Rightarrow> bool" where
  "isAppTaskConverged st taskId generation =
     (case readTask st taskId of
        None \<Rightarrow> False
      | Some r \<Rightarrow> (case generation of None \<Rightarrow> True | Some g \<Rightarrow> tkGeneration r = g) \<and>
          tkPhase r = PhConverged \<and> tkObservedGeneration r = tkGeneration r)"

definition readPendingAppTaskTrigger :: "task_store \<Rightarrow> string \<Rightarrow> js_record option" where
  "readPendingAppTaskTrigger st taskId = map_option ttEvent (readTrigger st taskId)"

definition readAppTaskTrigger :: "task_store \<Rightarrow> string \<Rightarrow> js_record option" where
  "readAppTaskTrigger st taskId =
     (case readTrigger st taskId of
        Some t \<Rightarrow> Some (ttEvent t)
      | None \<Rightarrow>
          (case Option.bind (Option.bind (readTask st taskId) (\<lambda>r. whenText (tkCurrentAttemptId r))) (readAttempt st) of
             Some a \<Rightarrow> if atState a = ARunning then attemptTrigger a else None
           | None \<Rightarrow> None))"

section \<open>Wakes\<close>

datatype trigger_record = TrRecorded | TrDuplicate | TrMissing | TrClosed

definition recordAppTaskTrigger ::
  "task_context \<Rightarrow> int \<Rightarrow> string \<Rightarrow> js_record \<Rightarrow> task_store \<Rightarrow> (trigger_record \<times> task_store) result" where
  "recordAppTaskTrigger cx now taskId event st =
     rbind (readTaskContext st (taskScope [taskId]) False (Some (num_int 0))) (\<lambda>tree.
       case dget (trResources tree) taskId of
         None \<Rightarrow> Inr (TrMissing, st)
       | Some r \<Rightarrow>
           (let previous = dget (trTriggers tree) taskId;
                prior = (case previous of None \<Rightarrow> [] | Some t \<Rightarrow> taskTriggerEvents t) in
            if isCancelled st taskId then Inr (TrClosed, st)
            else if taskEventPredatesReopening (Some r) (Some event) then Inr (TrDuplicate, st)
            else if hasTaskEvent st taskId event
            then Inr (if list_ex (\<lambda>e. taskEventIdentity (teEvent e) = taskEventIdentity event) prior
                      then TrRecorded else TrDuplicate, st)
            else
              (let r' = r\<lparr>tkVersion := tkVersion r + 1\<rparr>;
                   events = appendTaskTriggerEvent prior event now;
                   agent = resolvedAgent tree (inSpec (resourceIntent r)) (cxAgent cx);
                   tree' = putResource r' (admitTrigger taskId (tkGeneration r) agent event now tree)
               in if (case previous of Some t \<Rightarrow> listOr (ttEvents t) \<noteq> [] \<and> events = listOr (ttEvents t) | None \<Rightarrow> False)
                  then Inr (TrRecorded, st)
                  else rbind (commitTaskMutation now (noMutation\<lparr>muFences := [(resourceFence r)\<lparr>fnTaskId := taskId\<rparr>],
                      muTasks := [resourceWrite now tree' r' True]\<rparr>) st)
                    (\<lambda>st'. Inr (TrRecorded, st')))))"

section \<open>Queue entries\<close>

definition hasSatisfiedConditionReconciliation :: "task_tree \<Rightarrow> task_resource \<Rightarrow> bool" where
  "hasSatisfiedConditionReconciliation tree r \<longleftrightarrow> tkPhase r = PhWaiting \<and> hasSatisfiedTaskCondition tree (tkId r)"

definition appTaskPriorityOrder :: "app_task_priority list" where
  "appTaskPriorityOrder = [P0, P1, P2, P3]"

definition appTaskPriorityAgingIntervalMs :: int where
  "appTaskPriorityAgingIntervalMs = 5 * 60 * 1000"

definition effectiveAppTaskPriority :: "task_resource \<Rightarrow> int \<Rightarrow> int option \<Rightarrow> app_task_priority" where
  "effectiveAppTaskPriority r nowMs readyAt =
     (let declared = (case spPriority (tkSpec r) of Some p \<Rightarrow> p | None \<Rightarrow> P2);
          declaredRank = priorityRank declared;
          ageMs = max 0 (nowMs - (case readyAt of Some t \<Rightarrow> t | None \<Rightarrow> tkUpdatedAt r));
          highest = (if declaredRank = 0 then 0 else 1);
          promoted = max highest (int declaredRank - ageMs div appTaskPriorityAgingIntervalMs)
      in appTaskPriorityOrder ! nat promoted)"

record queue_entry =
  qeTaskId :: string
  qePriority :: app_task_priority
  qeLane :: app_task_lane

definition queueEntry :: "task_tree \<Rightarrow> int \<Rightarrow> task_resource \<Rightarrow> string \<Rightarrow> queue_entry" where
  "queueEntry tree nowMs r taskId =
     (let trigger = dget (trTriggers tree) taskId in
      \<lparr>qeTaskId = taskId,
       qePriority = (if (case trigger of Some t \<Rightarrow> triggerHasDirectProjectComment (ttEvent t) | None \<Rightarrow> False) \<or>
            hasSatisfiedConditionReconciliation tree r
          then P0 else effectiveAppTaskPriority r nowMs (map_option ttObservedAt trigger)),
       qeLane = (case tkLane r of Some l \<Rightarrow> l | None \<Rightarrow> taskTriggerLane (map_option ttEvent trigger))\<rparr>)"

definition appTaskQueueEntries :: "int \<Rightarrow> string list \<Rightarrow> task_store \<Rightarrow> queue_entry list result" where
  "appTaskQueueEntries nowMs taskIds st =
     (if taskIds = [] then Inr []
      else rbind (readTaskContext st (taskScope (uniq taskIds)) True None) (\<lambda>tree.
        Inr (List.map_filter (\<lambda>k. map_option (\<lambda>r. queueEntry tree nowMs r k) (dget (trResources tree) k)) (uniq taskIds))))"

primrec rfilter :: "('a \<Rightarrow> bool result) \<Rightarrow> 'a list \<Rightarrow> 'a list result" where
  "rfilter P [] = Inr []"
| "rfilter P (x # xs) = rbind (P x) (\<lambda>b. rbind (rfilter P xs) (\<lambda>ys. Inr (if b then x # ys else ys)))"

text \<open>Runnable Tasks: humans first, then by priority, pending triggers, and the recovery order.\<close>

definition runnableKey :: "task_tree \<Rightarrow> queue_entry \<Rightarrow> nat \<times> nat \<times> nat" where
  "runnableKey tree e =
     (if qeLane e = Human then 0 else 1, priorityRank (qePriority e),
      if dget (trTriggers tree) (qeTaskId e) \<noteq> None then 0 else 1)"

definition listRunnableAppTaskQueueEntries :: "int \<Rightarrow> task_store \<Rightarrow> queue_entry list result" where
  "listRunnableAppTaskQueueEntries now st =
     (let candidateIds = uniq (map rcaTaskId (fst (listRecoveryCandidates st now 10000 None))) in
      rbind (readTaskContext st (taskScope candidateIds) True None) (\<lambda>tree.
      rbind (rfilter (isRunnableOnPassiveResync now tree) (List.map_filter (dget (trResources tree)) candidateIds)) (\<lambda>rs.
      Inr (sort_key (runnableKey tree) (map (\<lambda>r. queueEntry tree now r (tkId r)) rs)))))"

end
