(* ===== verification/Admission_Properties.thy ===== *)
theory Admission_Properties
  imports Task_Admission Commit_Effects
begin

text \<open>
  Properties of admission: the containment of Tasks stays a forest, an admitted input is recorded
  exactly once, and a wake is never lost or recorded twice.
\<close>

section \<open>Containment\<close>

text \<open>The stored parent of a Task, and the Tasks above it.\<close>

definition taskParent :: "task_store \<Rightarrow> string \<Rightarrow> string option" where
  "taskParent st k = Option.bind (readTask st k) (\<lambda>r. if spParentId (tkSpec r) = [] then None else Some (spParentId (tkSpec r)))"

inductive above :: "task_store \<Rightarrow> string \<Rightarrow> string \<Rightarrow> bool" for st where
  parent: "taskParent st a = Some b \<Longrightarrow> above st a b"
| higher: "taskParent st a = Some b \<Longrightarrow> above st b c \<Longrightarrow> above st a c"

text \<open>A walk that ends well has not met the Task.\<close>

lemma parentWalk_meets:
  assumes "above st c k" "c \<noteq> []"
    and "\<And>x. x = c \<or> above st c x \<Longrightarrow> readTask st x \<noteq> None \<Longrightarrow> dget (trResources tree) x = readTask st x"
  shows "parentWalk tree k seen (Some c) \<noteq> Inr ()"
  using assms
proof (induction arbitrary: seen rule: above.induct)
  case (parent a b)
  then have "readTask st a \<noteq> None" "b \<noteq> []" by (auto simp: taskParent_def split: option.splits if_splits bind_splits)
  then have p: "parentAt (trGroups tree) (trResources tree) a = Some b"
    using parent by (auto simp: parentAt_def taskParent_def split: bind_splits if_splits)
  have "parentWalk tree b (a # seen) (Some b) \<noteq> Inr ()" using \<open>b \<noteq> []\<close> by (subst parentWalk.simps) auto
  then show ?case using parent.prems(1) p by (subst parentWalk.simps) auto
next
  case (higher a b c)
  then have "readTask st a \<noteq> None" "b \<noteq> []" by (auto simp: taskParent_def split: option.splits if_splits bind_splits)
  then have p: "parentAt (trGroups tree) (trResources tree) a = Some b"
    using higher by (auto simp: parentAt_def taskParent_def split: bind_splits if_splits)
  have "parentWalk tree c (a # seen) (Some b) \<noteq> Inr ()"
    by (rule higher.IH [OF \<open>b \<noteq> []\<close>]) (use higher in \<open>auto intro: above.intros\<close>)
  then show ?case using higher.prems(1) p by (subst parentWalk.simps) auto
qed

lemma above_trans: "above st a b \<Longrightarrow> above st b c \<Longrightarrow> above st a c"
  by (induction rule: above.induct) (auto intro: above.intros)

lemma above_rewire:
  assumes "\<And>t. t \<noteq> k \<Longrightarrow> taskParent st' t = taskParent st t" and "taskParent st' k = Some p"
    and "p \<noteq> k" and "\<not> above st p k" and "above st' a b"
  shows "above st a b \<or> (a = k \<or> above st a k) \<and> (b = p \<or> above st p b)"
  using assms(5)
proof (induction rule: above.induct)
  case (parent a b)
  then show ?case using assms(1,2) by (cases "a = k") (auto intro: above.parent)
next
  case (higher a b c)
  show ?case
  proof (cases "a = k")
    case True
    with higher.hyps(1) assms(2) have "b = p" by simp
    with True higher.IH assms(3,4) show ?thesis by auto
  next
    case False
    with higher.hyps(1) assms(1) have "taskParent st a = Some b" by simp
    with higher.IH show ?thesis by (auto intro: above.intros)
  qed
qed

lemma rewire_acyclic:
  assumes "\<And>t. t \<noteq> k \<Longrightarrow> taskParent st' t = taskParent st t" and "taskParent st' k = Some p"
    and "p \<noteq> k" and "\<not> above st p k" and "\<And>t. \<not> above st t t"
  shows "\<not> above st' t t"
  using above_rewire [OF assms(1-4), of t t] assms(3-5) above_trans [of st p t k] by auto

section \<open>What admission writes\<close>

lemma specValue_parent: "specValue a = specValue b \<Longrightarrow> spParentId a = spParentId b"
  unfolding specValue_def by (cases a; cases b) simp

lemma observedResource_shape:
  assumes "\<And>r. existing = Some r \<Longrightarrow> tkId r = inId (obIntent input)"
  shows "tkId (observedResource st input existing same (resourceSpec sp) g now) = inId (obIntent input) \<and>
    spParentId (tkSpec (observedResource st input existing same (resourceSpec sp) g now)) = spParentId sp"
proof (cases existing)
  case None
  then show ?thesis by (simp add: observedResource_def createdResource_def Let_def resourceSpec_def)
next
  case (Some r)
  have "specValue (tkSpec r) = specValue (resourceSpec sp) \<Longrightarrow> spParentId (tkSpec r) = spParentId sp"
    by (drule specValue_parent) (simp add: resourceSpec_def)
  with Some assms show ?thesis
    by (cases same) (simp_all add: observedResource_def Let_def, simp_all add: resourceSpec_def)
qed

lemma observeMutation_shape:
  assumes "observeMutation now tree existing r ads = Inr m"
  shows "\<exists>ready. muTasks m = [resourceWrite now tree r ready]" "muDeleteTasks m = []"
  using assms by (auto simp: observeMutation_def Let_def rbind_Inr noMutation_def)

lemma admittedResource_shape:
  assumes "\<And>r. dget (trResources tree) (inId (obIntent input)) = Some r \<Longrightarrow> tkId r = inId (obIntent input)"
  shows "tkId (admittedResource now input key tree st) = inId (obIntent input) \<and>
    spParentId (tkSpec (admittedResource now input key tree st)) = spParentId (inSpec (obIntent input))"
  using observedResource_shape [OF assms, of "dget (trResources tree) (inId (obIntent input))" st "sameSpec input tree"
      "inSpec (obIntent input)" "admittedGeneration input tree" now]
  by (auto simp: admittedResource_def Let_def)

lemma admitIntent_writes:
  assumes "admitIntent now input key tree st = Inr (res, st')"
    and "\<And>r. dget (trResources tree) (inId (obIntent input)) = Some r \<Longrightarrow> tkId r = inId (obIntent input)"
  shows "readTask st' t = (if t = inId (obIntent input) then Some (admittedResource now input key tree st) else readTask st t)"
    and "\<exists>m. commitTaskMutation now m st = Inr st' \<and> muAdmissions m = admittedInput now input key tree \<and>
      muDeleteAdmissions m = [] \<and>
      readTrigger st' (inId (obIntent input)) = dget (trTriggers (admittedTree now input key tree st)) (inId (obIntent input))"
proof -
  obtain m where m: "observeMutation now (admittedTree now input key tree st)
      (dget (trResources tree) (inId (obIntent input))) (admittedResource now input key tree st)
      (admittedInput now input key tree) = Inr m"
    and c: "commitTaskMutation now m st = Inr st'"
    using assms(1) unfolding admitIntent_def Let_def by (elim rbind_InrE) simp
  obtain ready where w: "muTasks m = [resourceWrite now (admittedTree now input key tree st)
      (admittedResource now input key tree st) ready]" using observeMutation_shape(1) [OF m] by blast
  have k: "tkId (admittedResource now input key tree st) = inId (obIntent input)"
    using admittedResource_shape [OF assms(2)] by blast
  note e = commit_one_task [OF c w observeMutation_shape(2) [OF m]]
  show "readTask st' t = (if t = inId (obIntent input) then Some (admittedResource now input key tree st) else readTask st t)"
    using e(1) [of t] k by (simp add: resourceWrite_def)
  have "muAdmissions m = admittedInput now input key tree \<and> muDeleteAdmissions m = []"
    using m by (auto simp: observeMutation_def Let_def rbind_Inr noMutation_def)
  with c e(2) [of "inId (obIntent input)"] k show "\<exists>m. commitTaskMutation now m st = Inr st' \<and>
      muAdmissions m = admittedInput now input key tree \<and> muDeleteAdmissions m = [] \<and>
      readTrigger st' (inId (obIntent input)) = dget (trTriggers (admittedTree now input key tree st)) (inId (obIntent input))"
    by (auto simp: resourceWrite_def)
qed

lemma observeInContext_cases:
  assumes "observeInContext now input key tree st = Inr (res, st')"
  shows "st' = st \<or> validateParentReference tree (inId (obIntent input)) (spParentId (inSpec (obIntent input))) = Inr () \<and>
    admitIntent now input key tree st = Inr (res, st')"
  using assms unfolding observeInContext_def Let_def
  by (elim rbind_InrE) (simp split: option.splits if_splits)

lemma observeNormalized_cases:
  assumes "observeNormalized now input st = Inr (res, st')"
  shows "st' = st \<or> (\<exists>tree. readTaskContext st (observeScope (obIntent input) (trimmed (obAdmissionKey input))) True None = Inr tree \<and>
    validateParentReference tree (inId (obIntent input)) (spParentId (inSpec (obIntent input))) = Inr () \<and>
    admitIntent now input (trimmed (obAdmissionKey input)) tree st = Inr (res, st'))"
proof (cases "readTaskContext st (observeScope (obIntent input) (trimmed (obAdmissionKey input))) True None")
  case (Inl e)
  then show ?thesis using assms by (simp add: observeNormalized_def Let_def split: if_splits)
next
  case (Inr tree)
  then have "st' = st \<or> observeInContext now input (trimmed (obAdmissionKey input)) tree st = Inr (res, st')"
    using assms by (auto simp: observeNormalized_def Let_def split: if_splits)
  then show ?thesis using observeInContext_cases Inr by blast
qed

lemma observe_cases:
  assumes "observeAppTaskIntent now input st = Inr (res, st')"
  obtains (same) "st' = st"
  | (admitted) i tree where "normalizeTaskAgent (obIntent input) = Inr i" "validateIntent i = Inr ()"
      "readTaskContext st (observeScope i (trimmed (obAdmissionKey input))) True None = Inr tree"
      "validateParentReference tree (inId i) (spParentId (inSpec i)) = Inr ()"
      "admitIntent now (input\<lparr>obIntent := i\<rparr>) (trimmed (obAdmissionKey input)) tree st = Inr (res, st')"
proof -
  obtain i where i: "normalizeTaskAgent (obIntent input) = Inr i" "validateIntent i = Inr ()"
    and n: "observeNormalized now (input\<lparr>obIntent := i\<rparr>) st = Inr (res, st')"
    using assms by (auto simp: observeAppTaskIntent_def rbind_Inr)
  from observeNormalized_cases [OF n] i that show thesis by auto
qed

lemma contextReach_above:
  assumes "above st p x" "contextReach st req p" "readTask st x \<noteq> None"
  shows "contextReach st req x"
  using assms
proof (induction rule: above.induct)
  case (parent a b)
  then obtain r where "readTask st a = Some r" "spParentId (tkSpec r) = b" "b \<noteq> []"
    by (auto simp: taskParent_def split: bind_splits if_splits)
  with parent show ?case by (auto simp: relatedIds_def intro: contextReach.related)
next
  case (higher a b c)
  then obtain r where r: "readTask st a = Some r" "spParentId (tkSpec r) = b" "b \<noteq> []"
    by (auto simp: taskParent_def split: bind_splits if_splits)
  from higher.hyps(2) have "readTask st b \<noteq> None"
    by cases (auto simp: taskParent_def split: bind_splits)
  with r higher.prems(1) have "contextReach st req b" by (auto simp: relatedIds_def intro: contextReach.related)
  with higher.IH higher.prems(2) show ?case by blast
qed

text \<open>The validated parent of an intent does not lie below the Task.\<close>

lemma validated_parent_not_below:
  assumes ok: "store_ok st" and tree: "readTaskContext st (observeScope i key) True None = Inr tree"
    and parent: "validateParentReference tree (inId i) (spParentId (inSpec i)) = Inr ()"
    and named: "trim (spParentId (inSpec i)) = spParentId (inSpec i)" "spParentId (inSpec i) \<noteq> []"
  shows "spParentId (inSpec i) \<noteq> inId i \<and> \<not> above st (spParentId (inSpec i)) (inId i)"
proof -
  let ?p = "spParentId (inSpec i)" and ?req = "cleanIds (scTaskIds (observeScope i key))"
  from parent have p: "?p \<noteq> inId i" and walk: "parentWalk tree (inId i) [] (Some ?p) = Inr ()"
    by (auto simp: validateParentReference_def split: if_splits)
  have "\<not> above st ?p (inId i)"
  proof
    assume up: "above st ?p (inId i)"
    then have "readTask st ?p \<noteq> None" by cases (auto simp: taskParent_def split: bind_splits)
    moreover have "?p \<in> set ?req" using named by (force simp: cleanIds_def observeScope_def)
    ultimately have "contextReach st ?req ?p" using named(2) by (simp add: contextReach.named)
    then have "dget (trResources tree) x = readTask st x" if "x = ?p \<or> above st ?p x" "readTask st x \<noteq> None" for x
      using that context_reads [OF ok tree] contextReach_above by blast
    from parentWalk_meets [OF up named(2) this, of "[]"] walk show False by simp
  qed
  with p show ?thesis by simp
qed

text \<open>
  C35. Tasks never contain themselves. If no stored Task lies above itself along the parents of Tasks, then
  none does after a Task intent with a trimmed parent id is observed: the walk up the parents, over the bounded context that
  was read, meets the Task whenever its new parent lies below it, and admission then fails.
\<close>

theorem containment_stays_acyclic:
  assumes "store_reach st" and "\<And>t. \<not> above st t t"
    and "trim (spParentId (inSpec (obIntent input))) = spParentId (inSpec (obIntent input))"
    and "observeAppTaskIntent now input st = Inr (res, st')"
  shows "\<not> above st' t t"
  using assms(4)
proof (cases rule: observe_cases)
  case same
  with assms(2) show ?thesis by simp
next
  case (admitted i tree)
  have ok: "store_ok st" by (rule store_ok_reach [OF assms(1)])
  have spec: "spParentId (inSpec i) = spParentId (inSpec (obIntent input))"
    using admitted(1) by (auto simp: normalizeTaskAgent_def rbind_Inr)
  have ne: "spParentId (inSpec i) \<noteq> []"
    using admitted(2) by (auto simp: validateIntent_def Let_def trim_def split: if_splits)
  have keyed: "\<And>r. dget (trResources tree) (inId i) = Some r \<Longrightarrow> tkId r = inId i"
    using context_stored [OF ok admitted(3)] by blast
  have w: "readTask st' t = (if t = inId i then Some (admittedResource now (input\<lparr>obIntent := i\<rparr>)
      (trimmed (obAdmissionKey input)) tree st) else readTask st t)" for t
    using admitIntent_writes(1) [OF admitted(5), of t] keyed by simp
  have "spParentId (tkSpec (admittedResource now (input\<lparr>obIntent := i\<rparr>) (trimmed (obAdmissionKey input)) tree st)) =
      spParentId (inSpec i)" using admittedResource_shape [of tree "input\<lparr>obIntent := i\<rparr>"] keyed by simp
  then have k: "taskParent st' (inId i) = Some (spParentId (inSpec i))" using w [of "inId i"] ne by (simp add: taskParent_def)
  have other: "taskParent st' t = taskParent st t" if "t \<noteq> inId i" for t using w [of t] that by (simp add: taskParent_def)
  show ?thesis
    using rewire_acyclic [OF other k] validated_parent_not_below [OF ok admitted(3,4)] ne assms(2,3) spec by simp
qed

section \<open>Admission happens once\<close>

lemma commit_expect_missing:
  assumes "commitTaskMutation now m st = Inr st'" "k \<in> set (muExpectMissing m)"
  shows "readTask st k = None"
  using assms by (auto simp: commitTaskMutation_commit commit_def readTask_def list_ex_iff split: if_splits)

lemma admitIntent_absent:
  assumes "admitIntent now input key tree st = Inr (res, st')" "dget (trResources tree) (inId (obIntent input)) = None"
  shows "readTask st (inId (obIntent input)) = None"
proof -
  obtain m where m: "observeMutation now (admittedTree now input key tree st) None
      (admittedResource now input key tree st) (admittedInput now input key tree) = Inr m"
    and c: "commitTaskMutation now m st = Inr st'"
    using assms unfolding admitIntent_def Let_def by (elim rbind_InrE) simp
  have "tkId (admittedResource now input key tree st) = inId (obIntent input)"
    by (rule conjunct1 [OF admittedResource_shape]) (use assms(2) in simp)
  with m have "inId (obIntent input) \<in> set (muExpectMissing m)"
    by (auto simp: observeMutation_def Let_def rbind_Inr noMutation_def)
  with c show ?thesis by (rule commit_expect_missing)
qed

lemma admitIntent_result:
  "admitIntent now input key tree st = Inr (res, st') \<Longrightarrow>
     orTaskId res = inId (obIntent input) \<and> orGeneration res = admittedGeneration input tree"
  unfolding admitIntent_def Let_def by (elim rbind_InrE) auto

lemma context_admissions:
  "readTaskContext st sc hist limit = Inr tree \<Longrightarrow> dget (trAdmissions tree) k =
     (if k \<in> set (scAdmissionIds sc) then readAdmission st k else None)"
proof -
  have "dget (filter (\<lambda>(k, _). P k) d) k = (if P k then dget d k else None)" for P and d :: "(string, task_admission) dict"
    by (induction d) auto
  then show "readTaskContext st sc hist limit = Inr tree \<Longrightarrow> ?thesis"
    by (auto simp: readTaskContext_def Let_def readAdmission_def split: option.splits)
qed

lemma replay_unchanged:
  assumes ok: "store_ok st" and key: "trimmed (obAdmissionKey input) = Some key"
    and ad: "readAdmission st key = Some ad" "readTask st (adTaskId ad) \<noteq> None"
    and obs: "observeAppTaskIntent now input st = Inr (res, st')"
  shows "st' = st \<and> \<not> orChanged res"
proof -
  obtain i where n: "observeNormalized now (input\<lparr>obIntent := i\<rparr>) st = Inr (res, st')"
    using obs by (auto simp: observeAppTaskIntent_def rbind_Inr)
  then obtain tree where tree: "readTaskContext st (observeScope i (Some key)) True None = Inr tree"
    and "st' = st \<and> \<not> orChanged res \<or> observeInContext now (input\<lparr>obIntent := i\<rparr>) (Some key) tree st = Inr (res, st')"
    by (auto simp: observeNormalized_def Let_def key rbind_Inr split: if_splits)
  moreover have False if "admitIntent now (input\<lparr>obIntent := i\<rparr>) (Some key) tree st = Inr (res, st')"
    "adTaskId ad = inId i" "dget (trResources tree) (inId i) = None"
    using admitIntent_absent [OF that(1)] that(2,3) ad(2) by simp
  moreover have "dget (trAdmissions tree) key = Some ad"
    using context_admissions [OF tree, of key] ad(1) by (simp add: observeScope_def)
  ultimately show ?thesis
    by (auto simp: observeInContext_def Let_def rbind_Inr split: if_splits option.splits)
qed

text \<open>
  C36. Admission happens once. When an observation under an admission key changes the store, the key's
  admission names the observed Task, its generation and the input event; and from then on, as long as
  the store is left alone, observing any intent under that key at any time either fails or changes
  nothing.
\<close>

theorem admission_once:
  assumes "store_reach st" "trimmed (obAdmissionKey input) = Some key"
    "observeAppTaskIntent now input st = Inr (res, st')" "st' \<noteq> st"
  shows "(\<exists>ad. readAdmission st' key = Some ad \<and> adTaskId ad = orTaskId res \<and> adTaskGeneration ad = orGeneration res \<and>
      adInputEvent ad = obTrigger input) \<and>
    (\<forall>now2 input2 res2 st2. trimmed (obAdmissionKey input2) = Some key \<and>
      observeAppTaskIntent now2 input2 st' = Inr (res2, st2) \<longrightarrow> st2 = st' \<and> \<not> orChanged res2)"
  using assms(3)
proof (cases rule: observe_cases)
  case same
  with assms(4) show ?thesis by simp
next
  case (admitted i tree)
  have ok: "store_ok st" by (rule store_ok_reach [OF assms(1)])
  have keyed: "\<And>r. dget (trResources tree) (inId (obIntent (input\<lparr>obIntent := i\<rparr>))) = Some r \<Longrightarrow>
      tkId r = inId (obIntent (input\<lparr>obIntent := i\<rparr>))" using context_stored [OF ok admitted(3)] by simp
  note a = admitted(5) [unfolded assms(2)]
  obtain m where m: "commitTaskMutation now m st = Inr st'" "muDeleteAdmissions m = []"
    "muAdmissions m = admittedInput now (input\<lparr>obIntent := i\<rparr>) (Some key) tree"
    using admitIntent_writes(2) [OF a keyed] by blast
  have "key \<noteq> []" using assms(2) by (auto simp: trimmed_def split: option.splits if_splits)
  then obtain ad where ad: "readAdmission st' key = Some ad" "adTaskId ad = inId i"
    "adTaskGeneration ad = admittedGeneration (input\<lparr>obIntent := i\<rparr>) tree" "adInputEvent ad = obTrigger input"
    using commit_ledger(2) [OF m(1)] m(2,3)
    by (simp add: readAdmission_def admissionsAfter_def admittedInput_def Let_def admissionOf_def)
  have "readTask st' (adTaskId ad) \<noteq> None" using admitIntent_writes(1) [OF a keyed, of "inId i"] ad(2) by simp
  moreover have "store_ok st'" by (rule store_ok_reach [OF commitTaskMutation_reach [OF assms(1) m(1)]])
  ultimately show ?thesis using ad admitIntent_result [OF a] replay_unchanged [of st' _ key ad] by auto
qed

section \<open>Historical Tasks\<close>

text \<open>
  A Task stored before creators were recorded has none, and \<open>observeAppTaskIntent\<close> fills in the
  creator of every Task it revises. The store refuses a changed creator, so such a Task can never be
  revised: not even its responsible App can give it another Agent, workflow or executor.
\<close>

lemma historical_task_never_revised:
  assumes "store_ok st" "readTaskContext st sc hist limit = Inr tree"
    "dget (trResources tree) (inId (obIntent input)) = Some r" "tkCreator r = None" "\<not> sameSpec input tree"
  shows "admitIntent now input key tree st \<noteq> Inr (res, st')"
proof
  assume a: "admitIntent now input key tree st = Inr (res, st')"
  let ?r = "admittedResource now input key tree st"
  have stored: "readTask st (inId (obIntent input)) = Some r" "tkId r = inId (obIntent input)"
    using context_stored [OF assms(1,2,3)] by simp_all
  obtain m where m: "observeMutation now (admittedTree now input key tree st) (Some r) ?r (admittedInput now input key tree) = Inr m"
    and c: "commitTaskMutation now m st = Inr st'"
    using a assms(3) unfolding admitIntent_def Let_def by (elim rbind_InrE) simp
  obtain ready where w: "muTasks m = [resourceWrite now (admittedTree now input key tree st) ?r ready]"
    using observeMutation_shape(1) [OF m] by blast
  have "admitWrites st m (muTasks m) = Inr True"
    using c by (auto simp: commitTaskMutation_commit commit_def rbind_Inr split: if_splits)
  moreover have "tkId ?r = inId (obIntent input)"
    by (rule conjunct1 [OF admittedResource_shape]) (use assms(3) stored(2) in simp)
  ultimately have "tkCreator ?r = tkCreator r"
    using admitWrites_creator [of st m "muTasks m" "resourceWrite now (admittedTree now input key tree st) ?r ready" r] w stored(1)
    by (simp add: resourceWrite_def)
  moreover have "tkCreator ?r \<noteq> None"
    using assms(3,5) by (simp add: admittedResource_def observedResource_def Let_def)
  ultimately show False using assms(4) by simp
qed

section \<open>A demonstration\<close>

definition forestTree :: task_tree where
  "forestTree = emptyTree\<lparr>trProject := Some ''demo'',
     trGroups := [(''root'', \<lparr>grId = ''root'', grParentId = Some None, grOwner = None\<rparr>)],
     trResources := [(''a'', blankTask ''a'')]\<rparr>"

definition forestStore :: task_store where
  "forestStore = (case bootstrapSnapshot 0 forestTree [] (emptyStore ''demo'') of Inr st \<Rightarrow> st | Inl _ \<Rightarrow> emptyStore ''demo'')"

definition forestInput :: observe_input where
  "forestInput = \<lparr>obIntent = \<lparr>inId = ''b'', inSpec = blankSpec\<lparr>spParentId := ''a''\<rparr>\<rparr>, obAppAgent = ''agent'',
     obTrigger = Some [(''eventId'', JNum (num_int 7)), (''type'', JStr ''app.task.requested'')],
     obAdmissionKey = Some ''ask-1'', obCreator = None, obCreatorRevision = False\<rparr>"

definition afterObserve :: "int \<Rightarrow> observe_input \<Rightarrow> task_store \<Rightarrow> task_store" where
  "afterObserve now input st = (case observeAppTaskIntent now input st of Inr (_, st') \<Rightarrow> st' | Inl _ \<Rightarrow> st)"

lemma forestStore_reach: "store_reach forestStore"
proof -
  have "fromDb ''demo'' = Inr (emptyStore ''demo'')" by code_simp
  moreover have "bootstrapSnapshot 0 forestTree [] (emptyStore ''demo'') = Inr forestStore" by code_simp
  ultimately show ?thesis by (blast intro: store_reach.start store_reach.step store_step.seeded)
qed

lemma forest_observes:
  "observeAppTaskIntent 5 forestInput forestStore =
     Inr (\<lparr>orTaskId = ''b'', orGeneration = 1, orChanged = True\<rparr>, afterObserve 5 forestInput forestStore)"
  by code_simp

lemma forest_parents: "taskParent forestStore t = (if t = ''a'' then Some ''root'' else None)"
proof -
  have "dkeys (stTasks forestStore) = [''a'']" by code_simp
  then have "t \<noteq> ''a'' \<Longrightarrow> dget (stTasks forestStore) t = None" by (simp add: dget_None_iff)
  moreover have "taskParent forestStore ''a'' = Some ''root''" by code_simp
  ultimately show ?thesis by (auto simp: taskParent_def readTask_def)
qed

lemma forest_acyclic: "\<not> above forestStore t t"
proof
  assume "above forestStore t t"
  then show False
  proof cases
    case parent
    then show ?thesis by (simp add: forest_parents split: if_splits)
  next
    case (higher b)
    then have "above forestStore ''root'' ''a''" by (simp add: forest_parents split: if_splits)
    then show ?thesis by cases (simp_all add: forest_parents)
  qed
qed

theorem containment_stays_acyclic_witness:
  "(\<forall>t. \<not> above (afterObserve 5 forestInput forestStore) t t) \<and>
   taskParent (afterObserve 5 forestInput forestStore) ''b'' = Some ''a''"
proof -
  have "taskParent (afterObserve 5 forestInput forestStore) ''b'' = Some ''a''" by code_simp
  moreover have "trim (spParentId (inSpec (obIntent forestInput))) = spParentId (inSpec (obIntent forestInput))" by code_simp
  ultimately show ?thesis
    using containment_stays_acyclic [OF forestStore_reach forest_acyclic _ forest_observes] by blast
qed

theorem admission_once_witness:
  "observeAppTaskIntent 5 forestInput forestStore \<noteq> Inr (\<lparr>orTaskId = ''b'', orGeneration = 1, orChanged = True\<rparr>, forestStore) \<and>
   (\<exists>ad. readAdmission (afterObserve 5 forestInput forestStore) ''ask-1'' = Some ad \<and> adTaskId ad = ''b'')"
proof -
  have changed: "afterObserve 5 forestInput forestStore \<noteq> forestStore" by code_simp
  have key: "trimmed (obAdmissionKey forestInput) = Some ''ask-1''" by code_simp
  from admission_once [OF forestStore_reach key forest_observes changed] show ?thesis
    using changed forest_observes by auto
qed

end
