(* ===== verification/Output_Paths.thy ===== *)
theory Output_Paths
  imports Js_Value
begin

text \<open>
  Declared Task outputs (\<open>core/tasks/app-task-output-paths.ts\<close>): every output is resolved against the
  domain workspace and must stay below the App or the domain root, symbolic links followed.

  An absolute path is the list of its segments, which is what \<open>resolve\<close> of \<open>node:path\<close> (POSIX) computes:
  no empty segment, no \<open>.\<close> and no \<open>..\<close>. The file system is a parameter: which paths exist, and the real
  path of an existing one.
\<close>

type_synonym abs_path = "string list"

record file_system =
  fsExists :: "abs_path \<Rightarrow> bool"
  fsRealpath :: "abs_path \<Rightarrow> abs_path"

section \<open>Paths\<close>

fun splitSlash :: "string \<Rightarrow> string list" where
  "splitSlash [] = [[]]"
| "splitSlash (c # cs) =
     (if c = CHR ''/'' then [] # splitSlash cs
      else case splitSlash cs of [] \<Rightarrow> [[c]] | s # ss \<Rightarrow> (c # s) # ss)"

definition isAbsolute :: "string \<Rightarrow> bool" where
  "isAbsolute p = starts_with p ''/''"

definition stepInto :: "abs_path \<Rightarrow> string \<Rightarrow> abs_path" where
  "stepInto p seg = (if seg = [] \<or> seg = ''.'' then p else if seg = ''..'' then butlast p else p @ [seg])"

text \<open>\<open>resolve(base, path)\<close>: an absolute path starts over.\<close>

definition resolveFrom :: "abs_path \<Rightarrow> string \<Rightarrow> abs_path" where
  "resolveFrom base p = foldl stepInto (if isAbsolute p then [] else base) (splitSlash p)"

fun joinSlash :: "string list \<Rightarrow> string" where
  "joinSlash [] = []"
| "joinSlash [s] = s"
| "joinSlash (s # ss) = s @ ''/'' @ joinSlash ss"

text \<open>\<open>relative(from, to)\<close>: up to the common ancestor, then down.\<close>

fun relativePath :: "abs_path \<Rightarrow> abs_path \<Rightarrow> string" where
  "relativePath (r # rs) (c # cs) =
     (if r = c then relativePath rs cs else joinSlash (replicate (length (r # rs)) ''..'' @ c # cs))"
| "relativePath [] cs = joinSlash cs"
| "relativePath (r # rs) [] = joinSlash (replicate (length (r # rs)) ''..'')"

section \<open>Canonical paths\<close>

text \<open>The nearest existing ancestor, and the segments below it.\<close>

function existingAncestor :: "file_system \<Rightarrow> abs_path \<Rightarrow> string list \<Rightarrow> abs_path \<times> string list" where
  "existingAncestor fs cursor suffix =
     (if fsExists fs cursor \<or> cursor = [] then (cursor, suffix)
      else existingAncestor fs (butlast cursor) (last cursor # suffix))"
  by pat_completeness auto
termination by (relation "measure (\<lambda>(_, cursor, _). length cursor)") auto

declare existingAncestor.simps [simp del]

definition canonicalExistingPath :: "file_system \<Rightarrow> abs_path \<Rightarrow> abs_path" where
  "canonicalExistingPath fs path =
     (case existingAncestor fs path [] of (cursor, suffix) \<Rightarrow>
        (if fsExists fs cursor then fsRealpath fs cursor else cursor) @ suffix)"

definition isWithin :: "abs_path \<Rightarrow> abs_path \<Rightarrow> bool" where
  "isWithin dir candidate \<longleftrightarrow>
     (let fromRoot = relativePath dir candidate
      in fromRoot = [] \<or> \<not> starts_with fromRoot ''..'' \<and> \<not> isAbsolute fromRoot)"

record execution_paths =
  epAppDir :: abs_path
  epProjectDir :: abs_path
  epWorkspaceDir :: abs_path

definition appTaskExecutionPaths :: "file_system \<Rightarrow> abs_path \<Rightarrow> string \<Rightarrow> string \<Rightarrow> execution_paths" where
  "appTaskExecutionPaths fs cwd appDir projectDir =
     \<lparr>epAppDir = canonicalExistingPath fs (resolveFrom cwd appDir),
      epProjectDir = canonicalExistingPath fs (resolveFrom cwd projectDir),
      epWorkspaceDir = canonicalExistingPath fs (resolveFrom cwd appDir)\<rparr>"

definition withAppTaskWorkspace :: "file_system \<Rightarrow> abs_path \<Rightarrow> execution_paths \<Rightarrow> string \<Rightarrow> execution_paths" where
  "withAppTaskWorkspace fs cwd paths workspaceDir =
     paths\<lparr>epWorkspaceDir := canonicalExistingPath fs (resolveFrom cwd workspaceDir)\<rparr>"

definition resolveOutput ::
  "file_system \<Rightarrow> abs_path list \<Rightarrow> abs_path \<Rightarrow> string \<Rightarrow> string \<Rightarrow> string \<Rightarrow> abs_path result" where
  "resolveOutput fs roots cwd projectDir label raw =
     (let candidate = canonicalExistingPath fs (resolveFrom (resolveFrom cwd projectDir) raw) in
      if trim raw = [] then Inl (label @ '' must be a non-empty path'')
      else if \<not> list_ex (\<lambda>dir. isWithin dir candidate) roots
      then Inl (label @ '' escapes the app/domain roots: '' @ raw)
      else Inr candidate)"

fun resolveOutputs ::
  "file_system \<Rightarrow> abs_path list \<Rightarrow> abs_path \<Rightarrow> string \<Rightarrow> (nat \<Rightarrow> string) \<Rightarrow> nat \<Rightarrow> string list \<Rightarrow> abs_path list result" where
  "resolveOutputs fs roots cwd projectDir label i [] = Inr []"
| "resolveOutputs fs roots cwd projectDir label i (raw # rest) =
     rbind (resolveOutput fs roots cwd projectDir (label i) raw) (\<lambda>p.
     rbind (resolveOutputs fs roots cwd projectDir label (Suc i) rest) (\<lambda>ps. Inr (p # ps)))"

definition outputRoots :: "file_system \<Rightarrow> abs_path \<Rightarrow> string \<Rightarrow> string \<Rightarrow> abs_path list" where
  "outputRoots fs cwd appDir projectDir =
     uniq [canonicalExistingPath fs (resolveFrom cwd appDir), canonicalExistingPath fs (resolveFrom cwd projectDir)]"

definition outputLabel :: "nat \<Rightarrow> string" where
  "outputLabel i = ''outputs['' @ show_nat i @ '']''"

definition resolveAppTaskOutputPaths ::
  "file_system \<Rightarrow> abs_path \<Rightarrow> string list \<Rightarrow> string \<Rightarrow> string \<Rightarrow> abs_path list result" where
  "resolveAppTaskOutputPaths fs cwd outputs appDir projectDir =
     resolveOutputs fs (outputRoots fs cwd appDir projectDir) cwd projectDir outputLabel 0 outputs"

section \<open>Confinement\<close>

lemma joinSlash_dots: "starts_with (joinSlash (''..'' # ss)) ''..''"
  by (cases ss) (simp_all add: starts_with_def)

lemma relativePath_within:
  "\<not> starts_with (relativePath dir candidate) ''..'' \<Longrightarrow> \<exists>below. candidate = dir @ below"
proof (induction dir candidate rule: relativePath.induct)
  case (1 r rs c cs)
  show ?case
  proof (cases "r = c")
    case True
    with 1 show ?thesis by auto
  next
    case False
    have "starts_with (relativePath (r # rs) (c # cs)) ''..''"
      using False joinSlash_dots [of "replicate (length rs) ''..'' @ c # cs"] by simp
    with 1(2) show ?thesis by simp
  qed
next
  case (2 cs)
  then show ?case by simp
next
  case (3 r rs)
  then show ?case using joinSlash_dots [of "replicate (length rs) ''..''"] by simp
qed

text \<open>
  C37. Outputs are confined. Whatever the file system holds, every path that output resolution accepts
  lies at or below the canonical App or domain directory.
\<close>

theorem outputs_confined:
  assumes "resolveAppTaskOutputPaths fs cwd outputs appDir projectDir = Inr paths"
  shows "length paths = length outputs \<and>
    (\<forall>p \<in> set paths. \<exists>dir \<in> {canonicalExistingPath fs (resolveFrom cwd appDir), canonicalExistingPath fs (resolveFrom cwd projectDir)}.
       \<exists>below. p = dir @ below)"
proof -
  let ?roots = "outputRoots fs cwd appDir projectDir"
  have within: "isWithin dir c \<Longrightarrow> \<exists>below. c = dir @ below" for dir c
    using relativePath_within [of dir c] by (auto simp: isWithin_def Let_def starts_with_def)
  have "length paths = length outputs \<and> (\<forall>p \<in> set paths. \<exists>dir \<in> set ?roots. isWithin dir p)"
    if "resolveOutputs fs ?roots cwd projectDir label i outputs = Inr paths" for label i
    using that
  proof (induction outputs arbitrary: i paths)
    case (Cons raw outputs)
    then obtain p ps where "resolveOutput fs ?roots cwd projectDir (label i) raw = Inr p"
      "resolveOutputs fs ?roots cwd projectDir label (Suc i) outputs = Inr ps" "paths = p # ps"
      by (auto simp: rbind_Inr)
    with Cons.IH [of "Suc i" ps] show ?case
      by (auto simp: resolveOutput_def Let_def list_ex_iff split: if_splits)
  qed simp
  from this [OF assms [unfolded resolveAppTaskOutputPaths_def]] have n: "length paths = length outputs"
    and w: "\<And>p. p \<in> set paths \<Longrightarrow> \<exists>dir \<in> set ?roots. isWithin dir p" by auto
  have "set ?roots = {canonicalExistingPath fs (resolveFrom cwd appDir), canonicalExistingPath fs (resolveFrom cwd projectDir)}"
    unfolding outputRoots_def set_uniq by simp
  with n w within show ?thesis by metis
qed

definition demoFs :: file_system where
  "demoFs = \<lparr>fsExists = (\<lambda>p. length p \<le> 2), fsRealpath = (\<lambda>p. if p = [''srv'', ''link''] then [''data'', ''app''] else p)\<rparr>"

theorem outputs_confined_witness:
  "\<exists>below. [''data'', ''app'', ''report.md''] = canonicalExistingPath demoFs (resolveFrom [] ''/srv/link'') @ below"
proof -
  have "resolveAppTaskOutputPaths demoFs [] [''out/../report.md''] ''/srv/link'' ''/srv/link'' =
    Inr [[''data'', ''app'', ''report.md'']]" by code_simp
  from outputs_confined [OF this] show ?thesis by simp
qed

end
