(* ===== verification/Task_Claim.thy ===== *)
theory Task_Claim
  imports Commit_Effects Output_Paths
begin

text \<open>
  Claiming a Task for execution (\<open>app-task-reconciler.ts\<close>, \<open>claimObservedAppTask\<close>) and the allowance of
  consecutive failures it is checked against.

  The callbacks of the claim, the runtime's identity, fresh identifiers and the file system are
  parameters, collected in \<open>claim_env\<close>.
\<close>

section \<open>The failure allowance\<close>

definition previousRetryAttempt :: "task_store \<Rightarrow> string \<Rightarrow> string option" where
  "previousRetryAttempt st taskId =
     (case sort_key (\<lambda>c. - int (ctAppliedVersion c)) (filter (\<lambda>c. ctTaskId c = taskId \<and> ctAction c = CtlRetry) (dvals (stControls st))) of
        [] \<Rightarrow> None
      | c # _ \<Rightarrow> asString (jget (ctResult c) ''previousAttemptId''))"

definition isFailedExecution :: "task_attempt \<Rightarrow> bool" where
  "isFailedExecution a \<longleftrightarrow> atState a = AFailed \<or>
     atState a = ACompleted \<and> map_option arState (atAcceptedResult a) = Some RIncomplete"

definition readLegacyExecutionFailureSequence :: "task_store \<Rightarrow> string \<Rightarrow> nat \<Rightarrow> nat option \<times> string option" where
  "readLegacyExecutionFailureSequence st taskId maximum =
     (if maximum = 0 then (None, None)
      else
        (let rows = take maximum (rev (filter (\<lambda>a. atTaskId a = taskId \<and>
               (atState a \<in> {AFailed, ACompleted} \<or> atFailureReason a = Some ''owner-stopped'')) (dvals (stAttempts st))));
             failed = takeWhile (\<lambda>a. Some (atId a) \<noteq> previousRetryAttempt st taskId \<and> isFailedExecution a) rows
         in case failed of [] \<Rightarrow> (None, None) | a # _ \<Rightarrow> (Some (length failed), Some (atId a))))"

text \<open>The consecutive failures of a Task and the attempt that failed last.\<close>

definition executionFailureSequence :: "task_store \<Rightarrow> task_resource \<Rightarrow> nat option \<times> string option" where
  "executionFailureSequence st r =
     (case tkExecutionFailureAttemptId r of
        Some i \<Rightarrow> (tkExecutionFailures r, i)
      | None \<Rightarrow>
          (case tkRetryExhausted r of
             Some e \<Rightarrow> (Some (reFailures e), Some (reAttemptId e))
           | None \<Rightarrow> readLegacyExecutionFailureSequence st (tkId r)
               (case tkExecutionFailures r of Some n \<Rightarrow> n | None \<Rightarrow> 0)))"

definition countOr :: "nat option \<Rightarrow> nat" where
  "countOr n = (case n of Some k \<Rightarrow> k | None \<Rightarrow> 0)"

text \<open>A failure of \<open>attempt\<close>: the mark it leaves on the attempt, and the status of its Task.\<close>

definition failureMark :: "task_context \<Rightarrow> task_store \<Rightarrow> task_resource \<Rightarrow> task_attempt \<Rightarrow> int \<Rightarrow> retry_exhaustion option" where
  "failureMark cx st r a now =
     (let failures = countOr (fst (executionFailureSequence st r)) + 1;
          limit = (case tkRetryExhausted r of Some e \<Rightarrow> Limit (reLimit e) | None \<Rightarrow> failureLimit cx)
      in case limit of
           Unlimited \<Rightarrow> atRetryExhausted a
         | Limit n \<Rightarrow> if n \<le> failures
             then Some \<lparr>reGeneration = atTaskGeneration a, reAttemptId = atId a, reFailures = failures,
                        reLimit = n, reExhaustedAt = now\<rparr>
             else atRetryExhausted a)"

definition exhaustsAllowance :: "task_context \<Rightarrow> task_store \<Rightarrow> task_resource \<Rightarrow> bool" where
  "exhaustsAllowance cx st r =
     (case (case tkRetryExhausted r of Some e \<Rightarrow> Limit (reLimit e) | None \<Rightarrow> failureLimit cx) of
        Unlimited \<Rightarrow> False
      | Limit n \<Rightarrow> n \<le> countOr (fst (executionFailureSequence st r)) + 1)"

definition failedExecutionState ::
  "task_context \<Rightarrow> task_store \<Rightarrow> task_resource \<Rightarrow> task_attempt \<Rightarrow> int \<Rightarrow> task_resource \<Rightarrow> task_resource" where
  "failedExecutionState cx st r0 a now r =
     (let failures = countOr (fst (executionFailureSequence st r0)) + 1;
          exhausted = exhaustsAllowance cx st r0
      in r\<lparr>tkPhase := (if exhausted then PhAttention else PhPending), tkExecutionFailures := Some failures,
           tkExecutionFailureAttemptId := Some (Some (atId a)), tkRetryExhausted := failureMark cx st r0 a now,
           tkExecutionRetryAt := (if exhausted \<or> tkFreshHumanInput r0 then None
             else Some (num_int (now + taskExecutionRetryDelay (int failures))))\<rparr>)"

definition refOf :: "string \<Rightarrow> task_attempt \<Rightarrow> claim_ref" where
  "refOf taskId a = \<lparr>cfTaskId = taskId, cfAttemptId = atId a, cfGeneration = atTaskGeneration a\<rparr>"

definition blankResult :: result_input where
  "blankResult = \<lparr>riSummary = [], riResponse = None, riResult = None, riReviewAt = None, riFacts = None,
     riAcceptedLiveEventIds = None, riInputKeys = None, riReport = False\<rparr>"

definition normalizeFailures :: "task_store \<Rightarrow> task_resource \<Rightarrow> task_resource \<Rightarrow> task_resource" where
  "normalizeFailures st r0 r = r\<lparr>tkExecutionFailures := fst (executionFailureSequence st r0),
     tkExecutionFailureAttemptId := Some (snd (executionFailureSequence st r0))\<rparr>"

text \<open>The failed attempt whose exhaustion is recorded when the allowance was lowered.\<close>

definition failedReference :: "task_store \<Rightarrow> task_resource \<Rightarrow> task_attempt result" where
  "failedReference st r =
     (case Option.bind (whenText (snd (executionFailureSequence st r))) (readAttempt st) of
        Some a \<Rightarrow> if atTaskId a \<noteq> tkId r \<or> \<not> isFailedExecution a
          then Inl (''Task '' @ tkId r @ '' has an invalid execution failure reference'') else Inr a
      | None \<Rightarrow> Inl (''Task '' @ tkId r @ '' has an invalid execution failure reference''))"

definition withinAllowance :: "task_context \<Rightarrow> task_store \<Rightarrow> task_resource \<Rightarrow> bool" where
  "withinAllowance cx st r \<longleftrightarrow> tkRetryExhausted r \<noteq> None \<or> whenText (tkCurrentAttemptId r) \<noteq> None \<or>
     (case failureLimit cx of Unlimited \<Rightarrow> True | Limit n \<Rightarrow> countOr (fst (executionFailureSequence st r)) < n)"

definition exhaustedTree :: "task_context \<Rightarrow> task_store \<Rightarrow> int \<Rightarrow> task_resource \<Rightarrow> task_attempt \<Rightarrow> task_tree \<Rightarrow>
    (task_tree \<times> (string \<times> task_admission) list) result" where
  "exhaustedTree cx st now r a tree =
     (let mark = \<lparr>reGeneration = atTaskGeneration a, reAttemptId = atId a,
            reFailures = countOr (fst (executionFailureSequence st r)),
            reLimit = (case failureLimit cx of Limit n \<Rightarrow> n | Unlimited \<Rightarrow> 0), reExhaustedAt = now\<rparr>;
          a' = a\<lparr>atRetryExhausted := Some mark, atVersion := atVersion a + 1\<rparr>;
          tree1 = tree\<lparr>trAttempts := dset (trAttempts tree) (atId a) a'\<rparr>
      in rbind (inputOutcomeAdmissions st (refOf (tkId r) a') (blankResult\<lparr>riReport := True,
             riInputKeys := Option.bind (atAcceptedResult a) arInputKeys\<rparr>) (KFeedback RFailure) tree1) (\<lambda>(_, writes, tree2).
         Inr (updResource (tkId r) (touchResource now (\<lambda>r1. (normalizeFailures st r r1)\<lparr>tkPhase := PhAttention,
             tkRetryExhausted := Some mark, tkExecutionRetryAt := None,
             tkSummary := Some (''Automatic retries exhausted under current policy; owner repair or explicit retry required. '' @
               (case atSummary a of Some s \<Rightarrow> s | None \<Rightarrow> []))\<rparr>)) tree2, writes)))"

definition exhaustRetainedFailures ::
  "task_context \<Rightarrow> int \<Rightarrow> task_tree \<Rightarrow> task_resource \<Rightarrow> task_store \<Rightarrow> task_store option result" where
  "exhaustRetainedFailures cx now tree r st =
     (if withinAllowance cx st r
      then if tkExecutionFailureAttemptId r \<noteq> None then Inr None
           else rbind (finishResourceMutationScope now (beginResourceMutationScopeForTasks tree [tkId r])
               (updResource (tkId r) (touchResource now (normalizeFailures st r)) tree)) (\<lambda>m.
             rbind (commitTaskMutation now m st) (\<lambda>st'. Inr (Some st')))
      else rbind (failedReference st r) (\<lambda>a.
        let tree0 = tree\<lparr>trAttempts := dset (trAttempts tree) (atId a) a\<rparr> in
        rbind (exhaustedTree cx st now r a tree0) (\<lambda>(tree', writes).
        rbind (finishResourceMutationScope now (beginResourceMutationScopeForTasks tree0 [tkId r]) tree') (\<lambda>m.
        rbind (commitTaskMutation now (m\<lparr>muAdmissions := writes\<rparr>) st) (\<lambda>st'. Inr (Some st'))))))"

section \<open>The event batch of an attempt\<close>

definition MAX_TASK_EVENTS_PER_ATTEMPT :: nat where
  "MAX_TASK_EVENTS_PER_ATTEMPT = 32"

definition unacceptedEvents :: "task_attempt option \<Rightarrow> trigger_event list" where
  "unacceptedEvents previous =
     (case previous of
        None \<Rightarrow> []
      | Some a \<Rightarrow> if atState a \<noteq> ACompleted \<and> atFailureReason a \<noteq> Some ''owner-stopped'' then attemptEvents a else [])"

definition pendingClaimEvents :: "task_attempt option \<Rightarrow> task_trigger option \<Rightarrow> trigger_event list" where
  "pendingClaimEvents previous trigger =
     foldl (\<lambda>es e. appendTaskTriggerEvent es (teEvent e) (teObservedAt e)) (unacceptedEvents previous)
       (case trigger of None \<Rightarrow> [] | Some t \<Rightarrow> taskTriggerEvents t)"

definition isHumanEvent :: "trigger_event \<Rightarrow> bool" where
  "isHumanEvent e \<longleftrightarrow> taskTriggerLane (Some (teEvent e)) = Human"

definition isCorrection :: "trigger_event \<Rightarrow> bool" where
  "isCorrection e \<longleftrightarrow> rget (teEvent e) ''type'' = JStr ''app.task.requested'' \<and> isHumanEvent e"

text \<open>The batch is chosen by position: humans first, and an exhausted Task's latest correction always.\<close>

definition firstSelection :: "trigger_event list \<Rightarrow> nat list" where
  "firstSelection es =
     take MAX_TASK_EVENTS_PER_ATTEMPT (sort_key (\<lambda>i. if isHumanEvent (es ! i) then 0 else 1 :: nat) [0..<length es])"

definition correctionIndex :: "task_resource \<Rightarrow> trigger_event list \<Rightarrow> nat option" where
  "correctionIndex r es =
     (if tkRetryExhausted r \<noteq> None \<and> tkFreshHumanInput r
      then (case filter (\<lambda>i. isCorrection (es ! i)) [0..<length es] of [] \<Rightarrow> None | is \<Rightarrow> Some (last is))
      else None)"

definition selectedEvents :: "task_resource \<Rightarrow> trigger_event list \<Rightarrow> nat list" where
  "selectedEvents r es =
     (let selected = firstSelection es in
      case correctionIndex r es of
        None \<Rightarrow> selected
      | Some c \<Rightarrow>
          if c \<in> set selected then selected
          else if MAX_TASK_EVENTS_PER_ATTEMPT \<le> length selected then butlast selected @ [c]
          else selected @ [c])"

definition claimedEvents :: "task_resource \<Rightarrow> trigger_event list \<Rightarrow> trigger_event list" where
  "claimedEvents r es = map (\<lambda>i. es ! i) (filter (\<lambda>i. i \<in> set (selectedEvents r es)) [0..<length es])"

definition remainingEvents :: "task_resource \<Rightarrow> trigger_event list \<Rightarrow> trigger_event list" where
  "remainingEvents r es = map (\<lambda>i. es ! i) (filter (\<lambda>i. i \<notin> set (selectedEvents r es)) [0..<length es])"

section \<open>Claiming\<close>

record session_handoff =
  hoSummary :: string
  hoFacts :: "string list"

record claim_env =
  ceFs :: file_system
  ceCwd :: abs_path
  ceRuntimeId :: string
  ceUuid :: string
  ceLeaseId :: string
  ceIsAgentRunnable :: "(string \<Rightarrow> bool) option"
  ceRecoverPreviousSession :: "(task_attempt \<Rightarrow> bool) option"
  ceRecoverSessionHandoff :: "task_attempt option \<Rightarrow> session_handoff option"

record claim_input =
  clTaskId :: string
  clAppAgent :: string
  clHandler :: string
  clReason :: "string option"

record app_task_claim =
  acTaskId :: string
  acGeneration :: nat
  acVersion :: nat
  acSpecHash :: spec_hash
  acAttemptId :: string
  acAgent :: string
  acHandler :: string
  acIntent :: task_intent
  acEvents :: "trigger_event list"
  acEventsTruncated :: bool
  acContinuedInputKeys :: "string list"
  acPreviousAttempt :: "previous_attempt option"
  acTrigger :: js_record
  acDeclaredOutputPaths :: "abs_path list"
  acHandoff :: "session_handoff option"

datatype claim_result =
    Claimed app_task_claim
  | Busy string "string option"
  | Waiting string "string list" "string list" "jsnum option"
  | Attention string nat string
  | CompletedTask string nat

definition claimRef :: "app_task_claim \<Rightarrow> claim_ref" where
  "claimRef c = \<lparr>cfTaskId = acTaskId c, cfAttemptId = acAttemptId c, cfGeneration = acGeneration c\<rparr>"

definition claimHandler :: "string \<Rightarrow> task_spec \<Rightarrow> string \<Rightarrow> string" where
  "claimHandler handler sp agent =
     (if handler = ''auto''
      then case trimmed (spWorkflow sp) of
          Some w \<Rightarrow> ''workflow:'' @ w
        | None \<Rightarrow> (case whenText (spExecutor sp) of
            Some e \<Rightarrow> if e \<noteq> ''agent'' then ''executor:'' @ e else managedAgentHandler agent
          | None \<Rightarrow> managedAgentHandler agent)
      else if handler = ''agent'' \<or> handler = ''owner'' then managedAgentHandler agent
      else handler)"

text \<open>Why the Task cannot be executed as it stands: its outputs escape, or its Agent cannot run.\<close>

definition claimAdmission :: "task_context \<Rightarrow> claim_env \<Rightarrow> task_spec \<Rightarrow> string \<Rightarrow> abs_path list result" where
  "claimAdmission cx env sp agent =
     (case resolveAppTaskOutputPaths (ceFs env) (ceCwd env) (listOr (spOutputs sp)) (cxAppDir cx) (cxProjectDir cx) of
        Inl e \<Rightarrow> Inl (''Task output admission failed: '' @ e)
      | Inr paths \<Rightarrow>
          (case ceIsAgentRunnable env of
             Some ok \<Rightarrow> if \<not> ok agent then Inl (''Resolved agent '' @ agent @ '' is not a runnable agent'') else Inr paths
           | None \<Rightarrow> Inr paths))"

text \<open>A running Task without a running attempt is pending again.\<close>

definition missingAttemptSummary :: "string \<Rightarrow> string option \<Rightarrow> string" where
  "missingAttemptSummary taskId attemptId =
     (case whenText attemptId of
        Some i \<Rightarrow> ''Running reconciliation '' @ taskId @ '' referenced missing or non-running attempt '' @ i @
          ''; retrying from current task facts''
      | None \<Rightarrow> ''Running reconciliation '' @ taskId @ '' had no current attempt; retrying from current task facts'')"

definition markMissingAttempt :: "string \<Rightarrow> int \<Rightarrow> task_attempt \<Rightarrow> task_attempt" where
  "markMissingAttempt summary now a =
     a\<lparr>atVersion := atVersion a + 1, atFailureReason := Some ''running-without-current-attempt-requeued'',
       atSummary := Some summary, atFinishedAt := Some (case atFinishedAt a of Some t \<Rightarrow> t | None \<Rightarrow> now)\<rparr>"

definition requeueWithoutAttempt :: "string \<Rightarrow> int \<Rightarrow> task_resource \<Rightarrow> task_tree \<Rightarrow> task_tree" where
  "requeueWithoutAttempt taskId now r tree =
     (let summary = missingAttemptSummary taskId (tkCurrentAttemptId r);
          tree1 = (case whenText (tkCurrentAttemptId r) of
            Some i \<Rightarrow> updAttempt i (markMissingAttempt summary now) tree | None \<Rightarrow> tree)
      in updResource taskId (touchResource now (\<lambda>r. r\<lparr>tkPhase := PhPending, tkCurrentAttemptId := None,
           tkSummary := Some summary\<rparr>)) tree1)"

definition canRecoverRuntime :: "claim_env \<Rightarrow> claim_input \<Rightarrow> task_attempt option \<Rightarrow> bool" where
  "canRecoverRuntime env input previous =
     (case previous of
        None \<Rightarrow> False
      | Some a \<Rightarrow> atRuntimeId a \<noteq> ceRuntimeId env \<and>
          (clReason input = Some (''attempt-recovery:'' @ clTaskId input) \<or> attemptTrigger a \<noteq> None))"

text \<open>The session of an attempt of an earlier runtime is drained before its Task changes hands.\<close>

definition drainSession :: "claim_env \<Rightarrow> task_attempt \<Rightarrow> unit result" where
  "drainSession env a =
     (if whenText (atSessionId a) = None then Inr ()
      else case ceRecoverPreviousSession env of
          None \<Rightarrow> Inl ''Task session recovery is unavailable; retained session ownership cannot be replaced safely''
        | Some recovers \<Rightarrow>
            if recovers a then Inr ()
            else Inl ''Task session recovery was not confirmed; retained session ownership cannot be replaced safely'')"

text \<open>An attempt the source holds by reference, as the tree has it now.\<close>

definition attemptNow :: "task_tree \<Rightarrow> task_attempt \<Rightarrow> task_attempt" where
  "attemptNow tree a = (case dget (trAttempts tree) (atId a) of Some a' \<Rightarrow> a' | None \<Rightarrow> a)"

definition interruptPrevious :: "string \<Rightarrow> string \<Rightarrow> int \<Rightarrow> task_attempt \<Rightarrow> task_tree \<Rightarrow> task_tree" where
  "interruptPrevious taskId summary now a tree =
     updAttempt (atId a) (\<lambda>a. a\<lparr>atFailureReason := Some ''previous-runtime-attempt-requeued''\<rparr>)
       (finishAttempt taskId AInterrupted summary now tree)"

definition failAdmission ::
  "claim_env \<Rightarrow> claim_input \<Rightarrow> int \<Rightarrow> string \<Rightarrow> task_attempt option \<Rightarrow> mutation_scope \<Rightarrow> task_tree \<Rightarrow> task_store \<Rightarrow>
     (claim_result \<times> task_store) result" where
  "failAdmission env input now summary previous scope tree st =
     (case (previous, canRecoverRuntime env input previous) of
        (Some a, False) \<Rightarrow> Inr (Busy (clTaskId input) (Some (atId a)), st)
      | _ \<Rightarrow>
          rbind (case previous of Some a \<Rightarrow> drainSession env a | None \<Rightarrow> Inr ()) (\<lambda>_.
            let tree1 = (case previous of Some a \<Rightarrow> interruptPrevious (clTaskId input) summary now a tree | None \<Rightarrow> tree);
                tree2 = updResource (clTaskId input) (touchResource now (\<lambda>r.
                  let failures = countOr (tkAdmissionFailures r) + 1
                  in r\<lparr>tkPhase := PhPending, tkAdmissionFailures := Some failures,
                       tkExecutionRetryAt := Some (num_int (now + taskAdmissionRetryDelay (int failures))),
                       tkFreshHumanInput := False, tkObservedGeneration := tkGeneration r,
                       tkCurrentAttemptId := None, tkSummary := Some summary\<rparr>)) tree1;
                generation = (case dget (trResources tree) (clTaskId input) of Some r \<Rightarrow> tkGeneration r | None \<Rightarrow> 0)
            in rbind (finishResourceMutationScope now scope tree2) (\<lambda>m.
               rbind (commitTaskMutation now m st) (\<lambda>st'.
               Inr (Attention (clTaskId input) generation summary, st')))))"

record claim_plan =
  cpnAgent :: string
  cpnHandler :: string
  cpnOutputs :: "abs_path list"
  cpnPrevious :: "task_attempt option"
  cpnCanRecover :: bool
  cpnPrior :: "task_attempt option"
  cpnPending :: "trigger_event list"
  cpnFence :: task_fence
  cpnInitialConditions :: "string list"
  cpnChanged :: "string list"

definition reviewTrigger :: "task_context \<Rightarrow> string \<Rightarrow> int \<Rightarrow> js_record" where
  "reviewTrigger cx taskId reviewAt =
     (let project = (if projectIdFromAppDir (cxAppDir cx) = [] then ''unknown-app'' else projectIdFromAppDir (cxAppDir cx));
          base = syntheticAttemptTrigger (cxAppDir cx) taskId (Some ''review-at-reached'')
      in dset (dset base ''type'' (JStr ''project.task.review-at.reached'')) ''data''
           (JObj [(''project'', JStr project), (''taskId'', JStr taskId), (''task_id'', JStr taskId),
              (''reason'', JStr ''review-at-reached''), (''reviewAt'', JNum (num_int reviewAt)),
              (''synthetic'', JStr ''controller-review-trigger'')]))"

definition claimTrigger ::
  "task_context \<Rightarrow> claim_input \<Rightarrow> claim_plan \<Rightarrow> trigger_event list \<Rightarrow> int option \<Rightarrow> js_record" where
  "claimTrigger cx input plan claimed reviewDue =
     (if claimed \<noteq> [] then preferredOf claimed (cpnAgent plan)
      else case Option.bind (cpnPrevious plan) attemptTrigger of
          Some e \<Rightarrow> e
        | None \<Rightarrow> (case reviewDue of
            Some t \<Rightarrow> reviewTrigger cx (clTaskId input) t
          | None \<Rightarrow> syntheticAttemptTrigger (cxAppDir cx) (clTaskId input) (clReason input)))"

definition refreshAttemptLease :: "string \<Rightarrow> string option \<Rightarrow> jsnum \<Rightarrow> int \<Rightarrow> task_attempt \<Rightarrow> task_attempt" where
  "refreshAttemptLease leaseId sessionId nowMs now a =
     (let times = boundedLeaseTimes nowMs now in
      a\<lparr>atLease := Some \<lparr>leId = (case atLease a of Some l \<Rightarrow> leId l | None \<Rightarrow> leaseId),
          leVersion = (case atLease a of Some l \<Rightarrow> leVersion l | None \<Rightarrow> 0) + 1,
          leLastActivityAt = fst times, leExpiresAt = Iso (snd times), leRuntimeId = atRuntimeId a,
          leSessionId = whenText sessionId\<rparr>\<rparr>)"

definition newAttempt ::
  "claim_env \<Rightarrow> claim_input \<Rightarrow> int \<Rightarrow> claim_plan \<Rightarrow> task_resource \<Rightarrow> trigger_event list \<Rightarrow> trigger_event list \<Rightarrow>
     string list \<Rightarrow> js_record \<Rightarrow> task_attempt" where
  "newAttempt env input now plan r claimed remaining continued trigger =
     refreshAttemptLease (ceLeaseId env) None (num_int now) now
       \<lparr>atId = ''r_'' @ show_nat (tkGeneration r) @ ''_'' @ ceUuid env, atVersion = 1, atTaskId = clTaskId input,
        atTaskGeneration = tkGeneration r,
        atSpecHash = appTaskSpecHash (inSpec (resourceIntent r)) (Some (cpnAgent plan)),
        atOwner = cpnAgent plan, atHandler = cpnHandler plan, atRuntimeId = ceRuntimeId env, atState = ARunning,
        atReason = (case clReason input of Some s \<Rightarrow> s | None \<Rightarrow> ''event''),
        atEvents = (if claimed = [] then None else Some claimed),
        atEventsTruncated = (if remaining = [] then None else Some True),
        atContinuedInputKeys = (if continued = [] then None else Some continued), atAcceptedResult = None,
        atTrigger = (if claimed = [] then Some trigger else None), atStartedAt = now, atFinishedAt = None,
        atSummary = None, atFailureReason = None, atRetryExhausted = None,
        atUnacceptedResult = Option.bind (cpnPrior plan) atUnacceptedResult, atSessionId = None, atLease = None,
        atWorkspace = None, atChangeReceipts = []\<rparr>"

text \<open>What is left of the Task's pending events once the batch is taken.\<close>

definition leaveEvents :: "string \<Rightarrow> string \<Rightarrow> trigger_event list \<Rightarrow> task_tree \<Rightarrow> task_tree" where
  "leaveEvents taskId agent remaining tree =
     (case (dget (trTriggers tree) taskId, remaining = []) of
        (Some t, False) \<Rightarrow> tree\<lparr>trTriggers := dset (trTriggers tree) taskId (t\<lparr>ttEvent := preferredOf remaining agent,
           ttEvents := Some remaining, ttObservedAt := teObservedAt (last remaining)\<rparr>)\<rparr>
      | _ \<Rightarrow> tree\<lparr>trTriggers := ddel (trTriggers tree) taskId\<rparr>)"

definition startAttempt :: "string \<Rightarrow> int \<Rightarrow> task_resource \<Rightarrow> task_resource" where
  "startAttempt attemptId now =
     touchResource now (\<lambda>r. r\<lparr>tkPhase := PhRunning, tkCurrentAttemptId := Some attemptId, tkAdmissionFailures := None,
       tkExecutionRetryAt := None, tkFreshHumanInput := False\<rparr>)"

definition claimMutation :: "int \<Rightarrow> string \<Rightarrow> claim_plan \<Rightarrow> string list \<Rightarrow> task_tree \<Rightarrow> task_resource \<Rightarrow> task_mutation" where
  "claimMutation now taskId plan changed tree r =
     (let relevant = uniq (cpnInitialConditions plan @ listOr (tkConditionIds r)) in
      noMutation\<lparr>muRequireUnpausedTask := Some taskId, muFences := [cpnFence plan],
        muTasks := [resourceWrite now tree r False],
        muAttempts := List.map_filter (dget (trAttempts tree)) (uniq changed),
        muConditions := List.map_filter (dget (trConditions tree)) relevant,
        muDeleteConditions := filter (\<lambda>c. dget (trConditions tree) c = None) relevant\<rparr>)"

definition readyConditionIds :: "task_tree \<Rightarrow> string \<Rightarrow> string list" where
  "readyConditionIds tree taskId =
     map fst (filter (\<lambda>(_, c). cnState c = CondTrue) (taskConditionEntries tree taskId))"

definition commitClaim ::
  "task_context \<Rightarrow> claim_env \<Rightarrow> claim_input \<Rightarrow> int \<Rightarrow> claim_plan \<Rightarrow> int option \<Rightarrow> task_resource \<Rightarrow> task_tree \<Rightarrow> task_store \<Rightarrow>
     (claim_result \<times> task_store) result" where
  "commitClaim cx env input now plan reviewDue r tree st =
     (let taskId = clTaskId input;
          claimed = claimedEvents r (cpnPending plan);
          remaining = remainingEvents r (cpnPending plan);
          continued = continuedTaskInputKeys tree taskId claimed (readyConditionIds tree taskId) now
      in rbind (case (cpnCanRecover plan, cpnPrevious plan) of (True, Some a) \<Rightarrow> drainSession env (attemptNow tree a) | _ \<Rightarrow> Inr ()) (\<lambda>_.
         let tree1 = (case (cpnCanRecover plan, cpnPrevious plan) of
               (True, Some a) \<Rightarrow> interruptPrevious taskId ''Previous runtime attempt was superseded during recovery'' now a tree
             | _ \<Rightarrow> tree);
             trigger = claimTrigger cx input plan claimed reviewDue;
             attempt = newAttempt env input now plan r claimed remaining continued trigger;
             handoff = ceRecoverSessionHandoff env (map_option (attemptNow tree1)
               (if cpnCanRecover plan then cpnPrevious plan else cpnPrior plan));
             tree2 = tree1\<lparr>trAttempts := dset (trAttempts tree1) (atId attempt) attempt\<rparr>;
             tree3 = leaveEvents taskId (cpnAgent plan) remaining tree2;
             tree4 = updResource taskId (startAttempt (atId attempt) now) tree3;
             r' = the (dget (trResources tree4) taskId);
             changed = cpnChanged plan @ (case (cpnCanRecover plan, cpnPrevious plan) of (True, Some a) \<Rightarrow> [atId a] | _ \<Rightarrow> []) @
               [atId attempt]
         in case commitTaskMutation now (claimMutation now taskId plan changed tree4 r') st of
              Inl e \<Rightarrow>
                if e = staleFence \<and> \<not> allowsTaskExecution st taskId
                then Inr (Waiting taskId [] [] None, st) else Inl e
            | Inr st' \<Rightarrow>
                Inr (Claimed \<lparr>acTaskId = taskId, acGeneration = tkGeneration r, acVersion = tkVersion r',
                  acSpecHash = atSpecHash attempt, acAttemptId = atId attempt, acAgent = cpnAgent plan,
                  acHandler = cpnHandler plan, acIntent = resourceIntent r, acEvents = claimed,
                  acEventsTruncated = (remaining \<noteq> []), acContinuedInputKeys = continued,
                  acPreviousAttempt = map_option (\<lambda>a. previousAttemptFacts (attemptNow tree4 a)) (cpnPrior plan), acTrigger = trigger,
                  acDeclaredOutputPaths = cpnOutputs plan, acHandoff = handoff\<rparr>, st')))"

text \<open>A recovered attempt that carries no event at all is released before the guards are checked.\<close>

definition releaseUntriggered :: "string \<Rightarrow> int \<Rightarrow> task_attempt \<Rightarrow> task_tree \<Rightarrow> task_tree" where
  "releaseUntriggered taskId now a tree =
     (let summary = ''Previous runtime attempt had no persisted trigger; retrying from current task facts'' in
      updResource taskId (touchResource now (\<lambda>r. r\<lparr>tkPhase := PhPending, tkCurrentAttemptId := None,
          tkSummary := Some summary\<rparr>))
        (updAttempt (atId a) (\<lambda>a. a\<lparr>atVersion := atVersion a + 1\<rparr>) (interruptPrevious taskId summary now a tree)))"

definition claimGuarded ::
  "task_context \<Rightarrow> claim_env \<Rightarrow> claim_input \<Rightarrow> int \<Rightarrow> claim_plan \<Rightarrow> task_tree \<Rightarrow> task_store \<Rightarrow> (claim_result \<times> task_store) result" where
  "claimGuarded cx env input now plan tree0 st =
     (let taskId = clTaskId input;
          pendingTrigger = dget (trTriggers tree0) taskId;
          previous = cpnPrevious plan;
          hasTrigger = (pendingTrigger \<noteq> None \<or> Option.bind previous attemptTrigger \<noteq> None);
          tree = (case previous of
              Some a \<Rightarrow> if cpnCanRecover plan \<and> \<not> hasTrigger then releaseUntriggered taskId now a tree0 else tree0
            | None \<Rightarrow> tree0);
          changed = (case previous of Some a \<Rightarrow> if cpnCanRecover plan \<and> \<not> hasTrigger then [atId a] else [] | None \<Rightarrow> [])
      in case dget (trResources tree) taskId of
           None \<Rightarrow> Inr (CompletedTask taskId 0, st)
         | Some r \<Rightarrow>
             (let observed = tkGeneration r \<le> tkObservedGeneration r;
                  dependencyIds = filter (\<lambda>d. \<not> dependencySatisfied tree d) (listOr (spDependsOn (tkSpec r)));
                  reviewAt = acceptedTaskReviewAt r;
                  reviewDue = (case reviewAt of Some t \<Rightarrow> t \<le> now | None \<Rightarrow> False)
              in if tkPhase r = PhRunning \<and> previous \<noteq> None \<and> \<not> cpnCanRecover plan
                 then Inr (Busy taskId (map_option atId previous), st)
                 else if tkPhase r = PhConverged \<and> observed \<and> pendingTrigger = None
                 then Inr (CompletedTask taskId (tkGeneration r), st)
                 else if tkPhase r = PhAttention \<and> observed \<and> pendingTrigger = None \<and> \<not> hasLegacyWorkflowHandoff tree r
                 then Inr (Attention taskId (tkGeneration r) (case tkSummary r of Some s \<Rightarrow> s
                        | None \<Rightarrow> ''Task is waiting for agent/reviewer attention''), st)
                 else if dependencyIds \<noteq> []
                 then Inr (Waiting taskId [] dependencyIds None,
                        acknowledgeIndexedRecoveryWait now taskId (stRevision st) None st)
                 else if tkPhase r = PhWaiting \<and> observed \<and> (openTaskConditionIds tree taskId \<noteq> [] \<or> reviewAt \<noteq> None) \<and>
                   pendingTrigger = None \<and> \<not> hasSatisfiedTaskCondition tree taskId \<and> \<not> reviewDue
                 then Inr (Waiting taskId (openTaskConditionIds tree taskId) [] None,
                        acknowledgeIndexedRecoveryWait now taskId (stRevision st) (map_option of_int (nextTaskCheckAt now tree r)) st)
                 else commitClaim cx env input now (plan\<lparr>cpnPending := pendingClaimEvents previous pendingTrigger,
                     cpnChanged := cpnChanged plan @ changed\<rparr>) (if reviewDue then reviewAt else None) r tree st))"

definition claimUnlessBlocked ::
  "task_context \<Rightarrow> claim_env \<Rightarrow> claim_input \<Rightarrow> int \<Rightarrow> task_tree \<Rightarrow> task_resource \<Rightarrow> task_store \<Rightarrow>
     (claim_result \<times> task_store) result" where
  "claimUnlessBlocked cx env input now tree r st =
     (let taskId = clTaskId input in
      if taskExecutionRetryExhausted r
      then rbind (currentResourceAttempt tree r) (\<lambda>active. Inr (case active of
          Some a \<Rightarrow> (Busy taskId (Some (atId a)), st)
        | None \<Rightarrow> (Attention taskId (tkGeneration r) (case tkSummary r of Some s \<Rightarrow> s
              | None \<Rightarrow> ''Automatic retries exhausted; owner repair or explicit retry required''),
            acknowledgeIndexedRecoveryWait now taskId (stRevision st) (map_option of_int (nextTaskCheckAt now tree r)) st)))
      else case pendingTaskExecutionRetryAt r now of
          Some t \<Rightarrow> Inr (Waiting taskId [] [] (Some t),
            acknowledgeIndexedRecoveryWait now taskId (stRevision st) (Some (finVal t)) st)
        | None \<Rightarrow>
            rbind (currentResourceAttempt tree r) (\<lambda>previous.
              let sp = inSpec (resourceIntent r);
                  agent = resolvedAgent tree sp (clAppAgent input);
                  missing = (tkPhase r = PhRunning \<and> previous = None);
                  tree1 = (if missing then requeueWithoutAttempt taskId now r tree else tree);
                  changed = (if missing then (case whenText (tkCurrentAttemptId r) of
                      Some i \<Rightarrow> if dget (trAttempts tree) i \<noteq> None then [i] else [] | None \<Rightarrow> []) else []);
                  latest = latestTaskAttempt tree (tkId r) (Some (tkGeneration r));
                  prior = (case latest of Some a \<Rightarrow> Some a | None \<Rightarrow> latestTaskAttempt tree (tkId r) None)
              in case claimAdmission cx env sp agent of
                   Inl summary \<Rightarrow> failAdmission env input now summary previous
                     (beginResourceMutationScopeForTasks tree [tkId r]) tree1 st
                 | Inr outputs \<Rightarrow>
                     claimGuarded cx env input now \<lparr>cpnAgent = agent, cpnHandler = claimHandler (clHandler input) sp agent,
                       cpnOutputs = outputs, cpnPrevious = previous,
                       cpnCanRecover = canRecoverRuntime env input previous, cpnPrior = prior, cpnPending = [],
                       cpnFence = resourceFence r, cpnInitialConditions = listOr (tkConditionIds r),
                       cpnChanged = changed\<rparr> tree1 st))"

text \<open>
  A Task whose failure record an older Host wrote is adopted first, which commits, and the claim
  starts over on the new state. The count bounds how often it starts: \<open>None\<close> is a claim that started
  over too often, which two rounds exclude (\<open>Execution_Claims\<close>).
\<close>

definition foreignAttempt :: "task_store \<Rightarrow> task_resource \<Rightarrow> task_attempt option" where
  "foreignAttempt st r =
     (case Option.bind (whenText (tkCurrentAttemptId r)) (readAttempt st) of
        Some a \<Rightarrow> if atTaskId a \<noteq> tkId r then Some a else None
      | None \<Rightarrow> None)"

fun claimRounds ::
  "nat \<Rightarrow> task_context \<Rightarrow> claim_env \<Rightarrow> claim_input \<Rightarrow> int \<Rightarrow> task_store \<Rightarrow> (claim_result \<times> task_store) result option" where
  "claimRounds 0 cx env input now st = None"
| "claimRounds (Suc n) cx env input now st =
     (case readTaskContext st (taskScope [clTaskId input]) True None of
        Inl e \<Rightarrow> Some (Inl e)
      | Inr tree \<Rightarrow>
          (case dget (trResources tree) (clTaskId input) of
             None \<Rightarrow> Some (Inr (CompletedTask (clTaskId input) 0, st))
           | Some r \<Rightarrow>
               if isCancelled st (clTaskId input) then Some (Inr (CompletedTask (clTaskId input) (tkGeneration r), st))
               else if foreignAttempt st r \<noteq> None
               then Some (Inl (''Task '' @ clTaskId input @ '' current attempt '' @ atId (the (foreignAttempt st r)) @
                 '' belongs to '' @ atTaskId (the (foreignAttempt st r)) @ ''; refusing cross-Task recovery''))
               else if \<not> allowsTaskExecution st (clTaskId input) then Some (Inr (Waiting (clTaskId input) [] [] None, st))
               else (case exhaustRetainedFailures cx now tree r st of
                       Inl e \<Rightarrow> Some (Inl e)
                     | Inr (Some st') \<Rightarrow> claimRounds n cx env input now st'
                     | Inr None \<Rightarrow> Some (claimUnlessBlocked cx env input now tree r st))))"

definition claimObservedAppTask ::
  "task_context \<Rightarrow> claim_env \<Rightarrow> claim_input \<Rightarrow> int \<Rightarrow> task_store \<Rightarrow> (claim_result \<times> task_store) result" where
  "claimObservedAppTask cx env input now st =
     (case claimRounds 2 cx env input now st of Some result \<Rightarrow> result | None \<Rightarrow> Inl ''claim does not settle'')"

end
