(* ===== verification/Task_Settle.thy ===== *)
theory Task_Settle
  imports Task_Admission Task_Claim
begin

text \<open>
  Settling an attempt (\<open>app-task-reconciler.ts\<close>): a result that answers its inputs (\<open>completeAppTask\<close>),
  one that waits (\<open>deferAppTask\<close>), an accepted report of an outcome not achieved
  (\<open>reportAppTaskFailure\<close>), an execution that failed (\<open>failAppTaskAttempt\<close>), and the changes an attempt
  makes while it runs (\<open>applyRunningTaskChanges\<close>).

  Each one is refused unless the claim still names the Task's current, running attempt.
\<close>

section \<open>The claim's attempt\<close>

definition matchingClaimAttempt ::
  "task_resource option \<Rightarrow> task_attempt option \<Rightarrow> app_task_claim \<Rightarrow> (task_resource \<times> task_attempt) option" where
  "matchingClaimAttempt resource attempt claim =
     (case (resource, attempt) of
        (Some r, Some a) \<Rightarrow>
          if tkCurrentAttemptId r \<noteq> Some (acAttemptId claim) \<or> atState a \<noteq> ARunning \<or>
             atTaskGeneration a \<noteq> acGeneration claim \<or> atHandler a \<noteq> acHandler claim \<or> atSpecHash a \<noteq> acSpecHash claim
          then None else Some (r, a)
      | _ \<Rightarrow> None)"

definition claimAttempt :: "task_tree \<Rightarrow> app_task_claim \<Rightarrow> (task_resource \<times> task_attempt) option" where
  "claimAttempt tree claim =
     matchingClaimAttempt (dget (trResources tree) (acTaskId claim)) (dget (trAttempts tree) (acAttemptId claim)) claim"

definition matchingTaskAttempt :: "task_tree \<Rightarrow> app_task_claim \<Rightarrow> (task_resource \<times> task_attempt) option" where
  "matchingTaskAttempt tree claim =
     (if map_option tkGeneration (dget (trResources tree) (acTaskId claim)) \<noteq> Some (acGeneration claim) then None
      else claimAttempt tree claim)"

section \<open>Actions\<close>

datatype task_action =
    UnblockTask string jsnum string
  | RetireCondition string jsnum string

definition requireNonEmptyString :: "string \<Rightarrow> string \<Rightarrow> string result" where
  "requireNonEmptyString v label = (if trim v = [] then Inl (label @ '' requires a non-empty string'') else Inr (trim v))"

definition requireStringList :: "string list \<Rightarrow> string \<Rightarrow> bool \<Rightarrow> unit result" where
  "requireStringList v label allowEmpty =
     (if \<not> allowEmpty \<and> v = [] \<or> list_ex (\<lambda>s. trim s = []) v
      then Inl (label @ '' requires one or more non-empty strings'') else Inr ())"

definition requireExpectedGeneration :: "jsnum \<Rightarrow> string \<Rightarrow> unit result" where
  "requireExpectedGeneration n label =
     (if \<not> is_integer n \<or> to_int n < 0 then Inl (label @ '' requires a non-negative expectedGeneration'') else Inr ())"

definition staleEffect :: "string \<Rightarrow> string \<Rightarrow> error" where
  "staleEffect taskId reason = ''Handler effect for '' @ taskId @ '' is stale: '' @ reason"

definition stalePhase :: "string \<Rightarrow> task_phase \<Rightarrow> error" where
  "stalePhase taskId phase = ''Handler action for '' @ taskId @ '' is stale: target phase is now '' @ phaseName phase"

definition staleGeneration :: "string \<Rightarrow> jsnum \<Rightarrow> nat \<Rightarrow> error" where
  "staleGeneration taskId expected current = ''Handler action for '' @ taskId @ '' is stale: expected generation '' @
     show_num expected @ '', current '' @ show_nat current"

definition mutableActionResource :: "task_tree \<Rightarrow> string \<Rightarrow> jsnum \<Rightarrow> task_resource result" where
  "mutableActionResource tree taskId expected =
     (case dget (trResources tree) taskId of
        None \<Rightarrow> Inl (''Handler action task not found: '' @ taskId)
      | Some r \<Rightarrow> if num_int (int (tkGeneration r)) \<noteq> expected then Inl (staleGeneration taskId expected (tkGeneration r)) else Inr r)"

definition validateRetirement ::
  "task_tree \<Rightarrow> string \<Rightarrow> string list \<Rightarrow> string \<Rightarrow> jsnum \<Rightarrow> string \<Rightarrow> string list result" where
  "validateRetirement tree running identities cid expected reason =
     rbind (requireNonEmptyString cid ''Handler retire-condition identity'') (\<lambda>c.
     if ''condition:'' @ c \<in> set identities then Inl (''Handler result contains multiple actions for condition:'' @ c)
     else rbind (requireExpectedGeneration expected (''Handler retire-condition action '' @ c)) (\<lambda>_.
     rbind (requireNonEmptyString reason (''Handler retire-condition '' @ c @ '' reason'')) (\<lambda>_.
       case (dget (trResources tree) running, dget (trConditions tree) c) of
         (Some r, Some cond) \<Rightarrow>
           if \<not> linksCondition c r then Inl (staleEffect running (''Condition '' @ c @ '' is no longer linked to this Task''))
           else if num_int (int (cnGeneration cond)) \<noteq> expected
           then Inl (staleEffect running (''Condition '' @ c @ '' generation changed''))
           else Inr (identities @ [''condition:'' @ c])
       | _ \<Rightarrow> Inl (staleEffect running (''Condition '' @ c @ '' is no longer linked to this Task'')))))"

definition validateUnblock ::
  "task_tree \<Rightarrow> string \<Rightarrow> string list \<Rightarrow> string \<Rightarrow> jsnum \<Rightarrow> string \<Rightarrow> string list result" where
  "validateUnblock tree running identities taskId expected reason =
     rbind (requireNonEmptyString taskId ''Handler unblock-task action identity'') (\<lambda>i.
     if i = running
     then Inl (''Handler action cannot unblock its own running task '' @ running @
       ''; return the attempt result without a self-unblock action'')
     else if i \<in> set identities then Inl (''Handler result contains multiple actions for '' @ i)
     else rbind (requireExpectedGeneration expected (''Handler unblock-task action '' @ i)) (\<lambda>_.
     rbind (requireNonEmptyString reason (''Handler unblock for '' @ i @ '' reason'')) (\<lambda>_.
     if dget (trCancellations tree) i \<noteq> None
     then Inl (''Handler action cannot mutate cancelled task '' @ i @ ''; create a new linked task'')
     else rbind (mutableActionResource tree taskId expected) (\<lambda>r.
       if tkPhase r \<noteq> PhWaiting \<and> tkPhase r \<noteq> PhAttention then Inl (stalePhase i (tkPhase r))
       else Inr (identities @ [i])))))"

definition validateAction :: "task_tree \<Rightarrow> string \<Rightarrow> string list \<Rightarrow> task_action \<Rightarrow> string list result" where
  "validateAction tree running identities action =
     (case action of
        RetireCondition cid expected reason \<Rightarrow> validateRetirement tree running identities cid expected reason
      | UnblockTask taskId expected reason \<Rightarrow> validateUnblock tree running identities taskId expected reason)"

definition validateTaskActions :: "task_tree \<Rightarrow> task_action list \<Rightarrow> string \<Rightarrow> unit result" where
  "validateTaskActions tree actions running =
     (if 16 < length actions then Inl ''Handler result exceeds the 16-action reconciliation budget''
      else rbind (rfold (validateAction tree running) [] actions) (\<lambda>_. Inr ()))"

definition unblockedTasks :: "task_action list \<Rightarrow> string list" where
  "unblockedTasks actions = List.map_filter (\<lambda>a. case a of UnblockTask t _ _ \<Rightarrow> Some t | _ \<Rightarrow> None) actions"

definition retiredConditions :: "task_action list \<Rightarrow> string list" where
  "retiredConditions actions = List.map_filter (\<lambda>a. case a of RetireCondition c _ _ \<Rightarrow> Some c | _ \<Rightarrow> None) actions"

definition taskActionContextIds :: "task_action list \<Rightarrow> string list" where
  "taskActionContextIds actions = filter (\<lambda>t. trim t \<noteq> []) (unblockedTasks actions)"

definition taskActionConditionIds :: "task_action list \<Rightarrow> string list" where
  "taskActionConditionIds actions = filter (\<lambda>c. trim c \<noteq> []) (retiredConditions actions)"

definition unblockResource :: "string \<Rightarrow> int \<Rightarrow> task_resource \<Rightarrow> task_resource" where
  "unblockResource reason now =
     touchResource now (\<lambda>r. (clearFailures r)\<lparr>tkPhase := PhPending, tkObservedGeneration := tkGeneration r - 1,
       tkCurrentAttemptId := None, tkSummary := Some (trim reason)\<rparr>)"

definition applyTaskAction ::
  "task_store \<Rightarrow> app_task_claim \<Rightarrow> int \<Rightarrow> task_tree \<times> string list \<Rightarrow> task_action \<Rightarrow> (task_tree \<times> string list) result" where
  "applyTaskAction st claim now acc action =
     (case acc of (tree, applied) \<Rightarrow>
       (case action of
          RetireCondition c expected _ \<Rightarrow>
            Inr (unlinkExactTaskCondition now (acTaskId claim) c tree,
                 applied @ [''retired condition '' @ c @ '' generation '' @ show_num expected])
        | UnblockTask t expected reason \<Rightarrow>
            rbind (mutableActionResource tree t expected) (\<lambda>r.
            rbind (assertResourceCreator (tkCreator r) \<lparr>crAppId = stAppId st, crTaskId = Some (acTaskId claim)\<rparr>) (\<lambda>_.
            Inr (updResource t (unblockResource reason now) tree, applied @ [''unblocked '' @ t])))))"

definition applyTaskActions ::
  "task_store \<Rightarrow> app_task_claim \<Rightarrow> int \<Rightarrow> task_action list \<Rightarrow> task_tree \<Rightarrow> (task_tree \<times> string list) result" where
  "applyTaskActions st claim now actions tree =
     rbind (validateTaskActions tree actions (acTaskId claim)) (\<lambda>_.
       rfold (applyTaskAction st claim now) (tree, []) actions)"

definition validateActionFacts :: "string \<Rightarrow> string list option \<Rightarrow> nat \<Rightarrow> unit result" where
  "validateActionFacts taskId facts' n =
     (if 0 < n \<and> \<not> list_ex (\<lambda>f. trim f \<noteq> []) (listOr facts')
      then Inl (''Handler actions for '' @ taskId @ '' require non-empty facts'') else Inr ())"

definition defaultTaskAcceptance :: "app_task_claim \<Rightarrow> string list \<Rightarrow> acceptance_basis" where
  "defaultTaskAcceptance claim facts' =
     \<lparr>abMethod = (if starts_with (acHandler claim) ''workflow:'' then WorkflowContract else AgentJudgment),
      abVerifier = None, abFacts = facts'\<rparr>"

section \<open>Declared Conditions\<close>

definition isTypedConditionSubject :: "string \<Rightarrow> bool" where
  "isTypedConditionSubject subject =
     (case find_index (\<lambda>c. c = CHR '':'') (dropWhile is_space subject) of
        None \<Rightarrow> False
      | Some i \<Rightarrow>
          (let s = dropWhile is_space subject; kind = take i s in
           kind \<noteq> [] \<and> isKindStart (hd kind) \<and> list_all isKindChar (tl kind) \<and> trim (drop (Suc i) s) \<noteq> []))"

text \<open>\<open>human\<close>, or \<open>kind:identity\<close> with a lowercase kind and an identity without spaces and colons.\<close>

definition isConditionOwner :: "string \<Rightarrow> bool" where
  "isConditionOwner owner \<longleftrightarrow> owner = ''human'' \<or>
     (case find_index (\<lambda>c. c = CHR '':'') owner of
        None \<Rightarrow> False
      | Some i \<Rightarrow>
          (let kind = take i owner; identity = drop (Suc i) owner in
           kind \<noteq> [] \<and> isLowerLetter (hd kind) \<and>
           list_all (\<lambda>c. isLowerLetter c \<or> is_digit c \<or> c = CHR ''-'') (tl kind) \<and>
           identity \<noteq> [] \<and> list_all (\<lambda>c. \<not> is_space c \<and> c \<noteq> CHR '':'') identity))"

definition MIN_CONDITION_REVIEW_AFTER_MS :: int where
  "MIN_CONDITION_REVIEW_AFTER_MS = 60000"

definition validateCondition :: "string \<Rightarrow> condition_decl \<Rightarrow> unit result" where
  "validateCondition taskId d =
     (let sp = dcSpec d in
      rbind (requireNonEmptyString (dcId d) (''Handler result Condition for '' @ taskId @ '' identity'')) (\<lambda>i.
      let label = ''Handler result Condition '' @ i in
      rbind (requireNonEmptyString (csType sp) (label @ '' type'')) (\<lambda>type.
      if CHR ''.'' \<notin> set type then Inl (label @ '' type must be a namespaced event type'')
      else rbind (requireNonEmptyString (csSubject sp) (label @ '' subject'')) (\<lambda>subject.
      if \<not> isTypedConditionSubject subject then Inl (label @ '' has an invalid subject'')
      else if csExpected sp = JUndef then Inl (label @ '' requires an expected value'')
      else if csProgress sp \<noteq> None \<and> (type \<noteq> ''app.dependency.updated'' \<or> \<not> starts_with i ''app-request:'')
      then Inl (label @ '' progress requires an App request Condition and immediate or next-wake'')
      else rbind (case csRequestedAction sp of
          Some a \<Rightarrow> requireNonEmptyString a (label @ '' requestedAction'') | None \<Rightarrow> Inr []) (\<lambda>_.
      rbind (requireNonEmptyString (case csOwner sp of Some ow \<Rightarrow> ow | None \<Rightarrow> []) (label @ '' owner'')) (\<lambda>owner.
      if \<not> isConditionOwner owner then Inl (label @ '' owner must be a canonical kind:identity'')
      else if (case csReviewAfterMs sp of Some n \<Rightarrow> \<not> is_integer n \<or> to_int n < MIN_CONDITION_REVIEW_AFTER_MS | None \<Rightarrow> False)
      then Inl (label @ '' reviewAfterMs must be an integer of at least '' @ show_int MIN_CONDITION_REVIEW_AFTER_MS)
      else Inr ()))))))"

definition validateConditions :: "condition_decl list \<Rightarrow> bool \<Rightarrow> string \<Rightarrow> unit result" where
  "validateConditions conditions required taskId =
     (if required \<and> conditions = [] then Inl (''Waiting result for '' @ taskId @ '' requires at least one exact Condition'')
      else rfold (\<lambda>_ d. validateCondition taskId d) () conditions)"

section \<open>Failing an attempt\<close>

text \<open>The attempts that a Condition's report names: this App's own, and those of the other Apps of the database.\<close>

definition attemptsOf :: "task_store \<Rightarrow> (string \<Rightarrow> string \<Rightarrow> task_attempt option) \<Rightarrow> attempt_lookup" where
  "attemptsOf st others = Some (\<lambda>app i. if app = stAppId st then readAttempt st i else others app i)"

datatype failure_status = FailRetrying | FailExhausted | FailSuperseded

record failure_outcome =
  foStatus :: failure_status
  foSummary :: string
  foRetryAt :: "jsnum option"

record failure_details =
  fdReason :: "string option"
  fdResult :: "js_record option"
  fdFacts :: "string list option"
  fdUnacceptedResult :: "unaccepted_result option"

definition failedAttempt :: "failure_details \<Rightarrow> task_attempt \<Rightarrow> task_attempt" where
  "failedAttempt d a =
     a\<lparr>atFailureReason := Some (case fdReason d of Some x \<Rightarrow> x | None \<Rightarrow> ''HandlerExecutionFailed''),
       atUnacceptedResult := (case fdUnacceptedResult d of Some u \<Rightarrow> Some u | None \<Rightarrow> atUnacceptedResult a)\<rparr>"

definition failedResource ::
  "app_task_claim \<Rightarrow> string \<Rightarrow> failure_details \<Rightarrow> (task_resource \<Rightarrow> task_resource) \<Rightarrow> task_resource \<Rightarrow> task_resource" where
  "failedResource claim summary d retry r =
     (let r1 = retry r in
      r1\<lparr>tkObservedGeneration := acGeneration claim, tkCurrentAttemptId := None, tkSummary := Some summary,
         tkFacts := (case fdFacts d of Some fs \<Rightarrow> Some fs | None \<Rightarrow> tkFacts r1),
         tkResult := (case fdResult d of Some x \<Rightarrow> Some x | None \<Rightarrow> tkResult r1)\<rparr>)"

definition failAppTaskAttempt ::
  "task_context \<Rightarrow> int \<Rightarrow> app_task_claim \<Rightarrow> string \<Rightarrow> failure_details \<Rightarrow> task_store \<Rightarrow> (failure_outcome \<times> task_store) result" where
  "failAppTaskAttempt cx now claim failure d st =
     rbind (readTaskContext st (taskScope [acTaskId claim]) True None) (\<lambda>tree.
       case claimAttempt tree claim of
         None \<Rightarrow> Inr (\<lparr>foStatus = FailSuperseded, foSummary = failure, foRetryAt = None\<rparr>, st)
       | Some (r, a) \<Rightarrow>
           (let taskId = acTaskId claim;
                mark = failureMark cx st r a now;
                tree1 = updAttempt (acAttemptId claim) (\<lambda>a. a\<lparr>atRetryExhausted := mark\<rparr>) tree;
                summary = (if mark \<noteq> None
                  then ''Automatic retries exhausted; owner repair or explicit retry required. '' @ failure else failure)
            in rbind (inputOutcomeAdmissions st (claimRef claim) (blankResult\<lparr>riReport := (mark \<noteq> None)\<rparr>)
                 (KFeedback RFailure) tree1) (\<lambda>(_, writes, tree2).
               let tree3 = snd (restoreAttemptEvents tree2 taskId r a now);
                   tree4 = updAttempt (acAttemptId claim) (failedAttempt d) (finishAttempt taskId AFailed failure now tree3);
                   tree5 = updResource taskId (touchResource now
                     (failedResource claim summary d (failedExecutionState cx st r a now))) tree4
               in rbind (finishResourceMutationScope now (beginResourceMutationScope tree taskId []) tree5) (\<lambda>m.
                  rbind (commitTaskMutation now (m\<lparr>muAdmissions := writes\<rparr>) st) (\<lambda>st'.
                  Inr (\<lparr>foStatus = (if mark \<noteq> None then FailExhausted else FailRetrying), foSummary = summary,
                    foRetryAt = Option.bind (dget (trResources tree5) taskId) tkExecutionRetryAt\<rparr>, st'))))))"

section \<open>Reporting an outcome not achieved\<close>

definition acceptResult :: "app_task_claim \<Rightarrow> accepted_result \<Rightarrow> task_tree \<Rightarrow> task_tree" where
  "acceptResult claim accepted = updAttempt (acAttemptId claim) (\<lambda>a. a\<lparr>atAcceptedResult := Some accepted\<rparr>)"

definition reportedResource ::
  "app_task_claim \<Rightarrow> string \<Rightarrow> result_input \<Rightarrow> (task_resource \<Rightarrow> task_resource) \<Rightarrow> task_resource \<Rightarrow> task_resource" where
  "reportedResource claim summary input retry r =
     (retry r)\<lparr>tkObservedGeneration := acGeneration claim, tkObservedAttemptId := Some (acAttemptId claim),
       tkCurrentAttemptId := None, tkSummary := Some summary, tkResponse := riResponse input,
       tkResult := riResult input, tkFacts := Some (listOr (riFacts input))\<rparr>"

record report_outcome =
  roApplied :: bool
  roSummary :: "string option"
  roRetryExhausted :: "retry_exhaustion option"

definition reportAppTaskFailure ::
  "task_context \<Rightarrow> int \<Rightarrow> app_task_claim \<Rightarrow> result_input \<Rightarrow> task_store \<Rightarrow> (report_outcome \<times> task_store) result" where
  "reportAppTaskFailure cx now claim input st =
     rbind (readTaskContext st (taskScope [acTaskId claim]) True None) (\<lambda>tree.
       case matchingTaskAttempt tree claim of
         None \<Rightarrow> Inr (\<lparr>roApplied = False, roSummary = None, roRetryExhausted = None\<rparr>, st)
       | Some (r, a) \<Rightarrow>
           rbind (requireNonEmptyString (riSummary input) ''Incomplete report summary'') (\<lambda>_.
           rbind (requireStringList (listOr (riFacts input)) ''Incomplete report facts'' False) (\<lambda>_.
           let taskId = acTaskId claim;
               mark = failureMark cx st r a now;
               summary = ''Outcome not achieved: '' @ trim (riSummary input) @ ''; '' @ (if mark \<noteq> None
                 then ''automatic retries exhausted; owner repair or explicit retry required'' else ''continuing after backoff'');
               tree1 = updAttempt (acAttemptId claim) (\<lambda>a. a\<lparr>atRetryExhausted := mark\<rparr>) tree
           in rbind (inputOutcomeAdmissions st (claimRef claim) (input\<lparr>riReport := (riReport input \<or> mark \<noteq> None)\<rparr>)
                (KFeedback RFailure) tree1) (\<lambda>(keys, writes, tree2).
              let accepted = acceptedAttemptResult tree2 taskId RIncomplete (input\<lparr>riReviewAt := None, riInputKeys := Some keys\<rparr>)
                    (defaultTaskAcceptance claim (listOr (riFacts input)));
                  tree3 = updResource taskId (\<lambda>r. foldl (retainPending st (acGeneration claim)) r keys) (acceptResult claim accepted tree2);
                  tree4 = finishAttempt taskId ACompleted summary now
                    (consumeSettledTaskEvents taskId (acAgent claim) (arAcceptedLiveEventIds accepted) (arInputKeys accepted) tree3);
                  tree5 = updResource taskId (touchResource now
                    (reportedResource claim summary input (failedExecutionState cx st r a now))) tree4
              in rbind (finishResourceMutationScope now (beginResourceMutationScope tree taskId []) tree5) (\<lambda>m.
                 rbind (commitTaskMutation now (m\<lparr>muAdmissions := writes\<rparr>) st) (\<lambda>st'.
                 Inr (\<lparr>roApplied = True, roSummary = Some summary, roRetryExhausted = mark\<rparr>, st')))))))"

section \<open>Completing a Task\<close>

record settle_input =
  siResult :: result_input
  siActions :: "task_action list"
  siConditions :: "condition_decl list"
  siAcceptanceBasis :: "acceptance_basis option"
  siWorkspace :: "(task_workspace \<times> bool) option"
  siContinue :: bool

record settle_outcome =
  soApplied :: bool
  soActionsApplied :: "string list"
  soTaskIds :: "string list"
  soContinues :: bool

definition staleOutcome :: settle_outcome where
  "staleOutcome = \<lparr>soApplied = False, soActionsApplied = [], soTaskIds = [], soContinues = False\<rparr>"

definition earliest :: "int list \<Rightarrow> int option" where
  "earliest ts = (case sort ts of [] \<Rightarrow> None | t # _ \<Rightarrow> Some t)"

definition remainingReviewAt :: "task_resource \<Rightarrow> int option" where
  "remainingReviewAt r =
     earliest (filter (\<lambda>t. 0 < t \<and> t \<le> max_safe_integer) (List.map_filter iwReviewAt (dvals (waitsOf r))))"

text \<open>The result is accepted, the events it covers are consumed, and the attempt is finished.\<close>

definition answeredTree :: "app_task_claim \<Rightarrow> settle_input \<Rightarrow> string list \<Rightarrow> int \<Rightarrow> task_tree \<Rightarrow> task_tree" where
  "answeredTree claim input keys now tree =
     (let ri = siResult input;
          accepted = acceptedAttemptResult tree (acTaskId claim) RConverged (ri\<lparr>riReviewAt := None, riInputKeys := Some keys\<rparr>)
            (case siAcceptanceBasis input of Some b \<Rightarrow> b | None \<Rightarrow> defaultTaskAcceptance claim (listOr (riFacts ri)));
          tree1 = consumeSettledTaskEvents (acTaskId claim) (acAgent claim) (arAcceptedLiveEventIds accepted) (arInputKeys accepted)
            (acceptResult claim accepted tree)
      in finishAttempt (acTaskId claim) ACompleted (riSummary ri) now (unlinkSatisfiedTaskConditions now (acTaskId claim) tree1))"

definition pendingTaskWork :: "int \<Rightarrow> string \<Rightarrow> task_tree \<Rightarrow> bool" where
  "pendingTaskWork now taskId tree \<longleftrightarrow>
     dget (trTriggers tree) taskId \<noteq> None \<or> continuedTaskInputKeys tree taskId [] [] now \<noteq> []"

definition dependentTasks :: "string list \<Rightarrow> bool \<Rightarrow> string \<Rightarrow> task_tree \<Rightarrow> string list" where
  "dependentTasks unblocked pendingWork taskId tree =
     uniq (unblocked @ (if pendingWork then [taskId]
       else map tkId (filter (\<lambda>r. taskId \<in> set (listOr (spDependsOn (tkSpec r)))) (dvals (trResources tree)))))"

definition observedResult :: "app_task_claim \<Rightarrow> result_input \<Rightarrow> task_resource \<Rightarrow> task_resource" where
  "observedResult claim ri r =
     r\<lparr>tkObservedGeneration := acGeneration claim, tkObservedAttemptId := Some (acAttemptId claim),
       tkCurrentAttemptId := None, tkSummary := Some (riSummary ri), tkResponse := riResponse ri,
       tkResult := riResult ri, tkFacts := Some (listOr (riFacts ri))\<rparr>"

definition completedResource :: "app_task_claim \<Rightarrow> result_input \<Rightarrow> bool \<Rightarrow> task_resource \<Rightarrow> task_resource" where
  "completedResource claim ri pendingWork r =
     (let reviewAt = remainingReviewAt r in
      (observedResult claim ri r)\<lparr>tkPhase := (if pendingWork then PhPending
           else if listOr (tkConditionIds r) \<noteq> [] \<or> reviewAt \<noteq> None then PhWaiting else PhConverged),
         tkReviewAt := reviewAt\<rparr>)"

definition settleWorkspace :: "app_task_claim \<Rightarrow> (task_workspace \<times> bool) option \<Rightarrow> task_tree \<Rightarrow> task_tree" where
  "settleWorkspace claim workspace tree =
     (case workspace of
        None \<Rightarrow> tree
      | Some (w, removable) \<Rightarrow>
          (let converged = (map_option tkPhase (dget (trResources tree) (acTaskId claim)) = Some PhConverged) in
           updAttempt (acAttemptId claim) (\<lambda>a. a\<lparr>atWorkspace := Some
             (if removable \<and> converged then w\<lparr>wsReleased := True\<rparr> else w)\<rparr>) tree))"

definition actionScope :: "app_task_claim \<Rightarrow> task_action list \<Rightarrow> string list \<Rightarrow> context_scope" where
  "actionScope claim actions conditionIds =
     \<lparr>scTaskIds = acTaskId claim # taskActionContextIds actions, scAdmissionIds = [],
      scConditionIds = taskActionConditionIds actions @ conditionIds\<rparr>"

definition completeAppTask ::
  "int \<Rightarrow> app_task_claim \<Rightarrow> settle_input \<Rightarrow> task_store \<Rightarrow> (settle_outcome \<times> task_store) result" where
  "completeAppTask now claim input st =
     rbind (readTaskContext st (actionScope claim (siActions input) []) True None) (\<lambda>tree.
       if matchingTaskAttempt tree claim = None then Inr (staleOutcome, st)
       else
         rbind (inputOutcomeAdmissions st (claimRef claim) (siResult input) KAnswer tree) (\<lambda>(keys, writes, tree1).
         rbind (validateActionFacts (acTaskId claim) (riFacts (siResult input)) (length (siActions input))) (\<lambda>_.
         rbind (applyTaskActions st claim now (siActions input) tree1) (\<lambda>(tree2, applied).
         let taskId = acTaskId claim;
             tree3 = answeredTree claim input keys now tree2;
             pendingWork = pendingTaskWork now taskId tree3;
             dependents = dependentTasks (unblockedTasks (siActions input)) pendingWork taskId tree3;
             scope = foldl (\<lambda>scope k. trackResourceMutationTask tree3 k scope)
               (beginResourceMutationScope tree1 taskId (unblockedTasks (siActions input))) dependents;
             tree4 = settleWorkspace claim (siWorkspace input)
               (updResource taskId (touchResource now (completedResource claim (siResult input) pendingWork)) tree3)
         in rbind (finishResourceMutationScope now scope tree4) (\<lambda>m.
            rbind (commitTaskMutation now (m\<lparr>muAdmissions := writes\<rparr>) st) (\<lambda>st'.
            Inr (\<lparr>soApplied = True, soActionsApplied = applied, soTaskIds = dependents, soContinues = pendingWork\<rparr>, st')))))))"

section \<open>Deferring a Task\<close>

definition retainedReviewAt :: "int \<Rightarrow> string list \<Rightarrow> task_resource \<Rightarrow> int option" where
  "retainedReviewAt now keys r =
     earliest (filter (\<lambda>t. t \<le> max_safe_integer \<and> now < t)
       (List.map_filter id (tkReviewAt r # map (\<lambda>key. Option.bind (dget (waitsOf r) key) iwReviewAt) keys)))"

definition waitConditions :: "task_tree \<Rightarrow> task_resource \<Rightarrow> string list \<Rightarrow> (string \<times> nat) list" where
  "waitConditions tree r ids =
     List.map_filter (\<lambda>i. if linksCondition i r then map_option (\<lambda>c. (i, cnGeneration c)) (dget (trConditions tree) i) else None) ids"

definition relevantConditions :: "task_resource \<Rightarrow> string \<Rightarrow> condition_decl list \<Rightarrow> string list" where
  "relevantConditions r key conditions =
     uniq ((case dget (waitsOf r) key of Some w \<Rightarrow> map fst (iwConditions w) | None \<Rightarrow> []) @ map dcId conditions)"

definition deferInput ::
  "task_store \<Rightarrow> task_tree \<Rightarrow> app_task_claim \<Rightarrow> settle_input \<Rightarrow> int option \<Rightarrow> task_resource \<Rightarrow> string \<Rightarrow> task_resource" where
  "deferInput st tree claim input reviewAt r key =
     retainTaskInputWait (readAdmission st) [key]
       \<lparr>iwTaskGeneration = acGeneration claim, iwPending = siContinue input,
        iwConditions = waitConditions tree r (relevantConditions r key (siConditions input)), iwReviewAt = reviewAt\<rparr> r"

definition deferredResource ::
  "app_task_claim \<Rightarrow> result_input \<Rightarrow> int option \<Rightarrow> bool \<Rightarrow> task_resource \<Rightarrow> task_resource" where
  "deferredResource claim ri reviewAt again r =
     (observedResult claim ri r)\<lparr>tkPhase := (if again then PhPending else PhWaiting), tkReviewAt := reviewAt\<rparr>"

definition openConditions :: "task_tree \<Rightarrow> string \<Rightarrow> string list" where
  "openConditions tree taskId =
     filter (\<lambda>i. case dget (trConditions tree) i of Some c \<Rightarrow> cnState c \<noteq> CondTrue | None \<Rightarrow> False) (taskConditionIds tree taskId)"

text \<open>The events that arrived while the attempt ran are also applied to the waits it has just installed.\<close>

definition applyPending ::
  "task_store \<Rightarrow> (string \<Rightarrow> string \<Rightarrow> task_attempt option) \<Rightarrow> int \<Rightarrow> mutation_scope \<times> task_tree \<Rightarrow> trigger_event \<Rightarrow>
     mutation_scope \<times> task_tree" where
  "applyPending st others now acc e =
     (case acc of (scope, tree) \<Rightarrow>
       (case applyAppTaskConditionEvent tree (teEvent e) now (attemptsOf st others) of (wakes, tree') \<Rightarrow>
         (foldl (\<lambda>scope (_, t). trackResourceMutationTask tree' t scope) scope wakes, tree')))"

definition deferredTree ::
  "task_store \<Rightarrow> app_task_claim \<Rightarrow> settle_input \<Rightarrow> string list \<Rightarrow> int option \<Rightarrow> bool \<Rightarrow> int \<Rightarrow> task_tree \<Rightarrow> task_tree result" where
  "deferredTree st claim input keys reviewAt hasPending now tree =
     (let taskId = acTaskId claim;
          hadSatisfied = hasSatisfiedTaskCondition tree taskId;
          tree1 = unlinkSatisfiedTaskConditions now taskId tree;
          stillOpen = openConditions tree1 taskId
      in if \<not> siContinue input \<and> reviewAt = None \<and> stillOpen = [] \<and> \<not> hadSatisfied \<and> \<not> hasPending
         then Inl (''Waiting result for '' @ taskId @ '' requires at least one exact Condition'')
         else
           (let tree2 = updResource taskId (\<lambda>r. foldl (deferInput st tree1 claim input reviewAt) r keys) tree1;
                again = (continuedTaskInputKeys tree2 taskId [] [] now \<noteq> [] \<or> siContinue input \<or>
                  hadSatisfied \<and> stillOpen = [] \<and> reviewAt = None \<or> hasPending)
            in Inr (updResource taskId (touchResource now (deferredResource claim (siResult input) reviewAt again)) tree2)))"

definition deferredResult :: "app_task_claim \<Rightarrow> settle_input \<Rightarrow> string list \<Rightarrow> int option \<Rightarrow> task_tree \<Rightarrow> accepted_result" where
  "deferredResult claim input keys reviewAt tree =
     (acceptedAttemptResult tree (acTaskId claim) RWaiting ((siResult input)\<lparr>riReviewAt := reviewAt, riInputKeys := Some keys\<rparr>)
        (defaultTaskAcceptance claim (listOr (riFacts (siResult input)))))
       \<lparr>arReport := riReport (siResult input), arContinue := siContinue input\<rparr>"

definition checkRetirements :: "settle_input \<Rightarrow> unit result" where
  "checkRetirements input =
     (case find (\<lambda>d. dcId d \<in> set (retiredConditions (siActions input))) (siConditions input) of
        Some d \<Rightarrow> Inl (''Task result cannot retire and redeclare Condition '' @ dcId d) | None \<Rightarrow> Inr ())"

text \<open>The second half of \<open>deferAppTask\<close>: with the inputs and the review time known, settle and commit.\<close>

definition settleDeferred ::
  "(string \<Rightarrow> string \<Rightarrow> task_attempt option) \<Rightarrow> int \<Rightarrow> app_task_claim \<Rightarrow> settle_input \<Rightarrow> string list \<Rightarrow>
     (string \<times> task_admission) list \<Rightarrow> int option \<Rightarrow> task_tree \<Rightarrow> task_store \<Rightarrow> (settle_outcome \<times> task_store) result" where
  "settleDeferred others now claim input keys writes reviewAt tree1 st =
     (let taskId = acTaskId claim; actions = siActions input; ri = siResult input;
          accepted = deferredResult claim input keys reviewAt tree1;
          tree2 = consumeSettledTaskEvents taskId (acAgent claim) (arAcceptedLiveEventIds accepted) (arInputKeys accepted) tree1;
          pendingEvents = (case dget (trTriggers tree2) taskId of Some t \<Rightarrow> taskTriggerEvents t | None \<Rightarrow> [])
      in rbind (validateActionFacts taskId (riFacts ri) (length actions)) (\<lambda>_.
         rbind (applyTaskActions st claim now actions tree2) (\<lambda>(tree3, applied).
         rbind (validateConditions (siConditions input) False taskId) (\<lambda>_.
         rbind (checkRetirements input) (\<lambda>_.
         let tree4 = finishAttempt taskId ACompleted (riSummary ri) now (acceptResult claim accepted tree3) in
         rbind (if siConditions input \<noteq> [] then materializeWaitingConditions taskId (siConditions input) now tree4
                else Inr tree4) (\<lambda>tree5.
         rbind (deferredTree st claim input keys reviewAt (pendingEvents \<noteq> []) now tree5) (\<lambda>tree6.
         let (scope, tree7) = foldl (applyPending st others now)
               (beginResourceMutationScope tree2 taskId (unblockedTasks actions), tree6) pendingEvents
         in rbind (finishResourceMutationScope now scope tree7) (\<lambda>m.
            rbind (commitTaskMutation now (m\<lparr>muAdmissions := writes\<rparr>) st) (\<lambda>st'.
            let again = (map_option tkPhase (dget (trResources tree7) taskId) = Some PhPending) in
            Inr (\<lparr>soApplied = True, soActionsApplied = applied,
              soTaskIds = uniq (unblockedTasks actions @ (if again then [taskId] else [])), soContinues = False\<rparr>, st'))))))))))"

definition deferAppTask ::
  "(string \<Rightarrow> string \<Rightarrow> task_attempt option) \<Rightarrow> int \<Rightarrow> app_task_claim \<Rightarrow> settle_input \<Rightarrow> task_store \<Rightarrow>
     (settle_outcome \<times> task_store) result" where
  "deferAppTask others now claim input st =
     (let taskId = acTaskId claim; ri = siResult input in
      rbind (readTaskContext st (actionScope claim (siActions input) (filter (\<lambda>i. trim i \<noteq> []) (map dcId (siConditions input)))) True None) (\<lambda>tree.
      if matchingTaskAttempt tree claim = None then Inr (staleOutcome, st)
      else
        rbind (inputOutcomeAdmissions st (claimRef claim) ri (if riReport ri then KFeedback RProgress else KRetain) tree) (\<lambda>(keys, writes, tree1).
        let reviewAt = (case riReviewAt ri of Some t \<Rightarrow> Some t
              | None \<Rightarrow> Option.bind (dget (trResources tree1) taskId) (retainedReviewAt now keys)) in
        if (case reviewAt of Some t \<Rightarrow> t \<le> 0 \<or> max_safe_integer < t | None \<Rightarrow> False)
        then Inl (''Waiting result for '' @ taskId @ '' reviewAt must be a positive Unix timestamp in milliseconds'')
        else settleDeferred others now claim input keys writes reviewAt tree1 st)))"

end
