(* ===== verification/Task_Attempt.thy ===== *)
theory Task_Attempt
  imports Task_Settle
begin

text \<open>
  What happens to an attempt while it runs (\<open>app-task-reconciler.ts\<close>): its lease, its session and its
  workspace are recorded, the changes it makes are applied, and it is stopped by its owner or released
  when its result was rejected as stale.

  The fence of each of these commits names the attempt the operation was read with.
\<close>

section \<open>Lease and session\<close>

definition attemptFence :: "string \<Rightarrow> task_resource \<Rightarrow> string \<Rightarrow> task_fence" where
  "attemptFence taskId r attemptId = \<lparr>fnTaskId = taskId, fnVersion = tkVersion r,
     fnGeneration = Some (tkGeneration r), fnCurrentAttemptId = Some (Some attemptId)\<rparr>"

definition commitAttempt ::
  "int \<Rightarrow> task_fence \<Rightarrow> task_attempt \<Rightarrow> task_store \<Rightarrow> task_store result" where
  "commitAttempt now fence a st = commitTaskMutation now (noMutation\<lparr>muFences := [fence], muAttempts := [a]\<rparr>) st"

definition nextVersion :: "task_attempt \<Rightarrow> task_attempt" where
  "nextVersion a = a\<lparr>atVersion := atVersion a + 1\<rparr>"

definition renewAppTaskAttemptLease ::
  "int \<Rightarrow> string \<Rightarrow> app_task_claim \<Rightarrow> jsnum \<Rightarrow> task_store \<Rightarrow> (bool \<times> task_store) result" where
  "renewAppTaskAttemptLease now leaseId claim nowMs st =
     rbind (readTaskContext st (taskScope [acTaskId claim]) True None) (\<lambda>tree.
       case claimAttempt tree claim of
         None \<Rightarrow> Inr (False, st)
       | Some (r, a) \<Rightarrow>
           rbind (commitAttempt now (attemptFence (acTaskId claim) r (acAttemptId claim))
             (refreshAttemptLease leaseId (atSessionId a) nowMs now (nextVersion a)) st) (\<lambda>st'. Inr (True, st')))"

definition withSession :: "string \<Rightarrow> string \<Rightarrow> int \<Rightarrow> task_attempt \<Rightarrow> task_attempt" where
  "withSession leaseId sessionId now a =
     refreshAttemptLease leaseId (Some sessionId) (num_int now) now ((nextVersion a)\<lparr>atSessionId := Some sessionId\<rparr>)"

definition recordAppTaskAttemptSession ::
  "int \<Rightarrow> string \<Rightarrow> app_task_claim \<Rightarrow> string \<Rightarrow> task_store \<Rightarrow> (bool \<times> task_store) result" where
  "recordAppTaskAttemptSession now leaseId claim sessionId st =
     rbind (readTaskContext st (taskScope [acTaskId claim]) True None) (\<lambda>tree.
       case claimAttempt tree claim of
         None \<Rightarrow> Inr (False, st)
       | Some (r, a) \<Rightarrow>
           if atSessionId a = Some sessionId \<and> atLease a \<noteq> None then Inr (True, st)
           else rbind (commitAttempt now (attemptFence (acTaskId claim) r (acAttemptId claim))
             (withSession leaseId sessionId now a) st) (\<lambda>st'. Inr (True, st')))"

datatype association = AsRecorded | AsMissing | AsSuperseded

record session_binding =
  sbTaskId :: string
  sbGeneration :: nat
  sbAttemptId :: "string option"

definition boundAttempt :: "session_binding \<Rightarrow> task_tree \<Rightarrow> task_resource \<Rightarrow> task_attempt option" where
  "boundAttempt binding tree r =
     (if tkPhase r \<noteq> PhRunning then None
      else case Option.bind (whenText (tkCurrentAttemptId r)) (dget (trAttempts tree)) of
          None \<Rightarrow> None
        | Some a \<Rightarrow>
            if atState a \<noteq> ARunning \<or> atTaskId a \<noteq> sbTaskId binding \<or> atTaskGeneration a \<noteq> sbGeneration binding \<or>
               whenText (sbAttemptId binding) \<noteq> Some (atId a)
            then None else Some a)"

definition associateAppTaskSession ::
  "int \<Rightarrow> string \<Rightarrow> session_binding \<Rightarrow> string \<Rightarrow> task_store \<Rightarrow> (association \<times> task_store) result" where
  "associateAppTaskSession now leaseId binding sessionId st =
     rbind (readTaskContext st (taskScope [sbTaskId binding]) True None) (\<lambda>tree.
       case dget (trResources tree) (sbTaskId binding) of
         None \<Rightarrow> Inr (AsMissing, st)
       | Some r \<Rightarrow>
           (case boundAttempt binding tree r of
              None \<Rightarrow> Inr (AsSuperseded, st)
            | Some a \<Rightarrow>
                if atSessionId a = Some sessionId \<and> atLease a \<noteq> None then Inr (AsRecorded, st)
                else rbind (commitAttempt now (attemptFence (sbTaskId binding) r (atId a))
                  (withSession leaseId sessionId now a) st) (\<lambda>st'. Inr (AsRecorded, st'))))"

section \<open>Workspace\<close>

definition recordAppTaskAttemptWorkspace ::
  "int \<Rightarrow> app_task_claim \<Rightarrow> task_workspace \<Rightarrow> task_store \<Rightarrow> (bool \<times> task_store) result" where
  "recordAppTaskAttemptWorkspace now claim workspace st =
     rbind (readTaskContext st (taskScope [acTaskId claim]) True None) (\<lambda>tree.
       if matchingTaskAttempt tree claim = None then Inr (False, st)
       else
         (let tree1 = updResource (acTaskId claim) (touchResource now (\<lambda>r. r\<lparr>tkWorkspaceAttemptId := Some (acAttemptId claim)\<rparr>))
                (updAttempt (acAttemptId claim) (\<lambda>a. (nextVersion a)\<lparr>atWorkspace := Some workspace\<rparr>) tree)
          in rbind (finishResourceMutationScope now (beginResourceMutationScopeForTasks tree [acTaskId claim]) tree1) (\<lambda>m.
             rbind (commitTaskMutation now m st) (\<lambda>st'. Inr (True, st')))))"

text \<open>Cleanup is recorded on the attempt that released the workspace, however old it is.\<close>

definition releasedWorkspace :: "app_task_claim \<Rightarrow> task_workspace \<Rightarrow> task_attempt \<Rightarrow> bool" where
  "releasedWorkspace claim workspace a \<longleftrightarrow> atTaskId a = acTaskId claim \<and> atTaskGeneration a = acGeneration claim \<and>
     (case atWorkspace a of
        None \<Rightarrow> False
      | Some w \<Rightarrow> wsReleased w \<and> wsPath w = wsPath workspace \<and> wsBranch w = wsBranch workspace)"

definition recordReleasedAppTaskWorkspace ::
  "int \<Rightarrow> app_task_claim \<Rightarrow> task_workspace \<Rightarrow> task_store \<Rightarrow> task_store result" where
  "recordReleasedAppTaskWorkspace now claim workspace st =
     rbind (readTaskContext st (taskScope [acTaskId claim]) False (Some (num_int 0))) (\<lambda>tree.
       case (dget (trResources tree) (acTaskId claim), readAttempt st (acAttemptId claim)) of
         (Some r, Some a) \<Rightarrow>
           if \<not> releasedWorkspace claim workspace a then Inr st
           else commitAttempt now \<lparr>fnTaskId = acTaskId claim, fnVersion = tkVersion r, fnGeneration = None, fnCurrentAttemptId = None\<rparr>
             ((nextVersion a)\<lparr>atWorkspace := Some workspace\<rparr>) st
       | _ \<Rightarrow> Inr st)"

section \<open>Releasing and stopping an attempt\<close>

datatype release_status = RelReleased | RelSuperseded | RelMissing

definition staleAttempt :: "app_task_claim \<Rightarrow> task_tree \<Rightarrow> task_resource \<Rightarrow> task_attempt option" where
  "staleAttempt claim tree r =
     (if tkCurrentAttemptId r \<noteq> Some (acAttemptId claim) then None
      else case dget (trAttempts tree) (acAttemptId claim) of
          None \<Rightarrow> None
        | Some a \<Rightarrow>
            if atState a \<noteq> ARunning \<or> atTaskId a \<noteq> acTaskId claim \<or> atTaskGeneration a \<noteq> acGeneration claim
            then None else Some a)"

definition releaseStaleAppTaskResult ::
  "int \<Rightarrow> app_task_claim \<Rightarrow> string option \<Rightarrow> task_store \<Rightarrow> (release_status \<times> task_store) result" where
  "releaseStaleAppTaskResult now claim summary st =
     rbind (readTaskContext st (taskScope [acTaskId claim]) True None) (\<lambda>tree.
       case dget (trResources tree) (acTaskId claim) of
         None \<Rightarrow> Inr (RelMissing, st)
       | Some r \<Rightarrow>
           (case staleAttempt claim tree r of
              None \<Rightarrow> Inr (RelSuperseded, st)
            | Some a \<Rightarrow>
                (let taskId = acTaskId claim;
                     text = (case summary of Some s \<Rightarrow> s
                       | None \<Rightarrow> ''Stale reconciliation result was rejected; retrying from current task facts'');
                     tree1 = finishAttempt taskId AInterrupted text now (snd (restoreAttemptEvents tree taskId r a now));
                     tree2 = updAttempt (acAttemptId claim) (\<lambda>a. (nextVersion a)\<lparr>atFailureReason := Some ''stale-reconciliation-result''\<rparr>) tree1;
                     tree3 = updResource taskId (touchResource now (\<lambda>r. r\<lparr>tkPhase := PhPending, tkCurrentAttemptId := None\<rparr>)) tree2
                 in rbind (commitTaskMutation now (noMutation\<lparr>muFences := [attemptFence taskId r (acAttemptId claim)],
                      muTasks := map (\<lambda>r. resourceWrite now tree3 r True) (List.map_filter (dget (trResources tree3)) [taskId]),
                      muAttempts := List.map_filter (dget (trAttempts tree3)) [acAttemptId claim]\<rparr>) st) (\<lambda>st'.
                    Inr (RelReleased, st')))))"

record stop_input =
  spnTaskId :: string
  spnAttemptId :: string
  spnExpectedGeneration :: nat
  spnReason :: string

definition stoppedResource :: "stop_input \<Rightarrow> task_resource \<Rightarrow> task_resource" where
  "stoppedResource input r =
     r\<lparr>tkPhase := PhAttention, tkObservedGeneration := spnExpectedGeneration input, tkCurrentAttemptId := None,
       tkExecutionRetryAt := None,
       tkExecutionFailures := (if tkRetryExhausted r \<noteq> None then tkExecutionFailures r else None),
       tkExecutionFailureAttemptId := (if tkRetryExhausted r \<noteq> None then tkExecutionFailureAttemptId r else Some None),
       tkSummary := Some (spnReason input)\<rparr>"

definition stopAppTaskAttempt ::
  "int \<Rightarrow> stop_input \<Rightarrow> task_store \<Rightarrow> ((bool \<times> string list) \<times> task_store) result" where
  "stopAppTaskAttempt now input st =
     rbind (readTaskContext st (taskScope [spnTaskId input]) True None) (\<lambda>tree.
       case (dget (trResources tree) (spnTaskId input), readAttempt st (spnAttemptId input)) of
         (Some r, Some a) \<Rightarrow>
           if atTaskId a \<noteq> spnTaskId input \<or> atTaskGeneration a \<noteq> spnExpectedGeneration input
           then Inl ''Attempt stop is stale or mismatched''
           else
             (let taskId = spnTaskId input;
                  inputKeys = taskInputAdmissionKeys (listOr (atEvents a)) (listOr (atContinuedInputKeys a))
              in if atFailureReason a = Some ''owner-stopped'' then Inr ((False, inputKeys), st)
                 else if tkCurrentAttemptId r \<noteq> Some (spnAttemptId input) \<or> atState a \<noteq> ARunning
                 then Inl ''Attempt stop is stale or mismatched''
                 else
                   (let tree1 = finishAttempt taskId AInterrupted (spnReason input) now tree;
                        tree2 = updAttempt (spnAttemptId input) (\<lambda>a. a\<lparr>atFailureReason := Some ''owner-stopped''\<rparr>) tree1;
                        tree3 = updResource taskId (\<lambda>r. touchResource now (stoppedResource input)
                          (dropEmptyWaits (foldl (\<lambda>r key. dropWait key r) r inputKeys))) tree2
                    in rbind (finishResourceMutationScope now (beginResourceMutationScopeForTasks tree [taskId]) tree3) (\<lambda>m.
                       rbind (commitTaskMutation now m st) (\<lambda>st'. Inr ((True, inputKeys), st')))))
       | _ \<Rightarrow> Inl ''Attempt stop is stale or mismatched'')"

section \<open>Changes of a running attempt\<close>

definition readTaskChangeInputKeys ::
  "app_task_claim \<Rightarrow> string list option \<Rightarrow> int list option \<Rightarrow> task_store \<Rightarrow> string list result" where
  "readTaskChangeInputKeys claim inputKeys acceptedLiveEventIds st =
     rbind (readTaskContext st (taskScope [acTaskId claim]) True None) (\<lambda>tree.
       resultInputKeys st tree (claimRef claim) acceptedLiveEventIds inputKeys)"

record change_input =
  ciOperationKey :: string
  ciActionReceiptKeys :: "string list"
  ciReplayedActions :: "string list"
  ciRequests :: "(string \<times> string) list"
  ciCommunication :: "js list option"
  ciConditions :: "condition_decl list"
  ciActions :: "task_action list"
  ciFacts :: "string list option"
  ciInputKeys :: "string list option"
  ciAcceptedLiveEventIds :: "int list option"

definition changeWait ::
  "task_store \<Rightarrow> task_tree \<Rightarrow> app_task_claim \<Rightarrow> condition_decl list \<Rightarrow> task_resource \<Rightarrow> string \<Rightarrow> task_resource" where
  "changeWait st tree claim conditions r key =
     retainTaskInputWait (readAdmission st) [key]
       \<lparr>iwTaskGeneration = acGeneration claim, iwPending = True,
        iwConditions = waitConditions tree r (relevantConditions r key conditions),
        iwReviewAt = Option.bind (dget (waitsOf r) key) iwReviewAt\<rparr> r"

definition changeReceipt :: "change_input \<Rightarrow> string list \<Rightarrow> change_receipt" where
  "changeReceipt input applied = \<lparr>chRequests = ciRequests input, chConditionIds = map dcId (ciConditions input),
     chActionsApplied = ciReplayedActions input @ applied, chCommunication = ciCommunication input\<rparr>"

definition actionReceipt :: "string \<Rightarrow> change_receipt" where
  "actionReceipt applied = \<lparr>chRequests = [], chConditionIds = [], chActionsApplied = [applied], chCommunication = None\<rparr>"

text \<open>The caller passes one receipt key per action, in their order.\<close>

definition keepReceipts :: "change_input \<Rightarrow> string list \<Rightarrow> task_attempt \<Rightarrow> task_attempt" where
  "keepReceipts input applied a =
     (nextVersion a)\<lparr>atChangeReceipts := dset
       (foldl (\<lambda>rs (key, act). dset rs key (actionReceipt act)) (atChangeReceipts a) (zip (ciActionReceiptKeys input) applied))
       (ciOperationKey input) (changeReceipt input applied)\<rparr>"

definition applyRunningTaskChanges ::
  "int \<Rightarrow> app_task_claim \<Rightarrow> change_input \<Rightarrow> task_store \<Rightarrow> (change_receipt \<times> task_store) result" where
  "applyRunningTaskChanges now claim input st =
     (let taskId = acTaskId claim; actions = ciActions input; conditions = ciConditions input in
      rbind (readTaskContext st (actionScope claim actions (map dcId conditions)) True None) (\<lambda>tree.
      if matchingTaskAttempt tree claim = None then Inl ''Task changes require a current running attempt''
      else
        rbind (resultInputKeys st tree (claimRef claim) (ciAcceptedLiveEventIds input) (ciInputKeys input)) (\<lambda>keys.
        rbind (validateActionFacts taskId (ciFacts input) (length actions)) (\<lambda>_.
        rbind (validateConditions conditions False taskId) (\<lambda>_.
        rbind (applyTaskActions st claim now actions tree) (\<lambda>(tree1, applied).
        rbind (if conditions \<noteq> [] then materializeWaitingConditions taskId conditions now tree1 else Inr tree1) (\<lambda>tree2.
        let tree3 = updResource taskId (\<lambda>r. foldl (changeWait st tree2 claim conditions) r keys) tree2;
            tree4 = updResource taskId (touchResource now (\<lambda>r. r))
              (updAttempt (acAttemptId claim) (keepReceipts input applied) tree3)
        in rbind (finishResourceMutationScope now (beginResourceMutationScope tree taskId (unblockedTasks actions)) tree4) (\<lambda>m.
           rbind (commitTaskMutation now m st) (\<lambda>st'. Inr (changeReceipt input applied, st'))))))))))"

end
