(* ===== verification/Task_Control.thy ===== *)
theory Task_Control
  imports Task_Settle
begin

text \<open>
  The controls over a whole Task (\<open>app-task-reconciler.ts\<close>): retrying a failed generation, closing it
  after an accepted result, cancelling it, and reopening what was closed. Each control names the version
  it was decided on, and its receipt makes a repeated delivery return the first decision.

  A control's result is kept as a JSON value, in which a time stands for its milliseconds; the closure of
  a reopened Task is kept beside it.
\<close>

section \<open>Retrying\<close>

record control_input =
  kiAppId :: string
  kiTaskId :: string
  kiExpectedGeneration :: nat
  kiExpectedVersion :: nat
  kiControlKey :: "string option"

definition controlTask :: "control_input \<Rightarrow> string" where
  "controlTask input = ''Task '' @ kiAppId input @ ''/'' @ kiTaskId input"

definition sameControl :: "control_input \<Rightarrow> control_action \<Rightarrow> control_receipt \<Rightarrow> bool" where
  "sameControl input action rc \<longleftrightarrow> ctAction rc = action \<and> ctAppId rc = kiAppId input \<and> ctTaskId rc = kiTaskId input \<and>
     ctExpectedGeneration rc = kiExpectedGeneration input \<and> ctExpectedVersion rc = kiExpectedVersion input"

definition priorControl :: "control_input \<Rightarrow> task_store \<Rightarrow> control_receipt option" where
  "priorControl input st = Option.bind (whenText (kiControlKey input)) (readControlReceipt st)"

definition usedControl :: "control_input \<Rightarrow> error" where
  "usedControl input = ''Task control key '' @ (case kiControlKey input of Some k \<Rightarrow> k | None \<Rightarrow> []) @
     '' was already used for a different operation''"

definition checkVersions :: "control_input \<Rightarrow> task_resource \<Rightarrow> unit result" where
  "checkVersions input r =
     (if tkGeneration r \<noteq> kiExpectedGeneration input
      then Inl (controlTask input @ '' generation changed: expected '' @ show_nat (kiExpectedGeneration input) @
        '', current '' @ show_nat (tkGeneration r))
      else if tkVersion r \<noteq> kiExpectedVersion input
      then Inl (controlTask input @ '' resource version changed: expected '' @ show_nat (kiExpectedVersion input) @
        '', current '' @ show_nat (tkVersion r))
      else Inr ())"

definition controlReceipts ::
  "control_input \<Rightarrow> control_action \<Rightarrow> nat \<Rightarrow> int \<Rightarrow> task_cancellation option \<Rightarrow> js \<Rightarrow> control_receipt list" where
  "controlReceipts input action version now closure res =
     (case whenText (kiControlKey input) of
        None \<Rightarrow> []
      | Some k \<Rightarrow> [\<lparr>ctKey = k, ctAppId = kiAppId input, ctTaskId = kiTaskId input, ctAction = action,
          ctExpectedGeneration = kiExpectedGeneration input, ctExpectedVersion = kiExpectedVersion input,
          ctAppliedVersion = version, ctAppliedAt = now, ctClosure = closure, ctResult = res\<rparr>])"

definition retriedAttempt :: "control_input \<Rightarrow> task_tree \<Rightarrow> task_resource \<Rightarrow> task_store \<Rightarrow> task_attempt option" where
  "retriedAttempt input tree r st =
     (case tkRetryExhausted r of
        Some e \<Rightarrow> readAttempt st (reAttemptId e)
      | None \<Rightarrow> latestTaskAttempt tree (kiTaskId input) (Some (kiExpectedGeneration input)))"

definition requeueResource :: "int \<Rightarrow> task_resource \<Rightarrow> task_resource" where
  "requeueResource now =
     touchResource now (\<lambda>r. (clearFailures r)\<lparr>tkPhase := PhPending, tkObservedGeneration := tkGeneration r - 1,
       tkCurrentAttemptId := None\<rparr>)"

definition retryReceipt :: "control_input \<Rightarrow> string \<Rightarrow> nat \<Rightarrow> task_attempt \<Rightarrow> int \<Rightarrow> js" where
  "retryReceipt input uuid version a now =
     JObj [(''receiptId'', JStr uuid), (''action'', JStr ''app.task.retry''), (''disposition'', JStr ''requeued''),
       (''appId'', JStr (kiAppId input)), (''taskId'', JStr (kiTaskId input)),
       (''generation'', JNum (num_int (int (kiExpectedGeneration input)))),
       (''previousResourceVersion'', JNum (num_int (int (kiExpectedVersion input)))),
       (''resourceVersion'', JNum (num_int (int version))), (''previousAttemptId'', JStr (atId a)),
       (''acceptedAt'', JNum (num_int now))]"

definition retryEligible :: "control_input \<Rightarrow> task_tree \<Rightarrow> task_resource \<Rightarrow> task_store \<Rightarrow> task_attempt result" where
  "retryEligible input tree r st =
     (if tkPhase r \<noteq> PhAttention \<and> \<not> (tkPhase r = PhPending \<and> tkExecutionRetryAt r \<noteq> None)
      then Inl (controlTask input @ '' is not eligible for retry: phase is '' @ phaseName (tkPhase r) @
        '', expected a failed attempt awaiting retry'')
      else case retriedAttempt input tree r st of
          Some a \<Rightarrow>
            if isFailedExecution a \<and> whenText (tkCurrentAttemptId r) = None then Inr a
            else Inl (controlTask input @ '' is not eligible for retry: its current generation has no completed failed attempt'')
        | None \<Rightarrow> Inl (controlTask input @ '' is not eligible for retry: its current generation has no completed failed attempt''))"

definition retryTask ::
  "int \<Rightarrow> string \<Rightarrow> control_input \<Rightarrow> task_tree \<Rightarrow> task_resource \<Rightarrow> task_attempt \<Rightarrow> task_store \<Rightarrow> (js \<times> task_store) result" where
  "retryTask now uuid input tree r a st =
     (let taskId = kiTaskId input;
          tree1 = (if atState a = AFailed then snd (restoreAttemptEvents tree taskId r a now) else tree);
          tree2 = updResource taskId (requeueResource now) tree1;
          version = tkVersion r + 1;
          receipt = retryReceipt input uuid version a now
      in rbind (finishResourceMutationScope now (beginResourceMutationScopeForTasks tree [taskId]) tree2) (\<lambda>m.
         rbind (commitTaskMutation now (m\<lparr>muControls := controlReceipts input CtlRetry version now None receipt\<rparr>) st) (\<lambda>st'.
         Inr (receipt, st'))))"

definition isJObj :: "js \<Rightarrow> bool" where
  "isJObj v = (case v of JObj _ \<Rightarrow> True | _ \<Rightarrow> False)"

definition retryFailedAppTask ::
  "int \<Rightarrow> string \<Rightarrow> control_input \<Rightarrow> task_store \<Rightarrow> (js \<times> task_store) result" where
  "retryFailedAppTask now uuid input st =
     (if isCancelled st (kiTaskId input)
      then Inl (''Cannot retry cancelled task '' @ kiAppId input @ ''/'' @ kiTaskId input @ ''; create a new linked task'')
      else case priorControl input st of
          Some rc \<Rightarrow>
            if \<not> sameControl input CtlRetry rc then Inl (usedControl input)
            else if \<not> isJObj (ctResult rc)
            then Inl (''Task retry control receipt '' @ ctKey rc @ '' has no valid result'')
            else Inr (ctResult rc, st)
        | None \<Rightarrow>
            rbind (readTaskContext st (taskScope [kiTaskId input]) True None) (\<lambda>tree.
              case dget (trResources tree) (kiTaskId input) of
                None \<Rightarrow> Inl (controlTask input @ '' was not found'')
              | Some r \<Rightarrow>
                  rbind (checkVersions input r) (\<lambda>_.
                  rbind (retryEligible input tree r st) (\<lambda>a. retryTask now uuid input tree r a st))))"

section \<open>Closing and cancelling\<close>

datatype close_decision = DecidedByHuman | DecidedByPolicy

record close_input =
  coControl :: control_input
  coReason :: string
  coActor :: "resource_creator option"
  coDecision :: close_decision

text \<open>\<open>Some attemptId\<close>: closing after that accepted result; \<open>None\<close>: cancelling.\<close>

type_synonym after_result = "string option"

definition closureKind :: "after_result \<Rightarrow> closure_kind" where
  "closureKind after = (if after = None then Cancelled else Closed)"

record cancellation_result =
  crtCancellation :: task_cancellation
  crtCancelledAttemptId :: "string option"
  crtApplied :: bool

definition replayClosure :: "after_result \<Rightarrow> task_cancellation \<Rightarrow> cancellation_result result" where
  "replayClosure after c =
     (if (case caKind c of Some k \<Rightarrow> k | None \<Rightarrow> Cancelled) \<noteq> closureKind after
      then Inl ''The Task was ended by a different control''
      else if after \<noteq> None \<and> caAcceptedResultAttemptId c \<noteq> after
      then Inl ''The Task was closed against a different accepted result''
      else Inr \<lparr>crtCancellation = c, crtCancelledAttemptId = None, crtApplied = False\<rparr>)"

definition readPastCancellation :: "task_store \<Rightarrow> string \<Rightarrow> nat \<Rightarrow> nat \<Rightarrow> task_cancellation option" where
  "readPastCancellation st taskId generation version =
     Option.bind (find (\<lambda>rc. ctTaskId rc = taskId \<and> ctAction rc = CtlReopen \<and>
       ctExpectedGeneration rc = generation \<and> ctExpectedVersion rc = version) (dvals (stControls st))) ctClosure"

definition closable :: "control_input \<Rightarrow> string \<Rightarrow> task_tree \<Rightarrow> task_resource \<Rightarrow> task_store \<Rightarrow> bool" where
  "closable input after tree r st \<longleftrightarrow>
     (case readAttempt st after of
        None \<Rightarrow> False
      | Some a \<Rightarrow> atTaskId a = kiTaskId input \<and> atTaskGeneration a = kiExpectedGeneration input \<and>
          map_option arState (atAcceptedResult a) \<in> {Some RConverged, Some RIncomplete} \<and>
          tkObservedAttemptId r = Some after \<and> tkPhase r = PhConverged \<and> whenText (tkCurrentAttemptId r) = None \<and>
          dget (trTriggers tree) (kiTaskId input) = None)"

definition closeReason :: "close_input \<Rightarrow> closure_kind \<Rightarrow> string" where
  "closeReason input kind =
     (if trim (coReason input) \<noteq> [] then trim (coReason input)
      else if kind = Closed then ''owner ended the Task'' else ''human requested cancellation'')"

definition closeSummary :: "close_input \<Rightarrow> closure_kind \<Rightarrow> string" where
  "closeSummary input kind =
     (let verb = (if kind = Closed then ''Closed'' else ''Cancelled''); reason = closeReason input kind in
      if coActor input \<noteq> None then verb @ '' by creator: '' @ reason
      else if kind = Closed \<or> coDecision input = DecidedByPolicy then verb @ '' by App policy: '' @ reason
      else ''Cancelled by human: '' @ reason)"

definition closeDecider :: "close_input \<Rightarrow> closure_kind \<Rightarrow> closure_decider" where
  "closeDecider input kind =
     (case coActor input of
        Some c \<Rightarrow> ByCreator c
      | None \<Rightarrow> if kind = Closed \<or> coDecision input = DecidedByPolicy then ByAppPolicy else ByHuman)"

text \<open>Ending a Task interrupts its attempt, drops its pending events and unlinks its Conditions.\<close>

definition endedResource :: "closure_kind \<Rightarrow> string \<Rightarrow> task_resource \<Rightarrow> task_resource" where
  "endedResource kind summary r =
     (let r1 = r\<lparr>tkPhase := (if kind = Closed \<and> tkPhase r = PhConverged then PhConverged else PhAttention),
            tkObservedGeneration := tkGeneration r, tkCurrentAttemptId := None,
            tkFacts := Some (listOr (tkFacts r)), tkConditionIds := Some []\<rparr>
      in if kind = Closed then r1
         else r1\<lparr>tkSummary := Some summary, tkResponse := Some summary, tkResult := None\<rparr>)"

definition endedTree :: "string \<Rightarrow> closure_kind \<Rightarrow> string \<Rightarrow> int \<Rightarrow> task_resource \<Rightarrow> task_tree \<Rightarrow> task_tree" where
  "endedTree taskId kind summary now r tree =
     (let tree1 = (case whenText (tkCurrentAttemptId r) of
            Some i \<Rightarrow>
              if dget (trAttempts tree) i = None then tree
              else updAttempt i (\<lambda>a. a\<lparr>atReason := summary, atLease := None\<rparr>) (finishAttempt taskId AInterrupted summary now tree)
          | None \<Rightarrow> tree)
      in updResource taskId (touchResource now (endedResource kind summary))
           (tree1\<lparr>trTriggers := ddel (trTriggers tree1) taskId\<rparr>))"

definition taskClosure ::
  "close_input \<Rightarrow> after_result \<Rightarrow> int \<Rightarrow> task_resource \<Rightarrow> task_cancellation" where
  "taskClosure input after now r =
     (let kind = closureKind after in
      \<lparr>caKind = Some kind, caAcceptedResultAttemptId = whenText after, caAppId = kiAppId (coControl input),
       caTaskId = kiTaskId (coControl input), caGeneration = tkGeneration r, caVersion = tkVersion r,
       caOutcome = spOutcome (tkSpec r), caReason = closeReason input kind, caSummary = closeSummary input kind,
       caCancelledAt = now, caDecidedBy = Some (closeDecider input kind), caResponse = tkResponse r,
       caResult = tkResult r, caFacts = tkFacts r\<rparr>)"

definition commitTaskCancellation ::
  "int \<Rightarrow> close_input \<Rightarrow> after_result \<Rightarrow> task_tree \<Rightarrow> task_resource \<Rightarrow> task_store \<Rightarrow>
     (cancellation_result \<times> task_store) result" where
  "commitTaskCancellation now input after tree r st =
     (let taskId = kiTaskId (coControl input);
          kind = closureKind after;
          tree1 = endedTree taskId kind (closeSummary input kind) now r tree;
          r' = (case dget (trResources tree1) taskId of Some r1 \<Rightarrow> r1 | None \<Rightarrow> r);
          closure = taskClosure input after now r'
      in rbind (finishResourceMutationScope now (beginResourceMutationScopeForTasks tree [taskId]) tree1) (\<lambda>m.
         rbind (commitTaskMutation now (m\<lparr>muCancellations := [closure], muPruneConditions := listOr (tkConditionIds r),
             muControls := controlReceipts (coControl input) CtlCancel (tkVersion r') now None JUndef\<rparr>) st) (\<lambda>st'.
         Inr (\<lparr>crtCancellation = closure, crtCancelledAttemptId = whenText (tkCurrentAttemptId r), crtApplied = True\<rparr>, st'))))"

definition closeCurrent ::
  "int \<Rightarrow> close_input \<Rightarrow> after_result \<Rightarrow> task_store \<Rightarrow> (cancellation_result \<times> task_store) result" where
  "closeCurrent now input after st =
     (let ci = coControl input in
      rbind (readTaskContext st (taskScope [kiTaskId ci]) True None) (\<lambda>tree.
        case dget (trResources tree) (kiTaskId ci) of
          None \<Rightarrow> Inl (controlTask ci @ '' was not found'')
        | Some r \<Rightarrow>
            rbind (checkVersions ci r) (\<lambda>_.
            if (case after of Some i \<Rightarrow> \<not> closable ci i tree r st | None \<Rightarrow> False)
            then Inl ''Cannot close after a result while newer or unresolved work remains''
            else commitTaskCancellation now input after tree r st)))"

definition closeTask ::
  "int \<Rightarrow> close_input \<Rightarrow> after_result \<Rightarrow> task_store \<Rightarrow> (cancellation_result \<times> task_store) result" where
  "closeTask now input after st =
     (let ci = coControl input in
      if kiAppId ci \<noteq> stAppId st then Inl (''Task cancellation belongs to another App: '' @ kiAppId ci)
      else rbind (case coActor input of
          Some actor \<Rightarrow> assertResourceCreator (Option.bind (readTask st (kiTaskId ci)) tkCreator) actor
        | None \<Rightarrow> Inr ()) (\<lambda>_.
      case priorControl ci st of
        Some rc \<Rightarrow>
          if \<not> sameControl ci CtlCancel rc then Inl (usedControl ci)
          else
            (case (case readPastCancellation st (kiTaskId ci) (kiExpectedGeneration ci) (kiExpectedVersion ci + 1) of
                Some c \<Rightarrow> Some c | None \<Rightarrow> readCancellation st (kiTaskId ci)) of
               None \<Rightarrow> Inl (''Task cancellation receipt '' @ ctKey rc @ '' has no terminal facts'')
             | Some c \<Rightarrow> rbind (replayClosure after c) (\<lambda>res. Inr (res, st)))
      | None \<Rightarrow>
          (case readCancellation st (kiTaskId ci) of
             Some c \<Rightarrow>
               if caGeneration c \<noteq> kiExpectedGeneration ci \<or> caVersion c \<noteq> kiExpectedVersion ci + 1
               then Inl (controlTask ci @ '' was already cancelled at another version'')
               else rbind (replayClosure after c) (\<lambda>res. Inr (res, st))
           | None \<Rightarrow> closeCurrent now input after st)))"

definition closeAppTask ::
  "int \<Rightarrow> close_input \<Rightarrow> string \<Rightarrow> task_store \<Rightarrow> (cancellation_result \<times> task_store) result" where
  "closeAppTask now input after st =
     rbind (requireNonEmptyString after ''Task completion afterResult'') (\<lambda>_. closeTask now input (Some after) st)"

definition cancelAppTask :: "int \<Rightarrow> close_input \<Rightarrow> task_store \<Rightarrow> (cancellation_result \<times> task_store) result" where
  "cancelAppTask now input st = closeTask now input None st"

section \<open>Reopening\<close>

record reopen_input =
  rpControl :: control_input
  rpReason :: string
  rpInput :: "js option"
  rpIntent :: "task_intent option"

definition reopenedSpec :: "reopen_input \<Rightarrow> task_resource \<Rightarrow> task_spec result" where
  "reopenedSpec input r =
     (case rpIntent input of
        None \<Rightarrow> Inr (tkSpec r)
      | Some i \<Rightarrow>
          rbind (normalizeTaskAgent \<lparr>inId = kiTaskId (rpControl input),
              inSpec = (inSpec i)\<lparr>spParentId := spParentId (tkSpec r)\<rparr>\<rparr>) (\<lambda>intent.
          rbind (validateIntent intent) (\<lambda>_.
          if spExecutor (inSpec intent) = Some ''conversation'' then Inl ''Conversation input must use its linked successor''
          else Inr (resourceSpec (inSpec intent)))))"

text \<open>A reopened Task keeps its identity, creator and requirements; its status starts over.\<close>

definition reopenedResource :: "reopen_input \<Rightarrow> task_spec \<Rightarrow> int \<Rightarrow> int \<Rightarrow> task_resource \<Rightarrow> task_resource" where
  "reopenedResource input sp lastEventId now r =
     \<lparr>tkId = tkId r, tkCreator = tkCreator r, tkGeneration = tkGeneration r + 1, tkVersion = tkVersion r + 1,
      tkReopenedAfterEventId = Some lastEventId, tkSpec = sp,
      tkObservedGeneration = kiExpectedGeneration (rpControl input), tkPhase = PhPending, tkLane = Some Human,
      tkCurrentAttemptId = None, tkObservedAttemptId = None, tkWorkspaceAttemptId = None,
      tkExecutionFailures = None, tkExecutionFailureAttemptId = Some None, tkAdmissionFailures = None,
      tkRetryExhausted = None, tkExecutionRetryAt = None, tkReviewAt = None, tkFreshHumanInput = False,
      tkSummary = Some (''Reopened at the user's request: '' @ trim (rpReason input)), tkResponse = None,
      tkResult = None, tkFacts = None, tkConditionIds = None, tkInputWaits = None, tkUpdatedAt = now\<rparr>"

definition reopenTrigger :: "reopen_input \<Rightarrow> nat \<Rightarrow> int \<Rightarrow> task_trigger" where
  "reopenTrigger input generation now =
     (let event = [(''type'', JStr ''app.task.reopen.requested''), (''source'', JStr ''human''),
            (''data'', JObj [(''reason'', JStr (trim (rpReason input)))])]
      in \<lparr>ttTaskId = kiTaskId (rpControl input), ttTaskGeneration = generation, ttVersion = 1,
          ttEvents = Some [\<lparr>teEvent = event, teObservedAt = now\<rparr>], ttEvent = event, ttObservedAt = now\<rparr>)"

definition reopenResult :: "reopen_input \<Rightarrow> task_resource \<Rightarrow> js" where
  "reopenResult input r =
     JObj ([(''taskId'', JStr (kiTaskId (rpControl input))), (''generation'', JNum (num_int (int (tkGeneration r)))),
        (''resourceVersion'', JNum (num_int (int (tkVersion r)))), (''reason'', JStr (trim (rpReason input)))] @
       (case rpInput input of
          None \<Rightarrow> []
        | Some v \<Rightarrow> [(''input'', v), (''admissionKey'', JStr (''task-reopen:'' @
            (case kiControlKey (rpControl input) of Some k \<Rightarrow> k | None \<Rightarrow> [])))]))"

definition sameReopening :: "reopen_input \<Rightarrow> control_receipt \<Rightarrow> bool" where
  "sameReopening input rc \<longleftrightarrow> ctAction rc = CtlReopen \<and> ctTaskId rc = kiTaskId (rpControl input) \<and>
     ctExpectedGeneration rc = kiExpectedGeneration (rpControl input) \<and>
     ctExpectedVersion rc = kiExpectedVersion (rpControl input) \<and>
     jget (ctResult rc) ''reason'' = JStr (trim (rpReason input)) \<and>
     jget (ctResult rc) ''input'' = (case rpInput input of Some v \<Rightarrow> v | None \<Rightarrow> JUndef)"

definition reopenCurrent ::
  "int \<Rightarrow> int \<Rightarrow> reopen_input \<Rightarrow> task_tree \<Rightarrow> task_resource \<Rightarrow> task_cancellation \<Rightarrow> task_store \<Rightarrow>
     ((task_cancellation option \<times> js) \<times> task_store) result" where
  "reopenCurrent now lastEventId input tree r closure st =
     rbind (reopenedSpec input r) (\<lambda>sp.
       let ci = rpControl input; taskId = kiTaskId ci;
           r' = reopenedResource input sp lastEventId now r;
           tree1 = tree\<lparr>trResources := dset (trResources tree) taskId r', trCancellations := ddel (trCancellations tree) taskId\<rparr>;
           tree2 = (if rpInput input = None
             then tree1\<lparr>trTriggers := dset (trTriggers tree1) taskId (reopenTrigger input (tkGeneration r') now)\<rparr> else tree1);
           res = reopenResult input r'
       in rbind (finishResourceMutationScope now (beginResourceMutationScopeForTasks tree [taskId]) tree2) (\<lambda>m.
          rbind (commitTaskMutation now (m\<lparr>muReopen := [taskId],
              muControls := controlReceipts ci CtlReopen (tkVersion r') now (Some closure) res\<rparr>) st) (\<lambda>st'.
          Inr ((Some closure, res), st'))))"

definition reopenAppTask ::
  "int \<Rightarrow> int \<Rightarrow> reopen_input \<Rightarrow> task_store \<Rightarrow> ((task_cancellation option \<times> js) \<times> task_store) result" where
  "reopenAppTask now lastEventId input st =
     (let ci = rpControl input; key = (case kiControlKey ci of Some k \<Rightarrow> k | None \<Rightarrow> []) in
      rbind (requireNonEmptyString (rpReason input) ''Task reopening reason'') (\<lambda>_.
      rbind (requireNonEmptyString key ''Task reopening control key'') (\<lambda>_.
      if kiAppId ci \<noteq> stAppId st then Inl ''Task reopening belongs to another App''
      else case readControlReceipt st key of
          Some rc \<Rightarrow>
            if sameReopening input rc then Inr ((ctClosure rc, ctResult rc), st)
            else Inl ''Task control key was already used for a different operation''
        | None \<Rightarrow>
            rbind (readTaskContext st (taskScope [kiTaskId ci]) True None) (\<lambda>tree.
              case (dget (trResources tree) (kiTaskId ci), dget (trCancellations tree) (kiTaskId ci)) of
                (Some r, Some closure) \<Rightarrow>
                  if tkGeneration r \<noteq> kiExpectedGeneration ci \<or> tkVersion r \<noteq> kiExpectedVersion ci
                  then Inl ''Task version changed; read the current Task before reopening''
                  else if isCancelled st (spParentId (tkSpec r)) then Inl ''Reopen the closed parent before its child''
                  else if spExecutor (tkSpec r) = Some ''conversation'' then Inl ''Conversation input must use its linked successor''
                  else if rpInput input \<noteq> None \<and> rpIntent input = None
                  then Inl ''Task continuation requires the responsible App's mapped requirements''
                  else reopenCurrent now lastEventId input tree r closure st
              | _ \<Rightarrow> Inl ''Only a closed or cancelled Task can be reopened''))))"

end
