(* ===== verification/Task_Release.thy ===== *)
theory Task_Release
  imports Task_Attempt
begin

text \<open>
  Recovery of Tasks whose execution was lost (\<open>app-task-reconciler.ts\<close>): which attempts of an earlier
  runtime can be recovered, the three ways of releasing one, and the repairs a starting Host makes.

  A release names the versions it was decided on. It gives the attempt's events back to its Task before
  the attempt is interrupted, so that no unaccepted input is lost.
\<close>

section \<open>Recoverable attempts\<close>

record attempt_recovery =
  arcTaskId :: string
  arcIntent :: task_intent
  arcEvents :: "trigger_event list"
  arcEventsTruncated :: bool
  arcTrigger :: "js_record option"
  arcSessionId :: "string option"
  arcTaskGeneration :: nat
  arcAttemptGeneration :: nat
  arcTaskVersion :: nat
  arcAttemptId :: string
  arcAttemptVersion :: nat
  arcLeaseId :: "string option"
  arcLeaseVersion :: "nat option"
  arcLegacyLeaseLess :: bool

definition attemptRecovery :: "task_resource \<Rightarrow> task_attempt \<Rightarrow> attempt_recovery" where
  "attemptRecovery r a =
     \<lparr>arcTaskId = tkId r, arcIntent = resourceIntent r, arcEvents = listOr (atEvents a),
      arcEventsTruncated = (atEventsTruncated a = Some True), arcTrigger = attemptTrigger a,
      arcSessionId = whenText (atSessionId a), arcTaskGeneration = tkGeneration r,
      arcAttemptGeneration = atTaskGeneration a, arcTaskVersion = tkVersion r, arcAttemptId = atId a,
      arcAttemptVersion = atVersion a, arcLeaseId = map_option leId (atLease a),
      arcLeaseVersion = map_option leVersion (atLease a), arcLegacyLeaseLess = (atLease a = None)\<rparr>"

definition runningAttempt :: "task_tree \<Rightarrow> task_resource \<Rightarrow> task_attempt option result" where
  "runningAttempt tree r = (if tkPhase r \<noteq> PhRunning then Inr None else currentResourceAttempt tree r)"

definition recoverableAttempt ::
  "string \<Rightarrow> int \<Rightarrow> bool \<Rightarrow> task_tree \<Rightarrow> task_resource \<Rightarrow> attempt_recovery list result" where
  "recoverableAttempt runtimeId nowMs includeFreshLeases tree r =
     rbind (runningAttempt tree r) (\<lambda>current. Inr (case current of
         None \<Rightarrow> []
       | Some a \<Rightarrow>
           if atRuntimeId a = runtimeId \<or> \<not> includeFreshLeases \<and> leaseIsFresh a nowMs None then []
           else [attemptRecovery r a]))"

definition recoverableAppTaskAttempts ::
  "string \<Rightarrow> int \<Rightarrow> bool \<Rightarrow> string list \<Rightarrow> task_store \<Rightarrow> attempt_recovery list result" where
  "recoverableAppTaskAttempts runtimeId nowMs includeFreshLeases candidates st =
     (if candidates = [] then Inr []
      else rbind (readTaskContext st (taskScope candidates) True None) (\<lambda>tree.
        rbind (rmap (recoverableAttempt runtimeId nowMs includeFreshLeases tree) (dvals (trResources tree))) (\<lambda>rs.
          Inr (concat rs))))"

definition expiredSession :: "int \<Rightarrow> session_activity option \<Rightarrow> task_attempt \<Rightarrow> bool" where
  "expiredSession nowMs activity a \<longleftrightarrow> isManagedAgentHandler (atHandler a) None \<and> whenText (atSessionId a) \<noteq> None \<and>
     (case atLease a of
        None \<Rightarrow> False
      | Some l \<Rightarrow> leSessionId l = atSessionId a \<and> leRuntimeId l = atRuntimeId a) \<and>
     \<not> leaseIsFresh a nowMs activity"

definition expiredAgentSessionAppTaskAttempt ::
  "int \<Rightarrow> string \<Rightarrow> session_activity option \<Rightarrow> task_store \<Rightarrow> attempt_recovery option result" where
  "expiredAgentSessionAppTaskAttempt nowMs taskId activity st =
     rbind (readTaskContext st (taskScope [taskId]) True None) (\<lambda>tree.
       case dget (trResources tree) taskId of
         None \<Rightarrow> Inr None
       | Some r \<Rightarrow>
           rbind (runningAttempt tree r) (\<lambda>current. Inr (case current of
               None \<Rightarrow> None
             | Some a \<Rightarrow> if expiredSession nowMs activity a then Some (attemptRecovery r a) else None)))"

section \<open>Releasing an attempt\<close>

definition releasedTree ::
  "string \<Rightarrow> string \<Rightarrow> string \<Rightarrow> bool \<Rightarrow> int \<Rightarrow> task_resource \<Rightarrow> task_attempt \<Rightarrow> task_tree \<Rightarrow> task_tree" where
  "releasedTree taskId summary reason keepSummary now r a tree =
     (let tree1 = finishAttempt taskId AInterrupted summary now (snd (restoreAttemptEvents tree taskId r a now));
          tree2 = updAttempt (atId a) (\<lambda>a. (nextVersion a)\<lparr>atFailureReason := Some reason\<rparr>) tree1
      in updResource taskId (touchResource now (\<lambda>r. (if keepSummary then r else r\<lparr>tkSummary := Some summary\<rparr>)
           \<lparr>tkPhase := PhPending, tkCurrentAttemptId := None\<rparr>)) tree2)"

definition releaseAttempt ::
  "string \<Rightarrow> string \<Rightarrow> string \<Rightarrow> bool \<Rightarrow> int \<Rightarrow> task_tree \<Rightarrow> task_resource \<Rightarrow> task_attempt \<Rightarrow> task_store \<Rightarrow> task_store result" where
  "releaseAttempt taskId summary reason keepSummary now tree r a st =
     rbind (finishResourceMutationScope now (beginResourceMutationScopeForTasks tree [taskId])
       (releasedTree taskId summary reason keepSummary now r a tree)) (\<lambda>m. commitTaskMutation now m st)"

text \<open>The shared frame: the Task is running, and the attempt passes the check of the release.\<close>

definition releaseWhen ::
  "string \<Rightarrow> (task_resource \<Rightarrow> task_attempt \<Rightarrow> bool) \<Rightarrow>
     (task_resource \<Rightarrow> string) \<Rightarrow> string \<Rightarrow> bool \<Rightarrow> (task_attempt \<Rightarrow> string list) \<Rightarrow> int \<Rightarrow> task_store \<Rightarrow>
     ((bool \<times> string list) \<times> task_store) result" where
  "releaseWhen taskId ok summary reason keepSummary sessions now st =
     rbind (readTaskContext st (taskScope [taskId]) True None) (\<lambda>tree.
       case dget (trResources tree) taskId of
         None \<Rightarrow> Inr ((False, []), st)
       | Some r \<Rightarrow>
           rbind (runningAttempt tree r) (\<lambda>current.
             case current of
               None \<Rightarrow> Inr ((False, []), st)
             | Some a \<Rightarrow>
                 if \<not> ok r a then Inr ((False, []), st)
                 else rbind (releaseAttempt taskId (summary r) reason keepSummary now tree r a st) (\<lambda>st'.
                   Inr ((True, sessions a), st'))))"

definition sameVersions :: "attempt_recovery \<Rightarrow> task_resource \<Rightarrow> task_attempt \<Rightarrow> bool" where
  "sameVersions rec r a \<longleftrightarrow> tkGeneration r = arcTaskGeneration rec \<and> tkVersion r = arcTaskVersion rec \<and>
     tkCurrentAttemptId r = Some (arcAttemptId rec) \<and> atId a = arcAttemptId rec \<and> atVersion a = arcAttemptVersion rec"

definition sameLease :: "attempt_recovery \<Rightarrow> task_attempt \<Rightarrow> bool" where
  "sameLease rec a \<longleftrightarrow> atLease a \<noteq> None \<and> map_option leId (atLease a) = arcLeaseId rec \<and>
     map_option leVersion (atLease a) = arcLeaseVersion rec"

definition releaseInterruptedAppTaskAttempt ::
  "string \<Rightarrow> int \<Rightarrow> attempt_recovery \<Rightarrow> string \<Rightarrow> task_store \<Rightarrow> ((bool \<times> string list) \<times> task_store) result" where
  "releaseInterruptedAppTaskAttempt runtimeId now rec summary st =
     releaseWhen (arcTaskId rec)
       (\<lambda>r a. atRuntimeId a \<noteq> runtimeId \<and> sameVersions rec r a \<and>
          (if arcLegacyLeaseLess rec then atLease a = None else sameLease rec a))
       (\<lambda>r. summary @ ''; '' @ (if taskExecutionRetryExhausted r
          then ''automatic retries remain exhausted; owner repair or explicit retry required''
          else ''retrying from current task facts''))
       ''previous-runtime-attempt-requeued'' True
       (\<lambda>a. case whenText (atSessionId a) of Some s \<Rightarrow> [s] | None \<Rightarrow> []) now st"

datatype terminal_status = TermDone | TermError | TermInterrupted

fun terminalName :: "terminal_status \<Rightarrow> string" where
  "terminalName TermDone = ''done''"
| "terminalName TermError = ''error''"
| "terminalName TermInterrupted = ''interrupted''"

definition releaseTerminalSessionExpiredAppTaskAttempt ::
  "attempt_recovery \<Rightarrow> string \<Rightarrow> terminal_status \<Rightarrow> string \<Rightarrow> int \<Rightarrow> session_activity option \<Rightarrow> task_store \<Rightarrow>
     ((bool \<times> string list) \<times> task_store) result" where
  "releaseTerminalSessionExpiredAppTaskAttempt rec sessionId terminal summary nowMs activity st =
     releaseWhen (arcTaskId rec)
       (\<lambda>r a. isManagedAgentHandler (atHandler a) None \<and> sameVersions rec r a \<and> atSessionId a = Some sessionId \<and>
          sameLease rec a \<and>
          (case atLease a of Some l \<Rightarrow> leSessionId l = Some sessionId \<and> leRuntimeId l = atRuntimeId a | None \<Rightarrow> False) \<and>
          \<not> leaseIsFresh a nowMs activity)
       (\<lambda>_. summary @ ''; terminal agent session '' @ sessionId @ '' ('' @ terminalName terminal @
          '') cannot return this expired attempt; retrying from current task facts'')
       ''terminal-agent-session-expired-lease-requeued'' False (\<lambda>_. [sessionId]) nowMs st"

definition releaseLateTerminalWorkflowAppTaskAttempt ::
  "int \<Rightarrow> string \<Rightarrow> nat \<Rightarrow> string \<Rightarrow> string \<Rightarrow> task_store \<Rightarrow> (bool \<times> task_store) result" where
  "releaseLateTerminalWorkflowAppTaskAttempt now taskId generation sessionId summary st =
     rbind (releaseWhen taskId (\<lambda>r a. atTaskGeneration a = generation \<and> atSessionId a = Some sessionId)
       (\<lambda>_. summary @ ''; retrying the same task from current facts'') ''late-terminal-workflow-result-requeued'' False
       (\<lambda>_. []) now st) (\<lambda>((released, _), st'). Inr (released, st'))"

section \<open>Repairs at startup\<close>

record recovery_repair =
  rrTaskId :: string
  rrSummary :: string

text \<open>
  A repair visits every Task of the bounded context, changes those that need it, and commits once if
  there was any.
\<close>

record repair_state =
  rsTree :: task_tree
  rsScope :: mutation_scope
  rsRepairs :: "recovery_repair list"

definition repairTask ::
  "(task_tree \<Rightarrow> task_resource \<Rightarrow> (string \<times> task_tree) option) \<Rightarrow> repair_state \<Rightarrow> string \<Rightarrow> repair_state" where
  "repairTask fix s k =
     (case dget (trResources (rsTree s)) k of
        None \<Rightarrow> s
      | Some r \<Rightarrow>
          (case fix (rsTree s) r of
             None \<Rightarrow> s
           | Some (summary, tree') \<Rightarrow>
               \<lparr>rsTree = tree', rsScope = trackResourceMutationTask (rsTree s) (tkId r) (rsScope s),
                rsRepairs = rsRepairs s @ [\<lparr>rrTaskId = tkId r, rrSummary = summary\<rparr>]\<rparr>))"

definition repairTasks ::
  "int \<Rightarrow> (task_tree \<Rightarrow> task_resource \<Rightarrow> (string \<times> task_tree) option) \<Rightarrow> string list \<Rightarrow> task_store \<Rightarrow>
     (recovery_repair list \<times> task_store) result" where
  "repairTasks now fix candidates st =
     (if candidates = [] then Inr ([], st)
      else rbind (readTaskContext st (taskScope candidates) True None) (\<lambda>tree.
        let s = foldl (repairTask fix) \<lparr>rsTree = tree, rsScope = emptyResourceMutationScope tree, rsRepairs = []\<rparr>
              (dkeys (trResources tree))
        in if rsRepairs s = [] then Inr ([], st)
           else rbind (finishResourceMutationScope now (rsScope s) (rsTree s)) (\<lambda>m.
             rbind (commitTaskMutation now m st) (\<lambda>st'. Inr (rsRepairs s, st')))))"

definition fixRecoveryAttention :: "int \<Rightarrow> task_tree \<Rightarrow> task_resource \<Rightarrow> (string \<times> task_tree) option" where
  "fixRecoveryAttention now tree r =
     (if tkPhase r \<noteq> PhAttention then None
      else case latestTaskAttempt tree (tkId r) None of
          None \<Rightarrow> None
        | Some a \<Rightarrow>
            if atFailureReason a \<noteq> Some ''previous-runtime-attempt-not-recoverable'' then None
            else
              (let base = (case trimmed (tkSummary r) of Some s \<Rightarrow> s | None \<Rightarrow> ''Interrupted reconciliation '' @ tkId r @
                     '' cannot resume because its previous runtime did not persist the trigger packet'');
                   summary = base @ ''; retrying from current task facts''
               in Some (summary, updResource (tkId r) (touchResource now (\<lambda>r. r\<lparr>tkPhase := PhPending,
                    tkCurrentAttemptId := None, tkSummary := Some summary\<rparr>))
                    (updAttempt (atId a) (\<lambda>a. (nextVersion a)\<lparr>atFailureReason := Some ''previous-runtime-attempt-requeued''\<rparr>) tree))))"

definition repairPreviousRuntimeRecoveryAttention ::
  "int \<Rightarrow> string list \<Rightarrow> task_store \<Rightarrow> (recovery_repair list \<times> task_store) result" where
  "repairPreviousRuntimeRecoveryAttention now = repairTasks now (fixRecoveryAttention now)"

definition missingRequests :: "(string \<Rightarrow> bool) \<Rightarrow> task_tree \<Rightarrow> task_resource \<Rightarrow> (string \<times> string) list" where
  "missingRequests isAdmitted tree r =
     List.map_filter (\<lambda>cid. case dget (trConditions tree) cid of
         None \<Rightarrow> None
       | Some c \<Rightarrow>
           if cnState c = CondTrue \<or> csType (cnSpec c) \<noteq> ''app.dependency.updated'' \<or> \<not> starts_with (csSubject (cnSpec c)) ''id:''
           then None
           else
             (let requestId = trim (drop (length ''id:'') (csSubject (cnSpec c)))
              in if requestId \<noteq> [] \<and> \<not> isAdmitted requestId then Some (cid, requestId) else None)) (listOr (tkConditionIds r))"

fun joinWith :: "string \<Rightarrow> string list \<Rightarrow> string" where
  "joinWith sep [] = []"
| "joinWith sep [s] = s"
| "joinWith sep (s # t # ts) = s @ sep @ joinWith sep (t # ts)"

definition unadmittedSummary :: "string list \<Rightarrow> string" where
  "unadmittedSummary requestIds =
     ''App dependency request'' @ (if length requestIds = 1 then [] else ''s'') @ '' '' @ joinWith '', '' requestIds @
     (if length requestIds = 1 then '' was'' else '' were'') @ '' not admitted; retrying the same Task from current facts''"

definition fixUnadmittedWait ::
  "(string \<Rightarrow> bool) \<Rightarrow> int \<Rightarrow> task_tree \<Rightarrow> task_resource \<Rightarrow> (string \<times> task_tree) option" where
  "fixUnadmittedWait isAdmitted now tree r =
     (let missing = missingRequests isAdmitted tree r; summary = unadmittedSummary (map snd missing) in
      if tkPhase r \<noteq> PhWaiting \<or> missing = [] then None
      else Some (summary, updResource (tkId r) (touchResource now (\<lambda>r. r\<lparr>tkPhase := PhPending,
          tkObservedGeneration := tkGeneration r - 1, tkCurrentAttemptId := None, tkSummary := Some summary\<rparr>))
        (foldl (\<lambda>t (cid, _). unlinkExactTaskCondition now (tkId r) cid t) tree missing)))"

definition repairUnadmittedAppDependencyWaits ::
  "int \<Rightarrow> (string \<Rightarrow> bool) \<Rightarrow> string list \<Rightarrow> task_store \<Rightarrow> (recovery_repair list \<times> task_store) result" where
  "repairUnadmittedAppDependencyWaits now isAdmitted = repairTasks now (fixUnadmittedWait isAdmitted now)"

definition fixRunningWithoutAttempt :: "int \<Rightarrow> task_tree \<Rightarrow> task_resource \<Rightarrow> (string \<times> task_tree) option" where
  "fixRunningWithoutAttempt now tree r =
     (if tkPhase r \<noteq> PhRunning \<or>
         map_option atState (Option.bind (whenText (tkCurrentAttemptId r)) (dget (trAttempts tree))) = Some ARunning
      then None
      else Some (missingAttemptSummary (tkId r) (tkCurrentAttemptId r), requeueWithoutAttempt (tkId r) now r tree))"

definition repairRunningAppTasksWithoutAttempt ::
  "int \<Rightarrow> string list \<Rightarrow> task_store \<Rightarrow> (recovery_repair list \<times> task_store) result" where
  "repairRunningAppTasksWithoutAttempt now = repairTasks now (fixRunningWithoutAttempt now)"

end
