(* ===== verification/Condition_Tracking.thy ===== *)
theory Condition_Tracking
  imports Task_Settle
begin

text \<open>
  Persisting what one event says about the Conditions of a store (\<open>app-task-condition-tracker.ts\<close>,
  \<open>trackAppTaskConditionEventForTasks\<close>). The Conditions and wakes are those of \<open>Task_Conditions\<close>; here the
  event is checked against the receipts of events the Tasks already took in, and the outcome is committed
  under a fence on every Task it concerns.
\<close>

definition concernedTasks :: "task_tree \<Rightarrow> (string, string) dict \<Rightarrow> string list \<Rightarrow> string list" where
  "concernedTasks tree wakes changedIds =
     foldl sadd (dkeys wakes) (map tkId (filter (\<lambda>r. list_ex (\<lambda>i. i \<in> set changedIds) (listOr (tkConditionIds r)))
       (dvals (trResources tree))))"

definition wakeWrite :: "task_tree \<Rightarrow> task_resource \<Rightarrow> task_write" where
  "wakeWrite tree r = \<lparr>twResource = r\<lparr>tkVersion := tkVersion r + 1\<rparr>, twTrigger = dget (trTriggers tree) (tkId r),
     twReady = True, twNextCheckAt = None\<rparr>"

definition conditionMutation :: "task_tree \<Rightarrow> (string, string) dict \<Rightarrow> string list \<Rightarrow> task_mutation" where
  "conditionMutation tree wakes changedIds =
     (let resources = List.map_filter (dget (trResources tree)) (concernedTasks tree wakes changedIds) in
      noMutation\<lparr>muFences := map resourceFence resources,
        muTasks := map (wakeWrite tree) (filter (\<lambda>r. dget wakes (tkId r) \<noteq> None) resources),
        muConditions := List.map_filter (dget (trConditions tree)) changedIds\<rparr>)"

definition saveConditionMutation ::
  "int \<Rightarrow> task_tree \<Rightarrow> (string, string) dict \<Rightarrow> string list \<Rightarrow> task_store \<Rightarrow> task_store result" where
  "saveConditionMutation now tree wakes changedIds st =
     commitTaskMutation now (conditionMutation tree wakes changedIds) st"

text \<open>
  A Task that already took the event in takes it again only while it is still pending, or when a
  Condition it has declared since then needs it.
\<close>

definition stillEligible ::
  "task_store \<Rightarrow> attempt_lookup \<Rightarrow> task_tree \<Rightarrow> js_record \<Rightarrow> string \<Rightarrow> bool" where
  "stillEligible st lookup tree event taskId \<longleftrightarrow>
     \<not> hasTaskEvent st taskId event \<or>
     (case dget (trTriggers tree) taskId of
        None \<Rightarrow> False
      | Some t \<Rightarrow> list_ex (\<lambda>e. sameEvent e event)
          (case ttEvents t of Some es \<Rightarrow> map teEvent es | None \<Rightarrow> [ttEvent t])) \<or>
     list_ex (\<lambda>i. matchesAppTaskCondition (dget (trConditions tree) i) event lookup) (taskConditionIds tree taskId)"

definition trackAppTaskConditionEventForTasks ::
  "int \<Rightarrow> (string \<Rightarrow> string \<Rightarrow> task_attempt option) \<Rightarrow> js_record \<Rightarrow> string list \<Rightarrow> task_store \<Rightarrow>
     ((string \<times> string) list \<times> task_store) result" where
  "trackAppTaskConditionEventForTasks now others event taskIds st =
     (if taskIds = [] then Inr ([], st)
      else rbind (readTaskContext st (taskScope (uniq taskIds)) False (Some (num_int 0))) (\<lambda>tree.
        let lookup = attemptsOf st others;
            allowed = filter (stillEligible st lookup tree event) (uniq taskIds)
        in if allowed = [] then Inr ([], st)
           else
             (let res = applyConditionEvent tree event now [] (Some allowed) [] lookup;
                  wakes = map (\<lambda>(t, c). (c, t)) (ceWakes res)
              in if ceChanged res
                 then rbind (saveConditionMutation now (ceTree res) (ceWakes res) (ceChangedIds res) st) (\<lambda>st'.
                   Inr (wakes, st'))
                 else Inr (wakes, st))))"

end
