(* ===== verification/Execution_Trees.thy ===== *)
theory Execution_Trees
  imports Task_Attempt Task_Control Task_Release Condition_Tracking
begin

text \<open>
  How the reconciler's operations move execution in the tree they work on. Most steps keep who executes
  what (\<open>moves\<close>); the settlements, releases and controls take a Task from its running attempt (\<open>settles\<close>).
  The facts collected here are about trees only; \<open>Execution_Properties\<close> lifts them to the store.
\<close>

named_theorems tree_moves "steps of a tree that keep its execution"

abbreviation taskAt :: "task_tree \<Rightarrow> string \<Rightarrow> task_resource option" where
  "taskAt tree \<equiv> dget (trResources tree)"

abbreviation attemptAt :: "task_tree \<Rightarrow> string \<Rightarrow> task_attempt option" where
  "attemptAt tree \<equiv> dget (trAttempts tree)"

section \<open>Steps that keep execution\<close>

definition same_task :: "task_resource \<Rightarrow> task_resource \<Rightarrow> bool" where
  "same_task r r' \<longleftrightarrow> tkId r' = tkId r \<and> tkVersion r \<le> tkVersion r' \<and> tkCurrentAttemptId r' = tkCurrentAttemptId r \<and> tkObservedAttemptId r' = tkObservedAttemptId r \<and>
     (tkPhase r' = PhRunning \<longleftrightarrow> tkPhase r = PhRunning)"

definition same_attempt :: "task_attempt \<Rightarrow> task_attempt \<Rightarrow> bool" where
  "same_attempt a a' \<longleftrightarrow> atId a' = atId a \<and> atTaskId a' = atTaskId a \<and> atState a' = atState a \<and> atVersion a \<le> atVersion a'"

definition moves :: "string set \<Rightarrow> string set \<Rightarrow> task_tree \<Rightarrow> task_tree \<Rightarrow> bool" where
  "moves K I tree tree' \<longleftrightarrow>
     (\<forall>k. rel_option same_task (taskAt tree k) (taskAt tree' k)) \<and> (\<forall>k. k \<notin> K \<longrightarrow> taskAt tree' k = taskAt tree k) \<and>
     (\<forall>i. rel_option same_attempt (attemptAt tree i) (attemptAt tree' i)) \<and> (\<forall>i. i \<notin> I \<longrightarrow> attemptAt tree' i = attemptAt tree i) \<and>
     (dict_wf (trAttempts tree) \<longrightarrow> dict_wf (trAttempts tree'))"

lemma same_task_refl [simp]: "same_task r r"
  by (simp add: same_task_def)

lemma same_task_trans: "same_task a b \<Longrightarrow> same_task b c \<Longrightarrow> same_task a c"
  by (auto simp: same_task_def)

lemma same_attempt_refl [simp]: "same_attempt a a"
  by (simp add: same_attempt_def)

lemma same_attempt_trans: "same_attempt a b \<Longrightarrow> same_attempt b c \<Longrightarrow> same_attempt a c"
  by (auto simp: same_attempt_def)

lemma rel_same_refl [simp]: "rel_option same_task x x" "rel_option same_attempt y y"
  by (simp_all add: option.rel_refl)

lemma moves_refl [simp]: "moves K I tree tree"
  by (simp add: moves_def)

lemma moves_trans:
  assumes "moves K I t1 t2" "moves K I t2 t3"
  shows "moves K I t1 t3"
proof -
  have "rel_option same_task (taskAt t1 k) (taskAt t3 k)" for k
    using assms by (cases "taskAt t1 k"; cases "taskAt t2 k"; cases "taskAt t3 k")
      (auto simp: moves_def dest!: spec [of _ k] intro: same_task_trans)
  moreover have "rel_option same_attempt (attemptAt t1 i) (attemptAt t3 i)" for i
    using assms by (cases "attemptAt t1 i"; cases "attemptAt t2 i"; cases "attemptAt t3 i")
      (auto simp: moves_def dest!: spec [of _ i] intro: same_attempt_trans)
  ultimately show ?thesis using assms by (simp add: moves_def)
qed

lemma moves_mono: "moves K I t t' \<Longrightarrow> K \<subseteq> K' \<Longrightarrow> I \<subseteq> I' \<Longrightarrow> moves K' I' t t'"
  unfolding moves_def by blast

lemma moves_task:
  assumes "moves K I t t'" "taskAt t k = Some r"
  obtains r' where "taskAt t' k = Some r'" "same_task r r'"
  using assms by (auto simp: moves_def option_rel_Some1 dest!: spec [of _ k])

lemma moves_attempt:
  assumes "moves K I t t'" "attemptAt t i = Some a"
  obtains a' where "attemptAt t' i = Some a'" "same_attempt a a'"
  using assms by (auto simp: moves_def option_rel_Some1 dest!: spec [of _ i])

section \<open>Single steps\<close>

lemma moves_frame [tree_moves]:
  "trResources t' = trResources t \<Longrightarrow> trAttempts t' = trAttempts t \<Longrightarrow> moves K I t t'"
  by (simp add: moves_def)

lemma taskAt_updResource:
  "taskAt (updResource k f tree) j = (if j = k then map_option f (taskAt tree k) else taskAt tree j)"
  by (simp add: updResource_def split: option.splits)

lemma attemptAt_updAttempt:
  "attemptAt (updAttempt i f tree) j = (if j = i then map_option f (attemptAt tree i) else attemptAt tree j)"
  by (simp add: updAttempt_def split: option.splits)

lemma upd_frame [simp]:
  "trAttempts (updResource k f tree) = trAttempts tree" "trResources (updAttempt i g tree) = trResources tree"
  "trTriggers (updResource k f tree) = trTriggers tree" "trTriggers (updAttempt i g tree) = trTriggers tree"
  by (simp_all add: updResource_def updAttempt_def split: option.splits)

lemma updAttempt_wf: "dict_wf (trAttempts tree) \<Longrightarrow> dict_wf (trAttempts (updAttempt i f tree))"
  by (simp add: updAttempt_def split: option.splits)

lemma moves_updResource:
  assumes "k \<in> K" "\<And>r. taskAt tree k = Some r \<Longrightarrow> same_task r (f r)"
  shows "moves K I tree (updResource k f tree)"
  using assms by (auto simp: moves_def taskAt_updResource option.rel_map option.rel_refl split: option.splits)
    (cases "taskAt tree k"; simp)

lemma moves_updAttempt:
  assumes "i \<in> I" "\<And>a. attemptAt tree i = Some a \<Longrightarrow> same_attempt a (f a)"
  shows "moves K I tree (updAttempt i f tree)"
  using assms by (auto simp: moves_def attemptAt_updAttempt option.rel_map option.rel_refl updAttempt_wf split: option.splits)
    (cases "attemptAt tree i"; simp)

lemma settlePhase_running [simp]: "tkPhase (settlePhase r) = PhRunning \<longleftrightarrow> tkPhase r = PhRunning"
  by (simp add: settlePhase_def)

lemma touchResource_running [simp]: "tkPhase (touchResource now f r) = PhRunning \<longleftrightarrow> tkPhase (f r) = PhRunning"
  by (simp add: touchResource_def)

lemma touchResource_observed [simp]: "tkObservedAttemptId (touchResource now f r) = tkObservedAttemptId (f r)"
  by (simp add: touchResource_def settlePhase_def)

lemma same_task_touch:
  assumes "tkId (f r) = tkId r" "tkCurrentAttemptId (f r) = tkCurrentAttemptId r"
    "tkObservedAttemptId (f r) = tkObservedAttemptId r" "tkPhase (f r) = PhRunning \<longleftrightarrow> tkPhase r = PhRunning"
  shows "same_task r (touchResource now f r)"
  using assms by (simp add: same_task_def)

section \<open>The reconciler's steps\<close>

lemma restore_frame [simp]:
  "trResources (snd (restoreAttemptEvents tree t r a now)) = trResources tree"
  "trAttempts (snd (restoreAttemptEvents tree t r a now)) = trAttempts tree"
  by (simp_all add: restoreAttemptEvents_def Let_def)

lemma consume_frame [simp]:
  "trResources (consumeSettledTaskEvents t ag ids keys tree) = trResources tree"
  "trAttempts (consumeSettledTaskEvents t ag ids keys tree) = trAttempts tree"
  by (simp_all add: consumeSettledTaskEvents_def Let_def split: option.splits)

lemma leave_frame [simp]:
  "trResources (leaveEvents t ag es tree) = trResources tree" "trAttempts (leaveEvents t ag es tree) = trAttempts tree"
  by (simp_all add: leaveEvents_def split: option.splits prod.splits bool.splits)

lemma prune_frame [simp]:
  "trResources (pruneUnlinkedConditions tree) = trResources tree" "trAttempts (pruneUnlinkedConditions tree) = trAttempts tree"
  by (simp_all add: pruneUnlinkedConditions_def)

lemma deliver_attempts: "trAttempts (fst (foldl (deliverWake event now) acc ws)) = trAttempts (fst acc)"
  by (rule foldl_invariant [where P = "\<lambda>x. trAttempts (fst x) = trAttempts (fst acc)"])
    (auto simp: deliverWake_def split: option.splits prod.splits)

lemma apply_attempts:
  "trAttempts (ceTree (applyConditionEvent tree event now wakes allowed ids store)) = trAttempts tree"
proof -
  obtain t' w' ch' where d: "foldl (deliverWake event now)
      (tree\<lparr>trConditions := cpConditions (firstPass tree event now allowed ids store)\<rparr>, wakes,
       cpChanged (firstPass tree event now allowed ids store))
      (cpWakes (firstPass tree event now allowed ids store)) = (t', w', ch')"
    by (metis prod_cases3)
  have "trAttempts (fst (t', w', ch')) = trAttempts tree" unfolding d [symmetric] by (simp add: deliver_attempts)
  then show ?thesis by (simp add: applyConditionEvent_eq [OF d])
qed

lemma apply_pending_frame [simp]:
  "trResources (snd (applyPending st others now (scope, tree) e)) = trResources tree"
  "trAttempts (snd (applyPending st others now (scope, tree) e)) = trAttempts tree"
  using apply_frame(1) [of tree "teEvent e" now "[]" None "[]" "attemptsOf st others"]
    apply_attempts [of tree "teEvent e" now "[]" None "[]" "attemptsOf st others"]
  by (simp_all add: applyPending_def applyAppTaskConditionEvent_def Let_def split: prod.splits)

lemma moves_unlinkExact:
  assumes "t \<in> K" "\<And>r. taskAt tree t = Some r \<Longrightarrow> tkId r = t"
  shows "moves K I tree (unlinkExactTaskCondition now t c tree)"
proof -
  have *: "unlinkExactTaskCondition now t c tree = tree \<or>
      (\<exists>r f. taskAt tree t = Some r \<and> unlinkExactTaskCondition now t c tree = pruneUnlinkedConditions (updResource t f tree) \<and> same_task r (f r))"
  proof (cases "taskAt tree t")
    case (Some r)
    let ?f = "\<lambda>_ :: task_resource. touchResource now (\<lambda>r. r\<lparr>tkConditionIds := Some (filter (\<lambda>i. i \<noteq> c) (listOr (tkConditionIds r)))\<rparr>) r"
    have "same_task r (?f r)" by (rule same_task_touch) simp_all
    moreover have "putResource (?f r) tree = updResource t ?f tree"
      using Some assms(2) [OF Some] by (simp add: putResource_def updResource_def)
    ultimately show ?thesis using Some by (auto simp: unlinkExactTaskCondition_def)
  qed (simp add: unlinkExactTaskCondition_def)
  then show ?thesis
  proof (elim disjE exE conjE)
    fix r f assume r: "taskAt tree t = Some r" "same_task r (f r)"
      and eq: "unlinkExactTaskCondition now t c tree = pruneUnlinkedConditions (updResource t f tree)"
    have "moves K I tree (updResource t f tree)" using assms(1) r by (intro moves_updResource) auto
    from moves_trans [OF this moves_frame] show ?thesis by (simp add: eq)
  qed simp
qed

lemma moves_unlinkSatisfied:
  assumes "t \<in> K" "\<And>r. taskAt tree t = Some r \<Longrightarrow> tkId r = t"
  shows "moves K I tree (unlinkSatisfiedTaskConditions now t tree)"
proof (cases "taskAt tree t")
  case (Some r)
  define ids where "ids = filter (\<lambda>i. \<not> isSatisfiedCondition (dget (trConditions tree) i)) (listOr (tkConditionIds r))"
  let ?f = "\<lambda>_ :: task_resource. touchResource now (\<lambda>r. r\<lparr>tkConditionIds := Some ids\<rparr>) r"
  have same: "same_task r (?f r)" by (rule same_task_touch) simp_all
  have "putResource (?f r) tree = updResource t ?f tree"
    using Some assms(2) [OF Some] by (simp add: putResource_def updResource_def)
  then have "unlinkSatisfiedTaskConditions now t tree \<in> {tree, pruneUnlinkedConditions (updResource t ?f tree)}"
    using Some by (simp add: unlinkSatisfiedTaskConditions_def Let_def ids_def)
  moreover have "moves K I tree (pruneUnlinkedConditions (updResource t ?f tree))"
    using assms(1) Some same by (intro moves_trans [OF moves_updResource moves_frame]) simp_all
  ultimately show ?thesis by auto
qed (simp add: unlinkSatisfiedTaskConditions_def)

lemma same_task_waits [simp]: "same_task r (r\<lparr>tkInputWaits := ws\<rparr>)"
  by (simp add: same_task_def)

lemma same_task_retain: "same_task r (retainTaskInputWait adm keys w r)"
  unfolding retainTaskInputWait_def
  by (rule foldl_invariant [where P = "same_task r"]) (auto simp: same_task_def split: option.splits)

lemma same_task_dropEmpty: "same_task r (dropEmptyWaits r)"
  by (simp add: dropEmptyWaits_def)

lemma same_task_foldl: "(\<And>r x. same_task r (f r x)) \<Longrightarrow> same_task r (foldl f r xs)"
  by (rule foldl_invariant [where P = "same_task r"]) (auto intro: same_task_trans)

lemma same_task_retarget: "same_task r (retargetWaits c old new r)"
  by (simp add: retargetWaits_def)

lemma moves_inputOutcome:
  assumes "inputOutcomeAdmissions st cf input kind tree = Inr (keys, writes, tree')" "cfTaskId cf \<in> K"
  shows "moves K I tree tree'"
proof -
  have retain: "same_task r (foldl (\<lambda>r key. if dget (waitsOf r) key = None \<or> key \<notin> set ks
      then retainPending st g r key else r) r as)" for r ks g as
    by (rule same_task_foldl) (simp add: retainPending_def same_task_retain)
  have drop: "same_task r (foldl (\<lambda>r (key, _). dropWait key r) r ws)" for r ws
    by (rule same_task_foldl) (simp add: dropWait_def split: prod.splits)
  have "same_task r (dropEmptyWaits (if kind = KAnswer then foldl (\<lambda>r (key, _). dropWait key r) (g r) ws else g r))"
    if "\<And>r. same_task r (g r)" for r g ws
    using that [of r] same_task_trans [OF that drop] by (auto intro: same_task_trans [OF _ same_task_dropEmpty])
  note this [OF retain]
  then show ?thesis
    using assms by (auto simp: inputOutcomeAdmissions_def rbind_Inr Let_def intro!: moves_updResource)
qed

lemma moves_updCondition:
  assumes "t \<in> K" "\<And>r. same_task r (f r)"
  shows "moves K I tree (updResource t f (tree\<lparr>trConditions := cs\<rparr>))"
  using assms by (intro moves_trans [OF moves_frame moves_updResource]) simp_all

lemma moves_materializeOne:
  assumes "materializeOne t ids0 now (tree, ids) d = Inr (tree', ids')" "t \<in> K"
  shows "moves K I tree tree'"
  using assms
  by (auto simp: materializeOne_def Let_def same_task_retarget split: if_splits option.splits
      intro: moves_frame moves_updCondition)

lemma moves_materialize:
  assumes "materializeWaitingConditions t conditions now tree = Inr tree'" "t \<in> K"
  shows "moves K I tree tree'"
proof -
  from assms(1) obtain ds :: "(string, condition_decl) dict" and tree1 ids1 where
    one: "rfold (materializeOne t (taskConditionIds tree t) now) (tree, taskConditionIds tree t) (dvals ds) = Inr (tree1, ids1)"
    and tree': "tree' = pruneUnlinkedConditions (updResource t (touchResource now (\<lambda>r. r\<lparr>tkConditionIds := Some ids1\<rparr>)) tree1)"
    by (auto simp: materializeWaitingConditions_def rbind_Inr Let_def)
  have "moves K I tree (fst (tree1, ids1))"
    by (rule rfold_invariant [OF one, where P = "\<lambda>x. moves K I tree (fst x)"])
      (auto dest!: moves_materializeOne [OF _ assms(2), where I = I] elim: moves_trans)
  moreover have "moves K I tree1 tree'"
    using assms(2) unfolding tree'
    by (intro moves_trans [OF moves_updResource moves_frame]) (simp_all add: same_task_touch)
  ultimately show ?thesis by (simp add: moves_trans)
qed

section \<open>Actions\<close>

text \<open>In the trees of a consistent store a Task that is not running has no current attempt, and is filed under its id.\<close>

definition settled_tree :: "task_tree \<Rightarrow> bool" where
  "settled_tree tree \<longleftrightarrow> (\<forall>k r. taskAt tree k = Some r \<longrightarrow> tkId r = k \<and> (tkPhase r \<noteq> PhRunning \<longrightarrow> tkCurrentAttemptId r = None))"

lemma settled_tree_moves: "settled_tree tree \<Longrightarrow> moves K I tree tree' \<Longrightarrow> settled_tree tree'"
  unfolding settled_tree_def
proof (intro allI impI)
  fix k r'
  assume ok: "\<forall>k r. taskAt tree k = Some r \<longrightarrow> tkId r = k \<and> (tkPhase r \<noteq> PhRunning \<longrightarrow> tkCurrentAttemptId r = None)"
    and m: "moves K I tree tree'" and r': "taskAt tree' k = Some r'"
  from m r' obtain r where "taskAt tree k = Some r" "same_task r r'"
    by (auto simp: moves_def option_rel_Some2 dest!: spec [of _ k])
  with ok show "tkId r' = k \<and> (tkPhase r' \<noteq> PhRunning \<longrightarrow> tkCurrentAttemptId r' = None)"
    by (auto simp: same_task_def)
qed

lemma moves_applyAction:
  assumes "applyTaskAction st claim now (tree, applied) action = Inr (tree', applied')" "settled_tree tree"
    and "acTaskId claim \<in> K" "\<And>t e r. action = UnblockTask t e r \<Longrightarrow> t \<in> K \<and>
      (\<forall>r. taskAt tree t = Some r \<longrightarrow> tkPhase r \<noteq> PhRunning)"
  shows "moves K I tree tree'"
proof (cases action)
  case (UnblockTask t e reason)
  have "same_task r (unblockResource reason now r)" if "taskAt tree t = Some r" for r
    using assms(2) assms(4) [OF UnblockTask] that
    by (auto simp: unblockResource_def settled_tree_def clearFailures_def intro!: same_task_touch)
  then show ?thesis
    using assms(1,4) UnblockTask
    by (auto simp: applyTaskAction_def rbind_Inr intro!: moves_updResource split: sum.splits)
next
  case (RetireCondition c e reason)
  then show ?thesis using assms(1,2,3)
    by (auto simp: applyTaskAction_def settled_tree_def intro!: moves_unlinkExact)
qed

lemma validated_unblock:
  assumes "validateTaskActions tree actions running = Inr ()" "UnblockTask t e reason \<in> set actions"
  shows "\<exists>r. taskAt tree t = Some r \<and> tkPhase r \<noteq> PhRunning"
proof -
  from assms(1) obtain ids where "rfold (validateAction tree running) [] actions = Inr ids"
    by (auto simp: validateTaskActions_def rbind_Inr split: if_splits)
  then have "\<exists>s s'. validateAction tree running s (UnblockTask t e reason) = Inr s'"
    using assms(2)
  proof (induction actions arbitrary: ids rule: rev_induct)
    case (snoc x xs)
    then obtain s1 where s1: "rfold (validateAction tree running) [] xs = Inr s1" "validateAction tree running s1 x = Inr ids"
      by (auto simp: rfold_append rbind_Inr)
    with snoc show ?case by (cases "x = UnblockTask t e reason") auto
  qed simp
  then show ?thesis
    by (auto simp: validateAction_def validateUnblock_def mutableActionResource_def rbind_Inr split: if_splits option.splits)
qed

lemma moves_actions:
  assumes ok: "applyTaskActions st claim now actions tree = Inr (tree', applied)" and settled: "settled_tree tree"
  shows "moves (insert (acTaskId claim) (set (unblockedTasks actions))) I tree tree'"
proof -
  let ?K = "insert (acTaskId claim) (set (unblockedTasks actions))"
  from ok have valid: "validateTaskActions tree actions (acTaskId claim) = Inr ()"
    and run: "rfold (applyTaskAction st claim now) (tree, []) actions = Inr (tree', applied)"
    by (auto simp: applyTaskActions_def rbind_Inr)
  have "moves ?K I tree (fst (tree', applied))"
  proof (rule rfold_invariant [OF run, where P = "\<lambda>x. moves ?K I tree (fst x)"])
    fix s x s'
    assume m: "moves ?K I tree (fst s)" and x: "x \<in> set actions" and step: "applyTaskAction st claim now s x = Inr s'"
    obtain t1 ap1 t2 ap2 where s: "s = (t1, ap1)" "s' = (t2, ap2)" by (cases s; cases s')
    have "moves ?K I t1 t2"
    proof (rule moves_applyAction)
      show "applyTaskAction st claim now (t1, ap1) x = Inr (t2, ap2)" using step s by simp
      show "settled_tree t1" using settled_tree_moves [OF settled m] s by simp
      fix t e reason assume u: "x = UnblockTask t e reason"
      from validated_unblock [OF valid, of t e reason] x u obtain r where r: "taskAt tree t = Some r" "tkPhase r \<noteq> PhRunning" by auto
      from moves_task [OF m r(1)] obtain r1 where "taskAt t1 t = Some r1" "same_task r r1" using s by auto
      then show "t \<in> ?K \<and> (\<forall>r. taskAt t1 t = Some r \<longrightarrow> tkPhase r \<noteq> PhRunning)"
        using x u r by (force simp: same_task_def unblockedTasks_def List.map_filter_def image_iff)
    qed simp
    with m s show "moves ?K I tree (fst s')" by (simp add: moves_trans)
  qed simp
  then show ?thesis by simp
qed

section \<open>Ending an attempt\<close>

definition released :: "string \<Rightarrow> task_resource \<Rightarrow> task_resource \<Rightarrow> bool" where
  "released i r r' \<longleftrightarrow> tkId r' = tkId r \<and> tkVersion r < tkVersion r' \<and>
     tkPhase r' \<noteq> PhRunning \<and> tkCurrentAttemptId r' = None \<and>
     (tkObservedAttemptId r' = tkObservedAttemptId r \<or> tkObservedAttemptId r' = Some i)"

definition ended :: "task_attempt \<Rightarrow> task_attempt \<Rightarrow> bool" where
  "ended a a' \<longleftrightarrow> atId a' = atId a \<and> atTaskId a' = atTaskId a \<and> atState a' \<noteq> ARunning \<and> atVersion a < atVersion a'"

definition settles :: "string set \<Rightarrow> string \<Rightarrow> string \<Rightarrow> task_tree \<Rightarrow> task_tree \<Rightarrow> bool" where
  "settles K t i tree tree' \<longleftrightarrow>
     (\<forall>k. k \<noteq> t \<longrightarrow> rel_option same_task (taskAt tree k) (taskAt tree' k)) \<and> (\<forall>k. k \<notin> K \<longrightarrow> taskAt tree' k = taskAt tree k) \<and>
     (\<exists>r r'. taskAt tree t = Some r \<and> taskAt tree' t = Some r' \<and> released i r r') \<and>
     (\<forall>j. j \<noteq> i \<longrightarrow> attemptAt tree' j = attemptAt tree j) \<and>
     (\<exists>a a'. attemptAt tree i = Some a \<and> attemptAt tree' i = Some a' \<and> ended a a') \<and>
     (dict_wf (trAttempts tree) \<longrightarrow> dict_wf (trAttempts tree'))"

text \<open>The last change an operation makes to the Task it takes the attempt from.\<close>

definition releasing :: "string \<Rightarrow> (task_resource \<Rightarrow> task_resource) \<Rightarrow> bool" where
  "releasing i f \<longleftrightarrow> (\<forall>r. tkId (f r) = tkId r \<and> tkPhase (f r) \<noteq> PhRunning \<and>
     tkCurrentAttemptId (f r) = None \<and> (tkObservedAttemptId (f r) = tkObservedAttemptId r \<or> tkObservedAttemptId (f r) = Some i))"

lemma whenText_Some [simp]: "whenText (Some s) = (if s = [] then None else Some s)" "whenText None = None"
  by (simp_all add: whenText_def)

lemma finishAttempt_current:
  assumes "taskAt tree t = Some r" "tkCurrentAttemptId r = Some i" "i \<noteq> []" "attemptAt tree i = Some a"
  shows "finishAttempt t state summary now tree =
    updResource t (\<lambda>r. (if state = ACompleted then clearFailures r else r)\<lparr>tkCurrentAttemptId := None\<rparr>)
      (updAttempt i (settledAttempt state summary now) tree)"
  using assms by (simp add: finishAttempt_def)

lemma settled_frame [simp]:
  "tkId (clearFailures r) = tkId r" "tkGeneration (clearFailures r) = tkGeneration r" "tkVersion (clearFailures r) = tkVersion r"
  "tkPhase (clearFailures r) = tkPhase r" "tkCurrentAttemptId (clearFailures r) = tkCurrentAttemptId r"
  "tkObservedAttemptId (clearFailures r) = tkObservedAttemptId r"
  by (simp_all add: clearFailures_def)

lemma dset_dset [simp]: "dset (dset d k v) k w = dset d k w"
  by (induction d k v rule: dset.induct) simp_all

lemma updResource_compose:
  "updResource k f (updResource k g tree) = updResource k (\<lambda>r. f (g r)) tree"
  by (simp add: updResource_def split: option.splits)

lemma settles_finish:
  assumes m1: "moves K {i} tree t1" and K: "t \<in> K"
    and r: "taskAt tree t = Some r" "tkCurrentAttemptId r = Some i" "i \<noteq> []" and a: "attemptAt tree i = Some a"
    and state: "state \<noteq> ARunning" and m2: "moves K {i} (finishAttempt t state summary now t1) t2" and f: "releasing i f"
  shows "settles K t i tree (updResource t (touchResource now f) t2)"
proof -
  from moves_task [OF m1 r(1)] obtain r1 where r1: "taskAt t1 t = Some r1" "same_task r r1" .
  from moves_attempt [OF m1 a] obtain a1 where a1: "attemptAt t1 i = Some a1" "same_attempt a a1" .
  let ?t = "finishAttempt t state summary now t1"
  have eq: "?t = updResource t (\<lambda>r. (if state = ACompleted then clearFailures r else r)\<lparr>tkCurrentAttemptId := None\<rparr>)
      (updAttempt i (settledAttempt state summary now) t1)"
    using r1(2) r(2) by (intro finishAttempt_current [OF r1(1) _ r(3) a1(1)]) (simp add: same_task_def)
  then obtain rf where rf: "taskAt ?t t = Some rf" "tkId rf = tkId r1" "tkVersion rf = tkVersion r1" "tkCurrentAttemptId rf = None" "tkObservedAttemptId rf = tkObservedAttemptId r1"
    using r1(1) by (simp add: taskAt_updResource)
  from eq have af: "attemptAt ?t i = Some (settledAttempt state summary now a1)" using a1(1) by (simp add: attemptAt_updAttempt)
  from moves_task [OF m2 rf(1)] obtain r2 where r2: "taskAt t2 t = Some r2" "same_task rf r2" .
  from moves_attempt [OF m2 af] obtain a2 where a2: "attemptAt t2 i = Some a2" "same_attempt (settledAttempt state summary now a1) a2" .
  let ?u = "updResource t (touchResource now f) t2"
  have "released i r (touchResource now f r2)"
    using f r1(2) rf r2(2) by (auto simp: released_def releasing_def same_task_def dest: spec [of _ r2])
  moreover have "ended a a2" using a1(2) a2(2) state by (auto simp: ended_def same_attempt_def settledAttempt_def)
  moreover have "rel_option same_task (taskAt tree k) (taskAt ?u k)" if "k \<noteq> t" for k
  proof -
    have "taskAt ?t k = taskAt t1 k" using that by (simp add: eq taskAt_updResource)
    moreover have "rel_option same_task (taskAt tree k) (taskAt t1 k)" "rel_option same_task (taskAt ?t k) (taskAt t2 k)"
      using m1 m2 by (simp_all add: moves_def)
    ultimately show ?thesis using that
      by (cases "taskAt tree k"; cases "taskAt t1 k"; cases "taskAt t2 k") (auto simp: taskAt_updResource intro: same_task_trans)
  qed
  moreover have "taskAt ?u k = taskAt tree k" if "k \<notin> K" for k
  proof -
    have "k \<noteq> t" using K that by auto
    with m1 m2 that show ?thesis by (simp add: taskAt_updResource moves_def eq)
  qed
  moreover have "attemptAt ?u j = attemptAt tree j" if "j \<noteq> i" for j
    using m1 m2 that by (simp add: moves_def eq attemptAt_updAttempt)
  moreover have "dict_wf (trAttempts tree) \<longrightarrow> dict_wf (trAttempts ?u)"
    using m1 m2 by (auto simp: moves_def eq updAttempt_wf)
  ultimately show ?thesis using r(1) a r2(1) a2(1) by (auto simp: settles_def taskAt_updResource)
qed

lemma settles_moves:
  assumes "settles K t i tree t1" "moves K {i} t1 t2"
  shows "settles K t i tree t2"
proof -
  from assms(1) obtain r r1 a a1 where r: "taskAt tree t = Some r" "taskAt t1 t = Some r1" "released i r r1"
    and a: "attemptAt tree i = Some a" "attemptAt t1 i = Some a1" "ended a a1" by (auto simp: settles_def)
  from moves_task [OF assms(2) r(2)] obtain r2 where r2: "taskAt t2 t = Some r2" "same_task r1 r2" .
  from moves_attempt [OF assms(2) a(2)] obtain a2 where a2: "attemptAt t2 i = Some a2" "same_attempt a1 a2" .
  have "released i r r2" "ended a a2" using r(3) r2(2) a(3) a2(2)
    by (auto simp: released_def ended_def same_task_def same_attempt_def)
  moreover have "rel_option same_task (taskAt tree k) (taskAt t2 k)" if "k \<noteq> t" for k
  proof -
    have "rel_option same_task (taskAt tree k) (taskAt t1 k)" "rel_option same_task (taskAt t1 k) (taskAt t2 k)"
      using assms that by (auto simp: settles_def moves_def)
    then show ?thesis
      by (cases "taskAt tree k"; cases "taskAt t1 k"; cases "taskAt t2 k") (auto intro: same_task_trans)
  qed
  ultimately show ?thesis using assms r(1) r2(1) a(1) a2(1) by (auto simp: settles_def moves_def)
qed

end
