(* ===== verification/Execution_Store.thy ===== *)
theory Execution_Store
  imports Execution_Trees
begin

text \<open>
  Execution in the store: which attempt a Task's row names, which attempts run, and how a commit of the
  reconciler carries the tree an operation worked on back into the store.
\<close>

section \<open>Consistent execution\<close>

definition exec_ok :: "(string \<Rightarrow> task_resource option) \<Rightarrow> (string \<Rightarrow> task_attempt option) \<Rightarrow> bool" where
  "exec_ok R A \<longleftrightarrow>
     (\<forall>k r. R k = Some r \<longrightarrow> tkCurrentAttemptId r \<noteq> Some [] \<and> (tkPhase r \<noteq> PhRunning \<longrightarrow> tkCurrentAttemptId r = None)) \<and>
     (\<forall>i a. A i = Some a \<longrightarrow> atState a = ARunning \<longrightarrow> (\<exists>r. R (atTaskId a) = Some r \<and> tkCurrentAttemptId r = Some i)) \<and>
     (\<forall>k r i a. R k = Some r \<longrightarrow> tkCurrentAttemptId r = Some i \<or> tkObservedAttemptId r = Some i \<longrightarrow> A i = Some a \<longrightarrow> atTaskId a = k)"

definition attempts_filed :: "task_store \<Rightarrow> bool" where
  "attempts_filed st \<longleftrightarrow> dict_wf (stAttempts st) \<and> (\<forall>i a. readAttempt st i = Some a \<longrightarrow> atId a = i \<and> i \<noteq> [])"

definition execution_ok :: "task_store \<Rightarrow> bool" where
  "execution_ok st \<longleftrightarrow> store_ok st \<and> attempts_filed st \<and> exec_ok (readTask st) (readAttempt st) \<and>
     (\<forall>k r. isCancelled st k \<longrightarrow> readTask st k = Some r \<longrightarrow> tkCurrentAttemptId r = None)"

section \<open>Mutations that respect execution\<close>

text \<open>
  The mutations of the reconciler write a Task in one of three ways: its execution is kept, it is taken
  from its attempt and idle, or it is started on an attempt that no Task has named before.
\<close>

definition observes :: "task_store \<Rightarrow> task_resource \<Rightarrow> bool" where
  "observes st r' \<longleftrightarrow> (\<forall>i. tkObservedAttemptId r' = Some i \<longrightarrow>
     (\<exists>a. readAttempt st i = Some a \<and> atTaskId a = tkId r') \<or> (\<exists>r. readTask st (tkId r') = Some r \<and> tkObservedAttemptId r = Some i))"

definition frees :: "task_store \<Rightarrow> task_mutation \<Rightarrow> string \<Rightarrow> bool" where
  "frees st m k \<longleftrightarrow> (\<forall>r i a. readTask st k = Some r \<longrightarrow> tkCurrentAttemptId r = Some i \<longrightarrow> readAttempt st i = Some a \<longrightarrow>
     atState a = ARunning \<longrightarrow> (\<exists>b\<in>set (muAttempts m). atId b = i) \<and> (\<forall>b\<in>set (muAttempts m). atId b = i \<longrightarrow> atState b \<noteq> ARunning))"

definition unused :: "task_store \<Rightarrow> string \<Rightarrow> bool" where
  "unused st i \<longleftrightarrow> i \<noteq> [] \<and> readAttempt st i = None \<and>
     (\<forall>k r. readTask st k = Some r \<longrightarrow> tkCurrentAttemptId r \<noteq> Some i \<and> tkObservedAttemptId r \<noteq> Some i)"

definition keepsTask :: "task_store \<Rightarrow> task_resource \<Rightarrow> bool" where
  "keepsTask st r' \<longleftrightarrow> (\<exists>r. readTask st (tkId r') = Some r \<and> same_task r r')"

definition idlesTask :: "task_store \<Rightarrow> task_mutation \<Rightarrow> task_resource \<Rightarrow> bool" where
  "idlesTask st m r' \<longleftrightarrow> tkPhase r' \<noteq> PhRunning \<and> tkCurrentAttemptId r' = None \<and> observes st r' \<and> frees st m (tkId r')"

definition startsTask :: "task_store \<Rightarrow> task_mutation \<Rightarrow> task_resource \<Rightarrow> string \<Rightarrow> bool" where
  "startsTask st m r' i \<longleftrightarrow> tkPhase r' = PhRunning \<and> tkCurrentAttemptId r' = Some i \<and> unused st i \<and> observes st r' \<and>
     frees st m (tkId r') \<and> \<not> isCancelled st (tkId r') \<and>
     (\<forall>a\<in>set (muAttempts m). atId a = i \<longrightarrow> atTaskId a = tkId r') \<and>
     (\<forall>w\<in>set (muTasks m). tkId (twResource w) = tkId r' \<longrightarrow> twResource w = r')"

definition keepsAttempt :: "task_store \<Rightarrow> task_attempt \<Rightarrow> bool" where
  "keepsAttempt st a' \<longleftrightarrow> (\<exists>a. readAttempt st (atId a') = Some a \<and> atTaskId a' = atTaskId a \<and>
     (atState a' = ARunning \<longrightarrow> atState a = ARunning))"

definition startsAttempt :: "task_store \<Rightarrow> task_mutation \<Rightarrow> task_attempt \<Rightarrow> bool" where
  "startsAttempt st m a \<longleftrightarrow> (\<exists>w\<in>set (muTasks m). startsTask st m (twResource w) (atId a))"

definition executes :: "task_store \<Rightarrow> task_mutation \<Rightarrow> bool" where
  "executes st m \<longleftrightarrow> muDeleteTasks m = [] \<and> muDeleteAttempts m = [] \<and>
     (\<forall>w\<in>set (muTasks m). keepsTask st (twResource w) \<or> idlesTask st m (twResource w) \<or> (\<exists>i. startsTask st m (twResource w) i)) \<and>
     (\<forall>a\<in>set (muAttempts m). keepsAttempt st a \<or> startsAttempt st m a) \<and>
     (\<forall>c\<in>set (muCancellations m). (\<exists>w\<in>set (muTasks m). tkId (twResource w) = caTaskId c) \<and>
        (\<forall>w\<in>set (muTasks m). tkId (twResource w) = caTaskId c \<longrightarrow> tkCurrentAttemptId (twResource w) = None))"

text \<open>All but the claim retain: they start no Task.\<close>

definition retains :: "task_store \<Rightarrow> task_mutation \<Rightarrow> bool" where
  "retains st m \<longleftrightarrow> executes st m \<and> (\<forall>w\<in>set (muTasks m). keepsTask st (twResource w) \<or> idlesTask st m (twResource w))"

section \<open>What a commit leaves behind\<close>

lemma commit_cancelled:
  assumes "commitTaskMutation now m st = Inr st'" "isCancelled st' k"
  shows "isCancelled st k \<or> k \<in> caTaskId ` set (muCancellations m)"
proof -
  from assms(1) have "applyMutation now m st = Inr st'" by (simp add: commitTaskMutation_commit commit_True)
  then obtain st1 st2 st3 st4 st5 where st1: "rfold (reopenTask m) st (uniq (muReopen m)) = Inr st1"
    and st2: "rfold (writeTask now) (foldl (\<lambda>s k. deleteTask k s) st1 (muDeleteTasks m)) (muTasks m) = Inr st2"
    and st3: "rfold putReceipt (foldl (\<lambda>s k. s\<lparr>stReceipts := ddel (stReceipts s) k\<rparr>)
        (writeConditions m (writeAttempts m st2)) (muDeleteReceipts m)) (muReceipts m) = Inr st3"
    and st4: "rfold (\<lambda>s c. putCancellation c s) (writeAdmissions m st3) (muCancellations m) = Inr st4"
    and st5: "rfold putControlReceipt st4 (muControls m) = Inr st5" and st': "st' = bumpRevision st5"
    by (rule applyMutation_cases)
  obtain d where d: "foldl (\<lambda>s k. s\<lparr>stReceipts := ddel (stReceipts s) k\<rparr>)
      (writeConditions m (writeAttempts m st2)) (muDeleteReceipts m) =
      (writeConditions m (writeAttempts m st2))\<lparr>stReceipts := d\<rparr>" using deleteReceipts_frame by blast
  have "dget (stCancellations st1) k \<noteq> None \<longrightarrow> isCancelled st k"
    by (rule rfold_invariant [OF st1, where P = "\<lambda>s. dget (stCancellations s) k \<noteq> None \<longrightarrow> isCancelled st k"])
      (auto simp: isCancelled_def reopenTask_def Let_def split: if_splits option.splits)
  moreover have "stCancellations (writeAdmissions m st3) = stCancellations st1"
    using putReceipts_frame [OF st3] writeConditions_frame [of m "writeAttempts m st2"] writeAttempts_frame [of m st2]
      writeTasks_frame [OF st2] deleteTasks_frame [of st1 "muDeleteTasks m"]
    by (simp add: d writeAdmissions_admissions)
  moreover have "dget (stCancellations st4) k \<noteq> None \<longrightarrow>
      dget (stCancellations (writeAdmissions m st3)) k \<noteq> None \<or> k \<in> caTaskId ` set (muCancellations m)"
    by (rule rfold_invariant [OF st4, where P = "\<lambda>s. dget (stCancellations s) k \<noteq> None \<longrightarrow>
        dget (stCancellations (writeAdmissions m st3)) k \<noteq> None \<or> k \<in> caTaskId ` set (muCancellations m)"])
      (auto simp: putCancellation_def split: if_splits)
  ultimately show ?thesis using assms(2) putControls_effect [OF st5] by (auto simp: isCancelled_def st' bumpRevision_def)
qed

lemma attemptsAfter_get:
  assumes "muDeleteAttempts m = []"
  shows "dget (attemptsAfter m d) i = (case find (\<lambda>a. atId a = i) (rev (muAttempts m)) of Some a \<Rightarrow> Some a | None \<Rightarrow> dget d i)"
proof -
  have "dget (foldl (\<lambda>d a. dset d (atId a) a) d as) i = (case find (\<lambda>a. atId a = i) (rev as) of Some a \<Rightarrow> Some a | None \<Rightarrow> dget d i)" for as
    by (induction as rule: rev_induct) (auto split: option.splits)
  then show ?thesis using assms by (simp add: attemptsAfter_def)
qed

lemma attemptsAfter_wf: "dict_wf d \<Longrightarrow> muDeleteAttempts m = [] \<Longrightarrow> dict_wf (attemptsAfter m d)"
  unfolding attemptsAfter_def by (rule foldl_invariant [where P = dict_wf]) simp_all

lemma commit_task_cases:
  assumes "commitTaskMutation now m st = Inr st'" "muDeleteTasks m = []"
  obtains "readTask st' k = readTask st k" "\<forall>w\<in>set (muTasks m). tkId (twResource w) \<noteq> k"
  | w where "w \<in> set (muTasks m)" "tkId (twResource w) = k" "readTask st' k = Some (twResource w)"
proof (cases "lastWrite (muTasks m) k")
  case None
  with commitTaskMutation_reads [OF assms(1), of k] assms(2) that(1) lastWrite_None [of "muTasks m" k] show ?thesis
    by (auto simp: written_def)
next
  case (Some w)
  with commitTaskMutation_reads [OF assms(1), of k] that(2) [of w] lastWrite_Some [OF Some] show ?thesis by simp
qed

lemma commit_attempt_cases:
  assumes "commitTaskMutation now m st = Inr st'" "muDeleteAttempts m = []"
  obtains "readAttempt st' i = readAttempt st i" "\<forall>a\<in>set (muAttempts m). atId a \<noteq> i"
  | a where "a \<in> set (muAttempts m)" "atId a = i" "readAttempt st' i = Some a"
proof (cases "find (\<lambda>a. atId a = i) (rev (muAttempts m))")
  case None
  with assms that(1) show ?thesis
    by (simp add: readAttempt_def commit_ledger(1) [OF assms(1)] attemptsAfter_get [OF assms(2)] find_None_iff)
next
  case (Some a)
  then have "a \<in> set (muAttempts m)" "atId a = i" by (auto simp: find_Some_iff rev_nth)
  with Some that(2) show ?thesis
    by (simp add: readAttempt_def commit_ledger(1) [OF assms(1)] attemptsAfter_get [OF assms(2)])
qed

section \<open>Commits preserve consistent execution\<close>

lemma exec_parts:
  assumes "exec_ok R A"
  shows "R k = Some r \<Longrightarrow> tkPhase r \<noteq> PhRunning \<Longrightarrow> tkCurrentAttemptId r = None"
    and "A i = Some a \<Longrightarrow> atState a = ARunning \<Longrightarrow> \<exists>r. R (atTaskId a) = Some r \<and> tkCurrentAttemptId r = Some i"
    and "R k = Some r \<Longrightarrow> tkCurrentAttemptId r = Some i \<or> tkObservedAttemptId r = Some i \<Longrightarrow> A i = Some a \<Longrightarrow> atTaskId a = k"
    and "R k = Some r \<Longrightarrow> tkCurrentAttemptId r \<noteq> Some []"
  using assms unfolding exec_ok_def by blast+

text \<open>An attempt after the commit was there before, or it is the one a Task was started on.\<close>

lemma attempt_before:
  assumes "executes st m" "commitTaskMutation now m st = Inr st'" "readAttempt st' i = Some a'"
  obtains a where "readAttempt st i = Some a" "atTaskId a' = atTaskId a" "atState a' = ARunning \<longrightarrow> atState a = ARunning"
      "a' = a \<and> (\<forall>b\<in>set (muAttempts m). atId b \<noteq> i) \<or> a' \<in> set (muAttempts m) \<and> atId a' = i"
  | w where "w \<in> set (muTasks m)" "startsTask st m (twResource w) i" "atTaskId a' = tkId (twResource w)"
      "a' \<in> set (muAttempts m)" "atId a' = i"
proof -
  have none: "muDeleteAttempts m = []" using assms(1) by (simp add: executes_def)
  from assms(2) none show ?thesis
  proof (cases rule: commit_attempt_cases [where i = i])
    case 1
    with assms(3) that(1) show ?thesis by auto
  next
    case (2 a)
    with assms(3) have a': "a' \<in> set (muAttempts m)" "atId a' = i" by simp_all
    with assms(1) consider "keepsAttempt st a'" | w where "w \<in> set (muTasks m)" "startsTask st m (twResource w) i"
      by (auto simp: executes_def startsAttempt_def)
    then show ?thesis
    proof cases
      case 1
      with a' that(1) show ?thesis by (auto simp: keepsAttempt_def)
    next
      case (2 w)
      moreover from 2(2) a' have "atTaskId a' = tkId (twResource w)" by (auto simp: startsTask_def)
      ultimately show ?thesis using a' by (rule that(2))
    qed
  qed
qed

lemma task_after:
  assumes "executes st m" "commitTaskMutation now m st = Inr st'" "readTask st' k = Some r'"
  obtains r where "readTask st k = Some r" "same_task r r'"
  | "idlesTask st m r'" "tkId r' = k" | i where "startsTask st m r' i" "tkId r' = k"
proof -
  have none: "muDeleteTasks m = []" using assms(1) by (simp add: executes_def)
  from assms(2) none show ?thesis
  proof (cases rule: commit_task_cases [where k = k])
    case 1
    with assms(3) that(1) [of r'] show ?thesis by simp
  next
    case (2 w)
    with assms(3) have "twResource w = r'" by simp
    with 2 assms(1) that show ?thesis by (auto simp: executes_def keepsTask_def)
  qed
qed

lemma task_started:
  assumes "executes st m" "commitTaskMutation now m st = Inr st'" "w \<in> set (muTasks m)" "startsTask st m (twResource w) i"
  shows "readTask st' (tkId (twResource w)) = Some (twResource w)"
proof -
  have none: "muDeleteTasks m = []" using assms(1) by (simp add: executes_def)
  from assms(2) none show ?thesis
    by (cases rule: commit_task_cases [where k = "tkId (twResource w)"]) (use assms(3,4) in \<open>auto simp: startsTask_def\<close>)
qed

text \<open>A running attempt keeps its Task through a commit, or is ended by it.\<close>

lemma running_kept:
  assumes "exec_ok (readTask st) (readAttempt st)" "executes st m" "commitTaskMutation now m st = Inr st'"
    and "readAttempt st' i = Some a'" "atState a' = ARunning" "readAttempt st i = Some a" "atTaskId a' = atTaskId a" "atState a = ARunning"
    and "a' = a \<and> (\<forall>b\<in>set (muAttempts m). atId b \<noteq> i) \<or> a' \<in> set (muAttempts m) \<and> atId a' = i"
  shows "\<exists>r'. readTask st' (atTaskId a') = Some r' \<and> tkCurrentAttemptId r' = Some i"
proof -
  from exec_parts(2) [OF assms(1,6,8)] obtain r where r: "readTask st (atTaskId a) = Some r" "tkCurrentAttemptId r = Some i" by blast
  have busy: "\<not> frees st m (atTaskId a)" using r assms(5,6,8,9) by (auto simp: frees_def)
  have none: "muDeleteTasks m = []" using assms(2) by (simp add: executes_def)
  from assms(3) none show ?thesis
  proof (cases rule: commit_task_cases [where k = "atTaskId a"])
    case 1
    with r assms(7) show ?thesis by simp
  next
    case (2 w)
    from assms(2) 2(1) have "keepsTask st (twResource w) \<or> idlesTask st m (twResource w) \<or> (\<exists>j. startsTask st m (twResource w) j)"
      unfolding executes_def by blast
    with busy 2(2) have "keepsTask st (twResource w)" by (auto simp: idlesTask_def startsTask_def)
    with 2 r assms(7) show ?thesis by (auto simp: keepsTask_def same_task_def)
  qed
qed

lemma observes_named:
  assumes "exec_ok (readTask st) (readAttempt st)" "observes st r" "tkObservedAttemptId r = Some i" "readAttempt st i = Some a"
  shows "atTaskId a = tkId r"
proof -
  from assms(2,3) consider b where "readAttempt st i = Some b" "atTaskId b = tkId r"
    | r0 where "readTask st (tkId r) = Some r0" "tkObservedAttemptId r0 = Some i" by (auto simp: observes_def)
  then show ?thesis using assms(4) exec_parts(3) [OF assms(1) _ _ assms(4)] by cases auto
qed

lemma named_kept:
  assumes ok: "exec_ok (readTask st) (readAttempt st)" and ex: "executes st m" and commit: "commitTaskMutation now m st = Inr st'"
    and r': "readTask st' k = Some r'" "tkCurrentAttemptId r' = Some i \<or> tkObservedAttemptId r' = Some i"
    and a': "readAttempt st' i = Some a'"
  shows "atTaskId a' = k"
  using ex commit a'
proof (cases rule: attempt_before)
  case (1 a)
  from ex commit r'(1) show ?thesis
  proof (cases rule: task_after)
    case (1 r)
    with \<open>atTaskId a' = atTaskId a\<close> exec_parts(3) [OF ok 1(1) _ \<open>readAttempt st i = Some a\<close>] r'(2) show ?thesis
      by (auto simp: same_task_def)
  next
    case 2
    with observes_named [OF ok _ _ 1(1)] r'(2) 1(2) show ?thesis by (auto simp: idlesTask_def)
  next
    case (3 j)
    with observes_named [OF ok _ _ 1(1)] r'(2) 1(1,2) show ?thesis by (auto simp: startsTask_def unused_def)
  qed
next
  case (2 w)
  then have unused: "unused st i" by (simp add: startsTask_def)
  then have "\<not> observes st r' \<or> tkObservedAttemptId r' \<noteq> Some i" by (auto simp: unused_def observes_def)
  from ex commit r'(1) show ?thesis
  proof (cases rule: task_after)
    case (1 r)
    with unused r'(2) show ?thesis by (auto simp: unused_def same_task_def)
  next
    case 2
    with \<open>\<not> observes st r' \<or> _\<close> r'(2) show ?thesis by (auto simp: idlesTask_def)
  next
    case (3 j)
    with \<open>\<not> observes st r' \<or> _\<close> r'(2) 2(4,5) show ?thesis by (auto simp: startsTask_def)
  qed
qed

lemma exec_commit:
  assumes ok: "exec_ok (readTask st) (readAttempt st)" and ex: "executes st m" and commit: "commitTaskMutation now m st = Inr st'"
  shows "exec_ok (readTask st') (readAttempt st')"
  unfolding exec_ok_def
proof (intro conjI allI impI)
  fix k r' assume "readTask st' k = Some r'" "tkPhase r' \<noteq> PhRunning"
  with ex commit show "tkCurrentAttemptId r' = None"
    by (cases rule: task_after) (auto simp: same_task_def idlesTask_def startsTask_def exec_parts(1) [OF ok])
next
  fix k r' assume "readTask st' k = Some r'"
  with ex commit show "tkCurrentAttemptId r' \<noteq> Some []"
    by (cases rule: task_after) (auto simp: same_task_def idlesTask_def startsTask_def unused_def exec_parts(4) [OF ok])
next
  fix i a' assume a': "readAttempt st' i = Some a'" "atState a' = ARunning"
  from ex commit a'(1) show "\<exists>r. readTask st' (atTaskId a') = Some r \<and> tkCurrentAttemptId r = Some i"
  proof (cases rule: attempt_before)
    case (1 a)
    with a' running_kept [OF ok ex commit a'] show ?thesis by blast
  next
    case (2 w)
    with task_started [OF ex commit 2(1,2)] show ?thesis by (simp add: startsTask_def)
  qed
next
  fix k r' i a'
  assume "readTask st' k = Some r'" "tkCurrentAttemptId r' = Some i \<or> tkObservedAttemptId r' = Some i" "readAttempt st' i = Some a'"
  then show "atTaskId a' = k" by (rule named_kept [OF ok ex commit])
qed

lemma filed_commit:
  assumes "attempts_filed st" "executes st m" "commitTaskMutation now m st = Inr st'"
  shows "attempts_filed st'"
proof -
  have "dict_wf (stAttempts st')"
    using assms(1,2) by (simp add: commit_ledger(1) [OF assms(3)] attempts_filed_def executes_def attemptsAfter_wf)
  moreover have "atId a' = i \<and> i \<noteq> []" if "readAttempt st' i = Some a'" for i a'
    using assms(2,3) that
  proof (cases rule: attempt_before)
    case (1 a)
    with assms(1) show ?thesis by (auto simp: attempts_filed_def)
  next
    case (2 w)
    then show ?thesis by (simp add: startsTask_def unused_def)
  qed
  ultimately show ?thesis by (simp add: attempts_filed_def)
qed

lemma cancelled_idle:
  assumes ok: "execution_ok st" and ex: "executes st m" and commit: "commitTaskMutation now m st = Inr st'"
    and k: "isCancelled st' k" and r': "readTask st' k = Some r'"
  shows "tkCurrentAttemptId r' = None"
proof (cases "k \<in> caTaskId ` set (muCancellations m)")
  case True
  have none: "muDeleteTasks m = []" using ex by (simp add: executes_def)
  from commit none show ?thesis
    by (cases rule: commit_task_cases [where k = k]) (use True ex r' in \<open>auto simp: executes_def\<close>)
next
  case False
  with commit_cancelled [OF commit k] have "isCancelled st k" by simp
  with ex commit r' show ?thesis
    by (cases rule: task_after) (use ok in \<open>auto simp: execution_ok_def same_task_def idlesTask_def startsTask_def\<close>)
qed

theorem execution_commit:
  assumes "execution_ok st" "executes st m" "commitTaskMutation now m st = Inr st'"
  shows "execution_ok st'"
proof -
  have "store_ok st'"
    using assms(1,3) by (auto simp: execution_ok_def commitTaskMutation_commit intro: store_ok_step store_step.committed)
  moreover have "attempts_filed st'" "exec_ok (readTask st') (readAttempt st')"
    using assms filed_commit exec_commit by (auto simp: execution_ok_def)
  ultimately show ?thesis using cancelled_idle [OF assms] by (auto simp: execution_ok_def)
qed

section \<open>What an operation reads\<close>

lemma sort_key_split:
  assumes "\<And>x y. P x \<Longrightarrow> \<not> P y \<Longrightarrow> f x < f y"
  shows "sort_key f xs = filter P (sort_key f xs) @ filter (\<lambda>x. \<not> P x) (sort_key f xs)"
proof -
  have "sorted (map f ys) \<Longrightarrow> ys = filter P ys @ filter (\<lambda>x. \<not> P x) ys" for ys
  proof (induction ys)
    case (Cons y ys)
    show ?case
    proof (cases "P y")
      case False
      with Cons.prems assms have "filter P ys = []" by (auto simp: filter_empty_conv) (meson leD)
      with False Cons show ?thesis by simp
    qed (use Cons in simp)
  qed simp
  then show ?thesis by (metis sorted_sort_key)
qed

lemma take_sort_key:
  assumes "\<And>x y. P x \<Longrightarrow> \<not> P y \<Longrightarrow> f x < f y" "length (filter P xs) \<le> n" "x \<in> set xs" "P x"
  shows "x \<in> set (take n (sort_key f xs))"
proof -
  have "length (filter P (sort_key f xs)) \<le> n" using assms(2) by (simp add: filter_sort)
  moreover have "x \<in> set (filter P (sort_key f xs))" using assms(3,4) by simp
  ultimately show ?thesis by (subst sort_key_split [OF assms(1)]) (auto simp: take_append)
qed

definition reflects :: "task_store \<Rightarrow> task_tree \<Rightarrow> bool" where
  "reflects st tree \<longleftrightarrow> dict_wf (trAttempts tree) \<and>
     (\<forall>k r. taskAt tree k = Some r \<longrightarrow> readTask st k = Some r \<and> tkId r = k) \<and>
     (\<forall>i a. attemptAt tree i = Some a \<longrightarrow> readAttempt st i = Some a \<and> atId a = i)"

text \<open>A context with history holds the current attempt of each of its Tasks.\<close>

definition reflects_current :: "task_store \<Rightarrow> task_tree \<Rightarrow> bool" where
  "reflects_current st tree \<longleftrightarrow> (\<forall>k r i a. taskAt tree k = Some r \<longrightarrow> tkCurrentAttemptId r = Some i \<longrightarrow>
     readAttempt st i = Some a \<longrightarrow> attemptAt tree i = Some a)"

lemma dget_filter_keys: "dict_wf d \<Longrightarrow> dget (filter (\<lambda>(k, _). P k) d) k = (if P k then dget d k else None)"
  by (induction d) (auto simp: dict_wf_def dget_def)

lemma wf_filter: "dict_wf d \<Longrightarrow> dict_wf (filter P d)"
  by (simp add: dict_wf_def distinct_map_filter)

lemma context_reflects:
  assumes "execution_ok st" "readTaskContext st sc hist limit = Inr tree"
  shows "reflects st tree"
proof -
  from assms(2) have tree: "trAttempts tree = (if hist then contextAttempts st (contextRows st sc limit) else [])"
    by (auto simp: readTaskContext_def Let_def split: option.splits)
  have wf: "dict_wf (stAttempts st)" using assms(1) by (simp add: execution_ok_def attempts_filed_def)
  have "attemptAt tree i = Some a \<Longrightarrow> readAttempt st i = Some a" for i a
    by (auto simp: tree contextAttempts_def Let_def dget_filter_keys [OF wf, where P = "\<lambda>i. i \<noteq> [] \<and> Q i" for Q]
        readAttempt_def split: if_splits)
  moreover have "dict_wf (trAttempts tree)" using wf by (auto simp: tree contextAttempts_def Let_def intro: wf_filter)
  ultimately show ?thesis using context_stored [OF _ assms(2)] assms(1)
    by (auto simp: reflects_def execution_ok_def attempts_filed_def)
qed

lemma referenced_few:
  assumes "execution_ok st" "dict_wf found" "\<And>k row. (k, row) \<in> set found \<Longrightarrow> readTask st k = Some (rwResource row)"
    and "dget found k = Some row"
  defines "refs \<equiv> set (filter (\<lambda>i. i \<noteq> []) (concat (map (\<lambda>(_, row). List.map_filter id
      [tkCurrentAttemptId (rwResource row), tkObservedAttemptId (rwResource row)]) found)))"
  shows "length (filter (\<lambda>p. fst p \<in> refs) (filter (\<lambda>(_, a). atTaskId a = k) (stAttempts st))) \<le> 2"
proof -
  let ?r = "rwResource row"
  let ?ids = "List.map_filter id [tkCurrentAttemptId ?r, tkObservedAttemptId ?r]"
  let ?xs = "filter (\<lambda>p. fst p \<in> refs) (filter (\<lambda>(_, a). atTaskId a = k) (stAttempts st))"
  have wf: "dict_wf (stAttempts st)" and ok: "exec_ok (readTask st) (readAttempt st)"
    using assms(1) by (simp_all add: execution_ok_def attempts_filed_def)
  have "fst ` set ?xs \<subseteq> set ?ids"
  proof
    fix i assume "i \<in> fst ` set ?xs"
    then obtain a where a: "(i, a) \<in> set (stAttempts st)" "atTaskId a = k" "i \<in> refs" by auto
    then obtain k' row' where row': "(k', row') \<in> set found"
      "i \<in> set (List.map_filter id [tkCurrentAttemptId (rwResource row'), tkObservedAttemptId (rwResource row')])"
      by (auto simp: refs_def)
    have "readAttempt st i = Some a" using dict_wf_dget [OF wf a(1)] by (simp add: readAttempt_def)
    with exec_parts(3) [OF ok assms(3) [OF row'(1)]] row'(2) have "atTaskId a = k'"
      by (auto simp: List.map_filter_def split: if_splits)
    with a(2) row'(1) assms(4) dict_wf_dget [OF assms(2) row'(1)] have "row' = row" by simp
    with row'(2) show "i \<in> set ?ids" by simp
  qed
  moreover have "distinct (map fst ?xs)" using wf by (simp add: dict_wf_def distinct_map_filter)
  ultimately have "length (map fst ?xs) \<le> card (set ?ids)"
    by (metis card_mono distinct_card list.set_map List.finite_set)
  also have "\<dots> \<le> length ?ids" by (rule card_length)
  also have "\<dots> \<le> 2" by (simp add: List.map_filter_def)
  finally show ?thesis by simp
qed

lemma contextRows_wf: "dict_wf (contextRows st sc limit)"
proof -
  have row: "dict_wf (fst acc) \<Longrightarrow> dict_wf (fst (contextRow acc p))" for acc p
    by (cases acc) (simp add: contextRow_def Let_def)
  have pass: "dict_wf found \<Longrightarrow> dict_wf (fst (contextPass st todo found))" for todo found
    unfolding contextPass_def by (rule foldl_invariant [where P = "\<lambda>x. dict_wf (fst x)"]) (simp_all add: row)
  have loop: "dict_wf found \<Longrightarrow> dict_wf (contextLoop st todo found)" for todo found
  proof (induction st todo found rule: contextLoop.induct)
    case (1 st todo found)
    have "dict_wf (fst (contextPass st todo found))"
      unfolding contextPass_def by (rule foldl_invariant [where P = "\<lambda>x. dict_wf (fst x)"]) (simp_all add: row 1)
    with 1 show ?case
      by (cases "contextPass st todo found") (simp add: contextLoop.simps [of st todo found])
  qed
  have rows: "dict_wf found \<Longrightarrow> dict_wf (addRows found rs)" for found rs
    unfolding addRows_def by (rule foldl_invariant) auto
  show ?thesis by (simp add: contextRows_def Let_def loop rows)
qed

lemma context_current:
  assumes "execution_ok st" "readTaskContext st sc True limit = Inr tree"
  shows "reflects_current st tree"
  unfolding reflects_current_def
proof (intro allI impI)
  fix k r i a
  assume r: "taskAt tree k = Some r" "tkCurrentAttemptId r = Some i" and a: "readAttempt st i = Some a"
  define found where "found = contextRows st sc limit"
  define refs where "refs = filter (\<lambda>i. i \<noteq> []) (concat (map (\<lambda>(_, row). List.map_filter id
      [tkCurrentAttemptId (rwResource row), tkObservedAttemptId (rwResource row)]) found))"
  define mine where "mine = rev (sort_key fst (filter (\<lambda>(_, a). atTaskId a = k) (stAttempts st)))"
  let ?key = "\<lambda>(i, a :: task_attempt). (if i \<in> set refs then 0 else 1 :: nat, - atStartedAt a)"
  from assms(2) have tree: "trAttempts tree = contextAttempts st found" "trResources tree = resourcesOf found"
    by (auto simp: readTaskContext_def Let_def found_def split: option.splits)
  have wf: "dict_wf (stAttempts st)" "dict_wf (stTasks st)" and ok: "exec_ok (readTask st) (readAttempt st)" and i: "i \<noteq> []"
    using assms(1) a by (auto simp: execution_ok_def attempts_filed_def store_ok_def rows_ok_def)
  have fwf: "dict_wf found" unfolding found_def by (rule contextRows_wf)
  have stored: "readTask st k = Some (rwResource row)" if "(k, row) \<in> set found" for k row
    using contextRows_stored [OF wf(2)] dict_wf_dget [OF fwf that] by (auto simp: readTask_def found_def)
  from r(1) obtain row where row: "dget found k = Some row" "rwResource row = r"
    by (auto simp: tree resourcesOf_def dget_map)
  then have krow: "(k, row) \<in> set found" by (simp add: dget_Some_in)
  have ref: "i \<in> set refs" using krow row(2) r(2) i by (force simp: refs_def List.map_filter_def)
  have "atTaskId a = k" using exec_parts(3) [OF ok stored [OF krow] _ a] row(2) r(2) by simp
  then have "(i, a) \<in> set mine" using a by (simp add: mine_def readAttempt_def dget_Some_in)
  moreover have "length (filter (\<lambda>p. fst p \<in> set refs) mine) \<le> 16"
    using referenced_few [OF assms(1) fwf stored row(1)]
    by (simp add: mine_def refs_def rev_filter [symmetric] filter_sort del: filter_filter)
  ultimately have "(i, a) \<in> set (take 16 (sort_key ?key mine))"
    by (intro take_sort_key [where P = "\<lambda>p. fst p \<in> set refs"]) (auto simp: ref)
  moreover have "k \<in> set (dkeys found)" using krow by (force simp: dkeys_def)
  ultimately have "i \<in> fst ` set (concat (map (\<lambda>k. take 16 (sort_key ?key
      (rev (sort_key fst (filter (\<lambda>(_, a). atTaskId a = k) (stAttempts st)))))) (dkeys found)))"
    by (force simp: mine_def)
  with a i show "attemptAt tree i = Some a"
    unfolding tree contextAttempts_def Let_def refs_def [symmetric] readAttempt_def
    by (subst dget_filter_keys [OF wf(1), where P = "\<lambda>i. i \<noteq> [] \<and> Q i" for Q]) simp
qed

section \<open>Scoped mutations\<close>

text \<open>The attempt versions a scope remembers are those of the tree it was opened on.\<close>

definition versionsOf :: "task_tree \<Rightarrow> (string, nat) dict" where
  "versionsOf tree = fromEntries (map (\<lambda>a. (atId a, atVersion a)) (dvals (trAttempts tree)))"

lemma versions_track [simp]:
  "msAttemptVersions (fenceResourceMutationTask tree k scope) = msAttemptVersions scope"
  "msAttemptVersions (trackResourceMutationTask tree k scope) = msAttemptVersions scope"
  by (simp_all add: fenceResourceMutationTask_def trackResourceMutationTask_def Let_def split: option.splits)

lemma versions_tracked [simp]:
  "msAttemptVersions (foldl (\<lambda>scope k. trackResourceMutationTask tree (f k) scope) scope ks) = msAttemptVersions scope"
  by (rule foldl_invariant [where P = "\<lambda>s. msAttemptVersions s = msAttemptVersions scope"]) simp_all

lemma versions_begin [simp]:
  "msAttemptVersions (beginResourceMutationScopeForTasks tree ks) = versionsOf tree"
  "msAttemptVersions (beginResourceMutationScope tree k ks) = versionsOf tree"
  "msAttemptVersions (emptyResourceMutationScope tree) = versionsOf tree"
  by (simp_all add: beginResourceMutationScopeForTasks_def beginResourceMutationScope_def emptyResourceMutationScope_def versionsOf_def)

lemma versionsOf_reflects:
  assumes "reflects st tree" "dget (versionsOf tree) i = Some v"
  shows "\<exists>a. attemptAt tree i = Some a \<and> atVersion a = v"
proof -
  from assms(2) have "(i, v) \<in> set (rev (map (\<lambda>a. (atId a, atVersion a)) (dvals (trAttempts tree))))"
    unfolding versionsOf_def dget_fromEntries by (rule dget_Some_in)
  then obtain j a where "(j, a) \<in> set (trAttempts tree)" "atId a = i" "atVersion a = v" by (auto simp: dvals_def)
  with assms(1) dict_wf_dget [of "trAttempts tree" j a] show ?thesis by (auto simp: reflects_def)
qed

lemma tracked_subset:
  "set (msWriteTaskIds scope) \<subseteq> set (msWriteTaskIds (foldl (\<lambda>scope k. trackResourceMutationTask tree k scope) scope ks))"
proof -
  have "set (msWriteTaskIds s) \<subseteq> set (msWriteTaskIds (trackResourceMutationTask tree k s))" for s k
    by (auto simp: trackResourceMutationTask_def fenceResourceMutationTask_def Let_def split: option.splits)
  then show ?thesis
    by (intro foldl_invariant [where P = "\<lambda>s. set (msWriteTaskIds scope) \<subseteq> set (msWriteTaskIds s)"]) auto
qed

lemma written_exactly:
  assumes "rmap (\<lambda>r. rbind (isRunnableOnPassiveResync now tree r) (\<lambda>ready. Inr (resourceWrite now tree r ready))) rs = Inr ws"
  shows "twResource ` set ws = set rs"
proof -
  have "map twResource ws = rs"
    using assms by (induction rs arbitrary: ws) (auto simp: rbind_Inr resourceWrite_def)
  then show ?thesis by (metis set_map)
qed

lemma finishScope:
  assumes "finishResourceMutationScope now scope tree = Inr m"
  obtains W where "set (msWriteTaskIds scope) \<subseteq> W" "twResource ` set (muTasks m) = {r. \<exists>k \<in> W. taskAt tree k = Some r}"
    and "set (muAttempts m) = {a \<in> set (dvals (trAttempts tree)). atTaskId a \<in> W \<and> dget (msAttemptVersions scope) (atId a) \<noteq> Some (atVersion a)}"
    and "muDeleteTasks m = []" "muDeleteAttempts m = []" "muCancellations m = []"
proof -
  define scope' where "scope' = foldl (\<lambda>scope k. trackResourceMutationTask tree k scope) scope (msWriteTaskIds scope)"
  have v: "msAttemptVersions scope' = msAttemptVersions scope"
    unfolding scope'_def by (rule versions_tracked [where f = "\<lambda>k. k"])
  from assms obtain tasks where
    tasks: "rmap (\<lambda>r. rbind (isRunnableOnPassiveResync now tree r) (\<lambda>ready. Inr (resourceWrite now tree r ready)))
        (List.map_filter (dget (trResources tree)) (msWriteTaskIds scope')) = Inr tasks"
    and m: "muTasks m = tasks" "muDeleteTasks m = []" "muDeleteAttempts m = []" "muCancellations m = []"
      "muAttempts m = filter (\<lambda>a. atTaskId a \<in> set (msWriteTaskIds scope') \<and>
          dget (msAttemptVersions scope) (atId a) \<noteq> Some (atVersion a)) (dvals (trAttempts tree))"
    by (auto simp: finishResourceMutationScope_def Let_def rbind_Inr scope'_def [symmetric] v noMutation_def)
  have "twResource ` set (muTasks m) = {r. \<exists>k \<in> set (msWriteTaskIds scope'). taskAt tree k = Some r}"
    unfolding m(1) written_exactly [OF tasks] by (force simp: List.map_filter_def)
  moreover have "set (msWriteTaskIds scope) \<subseteq> set (msWriteTaskIds scope')" unfolding scope'_def by (rule tracked_subset)
  ultimately show ?thesis using m by (intro that) auto
qed

text \<open>Only these fields of a mutation matter to execution.\<close>

lemma retains_cong:
  assumes "muTasks m' = muTasks m" "muAttempts m' = muAttempts m" "muDeleteTasks m' = muDeleteTasks m"
    "muDeleteAttempts m' = muDeleteAttempts m" "muCancellations m' = muCancellations m"
  shows "retains st m' = retains st m"
  by (simp add: retains_def executes_def idlesTask_def startsTask_def startsAttempt_def frees_def assms)

lemma retains_update [simp]:
  "retains st (m\<lparr>muAdmissions := x\<rparr>) = retains st m" "retains st (m\<lparr>muControls := y\<rparr>) = retains st m"
  "retains st (m\<lparr>muReopen := z\<rparr>) = retains st m" "retains st (m\<lparr>muPruneConditions := z\<rparr>) = retains st m"
  by (rule retains_cong; simp)+

text \<open>
  A tree that was worked on may differ from the context it was read from in three ways: its Tasks are kept
  or idle, and no attempt of an idle Task runs on.
\<close>

definition rests :: "task_store \<Rightarrow> task_tree \<Rightarrow> task_tree \<Rightarrow> task_resource \<Rightarrow> bool" where
  "rests st tree tree' r' \<longleftrightarrow> tkPhase r' \<noteq> PhRunning \<and> tkCurrentAttemptId r' = None \<and> observes st r' \<and>
     (\<forall>r i a. readTask st (tkId r') = Some r \<longrightarrow> tkCurrentAttemptId r = Some i \<longrightarrow> readAttempt st i = Some a \<longrightarrow> atState a = ARunning \<longrightarrow>
        (\<exists>a'. attemptAt tree i = Some a \<and> attemptAt tree' i = Some a' \<and> ended a a'))"

definition works :: "task_store \<Rightarrow> task_tree \<Rightarrow> task_tree \<Rightarrow> bool" where
  "works st tree tree' \<longleftrightarrow> dict_wf (trAttempts tree') \<and>
     (\<forall>k r'. taskAt tree' k = Some r' \<longrightarrow> tkId r' = k \<and> taskAt tree k \<noteq> None \<and> (keepsTask st r' \<or> rests st tree tree' r')) \<and>
     (\<forall>i. rel_option (\<lambda>a a'. same_attempt a a' \<or> ended a a') (attemptAt tree i) (attemptAt tree' i))"

lemma works_attempt:
  assumes "reflects st tree" "works st tree tree'" "attemptAt tree' i = Some a'"
  shows "atId a' = i" "keepsAttempt st a'"
proof -
  from assms(2,3) obtain a where "attemptAt tree i = Some a" "same_attempt a a' \<or> ended a a'"
    by (auto simp: works_def option_rel_Some2 dest!: spec [of _ i])
  with assms(1) show "atId a' = i" "keepsAttempt st a'"
    by (auto simp: reflects_def same_attempt_def ended_def keepsAttempt_def)
qed

text \<open>A mutation carries a working tree: it writes its Tasks, and every attempt it ended with them.\<close>

definition carries :: "task_tree \<Rightarrow> task_tree \<Rightarrow> task_mutation \<Rightarrow> bool" where
  "carries tree tree' m \<longleftrightarrow> muDeleteTasks m = [] \<and> muDeleteAttempts m = [] \<and>
     (\<forall>w\<in>set (muTasks m). taskAt tree' (tkId (twResource w)) = Some (twResource w)) \<and>
     (\<forall>a\<in>set (muAttempts m). attemptAt tree' (atId a) = Some a) \<and>
     (\<forall>w\<in>set (muTasks m). \<forall>i a a'. attemptAt tree i = Some a \<longrightarrow> attemptAt tree' i = Some a' \<longrightarrow> ended a a' \<longrightarrow>
        atTaskId a = tkId (twResource w) \<longrightarrow> a' \<in> set (muAttempts m))"

lemma carries_idle:
  assumes ok: "execution_ok st" and refl: "reflects st tree" and c: "carries tree tree' m"
    and w: "w \<in> set (muTasks m)" "rests st tree tree' (twResource w)"
  shows "idlesTask st m (twResource w)"
proof -
  let ?r = "twResource w"
  have "(\<exists>b\<in>set (muAttempts m). atId b = i) \<and> (\<forall>b\<in>set (muAttempts m). atId b = i \<longrightarrow> atState b \<noteq> ARunning)"
    if r: "readTask st (tkId ?r) = Some r" "tkCurrentAttemptId r = Some i" and a: "readAttempt st i = Some a" "atState a = ARunning" for r i a
  proof -
    from w(2) r a obtain a' where a': "attemptAt tree i = Some a" "attemptAt tree' i = Some a'" "ended a a'"
      by (auto simp: rests_def)
    have ids: "atId a' = i" using refl a' by (auto simp: reflects_def ended_def)
    have "atTaskId a = tkId ?r" using ok r a(1) by (auto simp: execution_ok_def exec_ok_def)
    moreover from c w(1) have "\<forall>i a a'. attemptAt tree i = Some a \<longrightarrow> attemptAt tree' i = Some a' \<longrightarrow> ended a a' \<longrightarrow>
        atTaskId a = tkId ?r \<longrightarrow> a' \<in> set (muAttempts m)" by (simp add: carries_def)
    ultimately have "a' \<in> set (muAttempts m)" using a' by blast
    moreover have "b = a'" if "b \<in> set (muAttempts m)" "atId b = i" for b using c that a'(2) by (auto simp: carries_def)
    moreover have "atState a' \<noteq> ARunning" using a'(3) by (simp add: ended_def)
    ultimately show ?thesis using ids by blast
  qed
  then have "frees st m (tkId ?r)" unfolding frees_def by blast
  then show ?thesis using w(2) by (simp add: idlesTask_def rests_def)
qed

lemma carries_retains:
  assumes ok: "execution_ok st" and refl: "reflects st tree" and works: "works st tree tree'" and c: "carries tree tree' m"
    and cancel: "\<And>ca. ca \<in> set (muCancellations m) \<Longrightarrow> (\<exists>w\<in>set (muTasks m). tkId (twResource w) = caTaskId ca) \<and>
      (\<forall>w\<in>set (muTasks m). tkId (twResource w) = caTaskId ca \<longrightarrow> tkCurrentAttemptId (twResource w) = None)"
  shows "retains st m"
proof -
  have "keepsTask st (twResource w) \<or> idlesTask st m (twResource w)" if w: "w \<in> set (muTasks m)" for w
    using carries_idle [OF ok refl c w] c w works by (auto simp: carries_def works_def)
  moreover have "keepsAttempt st a" if "a \<in> set (muAttempts m)" for a
    using works_attempt(2) [OF refl works] c that by (auto simp: carries_def)
  ultimately show ?thesis using c cancel unfolding retains_def executes_def carries_def by blast
qed

lemma finish_carries:
  assumes refl: "reflects st tree" and works: "works st tree tree'"
    and fin: "finishResourceMutationScope now scope tree' = Inr m" and v: "msAttemptVersions scope = versionsOf tree"
  shows "carries tree tree' m"
proof -
  obtain W where tasks: "twResource ` set (muTasks m) = {r. \<exists>k \<in> W. taskAt tree' k = Some r}"
    and attempts: "set (muAttempts m) = {a \<in> set (dvals (trAttempts tree')). atTaskId a \<in> W \<and> dget (versionsOf tree) (atId a) \<noteq> Some (atVersion a)}"
    and none: "muDeleteTasks m = []" "muDeleteAttempts m = []"
    using fin by (rule finishScope) (simp only: v)
  have task: "\<exists>k \<in> W. taskAt tree' k = Some (twResource w) \<and> tkId (twResource w) = k" if "w \<in> set (muTasks m)" for w
  proof -
    from that have "twResource w \<in> {r. \<exists>k \<in> W. taskAt tree' k = Some r}" unfolding tasks [symmetric] by simp
    then show ?thesis using works by (auto simp: works_def)
  qed
  have "attemptAt tree' (atId a) = Some a" if "a \<in> set (muAttempts m)" for a
  proof -
    from that obtain j where j: "(j, a) \<in> set (trAttempts tree')" by (auto simp: attempts dvals_def)
    with works have "attemptAt tree' j = Some a" by (auto simp: works_def dict_wf_dget)
    with works_attempt(1) [OF refl works this] show ?thesis by simp
  qed
  moreover have "a' \<in> set (muAttempts m)"
    if w: "w \<in> set (muTasks m)" and a: "attemptAt tree i = Some a" "attemptAt tree' i = Some a'" "ended a a'" "atTaskId a = tkId (twResource w)" for w i a a'
  proof -
    have "atId a = i" using refl a(1) by (simp add: reflects_def)
    moreover have "dget (versionsOf tree) i \<noteq> Some (atVersion a')"
      using versionsOf_reflects [OF refl, of i "atVersion a'"] a by (auto simp: ended_def)
    moreover have "a' \<in> set (dvals (trAttempts tree'))" using dget_Some_in [OF a(2)] by (force simp: dvals_def)
    ultimately show ?thesis using a task [OF w] by (auto simp: attempts ended_def)
  qed
  ultimately show ?thesis using none task unfolding carries_def by blast
qed

lemma works_retains:
  assumes "execution_ok st" "reflects st tree" "works st tree tree'"
    and "finishResourceMutationScope now scope tree' = Inr m" "msAttemptVersions scope = versionsOf tree"
  shows "retains st m"
proof (rule carries_retains [OF assms(1-3) finish_carries [OF assms(2-5)]])
  fix ca assume "ca \<in> set (muCancellations m)"
  moreover have "muCancellations m = []" using assms(4) by (rule finishScope)
  ultimately show "(\<exists>w\<in>set (muTasks m). tkId (twResource w) = caTaskId ca) \<and>
      (\<forall>w\<in>set (muTasks m). tkId (twResource w) = caTaskId ca \<longrightarrow> tkCurrentAttemptId (twResource w) = None)" by simp
qed

section \<open>Steps of a working tree\<close>

lemma works_refl: "reflects st tree \<Longrightarrow> works st tree tree"
  by (auto simp: works_def reflects_def keepsTask_def option.rel_refl)

lemma rests_later:
  assumes "rests st tree t1 r1" "same_task r1 r2" "\<And>i a1. attemptAt t1 i = Some a1 \<Longrightarrow> \<exists>a2. attemptAt t2 i = Some a2 \<and> same_attempt a1 a2"
  shows "rests st tree t2 r2"
  unfolding rests_def
proof (intro conjI allI impI)
  show "tkPhase r2 \<noteq> PhRunning" "tkCurrentAttemptId r2 = None" "observes st r2"
    using assms(1,2) by (auto simp: rests_def same_task_def observes_def)
  fix r i a
  assume "readTask st (tkId r2) = Some r" "tkCurrentAttemptId r = Some i" "readAttempt st i = Some a" "atState a = ARunning"
  with assms(1,2) obtain a1 where a1: "attemptAt tree i = Some a" "attemptAt t1 i = Some a1" "ended a a1"
    by (auto simp: rests_def same_task_def)
  from assms(3) [OF a1(2)] obtain a2 where "attemptAt t2 i = Some a2" "same_attempt a1 a2" by blast
  with a1 show "\<exists>a'. attemptAt tree i = Some a \<and> attemptAt t2 i = Some a' \<and> ended a a'"
    by (auto simp: ended_def same_attempt_def)
qed

lemma rests_frame: "trAttempts t2 = trAttempts t1 \<Longrightarrow> rests st tree t2 r = rests st tree t1 r"
  by (simp add: rests_def)

lemma works_moves:
  assumes "works st tree t1" "moves K I t1 t2"
  shows "works st tree t2"
proof -
  have "tkId r2 = k \<and> taskAt tree k \<noteq> None \<and> (keepsTask st r2 \<or> rests st tree t2 r2)" if r2: "taskAt t2 k = Some r2" for k r2
  proof -
    from assms(2) r2 obtain r1 where r1: "taskAt t1 k = Some r1" "same_task r1 r2"
      by (auto simp: moves_def option_rel_Some2 dest!: spec [of _ k])
    with assms(1) have w: "tkId r1 = k" "taskAt tree k \<noteq> None" "keepsTask st r1 \<or> rests st tree t1 r1" by (auto simp: works_def)
    have "keepsTask st r1 \<Longrightarrow> keepsTask st r2"
      using r1(2) by (auto simp: keepsTask_def same_task_def intro: same_task_trans)
    moreover have "rests st tree t1 r1 \<Longrightarrow> rests st tree t2 r2"
      by (rule rests_later [OF _ r1(2)]) (auto elim: moves_attempt [OF assms(2)])
    ultimately show ?thesis using w r1(2) by (auto simp: same_task_def)
  qed
  moreover have "rel_option (\<lambda>a a'. same_attempt a a' \<or> ended a a') (attemptAt tree i) (attemptAt t2 i)" for i
  proof -
    have "rel_option (\<lambda>a a'. same_attempt a a' \<or> ended a a') (attemptAt tree i) (attemptAt t1 i)"
      "rel_option same_attempt (attemptAt t1 i) (attemptAt t2 i)" using assms by (simp_all add: works_def moves_def)
    then show ?thesis
      by (cases "attemptAt tree i"; cases "attemptAt t1 i"; cases "attemptAt t2 i") (auto simp: same_attempt_def ended_def)
  qed
  ultimately show ?thesis using assms by (auto simp: works_def moves_def)
qed

lemma works_settles:
  assumes ok: "execution_ok st" and refl: "reflects st tree" and s: "settles K t i tree tree'"
    and r: "taskAt tree t = Some r" "tkCurrentAttemptId r = Some i"
  shows "works st tree tree'"
proof -
  from s r(1) obtain r' a a' where r': "taskAt tree' t = Some r'" "released i r r'"
    and a: "attemptAt tree i = Some a" "attemptAt tree' i = Some a'" "ended a a'" by (auto simp: settles_def)
  have st: "readTask st t = Some r" "tkId r = t" "readAttempt st i = Some a" using refl r a(1) by (auto simp: reflects_def)
  have task: "atTaskId a = t" using ok st r(2) by (auto simp: execution_ok_def exec_ok_def)
  have "rests st tree tree' r'"
    using r'(2) st a r(2) task by (auto simp: rests_def released_def observes_def)
  moreover have "keepsTask st r2 \<and> tkId r2 = k \<and> taskAt tree k \<noteq> None" if "taskAt tree' k = Some r2" "k \<noteq> t" for k r2
    using that s refl by (auto simp: settles_def option_rel_Some2 reflects_def keepsTask_def same_task_def dest!: spec [of _ k])
  ultimately have "tkId r2 = k \<and> taskAt tree k \<noteq> None \<and> (keepsTask st r2 \<or> rests st tree tree' r2)" if "taskAt tree' k = Some r2" for k r2
    using that r'(1) r'(2) st(2) r(1) by (cases "k = t") (auto simp: released_def)
  moreover have "rel_option (\<lambda>a a'. same_attempt a a' \<or> ended a a') (attemptAt tree j) (attemptAt tree' j)" for j
    using s a by (cases "j = i") (auto simp: settles_def option.rel_refl)
  ultimately show ?thesis using s refl by (auto simp: works_def settles_def reflects_def)
qed

text \<open>A Task whose attempt does not run is idle without further ado.\<close>

lemma works_idle:
  assumes ok: "execution_ok st" and refl: "reflects st tree" "reflects_current st tree" and w: "works st tree t1"
    and r1: "taskAt t1 k = Some r1" "\<And>i a. tkCurrentAttemptId r1 = Some i \<Longrightarrow> attemptAt t1 i = Some a \<Longrightarrow> atState a \<noteq> ARunning"
    and f: "tkId (f r1) = tkId r1" "tkPhase (f r1) \<noteq> PhRunning" "tkCurrentAttemptId (f r1) = None"
      "tkObservedAttemptId (f r1) \<in> {None, tkObservedAttemptId r1}"
  shows "works st tree (updResource k f t1)"
proof -
  let ?t = "updResource k f t1"
  from w r1(1) have k: "tkId r1 = k" "taskAt tree k \<noteq> None" and kr: "keepsTask st r1 \<or> rests st tree t1 r1" by (auto simp: works_def)
  have "rests st tree ?t (f r1)"
  proof (cases "rests st tree t1 r1")
    case True
    with f show ?thesis by (auto simp: rests_def observes_def)
  next
    case False
    with kr k obtain r where r: "readTask st k = Some r" "same_task r r1" by (auto simp: keepsTask_def)
    from k(2) refl(1) r(1) have tr: "taskAt tree k = Some r" by (auto simp: reflects_def)
    have "\<exists>a'. attemptAt tree i = Some a \<and> attemptAt t1 i = Some a' \<and> ended a a'"
      if i: "tkCurrentAttemptId r = Some i" "readAttempt st i = Some a" "atState a = ARunning" for i a
    proof -
      have a: "attemptAt tree i = Some a" using refl(2) tr i by (auto simp: reflects_current_def)
      with w obtain a1 where a1: "attemptAt t1 i = Some a1" "same_attempt a a1 \<or> ended a a1"
        by (auto simp: works_def option_rel_Some1 dest!: spec [of _ i])
      with r1(2) [of i a1] r(2) i show ?thesis using a by (auto simp: same_task_def same_attempt_def)
    qed
    moreover have "observes st (f r1)" using f(1,4) r k(1) by (auto simp: observes_def same_task_def)
    ultimately show ?thesis using f r k(1) by (auto simp: rests_def)
  qed
  then show ?thesis using w k f(1) r1(1)
    by (auto simp: works_def taskAt_updResource rests_frame [of ?t t1] split: if_splits)
qed

end
