(* ===== verification/Execution_Operations.thy ===== *)
theory Execution_Operations
  imports Execution_Store Admission_Properties
begin

text \<open>
  Every operation of the reconciler respects execution: what it commits keeps the Tasks' attempts, takes
  a Task from its attempt, or starts a Task on a new one. One lemma per operation; the claim is treated in
  \<open>Execution_Claims\<close>.
\<close>

inductive exec_step :: "task_store \<Rightarrow> task_store \<Rightarrow> bool" where
  commits: "retains st m \<Longrightarrow> commitTaskMutation now m st = Inr st' \<Longrightarrow> exec_step st st'"
| starts: "executes st m \<Longrightarrow> muTasks m = [w] \<Longrightarrow> startsTask st m (twResource w) (atId a) \<Longrightarrow> atState a = ARunning \<Longrightarrow>
    a \<in> set (muAttempts m) \<Longrightarrow> \<forall>b\<in>set (muAttempts m). atId b = atId a \<longrightarrow> b = a \<Longrightarrow>
    commitTaskMutation now m st = Inr st' \<Longrightarrow> exec_step st st'"
| indexes: "exec_step st (snd (setRecoveryState now k u st))"
| wakes: "persistExactTaskWake event target i t st = Inr st' \<Longrightarrow> exec_step st st'"

lemma exec_commits: "retains st m \<Longrightarrow> commitTaskMutation now m st = Inr st' \<Longrightarrow> exec_step\<^sup>*\<^sup>* st st'"
  by (blast intro: exec_step.commits)

section \<open>Contexts\<close>

definition context_ok :: "task_store \<Rightarrow> task_tree \<Rightarrow> bool" where
  "context_ok st tree \<longleftrightarrow> execution_ok st \<and> reflects st tree \<and> reflects_current st tree"

lemma context_okI: "execution_ok st \<Longrightarrow> readTaskContext st sc True limit = Inr tree \<Longrightarrow> context_ok st tree"
  by (simp add: context_ok_def context_reflects context_current)

lemma context_settled: "context_ok st tree \<Longrightarrow> settled_tree tree"
  using exec_parts(1) [of "readTask st" "readAttempt st"]
  by (fastforce simp: context_ok_def settled_tree_def reflects_def execution_ok_def)

lemma context_filed: "context_ok st tree \<Longrightarrow> taskAt tree k = Some r \<Longrightarrow> tkId r = k"
  by (simp add: context_ok_def reflects_def)

lemma context_named: "context_ok st tree \<Longrightarrow> attemptAt tree i = Some a \<Longrightarrow> i \<noteq> [] \<and> atId a = i"
  by (auto simp: context_ok_def reflects_def execution_ok_def attempts_filed_def)

lemma context_works: "context_ok st tree \<Longrightarrow> works st tree tree"
  by (simp add: context_ok_def works_refl)

lemma context_unfinished:
  assumes "context_ok st tree" "taskAt tree k = Some r" "tkCurrentAttemptId r = Some i" "attemptAt tree i = None"
  shows "readAttempt st i = None"
  using assms by (cases "readAttempt st i") (auto simp: context_ok_def reflects_current_def)

lemma scoped_step:
  assumes "context_ok st tree" "works st tree tree'" "finishResourceMutationScope now scope tree' = Inr m"
    and "msAttemptVersions scope = versionsOf tree"
  shows "retains st m"
  using assms by (auto simp: context_ok_def intro: works_retains)

lemma scoped_commit:
  assumes "context_ok st tree" "works st tree tree'" "finishResourceMutationScope now scope tree' = Inr m"
    and "msAttemptVersions scope = versionsOf tree"
    and "commitTaskMutation now m st = Inr st' \<or> commitTaskMutation now (m\<lparr>muAdmissions := ads\<rparr>) st = Inr st' \<or>
      commitTaskMutation now (m\<lparr>muControls := cts\<rparr>) st = Inr st' \<or> commitTaskMutation now (m\<lparr>muReopen := ks, muControls := cts\<rparr>) st = Inr st'"
  shows "exec_step\<^sup>*\<^sup>* st st'"
proof -
  have "retains st m" using assms(1-4) by (rule scoped_step)
  then have "retains st (m\<lparr>muAdmissions := ads\<rparr>)" "retains st (m\<lparr>muControls := cts\<rparr>)" "retains st (m\<lparr>muReopen := ks, muControls := cts\<rparr>)"
    by simp_all
  with \<open>retains st m\<close> assms(5) show ?thesis by (blast intro: exec_commits)
qed

lemma settles_works:
  assumes "context_ok st tree" "settles K t i tree tree'" "taskAt tree t = Some r" "tkCurrentAttemptId r = Some i"
  shows "works st tree tree'"
  using assms by (auto simp: context_ok_def intro: works_settles)

text \<open>A Task that does not run names no attempt, in a working tree too.\<close>

lemma works_quiet:
  assumes "context_ok st tree" "works st tree t1" "taskAt t1 k = Some r1" "tkPhase r1 \<noteq> PhRunning"
  shows "tkCurrentAttemptId r1 = None"
proof -
  from assms(2,3) consider r where "readTask st (tkId r1) = Some r" "same_task r r1" | "rests st tree t1 r1"
    by (auto simp: works_def keepsTask_def)
  then show ?thesis
  proof cases
    case (1 r)
    with assms(1,4) show ?thesis by (auto simp: context_ok_def execution_ok_def exec_ok_def same_task_def)
  qed (simp add: rests_def)
qed

lemma idle_works:
  assumes "context_ok st tree" "works st tree t1" "taskAt t1 k = Some r1" "tkPhase r1 \<noteq> PhRunning"
    and "tkId (f r1) = tkId r1" "tkPhase (f r1) \<noteq> PhRunning" "tkCurrentAttemptId (f r1) = None"
      "tkObservedAttemptId (f r1) \<in> {None, tkObservedAttemptId r1}"
  shows "works st tree (updResource k f t1)"
  using assms(1) works_quiet [OF assms(1-4)] assms(5-8)
  by (intro works_idle [OF _ _ _ assms(2,3), where f = f]) (simp_all add: context_ok_def)

section \<open>Matching the claim\<close>

lemma claimAttempt_Some:
  assumes "claimAttempt tree claim = Some (r, a)"
  shows "taskAt tree (acTaskId claim) = Some r" "tkCurrentAttemptId r = Some (acAttemptId claim)"
    "attemptAt tree (acAttemptId claim) = Some a" "atState a = ARunning"
  using assms by (auto simp: claimAttempt_def matchingClaimAttempt_def split: option.splits if_splits)

lemma matching_claim: "matchingTaskAttempt tree claim = Some x \<Longrightarrow> claimAttempt tree claim = Some x"
  by (simp add: matchingTaskAttempt_def split: if_splits)

text \<open>Settling the claim: an operation moves the tree, finishes the attempt, and rests the Task.\<close>

lemma claim_settles:
  assumes ctx: "context_ok st tree" and claim: "claimAttempt tree claim = Some (r, a)"
    and m1: "moves K {acAttemptId claim} tree t1" and K: "acTaskId claim \<in> K" and state: "state \<noteq> ARunning"
    and m2: "moves K {acAttemptId claim} (finishAttempt (acTaskId claim) state summary now t1) t2"
    and f: "releasing (acAttemptId claim) f"
    and m3: "moves K {acAttemptId claim} (updResource (acTaskId claim) (touchResource now f) t2) t3"
  shows "works st tree t3"
proof -
  note c = claimAttempt_Some [OF claim]
  have i: "acAttemptId claim \<noteq> []" using context_named [OF ctx c(3)] by simp
  from settles_moves [OF settles_finish [OF m1 K c(1,2) i c(3) state m2 f] m3] show ?thesis
    by (rule settles_works [OF ctx _ c(1,2)])
qed

section \<open>Attempts while they run\<close>

lemma same_nextVersion: "same_attempt a (nextVersion a)"
  by (simp add: same_attempt_def nextVersion_def)

lemma attempt_retains:
  assumes "readAttempt st (atId a') = Some a" "same_attempt a a'"
  shows "retains st (noMutation\<lparr>muFences := fs, muAttempts := [a']\<rparr>)"
  using assms by (auto simp: retains_def executes_def noMutation_def keepsAttempt_def same_attempt_def)

lemma commitAttempt_step:
  assumes "commitAttempt now fence a' st = Inr st'" "readAttempt st (atId a') = Some a" "same_attempt a a'"
  shows "exec_step\<^sup>*\<^sup>* st st'"
  using assms unfolding commitAttempt_def by (auto intro: exec_commits attempt_retains)

lemma lease_frame [simp]:
  "atId (refreshAttemptLease l s n now a) = atId a" "atTaskId (refreshAttemptLease l s n now a) = atTaskId a"
  "atState (refreshAttemptLease l s n now a) = atState a" "atVersion (refreshAttemptLease l s n now a) = atVersion a"
  by (simp_all add: refreshAttemptLease_def Let_def)

lemma claim_stored:
  assumes "context_ok st tree" "claimAttempt tree claim = Some (r, a)"
  shows "readAttempt st (acAttemptId claim) = Some a" "atId a = acAttemptId claim"
  using assms(1) claimAttempt_Some(3) [OF assms(2)] by (auto simp: context_ok_def reflects_def)

lemma renew_exec:
  assumes "execution_ok st" "renewAppTaskAttemptLease now l claim t st = Inr (b, st')"
  shows "exec_step\<^sup>*\<^sup>* st st'"
proof -
  from assms(2) obtain tree where tree: "readTaskContext st (taskScope [acTaskId claim]) True None = Inr tree"
    by (auto simp: renewAppTaskAttemptLease_def rbind_Inr)
  show ?thesis
  proof (cases "claimAttempt tree claim")
    case (Some x)
    then obtain r a where c: "claimAttempt tree claim = Some (r, a)" by (cases x) simp
    note claim_stored [OF context_okI [OF assms(1) tree] c]
    with assms(2) tree c show ?thesis
      by (auto simp: renewAppTaskAttemptLease_def rbind_Inr same_attempt_def nextVersion_def intro: commitAttempt_step)
  qed (use assms(2) tree in \<open>auto simp: renewAppTaskAttemptLease_def\<close>)
qed

lemma withSession_same: "same_attempt a (withSession l s now a)" "atId (withSession l s now a) = atId a"
  by (simp_all add: same_attempt_def withSession_def nextVersion_def)

lemma session_exec:
  assumes "execution_ok st" "recordAppTaskAttemptSession now l claim s st = Inr (b, st')"
  shows "exec_step\<^sup>*\<^sup>* st st'"
proof -
  from assms(2) obtain tree where tree: "readTaskContext st (taskScope [acTaskId claim]) True None = Inr tree"
    by (auto simp: recordAppTaskAttemptSession_def rbind_Inr)
  show ?thesis
  proof (cases "claimAttempt tree claim")
    case (Some x)
    then obtain r a where c: "claimAttempt tree claim = Some (r, a)" by (cases x) simp
    note claim_stored [OF context_okI [OF assms(1) tree] c]
    with assms(2) tree c show ?thesis
      by (auto simp: recordAppTaskAttemptSession_def rbind_Inr withSession_same split: if_splits intro: commitAttempt_step)
  qed (use assms(2) tree in \<open>auto simp: recordAppTaskAttemptSession_def\<close>)
qed

lemma associate_exec:
  assumes "execution_ok st" "associateAppTaskSession now l binding s st = Inr (b, st')"
  shows "exec_step\<^sup>*\<^sup>* st st'"
proof -
  from assms(2) obtain tree where tree: "readTaskContext st (taskScope [sbTaskId binding]) True None = Inr tree"
    by (auto simp: associateAppTaskSession_def rbind_Inr)
  have "readAttempt st (atId a) = Some a" if "boundAttempt binding tree r = Some a" for r a
    using that context_okI [OF assms(1) tree]
    by (auto simp: boundAttempt_def context_ok_def reflects_def split: if_splits option.splits Option.bind_splits)
  with assms(2) tree show ?thesis
    by (auto simp: associateAppTaskSession_def rbind_Inr withSession_same split: if_splits option.splits intro: commitAttempt_step)
qed

lemma releasedWorkspace_exec:
  assumes "execution_ok st" "recordReleasedAppTaskWorkspace now claim w st = Inr st'"
  shows "exec_step\<^sup>*\<^sup>* st st'"
proof -
  have "atId a = i" if "readAttempt st i = Some a" for i a using assms(1) that by (auto simp: execution_ok_def attempts_filed_def)
  note filed = this
  show ?thesis
  proof (cases "readAttempt st (acAttemptId claim)")
    case (Some a)
    have "st' = st \<or> (\<exists>fence. commitAttempt now fence ((nextVersion a)\<lparr>atWorkspace := Some w\<rparr>) st = Inr st')"
      using assms(2) Some by (auto simp: recordReleasedAppTaskWorkspace_def rbind_Inr split: if_splits option.splits)
    with Some filed [OF Some] show ?thesis by (auto simp: same_attempt_def nextVersion_def intro: commitAttempt_step)
  qed (use assms(2) in \<open>auto simp: recordReleasedAppTaskWorkspace_def rbind_Inr split: option.splits\<close>)
qed

lemma workspace_exec:
  assumes "execution_ok st" "recordAppTaskAttemptWorkspace now claim w st = Inr (b, st')"
  shows "exec_step\<^sup>*\<^sup>* st st'"
proof -
  from assms(2) obtain tree where tree: "readTaskContext st (taskScope [acTaskId claim]) True None = Inr tree"
    by (auto simp: recordAppTaskAttemptWorkspace_def rbind_Inr)
  note ctx = context_okI [OF assms(1) tree]
  let ?t = "updResource (acTaskId claim) (touchResource now (\<lambda>r. r\<lparr>tkWorkspaceAttemptId := Some (acAttemptId claim)\<rparr>))
      (updAttempt (acAttemptId claim) (\<lambda>a. (nextVersion a)\<lparr>atWorkspace := Some w\<rparr>) tree)"
  have "moves {acTaskId claim} {acAttemptId claim} tree ?t"
    by (rule moves_trans [OF moves_updAttempt moves_updResource]) (simp_all add: same_attempt_def nextVersion_def same_task_touch)
  note scoped_commit [OF ctx works_moves [OF context_works [OF ctx] this]]
  then show ?thesis using assms(2) tree
    by (auto simp: recordAppTaskAttemptWorkspace_def rbind_Inr Let_def split: if_splits)
qed

section \<open>Settling\<close>

lemma same_attempt_fields [simp]:
  "same_attempt a (a\<lparr>atRetryExhausted := x\<rparr>)" "same_attempt a (a\<lparr>atAcceptedResult := y\<rparr>)"
  "same_attempt a (a\<lparr>atWorkspace := z\<rparr>)" "same_attempt a (a\<lparr>atFailureReason := w\<rparr>)" "same_attempt a (failedAttempt d a)"
  "same_attempt a (nextVersion a)" "same_attempt a ((nextVersion a)\<lparr>atFailureReason := w\<rparr>)"
  by (simp_all add: same_attempt_def failedAttempt_def nextVersion_def)

lemma failedExecution_frame [simp]:
  "tkId (failedExecutionState cx st r0 a now r) = tkId r" "tkPhase (failedExecutionState cx st r0 a now r) \<noteq> PhRunning"
  "tkObservedAttemptId (failedExecutionState cx st r0 a now r) = tkObservedAttemptId r"
  by (simp_all add: failedExecutionState_def Let_def)

lemma releasing_results:
  "releasing i (failedResource claim summary d (failedExecutionState cx st r a now))"
  "releasing (acAttemptId claim) (reportedResource claim summary input (failedExecutionState cx st r a now))"
  "releasing (acAttemptId claim) (completedResource claim ri w)"
  "releasing (acAttemptId claim) (deferredResource claim ri t w)"
  by (auto simp: releasing_def failedResource_def reportedResource_def completedResource_def deferredResource_def
      observedResult_def Let_def)

lemma inputOutcome_attempts:
  "inputOutcomeAdmissions st cf input kind tree = Inr (keys, writes, tree') \<Longrightarrow> trAttempts tree' = trAttempts tree"
  by (auto simp: inputOutcomeAdmissions_def rbind_Inr Let_def)

lemma versionsOf_cong: "trAttempts tree' = trAttempts tree \<Longrightarrow> versionsOf tree' = versionsOf tree"
  by (simp add: versionsOf_def)

lemma claimRef_task [simp]: "cfTaskId (claimRef claim) = acTaskId claim"
  by (simp add: claimRef_def)

lemma fail_exec:
  assumes ok: "execution_ok st" and run: "failAppTaskAttempt cx now claim failure d st = Inr (res, st')"
  shows "exec_step\<^sup>*\<^sup>* st st'"
proof -
  from run obtain tree where tree: "readTaskContext st (taskScope [acTaskId claim]) True None = Inr tree"
    by (auto simp: failAppTaskAttempt_def rbind_Inr)
  note ctx = context_okI [OF ok tree]
  show ?thesis
  proof (cases "claimAttempt tree claim")
    case (Some x)
    then obtain r a where c: "claimAttempt tree claim = Some (r, a)" by (cases x) simp
    let ?mark = "failureMark cx st r a now"
    let ?t1 = "updAttempt (acAttemptId claim) (\<lambda>a. a\<lparr>atRetryExhausted := ?mark\<rparr>) tree"
    let ?K = "{acTaskId claim}" and ?I = "{acAttemptId claim}"
    from run tree c obtain keys writes t2 m summary where
      t2: "inputOutcomeAdmissions st (claimRef claim) (blankResult\<lparr>riReport := (?mark \<noteq> None)\<rparr>) (KFeedback RFailure) ?t1 = Inr (keys, writes, t2)"
      and m: "finishResourceMutationScope now (beginResourceMutationScope tree (acTaskId claim) [])
        (updResource (acTaskId claim) (touchResource now (failedResource claim summary d (failedExecutionState cx st r a now)))
          (updAttempt (acAttemptId claim) (failedAttempt d)
            (finishAttempt (acTaskId claim) AFailed failure now (snd (restoreAttemptEvents t2 (acTaskId claim) r a now))))) = Inr m"
      and st': "commitTaskMutation now (m\<lparr>muAdmissions := writes\<rparr>) st = Inr st'"
      by (auto simp: failAppTaskAttempt_def rbind_Inr Let_def split: prod.splits)
    have "moves ?K ?I tree t2"
      by (rule moves_trans [OF moves_updAttempt moves_inputOutcome [OF t2]]) simp_all
    then have "moves ?K ?I tree (snd (restoreAttemptEvents t2 (acTaskId claim) r a now))"
      by (rule moves_trans [OF _ moves_frame]) simp_all
    from claim_settles [OF ctx c this _ _ moves_updAttempt releasing_results(1) moves_refl, where state = AFailed and f3 = "failedAttempt d"]
    show ?thesis using m st' by (intro scoped_commit [OF ctx _ m]) auto
  qed (use run tree in \<open>auto simp: failAppTaskAttempt_def\<close>)
qed

lemma same_task_keys: "same_task r (foldl (retainPending st g) r keys)"
  by (rule same_task_foldl) (simp add: retainPending_def same_task_retain)

lemma moves_accept: "acAttemptId claim \<in> I \<Longrightarrow> moves K I tree (acceptResult claim accepted tree)"
  unfolding acceptResult_def by (rule moves_updAttempt) simp_all

lemma report_exec:
  assumes ok: "execution_ok st" and run: "reportAppTaskFailure cx now claim input st = Inr (res, st')"
  shows "exec_step\<^sup>*\<^sup>* st st'"
proof -
  from run obtain tree where tree: "readTaskContext st (taskScope [acTaskId claim]) True None = Inr tree"
    by (auto simp: reportAppTaskFailure_def rbind_Inr)
  note ctx = context_okI [OF ok tree]
  show ?thesis
  proof (cases "matchingTaskAttempt tree claim")
    case (Some x)
    then obtain r a where match: "matchingTaskAttempt tree claim = Some (r, a)" by (cases x) simp
    note c = matching_claim [OF match]
    let ?mark = "failureMark cx st r a now"
    let ?t1 = "updAttempt (acAttemptId claim) (\<lambda>a. a\<lparr>atRetryExhausted := ?mark\<rparr>) tree"
    let ?K = "{acTaskId claim}" and ?I = "{acAttemptId claim}"
    from run tree match obtain keys writes t2 m summary accepted ids iks where
      t2: "inputOutcomeAdmissions st (claimRef claim) (input\<lparr>riReport := (riReport input \<or> ?mark \<noteq> None)\<rparr>) (KFeedback RFailure) ?t1 = Inr (keys, writes, t2)"
      and m: "finishResourceMutationScope now (beginResourceMutationScope tree (acTaskId claim) [])
        (updResource (acTaskId claim) (touchResource now (reportedResource claim summary input (failedExecutionState cx st r a now)))
          (finishAttempt (acTaskId claim) ACompleted summary now (consumeSettledTaskEvents (acTaskId claim) (acAgent claim) ids iks
            (updResource (acTaskId claim) (\<lambda>r. foldl (retainPending st (acGeneration claim)) r keys) (acceptResult claim accepted t2))))) = Inr m"
      and st': "commitTaskMutation now (m\<lparr>muAdmissions := writes\<rparr>) st = Inr st'"
      by (auto simp: reportAppTaskFailure_def rbind_Inr Let_def split: prod.splits)
    have "moves ?K ?I tree t2"
      by (rule moves_trans [OF moves_updAttempt moves_inputOutcome [OF t2]]) simp_all
    then have "moves ?K ?I tree (consumeSettledTaskEvents (acTaskId claim) (acAgent claim) ids iks
        (updResource (acTaskId claim) (\<lambda>r. foldl (retainPending st (acGeneration claim)) r keys) (acceptResult claim accepted t2)))"
      by (rule moves_trans [OF moves_trans [OF moves_trans [OF _ moves_accept] moves_updResource] moves_frame])
        (simp_all add: same_task_keys)
    from claim_settles [OF ctx c this _ _ moves_refl releasing_results(2) moves_refl, where state = ACompleted]
    show ?thesis using m st' by (intro scoped_commit [OF ctx _ m]) auto
  qed (use run tree in \<open>auto simp: reportAppTaskFailure_def\<close>)
qed

lemma moves_settleWorkspace: "acAttemptId claim \<in> I \<Longrightarrow> moves K I tree (settleWorkspace claim w tree)"
  by (auto simp: settleWorkspace_def Let_def split: option.splits intro!: moves_updAttempt)

lemma settled_filed: "settled_tree tree \<Longrightarrow> taskAt tree k = Some r \<Longrightarrow> tkId r = k"
  by (simp add: settled_tree_def)

lemma moves_unlinked:
  assumes "settled_tree tree" "moves K I tree t" "k \<in> K"
  shows "moves K I tree (unlinkSatisfiedTaskConditions now k t)"
  by (rule moves_trans [OF assms(2) moves_unlinkSatisfied [OF assms(3) settled_filed [OF settled_tree_moves [OF assms(1,2)]]]])

text \<open>The tree with the accepted result, up to the end of the attempt.\<close>

lemma moves_answered:
  assumes "moves K {acAttemptId claim} tree t" "settled_tree tree" "acTaskId claim \<in> K"
  obtains t1 where "moves K {acAttemptId claim} tree t1"
    "answeredTree claim input keys now t = finishAttempt (acTaskId claim) ACompleted (riSummary (siResult input)) now t1"
proof -
  let ?acc = "acceptedAttemptResult t (acTaskId claim) RConverged ((siResult input)\<lparr>riReviewAt := None, riInputKeys := Some keys\<rparr>)
      (case siAcceptanceBasis input of Some b \<Rightarrow> b | None \<Rightarrow> defaultTaskAcceptance claim (listOr (riFacts (siResult input))))"
  let ?t = "consumeSettledTaskEvents (acTaskId claim) (acAgent claim) (arAcceptedLiveEventIds ?acc) (arInputKeys ?acc) (acceptResult claim ?acc t)"
  have m: "moves K {acAttemptId claim} tree ?t"
    using assms(1) by (rule moves_trans [OF moves_trans [OF _ moves_accept] moves_frame]) simp_all
  have "moves K {acAttemptId claim} tree (unlinkSatisfiedTaskConditions now (acTaskId claim) ?t)"
    by (rule moves_unlinked [OF assms(2) m assms(3)])
  then show ?thesis by (rule that) (simp add: answeredTree_def Let_def)
qed

lemma complete_exec:
  assumes ok: "execution_ok st" and run: "completeAppTask now claim input st = Inr (res, st')"
  shows "exec_step\<^sup>*\<^sup>* st st'"
proof -
  from run obtain tree where tree: "readTaskContext st (actionScope claim (siActions input) []) True None = Inr tree"
    by (auto simp: completeAppTask_def rbind_Inr)
  note ctx = context_okI [OF ok tree]
  show ?thesis
  proof (cases "matchingTaskAttempt tree claim")
    case (Some x)
    then obtain r a where match: "matchingTaskAttempt tree claim = Some (r, a)" by (cases x) simp
    let ?K = "insert (acTaskId claim) (set (unblockedTasks (siActions input)))" and ?I = "{acAttemptId claim}"
    from run tree match obtain keys writes t1 t2 applied w ds m where
      t1: "inputOutcomeAdmissions st (claimRef claim) (siResult input) KAnswer tree = Inr (keys, writes, t1)"
      and t2: "applyTaskActions st claim now (siActions input) t1 = Inr (t2, applied)"
      and m: "finishResourceMutationScope now (foldl (\<lambda>scope k. trackResourceMutationTask (answeredTree claim input keys now t2) k scope)
          (beginResourceMutationScope t1 (acTaskId claim) (unblockedTasks (siActions input))) ds)
        (settleWorkspace claim (siWorkspace input) (updResource (acTaskId claim) (touchResource now (completedResource claim (siResult input) w))
          (answeredTree claim input keys now t2))) = Inr m"
      and st': "commitTaskMutation now (m\<lparr>muAdmissions := writes\<rparr>) st = Inr st'"
      by (auto simp: completeAppTask_def rbind_Inr Let_def split: prod.splits)
    have settled: "settled_tree tree" using ctx by (rule context_settled)
    have m1: "moves ?K ?I tree t1" by (rule moves_inputOutcome [OF t1]) simp
    have m2: "moves ?K ?I tree t2"
      by (rule moves_trans [OF m1 moves_actions [OF t2 settled_tree_moves [OF settled m1]]])
    obtain t3 where m3: "moves ?K ?I tree t3"
      and t3: "answeredTree claim input keys now t2 = finishAttempt (acTaskId claim) ACompleted (riSummary (siResult input)) now t3"
      using m2 settled by (rule moves_answered) simp
    have "works st tree (settleWorkspace claim (siWorkspace input) (updResource (acTaskId claim) (touchResource now (completedResource claim (siResult input) w))
          (answeredTree claim input keys now t2)))"
      unfolding t3
      by (rule claim_settles [OF ctx matching_claim [OF match] m3 _ _ moves_refl releasing_results(3) moves_settleWorkspace]) simp_all
    then show ?thesis using versionsOf_cong [OF inputOutcome_attempts [OF t1]] versions_tracked [where f = "\<lambda>k. k"] st'
      by (intro scoped_commit [OF ctx _ m]) auto
  qed (use run tree in \<open>auto simp: completeAppTask_def\<close>)
qed

lemma finishAttempt_filed:
  assumes "taskAt (finishAttempt t state summary now tree) k = Some r"
  shows "\<exists>r0. taskAt tree k = Some r0 \<and> tkId r = tkId r0"
  using assms by (auto simp: finishAttempt_def taskAt_updResource split: option.splits if_splits)

lemma moves_filed:
  assumes "moves K I tree tree'" "taskAt tree' k = Some r"
  shows "\<exists>r0. taskAt tree k = Some r0 \<and> tkId r = tkId r0"
  using assms by (auto simp: moves_def option_rel_Some2 same_task_def dest!: spec [of _ k])

lemma pending_frame:
  assumes "foldl (applyPending st others now) (scope, tree) es = (scope', tree')"
  shows "trResources tree' = trResources tree" "trAttempts tree' = trAttempts tree" "msAttemptVersions scope' = msAttemptVersions scope"
proof -
  define frame where "frame = (\<lambda>x :: mutation_scope \<times> task_tree. (trResources (snd x), trAttempts (snd x), msAttemptVersions (fst x)))"
  have step: "frame (applyPending st others now s e) = frame s" for s e
    using apply_pending_frame [of st others now "fst s" "snd s" e] versions_tracked [where f = snd]
    by (auto simp: frame_def applyPending_def case_prod_unfold)
  have "frame (foldl (applyPending st others now) (scope, tree) es) = frame (scope, tree)"
    by (rule foldl_invariant [where P = "\<lambda>x. frame x = frame (scope, tree)"]) (simp_all add: step)
  then show "trResources tree' = trResources tree" "trAttempts tree' = trAttempts tree" "msAttemptVersions scope' = msAttemptVersions scope"
    by (simp_all add: assms frame_def)
qed

lemma same_task_defer: "same_task r (foldl (deferInput st tree claim input t) r keys)"
  by (rule same_task_foldl) (simp add: deferInput_def same_task_retain)

lemma deferredTree_shape:
  assumes "deferredTree st claim input keys reviewAt p now tree = Inr tree'" "acTaskId claim \<in> K"
    and "\<And>r. taskAt tree (acTaskId claim) = Some r \<Longrightarrow> tkId r = acTaskId claim"
  obtains t w where "moves K I tree t" "tree' = updResource (acTaskId claim) (touchResource now (deferredResource claim (siResult input) reviewAt w)) t"
proof -
  let ?u = "unlinkSatisfiedTaskConditions now (acTaskId claim) tree"
  let ?t = "updResource (acTaskId claim) (\<lambda>r. foldl (deferInput st ?u claim input reviewAt) r keys) ?u"
  have "moves K I tree ?t"
    by (rule moves_trans [OF moves_unlinkSatisfied [OF assms(2,3)] moves_updResource]) (simp_all add: assms(2) same_task_defer)
  moreover from assms(1) obtain w where "tree' = updResource (acTaskId claim) (touchResource now (deferredResource claim (siResult input) reviewAt w)) ?t"
    by (auto simp: deferredTree_def Let_def split: if_splits)
  ultimately show ?thesis by (rule that)
qed

lemma settleDeferred_exec:
  assumes ctx: "context_ok st tree" and c: "claimAttempt tree claim = Some (r, a)"
    and t1: "trAttempts t1 = trAttempts tree" "moves {acTaskId claim} {} tree t1"
    and run: "settleDeferred others now claim input keys writes reviewAt t1 st = Inr (res, st')"
  shows "exec_step\<^sup>*\<^sup>* st st'"
proof -
  let ?k = "acTaskId claim" and ?acts = "siActions input" and ?ri = "siResult input"
  let ?acc = "deferredResult claim input keys reviewAt t1"
  let ?t2 = "consumeSettledTaskEvents ?k (acAgent claim) (arAcceptedLiveEventIds ?acc) (arInputKeys ?acc) t1"
  let ?K = "insert ?k (set (unblockedTasks ?acts))" and ?I = "{acAttemptId claim}"
  define es where "es = (case dget (trTriggers ?t2) ?k of Some t \<Rightarrow> taskTriggerEvents t | None \<Rightarrow> [])"
  let ?X = "\<lambda>t6. foldl (applyPending st others now) (beginResourceMutationScope ?t2 ?k (unblockedTasks ?acts), t6) es"
  from run obtain t3 applied t5 t6 m where
    t3: "applyTaskActions st claim now ?acts ?t2 = Inr (t3, applied)"
    and t5: "(if siConditions input \<noteq> [] then materializeWaitingConditions ?k (siConditions input) now
          (finishAttempt ?k ACompleted (riSummary ?ri) now (acceptResult claim ?acc t3))
        else Inr (finishAttempt ?k ACompleted (riSummary ?ri) now (acceptResult claim ?acc t3))) = Inr t5"
    and t6: "deferredTree st claim input keys reviewAt (es \<noteq> []) now t5 = Inr t6"
    and m: "finishResourceMutationScope now (fst (?X t6)) (snd (?X t6)) = Inr m"
    and st': "commitTaskMutation now (m\<lparr>muAdmissions := writes\<rparr>) st = Inr st'"
    unfolding settleDeferred_def Let_def es_def [symmetric] by (auto simp: rbind_Inr case_prod_unfold cong: if_cong)
  obtain scope t7 where t7: "?X t6 = (scope, t7)" by (cases "?X t6")
  note m = m [unfolded t7 fst_conv snd_conv]
  note settled = context_settled [OF ctx]
  have m2: "moves ?K ?I tree ?t2"
    by (rule moves_trans [OF moves_mono [OF t1(2)] moves_frame]) simp_all
  have m3: "moves ?K ?I tree (acceptResult claim ?acc t3)"
    by (rule moves_trans [OF moves_trans [OF m2 moves_actions [OF t3 settled_tree_moves [OF settled m2]]] moves_accept]) simp
  let ?t4 = "finishAttempt ?k ACompleted (riSummary ?ri) now (acceptResult claim ?acc t3)"
  have m5: "moves ?K ?I ?t4 t5" using t5 by (auto split: if_splits intro: moves_materialize)
  have filed: "tkId r5 = ?k" if "taskAt t5 ?k = Some r5" for r5
    using moves_filed [OF m5 that] finishAttempt_filed moves_filed [OF m3] settled_filed [OF settled] by metis
  from t6 obtain t w where m6: "moves ?K ?I t5 t"
    and t6: "t6 = updResource ?k (touchResource now (deferredResource claim ?ri reviewAt w)) t"
    by (rule deferredTree_shape [where K = ?K and I = ?I]) (simp_all add: filed)
  have m7: "moves ?K ?I t6 t7" by (rule moves_frame) (simp_all add: pending_frame [OF t7])
  have "works st tree t7"
    by (rule claim_settles [OF ctx c m3 _ _ moves_trans [OF m5 m6] releasing_results(4) m7 [unfolded t6]]) simp_all
  moreover have "msAttemptVersions scope = versionsOf tree"
    using pending_frame(3) [OF t7] versionsOf_cong [of ?t2 tree] t1(1) by simp
  ultimately show ?thesis using st' by (intro scoped_commit [OF ctx _ m]) auto
qed

lemma defer_exec:
  assumes ok: "execution_ok st" and run: "deferAppTask others now claim input st = Inr (res, st')"
  shows "exec_step\<^sup>*\<^sup>* st st'"
proof -
  from run obtain tree where tree: "readTaskContext st (actionScope claim (siActions input)
      (filter (\<lambda>i. trim i \<noteq> []) (map dcId (siConditions input)))) True None = Inr tree"
    by (auto simp: deferAppTask_def rbind_Inr Let_def)
  note ctx = context_okI [OF ok tree]
  show ?thesis
  proof (cases "matchingTaskAttempt tree claim")
    case (Some x)
    then obtain r a where match: "matchingTaskAttempt tree claim = Some (r, a)" by (cases x) simp
    let ?kind = "if riReport (siResult input) then KFeedback RProgress else KRetain"
    from run tree match obtain keys writes t1 reviewAt where
      t1: "inputOutcomeAdmissions st (claimRef claim) (siResult input) ?kind tree = Inr (keys, writes, t1)"
      and run: "settleDeferred others now claim input keys writes reviewAt t1 st = Inr (res, st')"
      unfolding deferAppTask_def Let_def by (auto simp: rbind_Inr simp del: if_split_asm split: prod.splits if_split_asm)
    have "moves {acTaskId claim} {} tree t1" by (rule moves_inputOutcome [OF t1]) simp
    then show ?thesis by (rule settleDeferred_exec [OF ctx matching_claim [OF match] inputOutcome_attempts [OF t1] _ run])
  qed (use run tree in \<open>auto simp: deferAppTask_def Let_def\<close>)
qed

section \<open>Changes of a running attempt\<close>

lemma same_task_changes: "same_task r (foldl (changeWait st tree claim conditions) r keys)"
  by (rule same_task_foldl) (simp add: changeWait_def same_task_retain)

lemma same_attempt_receipts: "same_attempt a (keepReceipts input applied a)"
  by (simp add: keepReceipts_def same_attempt_def nextVersion_def)

lemma changes_exec:
  assumes ok: "execution_ok st" and run: "applyRunningTaskChanges now claim input st = Inr (res, st')"
  shows "exec_step\<^sup>*\<^sup>* st st'"
proof -
  let ?k = "acTaskId claim" and ?acts = "ciActions input" and ?cs = "ciConditions input"
  let ?K = "insert ?k (set (unblockedTasks ?acts))" and ?I = "{acAttemptId claim}"
  from run obtain tree where tree: "readTaskContext st (actionScope claim ?acts (map dcId ?cs)) True None = Inr tree"
    by (auto simp: applyRunningTaskChanges_def rbind_Inr Let_def)
  note ctx = context_okI [OF ok tree]
  have "matchingTaskAttempt tree claim \<noteq> None" using run tree unfolding applyRunningTaskChanges_def Let_def
    by (cases "matchingTaskAttempt tree claim = None") simp_all
  with run tree obtain keys t1 applied t2 m where
    t1: "applyTaskActions st claim now ?acts tree = Inr (t1, applied)"
    and t2: "(if ?cs \<noteq> [] then materializeWaitingConditions ?k ?cs now t1 else Inr t1) = Inr t2"
    and m: "finishResourceMutationScope now (beginResourceMutationScope tree ?k (unblockedTasks ?acts))
      (updResource ?k (touchResource now (\<lambda>r. r)) (updAttempt (acAttemptId claim) (keepReceipts input applied)
        (updResource ?k (\<lambda>r. foldl (changeWait st t2 claim ?cs) r keys) t2))) = Inr m"
    and st': "commitTaskMutation now m st = Inr st'"
    unfolding applyRunningTaskChanges_def Let_def by (auto simp: rbind_Inr case_prod_unfold cong: if_cong)
  have m1: "moves ?K ?I tree t1" by (rule moves_actions [OF t1 context_settled [OF ctx]])
  have m2: "moves ?K ?I tree t2"
    using t2 m1 by (auto split: if_splits intro: moves_trans [OF m1 moves_materialize])
  have "moves ?K ?I tree (updResource ?k (touchResource now (\<lambda>r. r)) (updAttempt (acAttemptId claim) (keepReceipts input applied)
        (updResource ?k (\<lambda>r. foldl (changeWait st t2 claim ?cs) r keys) t2)))"
    by (rule moves_trans [OF moves_trans [OF moves_trans [OF m2 moves_updResource] moves_updAttempt] moves_updResource])
      (simp_all add: same_task_changes same_attempt_receipts same_task_touch)
  from works_moves [OF context_works [OF ctx] this] show ?thesis using st' by (intro scoped_commit [OF ctx _ m]) auto
qed

section \<open>Stopping and releasing\<close>

lemma releasing_simple: "releasing i (\<lambda>r. r\<lparr>tkPhase := PhPending, tkCurrentAttemptId := None\<rparr>)"
  "releasing i (\<lambda>r. (if b then r else r\<lparr>tkSummary := s\<rparr>)\<lparr>tkPhase := PhPending, tkCurrentAttemptId := None\<rparr>)"
  "releasing i (stoppedResource input)" "releasing i (endedResource kind summary)"
  by (auto simp: releasing_def stoppedResource_def endedResource_def Let_def)

lemma task_settled:
  assumes ctx: "context_ok st tree" and r: "taskAt tree k = Some r" "tkCurrentAttemptId r = Some i" and a: "attemptAt tree i = Some a"
    and m1: "moves {k} {i} tree t1" and state: "state \<noteq> ARunning"
    and m2: "moves {k} {i} (finishAttempt k state summary now t1) t2"
    and f: "releasing i f" and m3: "moves {k} {i} (updResource k (touchResource now f) t2) t3"
  shows "settles {k} k i tree t3"
proof -
  have i: "i \<noteq> []" using context_named [OF ctx a] by simp
  show ?thesis by (rule settles_moves [OF settles_finish [OF m1 _ r i a state m2 f] m3]) simp
qed

lemmas task_settles = settles_works [OF _ task_settled]

lemma stop_exec:
  assumes ok: "execution_ok st" and run: "stopAppTaskAttempt now input st = Inr (res, st')"
  shows "exec_step\<^sup>*\<^sup>* st st'"
proof -
  let ?k = "spnTaskId input" and ?i = "spnAttemptId input"
  from run obtain tree r a where tree: "readTaskContext st (taskScope [?k]) True None = Inr tree"
    and r: "taskAt tree ?k = Some r" and a: "readAttempt st ?i = Some a"
    by (auto simp: stopAppTaskAttempt_def rbind_Inr split: option.splits)
  note ctx = context_okI [OF ok tree]
  define keys where "keys = taskInputAdmissionKeys (listOr (atEvents a)) (listOr (atContinuedInputKeys a))"
  let ?t2 = "updAttempt ?i (\<lambda>a. a\<lparr>atFailureReason := Some ''owner-stopped''\<rparr>) (finishAttempt ?k AInterrupted (spnReason input) now tree)"
  let ?g = "\<lambda>r. dropEmptyWaits (foldl (\<lambda>r key. dropWait key r) r keys)"
  show ?thesis
  proof (cases "tkCurrentAttemptId r = Some ?i \<and> st' \<noteq> st")
    case True
    with run tree r a obtain m where
      m: "finishResourceMutationScope now (beginResourceMutationScopeForTasks tree [?k])
        (updResource ?k (\<lambda>r. touchResource now (stoppedResource input) (?g r)) ?t2) = Inr m"
      and st': "commitTaskMutation now m st = Inr st'"
      by (auto simp: stopAppTaskAttempt_def rbind_Inr Let_def keys_def split: if_splits)
    have at: "attemptAt tree ?i = Some a" using ctx r True a by (auto simp: context_ok_def reflects_current_def)
    have "same_task r (?g r)" for r
      by (rule same_task_trans [OF same_task_foldl same_task_dropEmpty]) (simp add: dropWait_def)
    then have m2: "moves {?k} {?i} (finishAttempt ?k AInterrupted (spnReason input) now tree) (updResource ?k ?g ?t2)"
      by (intro moves_trans [OF moves_updAttempt moves_updResource]) simp_all
    have "works st tree (updResource ?k (touchResource now (stoppedResource input)) (updResource ?k ?g ?t2))"
      using True by (intro task_settles [OF ctx ctx r _ at moves_refl _ m2 releasing_simple(3) moves_refl r]) simp_all
    then show ?thesis using st' by (intro scoped_commit [OF ctx _ m]) (auto simp: updResource_compose)
  next
    case False
    then have "st' = st" using run tree r a by (auto simp: stopAppTaskAttempt_def Let_def split: if_splits)
    then show ?thesis by simp
  qed
qed

lemma settles_carries:
  assumes ctx: "context_ok st tree" and s: "settles {k} k i tree tree'"
    and m: "muDeleteTasks m = []" "muDeleteAttempts m = []"
      "\<And>w. w \<in> set (muTasks m) \<Longrightarrow> taskAt tree' (tkId (twResource w)) = Some (twResource w)"
      "muAttempts m = List.map_filter (attemptAt tree') [i]"
  shows "carries tree tree' m"
proof -
  from s obtain a a' where a: "attemptAt tree i = Some a" "attemptAt tree' i = Some a'" "ended a a'" by (auto simp: settles_def)
  have "atId a' = i" using context_named [OF ctx a(1)] a(3) by (simp add: ended_def)
  moreover have only: "j = i" if "attemptAt tree j = Some b" "attemptAt tree' j = Some b'" "ended b b'" for j b b'
  proof (rule ccontr)
    assume "j \<noteq> i"
    with s that(1,2) have "b' = b" by (auto simp: settles_def)
    with that(3) show False by (simp add: ended_def)
  qed
  moreover have "muAttempts m = [a']" using m(4) a(2) by simp
  moreover have "b' = a'" if "attemptAt tree j = Some b" "attemptAt tree' j = Some b'" "ended b b'" for j b b'
    using only [OF that] that(2) a(2) by simp
  ultimately show ?thesis using m(1-3) a(2) by (simp add: carries_def)
qed

lemma releaseStale_exec:
  assumes ok: "execution_ok st" and run: "releaseStaleAppTaskResult now claim summary st = Inr (res, st')"
  shows "exec_step\<^sup>*\<^sup>* st st'"
proof -
  let ?k = "acTaskId claim" and ?i = "acAttemptId claim"
  from run obtain tree where tree: "readTaskContext st (taskScope [?k]) True None = Inr tree"
    by (auto simp: releaseStaleAppTaskResult_def rbind_Inr)
  note ctx = context_okI [OF ok tree]
  show ?thesis
  proof (cases "\<exists>r a. taskAt tree ?k = Some r \<and> staleAttempt claim tree r = Some a")
    case True
    then obtain r a where r: "taskAt tree ?k = Some r" and stale: "staleAttempt claim tree r = Some a" by blast
    define s where "s = (case summary of Some s \<Rightarrow> s
      | None \<Rightarrow> ''Stale reconciliation result was rejected; retrying from current task facts'')"
    define t3 where "t3 = updResource ?k (touchResource now (\<lambda>r. r\<lparr>tkPhase := PhPending, tkCurrentAttemptId := None\<rparr>))
      (updAttempt ?i (\<lambda>a. (nextVersion a)\<lparr>atFailureReason := Some ''stale-reconciliation-result''\<rparr>)
        (finishAttempt ?k AInterrupted s now (snd (restoreAttemptEvents tree ?k r a now))))"
    let ?m = "noMutation\<lparr>muFences := [attemptFence ?k r ?i],
        muTasks := map (\<lambda>r. resourceWrite now t3 r True) (List.map_filter (dget (trResources t3)) [?k]),
        muAttempts := List.map_filter (attemptAt t3) [?i]\<rparr>"
    have "releaseStaleAppTaskResult now claim summary st = rbind (commitTaskMutation now ?m st) (\<lambda>st'. Inr (RelReleased, st'))"
      by (simp only: releaseStaleAppTaskResult_def tree rbind_simps r stale option.case Let_def s_def t3_def)
    with run have st': "commitTaskMutation now ?m st = Inr st'" by (auto simp: rbind_Inr)
    from stale have a: "tkCurrentAttemptId r = Some ?i" "attemptAt tree ?i = Some a"
      by (auto simp: staleAttempt_def split: if_splits option.splits)
    have settles: "settles {?k} ?k ?i tree t3"
      unfolding t3_def
      by (rule task_settled [OF ctx r a moves_frame _ moves_updAttempt releasing_simple(1) moves_refl]) simp_all
    have works: "works st tree t3" by (rule settles_works [OF ctx settles r a(1)])
    obtain r3 where r3: "taskAt t3 ?k = Some r3" "tkId r3 = ?k"
      using settles works by (auto simp: settles_def works_def)
    have "carries tree t3 ?m"
      by (rule settles_carries [OF ctx settles]) (simp_all add: noMutation_def resourceWrite_def r3)
    then have "retains st ?m"
      using ctx works by (intro carries_retains) (auto simp: context_ok_def noMutation_def)
    then show ?thesis using st' by (rule exec_commits)
  next
    case False
    then have "st' = st" using run tree by (auto simp: releaseStaleAppTaskResult_def Let_def split: option.splits)
    then show ?thesis by simp
  qed
qed

lemma runningAttempt_Some:
  assumes "context_ok st tree" "runningAttempt tree r = Inr (Some a)"
  shows "tkCurrentAttemptId r = Some (atId a)" "attemptAt tree (atId a) = Some a"
  using assms context_named [OF assms(1)]
  by (auto simp: runningAttempt_def currentResourceAttempt_def whenText_def split: if_splits option.splits)

lemma releaseWhen_exec:
  assumes ok: "execution_ok st" and run: "releaseWhen k P s reason keep ss now st = Inr (res, st')"
  shows "exec_step\<^sup>*\<^sup>* st st'"
proof -
  from run obtain tree where tree: "readTaskContext st (taskScope [k]) True None = Inr tree"
    by (auto simp: releaseWhen_def rbind_Inr)
  note ctx = context_okI [OF ok tree]
  show ?thesis
  proof (cases "\<exists>r a. taskAt tree k = Some r \<and> runningAttempt tree r = Inr (Some a) \<and> P r a")
    case True
    then obtain r a where r: "taskAt tree k = Some r" and a: "runningAttempt tree r = Inr (Some a)" "P r a" by blast
    with run tree obtain m where m: "finishResourceMutationScope now (beginResourceMutationScopeForTasks tree [k])
        (releasedTree k (s r) reason keep now r a tree) = Inr m" and st': "commitTaskMutation now m st = Inr st'"
      by (auto simp: releaseWhen_def releaseAttempt_def rbind_Inr)
    note cur = runningAttempt_Some [OF ctx a(1)]
    have "works st tree (releasedTree k (s r) reason keep now r a tree)"
      unfolding releasedTree_def Let_def
      by (rule task_settles [OF ctx ctx r cur moves_frame _ moves_updAttempt releasing_simple(2) moves_refl r cur(1)]) simp_all
    then show ?thesis using st' by (intro scoped_commit [OF ctx _ m]) auto
  next
    case False
    then have "st' = st" using run tree by (auto simp: releaseWhen_def rbind_Inr split: option.splits if_splits)
    then show ?thesis by simp
  qed
qed

lemma release_exec:
  assumes "execution_ok st"
  shows "releaseInterruptedAppTaskAttempt rt now rec s st = Inr (res, st') \<Longrightarrow> exec_step\<^sup>*\<^sup>* st st'"
    and "releaseTerminalSessionExpiredAppTaskAttempt rec sid term s t act st = Inr (res', st') \<Longrightarrow> exec_step\<^sup>*\<^sup>* st st'"
    and "releaseLateTerminalWorkflowAppTaskAttempt now k g sid s st = Inr (b, st') \<Longrightarrow> exec_step\<^sup>*\<^sup>* st st'"
  using releaseWhen_exec [OF assms]
  by (auto simp: releaseInterruptedAppTaskAttempt_def releaseTerminalSessionExpiredAppTaskAttempt_def
      releaseLateTerminalWorkflowAppTaskAttempt_def rbind_Inr)

section \<open>Controls\<close>

lemma requeue_idle: "works st tree (updResource k (requeueResource now) t1)"
  if "context_ok st tree" "works st tree t1" "taskAt t1 k = Some r1" "tkPhase r1 \<noteq> PhRunning"
  by (rule idle_works [OF that]) (simp_all add: requeueResource_def)

lemma retry_exec:
  assumes ok: "execution_ok st" and run: "retryFailedAppTask now uuid input st = Inr (res, st')"
  shows "exec_step\<^sup>*\<^sup>* st st'"
proof (cases "priorControl input st")
  case (Some rc)
  then have "st' = st" using run by (auto simp: retryFailedAppTask_def split: if_splits)
  then show ?thesis by simp
next
  case None
  with run obtain tree r a where tree: "readTaskContext st (taskScope [kiTaskId input]) True None = Inr tree"
    and r: "taskAt tree (kiTaskId input) = Some r" and a: "retryEligible input tree r st = Inr a"
    and run: "retryTask now uuid input tree r a st = Inr (res, st')"
    by (auto simp: retryFailedAppTask_def rbind_Inr split: if_splits option.splits)
  note ctx = context_okI [OF ok tree]
  have phase: "tkPhase r \<noteq> PhRunning" using a by (auto simp: retryEligible_def split: if_splits)
  let ?t1 = "if atState a = AFailed then snd (restoreAttemptEvents tree (kiTaskId input) r a now) else tree"
  from run obtain m cts where
    m: "finishResourceMutationScope now (beginResourceMutationScopeForTasks tree [kiTaskId input])
      (updResource (kiTaskId input) (requeueResource now) ?t1) = Inr m"
    and st': "commitTaskMutation now (m\<lparr>muControls := cts\<rparr>) st = Inr st'"
    by (auto simp: retryTask_def Let_def rbind_Inr)
  have "works st tree ?t1" by (rule works_moves [OF context_works [OF ctx] moves_frame]) simp_all
  then have "works st tree (updResource (kiTaskId input) (requeueResource now) ?t1)"
    by (rule requeue_idle [OF ctx _ _ phase]) (simp_all add: r)
  then show ?thesis using st' by (intro scoped_commit [OF ctx _ m]) auto
qed

lemma ended_works:
  assumes ctx: "context_ok st tree" and r: "taskAt tree k = Some r"
  shows "works st tree (endedTree k kind summary now r tree)"
proof -
  let ?ended = "\<lambda>t. updResource k (touchResource now (endedResource kind summary)) (t\<lparr>trTriggers := ddel (trTriggers t) k\<rparr>)"
  show ?thesis
  proof (cases "\<exists>i a. tkCurrentAttemptId r = Some i \<and> attemptAt tree i = Some a")
    case True
    then obtain i a where i: "tkCurrentAttemptId r = Some i" "attemptAt tree i = Some a" by blast
    let ?f = "finishAttempt k AInterrupted summary now tree"
    let ?u = "updAttempt i (\<lambda>a. a\<lparr>atReason := summary, atLease := None\<rparr>) ?f"
    have "endedTree k kind summary now r tree = ?ended ?u"
      using i context_named [OF ctx i(2)] by (simp add: endedTree_def Let_def)
    moreover have "moves {k} {i} ?f (?u\<lparr>trTriggers := ddel (trTriggers ?u) k\<rparr>)"
      by (rule moves_trans [OF moves_updAttempt moves_frame]) (simp_all add: same_attempt_def)
    ultimately show ?thesis
      using task_settles [OF ctx ctx r i moves_refl _ _ releasing_simple(4) moves_refl r i(1), where state = AInterrupted] by simp
  next
    case False
    then have "endedTree k kind summary now r tree = ?ended tree"
      by (auto simp: endedTree_def Let_def whenText_def split: option.splits)
    moreover have "works st tree (?ended tree)"
      using ctx r False context_works [OF ctx]
      by (intro works_idle [OF _ _ _ works_moves [OF _ moves_frame], where f = "touchResource now (endedResource kind summary)"])
        (auto simp: context_ok_def endedResource_def Let_def)
    ultimately show ?thesis by simp
  qed
qed

lemma finishAttempt_dom: "taskAt (finishAttempt t state summary now tree) k = None \<longleftrightarrow> taskAt tree k = None"
  by (auto simp: finishAttempt_def taskAt_updResource split: option.splits)

lemma endedTree_task:
  assumes "taskAt tree k = Some r"
  shows "\<exists>r1. taskAt (endedTree k kind summary now r tree) k = Some r1 \<and> tkCurrentAttemptId r1 = None"
  using assms finishAttempt_dom [of k AInterrupted summary now tree k]
  by (auto simp: endedTree_def Let_def taskAt_updResource endedResource_def split: option.splits)

lemma contextRows_named: "dget (contextRows st sc limit) [] = None"
proof -
  have row: "dget (fst acc) [] = None \<Longrightarrow> dget (fst (contextRow acc p)) [] = None" for acc p
    by (cases acc) (auto simp: contextRow_def Let_def)
  have pass: "dget found [] = None \<Longrightarrow> dget (fst (contextPass st todo found)) [] = None" for st todo found
    unfolding contextPass_def by (rule foldl_invariant [where P = "\<lambda>x. dget (fst x) [] = None"]) (simp_all add: row)
  have loop: "dget found [] = None \<Longrightarrow> dget (contextLoop st todo found) [] = None" for todo found
  proof (induction st todo found rule: contextLoop.induct)
    case (1 st todo found)
    with pass [of found st todo] show ?case
      by (cases "contextPass st todo found") (simp add: contextLoop.simps [of st todo found])
  qed
  have rows: "dget found [] = None \<Longrightarrow> dget (addRows found rs) [] = None" for found rs
    unfolding addRows_def by (rule foldl_invariant [where P = "\<lambda>d. dget d [] = None"]) auto
  show ?thesis by (simp add: contextRows_def Let_def loop rows)
qed

lemma context_key: "readTaskContext st sc h limit = Inr tree \<Longrightarrow> taskAt tree k = Some r \<Longrightarrow> k \<noteq> []"
  using contextRows_named [of st sc limit]
  by (auto simp: readTaskContext_def Let_def resourcesOf_def dget_map split: option.splits)

lemma close_commit:
  assumes ok: "execution_ok st" and tree: "readTaskContext st sc True limit = Inr tree"
    and r: "taskAt tree (kiTaskId (coControl input)) = Some r"
    and run: "commitTaskCancellation now input after tree r st = Inr (res, st')"
  shows "exec_step\<^sup>*\<^sup>* st st'"
proof -
  let ?k = "kiTaskId (coControl input)"
  let ?t = "endedTree ?k (closureKind after) (closeSummary input (closureKind after)) now r tree"
  note ctx = context_okI [OF ok tree]
  from run obtain m ca ps cts where
    m: "finishResourceMutationScope now (beginResourceMutationScopeForTasks tree [?k]) ?t = Inr m"
    and st': "commitTaskMutation now (m\<lparr>muCancellations := [ca], muPruneConditions := ps, muControls := cts\<rparr>) st = Inr st'"
    and ca: "caTaskId ca = ?k"
    by (auto simp: commitTaskCancellation_def Let_def rbind_Inr taskClosure_def)
  let ?m = "m\<lparr>muCancellations := [ca], muPruneConditions := ps, muControls := cts\<rparr>"
  have works: "works st tree ?t" by (rule ended_works [OF ctx r])
  have refl: "reflects st tree" using ctx by (simp add: context_ok_def)
  have c: "carries tree ?t ?m" using finish_carries [OF refl works m] by (simp add: carries_def)
  have k: "?k \<noteq> []" by (rule context_key [OF tree r])
  obtain r1 where r1: "taskAt ?t ?k = Some r1" "tkId r1 = ?k" "tkCurrentAttemptId r1 = None"
    using endedTree_task [OF r] works by (metis works_def)
  have "\<exists>w\<in>set (muTasks m). twResource w = r1"
    using m
  proof (rule finishScope)
    fix W assume W: "set (msWriteTaskIds (beginResourceMutationScopeForTasks tree [?k])) \<subseteq> W"
      and tasks: "twResource ` set (muTasks m) = {r. \<exists>k\<in>W. taskAt ?t k = Some r}"
    have "?k \<in> W" using W k r
      by (auto simp: beginResourceMutationScopeForTasks_def trackResourceMutationTask_def fenceResourceMutationTask_def Let_def)
    with r1(1) have "r1 \<in> twResource ` set (muTasks m)" unfolding tasks by blast
    then show ?thesis by auto
  qed
  with c r1 have "retains st ?m"
    using ctx by (intro carries_retains [OF _ refl works c]) (auto simp: context_ok_def ca carries_def)
  then show ?thesis using st' by (rule exec_commits)
qed

lemma close_exec:
  assumes ok: "execution_ok st" and run: "closeTask now input after st = Inr (res, st')"
  shows "exec_step\<^sup>*\<^sup>* st st'"
proof (cases "st' = st")
  case False
  with run have "closeCurrent now input after st = Inr (res, st')"
    by (auto simp: closeTask_def Let_def rbind_Inr split: if_splits option.splits)
  then obtain tree r where "readTaskContext st (taskScope [kiTaskId (coControl input)]) True None = Inr tree"
    "taskAt tree (kiTaskId (coControl input)) = Some r" "commitTaskCancellation now input after tree r st = Inr (res, st')"
    unfolding closeCurrent_def Let_def
    by (auto simp: rbind_Inr split: option.split_asm if_split_asm)
  then show ?thesis by (rule close_commit [OF ok])
qed simp

lemma context_cancelled:
  assumes "readTaskContext st sc h limit = Inr tree" "dget (trCancellations tree) k = Some c"
  shows "isCancelled st k"
proof -
  from assms have "(k, c) \<in> set (stCancellations st)"
    by (auto simp: readTaskContext_def Let_def split: option.splits dest!: dget_Some_in)
  then show ?thesis by (force simp: isCancelled_def dget_None_iff dkeys_def)
qed

lemma reopenCurrent_exec:
  assumes ok: "execution_ok st" and tree: "readTaskContext st sc True limit = Inr tree"
    and r: "taskAt tree (kiTaskId (rpControl input)) = Some r" "dget (trCancellations tree) (kiTaskId (rpControl input)) = Some c"
    and run: "reopenCurrent now lastEventId input tree r c st = Inr (res, st')"
  shows "exec_step\<^sup>*\<^sup>* st st'"
proof -
  let ?k = "kiTaskId (rpControl input)"
  note ctx = context_okI [OF ok tree]
  define cas trs where "cas = ddel (trCancellations tree) ?k"
    and "trs = (\<lambda>sp. if rpInput input = None then dset (trTriggers tree) ?k
      (reopenTrigger input (tkGeneration (reopenedResource input sp lastEventId now r)) now) else trTriggers tree)"
  let ?t = "\<lambda>sp. (updResource ?k (reopenedResource input sp lastEventId now) tree)\<lparr>trCancellations := cas, trTriggers := trs sp\<rparr>"
  from run r(1) obtain sp m cts where m: "finishResourceMutationScope now (beginResourceMutationScopeForTasks tree [?k]) (?t sp) = Inr m"
    and st': "commitTaskMutation now (m\<lparr>muReopen := [?k], muControls := cts\<rparr>) st = Inr st'"
    by (cases "rpInput input") (auto simp: reopenCurrent_def rbind_Inr Let_def updResource_def cas_def trs_def)
  have cur: "tkCurrentAttemptId r = None"
    using ok context_cancelled [OF tree r(2)] ctx r(1) by (auto simp: execution_ok_def context_ok_def reflects_def)
  have "works st tree (updResource ?k (reopenedResource input sp lastEventId now) tree)"
    using ctx r(1) cur context_works [OF ctx]
    by (intro works_idle [where f = "reopenedResource input sp lastEventId now"]) (auto simp: context_ok_def reopenedResource_def)
  then have "works st tree (?t sp)"
    by (rule works_moves [OF _ moves_frame]) simp_all
  then show ?thesis using st' by (intro scoped_commit [OF ctx _ m]) auto
qed

lemma reopen_exec:
  assumes ok: "execution_ok st" and run: "reopenAppTask now lastEventId input st = Inr (res, st')"
  shows "exec_step\<^sup>*\<^sup>* st st'"
proof -
  let ?key = "case kiControlKey (rpControl input) of Some k \<Rightarrow> k | None \<Rightarrow> []" and ?k = "kiTaskId (rpControl input)"
  show ?thesis
  proof (cases "readControlReceipt st ?key")
    case (Some rc)
    then have "st' = st" using run by (auto simp: reopenAppTask_def Let_def rbind_Inr split: if_splits)
    then show ?thesis by simp
  next
    case None
    with run obtain tree where tree: "readTaskContext st (taskScope [?k]) True None = Inr tree"
      by (auto simp: reopenAppTask_def Let_def rbind_Inr split: if_split_asm)
    obtain r where r: "taskAt tree ?k = Some r"
      using run None tree by (cases "taskAt tree ?k") (auto simp: reopenAppTask_def Let_def rbind_Inr split: if_split_asm)
    obtain c where c: "dget (trCancellations tree) ?k = Some c"
      using run None tree r
      by (cases "dget (trCancellations tree) ?k") (auto simp: reopenAppTask_def Let_def rbind_Inr split: if_split_asm)
    have "reopenCurrent now lastEventId input tree r c st = Inr (res, st')"
      using run None tree r c by (auto simp: reopenAppTask_def Let_def rbind_Inr split: if_split_asm)
    then show ?thesis by (rule reopenCurrent_exec [OF ok tree r c])
  qed
qed

section \<open>Repairs\<close>

lemma repair_works:
  assumes ctx: "context_ok st tree"
    and fx: "\<And>t r s t'. works st tree t \<Longrightarrow> taskAt t (tkId r) = Some r \<Longrightarrow> fx t r = Some (s, t') \<Longrightarrow> works st tree t'"
  shows "works st tree (rsTree (foldl (repairTask fx) \<lparr>rsTree = tree, rsScope = emptyResourceMutationScope tree, rsRepairs = []\<rparr> ks)) \<and>
    msAttemptVersions (rsScope (foldl (repairTask fx) \<lparr>rsTree = tree, rsScope = emptyResourceMutationScope tree, rsRepairs = []\<rparr> ks)) = versionsOf tree"
proof (rule foldl_invariant [where P = "\<lambda>s. works st tree (rsTree s) \<and> msAttemptVersions (rsScope s) = versionsOf tree"])
  fix s :: repair_state and k
  assume s: "works st tree (rsTree s) \<and> msAttemptVersions (rsScope s) = versionsOf tree"
  show "works st tree (rsTree (repairTask fx s k)) \<and> msAttemptVersions (rsScope (repairTask fx s k)) = versionsOf tree"
  proof (cases "taskAt (rsTree s) k")
    case (Some r)
    then have k: "tkId r = k" using s by (auto simp: works_def)
    show ?thesis
    proof (cases "fx (rsTree s) r")
      case (Some x)
      then obtain sm t' where x: "fx (rsTree s) r = Some (sm, t')" by (cases x) simp
      from fx [OF _ _ x] s \<open>taskAt (rsTree s) k = Some r\<close> k have "works st tree t'" by simp
      with s x \<open>taskAt (rsTree s) k = Some r\<close> show ?thesis by (simp add: repairTask_def)
    qed (use s Some in \<open>simp add: repairTask_def\<close>)
  qed (use s in \<open>simp add: repairTask_def\<close>)
qed (simp add: context_works [OF ctx])

lemma repairTasks_exec:
  assumes ok: "execution_ok st" and run: "repairTasks now fx candidates st = Inr (res, st')"
    and fx: "\<And>tree t r s t'. context_ok st tree \<Longrightarrow> works st tree t \<Longrightarrow> taskAt t (tkId r) = Some r \<Longrightarrow> fx t r = Some (s, t') \<Longrightarrow> works st tree t'"
  shows "exec_step\<^sup>*\<^sup>* st st'"
proof (cases "st' = st")
  case False
  with run obtain tree where tree: "readTaskContext st (taskScope candidates) True None = Inr tree"
    by (auto simp: repairTasks_def rbind_Inr Let_def split: if_splits)
  note ctx = context_okI [OF ok tree]
  define s where "s = foldl (repairTask fx) \<lparr>rsTree = tree, rsScope = emptyResourceMutationScope tree, rsRepairs = []\<rparr> (dkeys (trResources tree))"
  from False run tree obtain m where m: "finishResourceMutationScope now (rsScope s) (rsTree s) = Inr m"
    and st': "commitTaskMutation now m st = Inr st'"
    by (auto simp: repairTasks_def rbind_Inr Let_def s_def split: if_splits)
  have "works st tree (rsTree s)" "msAttemptVersions (rsScope s) = versionsOf tree"
    unfolding s_def using repair_works [OF ctx, of fx] fx [OF ctx] by blast+
  then show ?thesis using st' by (intro scoped_commit [OF ctx _ m]) auto
qed simp

lemma requeue_works:
  assumes ctx: "context_ok st tree" and w: "works st tree t" and r: "taskAt t (tkId r) = Some r"
    and none: "\<And>i a. tkCurrentAttemptId r = Some i \<Longrightarrow> attemptAt t i = Some a \<Longrightarrow> atState a \<noteq> ARunning"
  shows "works st tree (requeueWithoutAttempt (tkId r) now r t)"
proof -
  define s where "s = missingAttemptSummary (tkId r) (tkCurrentAttemptId r)"
  define t1 where "t1 = (case whenText (tkCurrentAttemptId r) of Some i \<Rightarrow> updAttempt i (markMissingAttempt s now) t | None \<Rightarrow> t)"
  have m: "moves {} UNIV t t1"
    by (auto simp: t1_def same_attempt_def markMissingAttempt_def split: option.splits intro!: moves_updAttempt)
  have frame: "trResources t1 = trResources t" by (auto simp: t1_def split: option.splits)
  have "atState a \<noteq> ARunning" if a: "tkCurrentAttemptId r = Some i" "attemptAt t1 i = Some a" for i a
  proof -
    from m a(2) obtain a0 where "attemptAt t i = Some a0" "same_attempt a0 a"
      by (auto simp: moves_def option_rel_Some2 dest!: spec [of _ i])
    with none [OF a(1)] show ?thesis by (auto simp: same_attempt_def)
  qed
  then show ?thesis using ctx r unfolding requeueWithoutAttempt_def Let_def s_def [symmetric] t1_def [symmetric]
    by (intro works_idle [OF _ _ _ works_moves [OF w m],
          where f = "touchResource now (\<lambda>r. r\<lparr>tkPhase := PhPending, tkCurrentAttemptId := None, tkSummary := Some s\<rparr>)"])
      (simp_all add: context_ok_def frame)
qed

lemma fixAttention_works:
  assumes ctx: "context_ok st tree" and w: "works st tree t" and r: "taskAt t (tkId r) = Some r"
    and fx: "fixRecoveryAttention now t r = Some (s, t')"
  shows "works st tree t'"
proof -
  from fx obtain a where a: "latestTaskAttempt t (tkId r) None = Some a"
    by (cases "latestTaskAttempt t (tkId r) None") (auto simp: fixRecoveryAttention_def split: if_splits)
  with fx have phase: "tkPhase r \<noteq> PhRunning"
    and t': "t' = updResource (tkId r) (touchResource now (\<lambda>r. r\<lparr>tkPhase := PhPending, tkCurrentAttemptId := None, tkSummary := Some s\<rparr>))
      (updAttempt (atId a) (\<lambda>a. (nextVersion a)\<lparr>atFailureReason := Some ''previous-runtime-attempt-requeued''\<rparr>) t)"
    by (auto simp: fixRecoveryAttention_def Let_def split: if_splits)
  have m: "moves {} {atId a} t (updAttempt (atId a) (\<lambda>a. (nextVersion a)\<lparr>atFailureReason := Some ''previous-runtime-attempt-requeued''\<rparr>) t)"
    by (rule moves_updAttempt) simp_all
  show ?thesis unfolding t'
    by (rule idle_works [OF ctx works_moves [OF w m] _ phase]) (use r in simp_all)
qed

lemma fixUnadmitted_works:
  assumes ctx: "context_ok st tree" and w: "works st tree t" and r: "taskAt t (tkId r) = Some r"
    and fx: "fixUnadmittedWait adm now t r = Some (s, t')"
  shows "works st tree t'"
proof -
  define t1 where "t1 = foldl (\<lambda>t (cid, _). unlinkExactTaskCondition now (tkId r) cid t) t (missingRequests adm t r)"
  from fx have phase: "tkPhase r = PhWaiting"
    and t': "t' = updResource (tkId r) (touchResource now (\<lambda>r. r\<lparr>tkPhase := PhPending, tkObservedGeneration := tkGeneration r - 1,
        tkCurrentAttemptId := None, tkSummary := Some s\<rparr>)) t1"
    by (auto simp: fixUnadmittedWait_def Let_def t1_def split: if_splits)
  have m: "moves {tkId r} {} t t1" unfolding t1_def
  proof (rule foldl_invariant [where P = "moves {tkId r} {} t"])
    fix u x assume m: "moves {tkId r} {} t u"
    have "tkId r' = tkId r" if "taskAt u (tkId r) = Some r'" for r'
      using moves_filed [OF m that] r by auto
    then have "moves {tkId r} {} t (unlinkExactTaskCondition now (tkId r) (fst x) u)"
      by (intro moves_trans [OF m moves_unlinkExact]) simp_all
    then show "moves {tkId r} {} t (case x of (cid, _) \<Rightarrow> unlinkExactTaskCondition now (tkId r) cid u)"
      by (simp add: case_prod_unfold)
  qed simp
  from moves_task [OF m r] obtain r1 where r1: "taskAt t1 (tkId r) = Some r1" "same_task r r1" .
  have "tkPhase r1 \<noteq> PhRunning" using r1(2) phase by (simp add: same_task_def)
  then show ?thesis unfolding t' by (rule idle_works [OF ctx works_moves [OF w m] r1(1)]) simp_all
qed

lemma works_unnamed: "context_ok st tree \<Longrightarrow> works st tree t \<Longrightarrow> attemptAt t [] = None"
  using context_named [of st tree "[]"]
  by (cases "attemptAt t []") (auto simp: works_def option_rel_Some2 dest!: spec [of _ "[]"])

lemma fixRunning_works:
  assumes ctx: "context_ok st tree" and w: "works st tree t" and r: "taskAt t (tkId r) = Some r"
    and fx: "fixRunningWithoutAttempt now t r = Some (s, t')"
  shows "works st tree t'"
proof -
  have "works st tree (requeueWithoutAttempt (tkId r) now r t)"
    using fx works_unnamed [OF ctx w]
    by (intro requeue_works [OF ctx w r]) (auto simp: fixRunningWithoutAttempt_def split: if_splits)
  with fx show ?thesis by (auto simp: fixRunningWithoutAttempt_def split: if_splits)
qed

lemma repairs_exec:
  assumes "execution_ok st"
  shows "repairPreviousRuntimeRecoveryAttention now ks st = Inr (res, st') \<Longrightarrow> exec_step\<^sup>*\<^sup>* st st'"
    and "repairUnadmittedAppDependencyWaits now adm ks st = Inr (res, st') \<Longrightarrow> exec_step\<^sup>*\<^sup>* st st'"
    and "repairRunningAppTasksWithoutAttempt now ks st = Inr (res, st') \<Longrightarrow> exec_step\<^sup>*\<^sup>* st st'"
  unfolding repairPreviousRuntimeRecoveryAttention_def repairUnadmittedAppDependencyWaits_def repairRunningAppTasksWithoutAttempt_def
  by (erule repairTasks_exec [OF assms], erule (3) fixAttention_works)
    (erule repairTasks_exec [OF assms], erule (3) fixUnadmitted_works, erule repairTasks_exec [OF assms], erule (3) fixRunning_works)

section \<open>Wakes and admission\<close>

lemma keeps_retains:
  assumes "\<And>w. w \<in> set (muTasks m) \<Longrightarrow> keepsTask st (twResource w)"
    and "muAttempts m = []" "muDeleteTasks m = []" "muDeleteAttempts m = []" "muCancellations m = []"
  shows "retains st m"
  using assms by (simp add: retains_def executes_def)

lemma context_keeps:
  assumes "execution_ok st" "readTaskContext st sc h limit = Inr tree" "taskAt tree k = Some r" "same_task r r'"
  shows "keepsTask st r'"
  using context_reflects [OF assms(1,2)] assms(3,4) by (auto simp: keepsTask_def reflects_def same_task_def)

lemma trigger_exec:
  assumes ok: "execution_ok st" and run: "recordAppTaskTrigger cx now k event st = Inr (res, st')"
  shows "exec_step\<^sup>*\<^sup>* st st'"
proof (cases "st' = st")
  case False
  from run obtain tree where tree: "readTaskContext st (taskScope [k]) False (Some (num_int 0)) = Inr tree"
    by (auto simp: recordAppTaskTrigger_def rbind_Inr)
  obtain r where r: "taskAt tree k = Some r"
    using run tree False by (cases "taskAt tree k") (auto simp: recordAppTaskTrigger_def)
  obtain t where st': "commitTaskMutation now (noMutation\<lparr>muFences := [(resourceFence r)\<lparr>fnTaskId := k\<rparr>],
      muTasks := [resourceWrite now t (r\<lparr>tkVersion := tkVersion r + 1\<rparr>) True]\<rparr>) st = Inr st'"
    using run tree r False by (auto simp: recordAppTaskTrigger_def Let_def rbind_Inr split: if_split_asm)
  have "keepsTask st (r\<lparr>tkVersion := tkVersion r + 1\<rparr>)"
    by (rule context_keeps [OF ok tree r]) (simp add: same_task_def)
  then have "retains st (noMutation\<lparr>muFences := [(resourceFence r)\<lparr>fnTaskId := k\<rparr>],
      muTasks := [resourceWrite now t (r\<lparr>tkVersion := tkVersion r + 1\<rparr>) True]\<rparr>)"
    by (intro keeps_retains) (simp_all add: noMutation_def resourceWrite_def)
  then show ?thesis using st' by (rule exec_commits)
qed simp

lemma track_exec:
  assumes ok: "execution_ok st" and run: "trackAppTaskConditionEventForTasks now others event ks st = Inr (res, st')"
  shows "exec_step\<^sup>*\<^sup>* st st'"
proof (cases "st' = st")
  case False
  with run obtain tree where tree: "readTaskContext st (taskScope (uniq ks)) False (Some (num_int 0)) = Inr tree"
    by (auto simp: trackAppTaskConditionEventForTasks_def rbind_Inr split: if_split_asm)
  obtain al lk wakes ids where "saveConditionMutation now (ceTree (applyConditionEvent tree event now [] al [] lk)) wakes ids st = Inr st'"
    using run tree False by (auto simp: trackAppTaskConditionEventForTasks_def Let_def rbind_Inr split: if_split_asm)
  then have st': "commitTaskMutation now (conditionMutation (ceTree (applyConditionEvent tree event now [] al [] lk)) wakes ids) st = Inr st'"
    by (simp add: saveConditionMutation_def)
  have "keepsTask st (twResource w)"
    if "w \<in> set (muTasks (conditionMutation (ceTree (applyConditionEvent tree event now [] al [] lk)) wakes ids))" for w
  proof -
    from that obtain k r where "taskAt tree k = Some r" "twResource w = r\<lparr>tkVersion := tkVersion r + 1\<rparr>"
      by (auto simp: conditionMutation_def Let_def wakeWrite_def List.map_filter_def apply_frame)
    then show ?thesis by (auto intro: context_keeps [OF ok tree] simp: same_task_def)
  qed
  then have "retains st (conditionMutation (ceTree (applyConditionEvent tree event now [] al [] lk)) wakes ids)"
    by (intro keeps_retains) (simp_all add: conditionMutation_def Let_def noMutation_def)
  then show ?thesis using st' by (rule exec_commits)
qed simp

lemma observedResource_same:
  "tkId r = inId (obIntent input) \<Longrightarrow> same_task r (observedResource st input (Some r) same sp g now)"
  by (auto simp: observedResource_def Let_def same_task_def)

lemma admitIntent_exec:
  assumes ok: "execution_ok st" and tree: "readTaskContext st sc h limit = Inr tree"
    and run: "admitIntent now input key tree st = Inr (res, st')"
  shows "exec_step\<^sup>*\<^sup>* st st'"
proof -
  let ?k = "inId (obIntent input)" and ?r = "admittedResource now input key tree st"
  obtain m where m: "observeMutation now (admittedTree now input key tree st) (taskAt tree ?k) ?r (admittedInput now input key tree) = Inr m"
    and st': "commitTaskMutation now m st = Inr st'"
    using run unfolding admitIntent_def Let_def by (elim rbind_InrE) simp
  obtain ready where w: "muTasks m = [resourceWrite now (admittedTree now input key tree st) ?r ready]"
    using observeMutation_shape(1) [OF m] by blast
  from m have none: "muAttempts m = []" "muDeleteTasks m = []" "muDeleteAttempts m = []" "muCancellations m = []"
    by (auto simp: observeMutation_def Let_def rbind_Inr noMutation_def)
  have "keepsTask st ?r \<or> idlesTask st m ?r"
  proof (cases "taskAt tree ?k")
    case None
    have "readTask st ?k = None" by (rule admitIntent_absent [OF run None])
    moreover have "tkId ?r = ?k \<and> tkPhase ?r \<noteq> PhRunning \<and> tkCurrentAttemptId ?r = None \<and> tkObservedAttemptId ?r = None"
      using None by (auto simp: admittedResource_def observedResource_def createdResource_def Let_def)
    ultimately show ?thesis by (auto simp: idlesTask_def observes_def frees_def)
  next
    case (Some r)
    have id: "tkId r = ?k" using context_reflects [OF ok tree] Some by (auto simp: reflects_def)
    have "same_task r ?r"
      using observedResource_same [OF id] Some
      by (auto simp: admittedResource_def Let_def intro!: same_task_trans [OF observedResource_same [OF id] same_task_touch])
    with context_keeps [OF ok tree Some] show ?thesis by blast
  qed
  with w none have "retains st m" by (auto simp: retains_def executes_def resourceWrite_def)
  then show ?thesis using st' by (rule exec_commits)
qed

lemma observe_exec:
  assumes "execution_ok st" "observeAppTaskIntent now input st = Inr (res, st')"
  shows "exec_step\<^sup>*\<^sup>* st st'"
  using assms(2) by (cases rule: observe_cases) (auto intro: admitIntent_exec [OF assms(1)])

end
