(* ===== verification/Execution_Claims.thy ===== *)
theory Execution_Claims
  imports Execution_Operations
begin

text \<open>
  The claim of a Task: it starts the Task on a new attempt only when no attempt of it runs on, and it
  adopts an older failure record at most once.
\<close>

section \<open>Runs of steps\<close>

lemma recovery_frame:
  "readTask (snd (setRecoveryState now k u st)) t = readTask st t"
  "stAttempts (snd (setRecoveryState now k u st)) = stAttempts st"
  "stCancellations (snd (setRecoveryState now k u st)) = stCancellations st"
  by (auto simp: setRecoveryState_def Let_def readTask_def updateRow_def split: option.splits)

lemma wake_frame:
  assumes "persistExactTaskWake event target i t st = Inr st'"
  shows "stAttempts st' = stAttempts st" "stCancellations st' = stCancellations st"
    "readTask st' k = Some r' \<Longrightarrow> \<exists>r v. readTask st k = Some r \<and> r' = r\<lparr>tkVersion := v\<rparr>"
    "readTask st k = Some r \<Longrightarrow> \<exists>v. readTask st' k = Some (r\<lparr>tkVersion := v\<rparr>)"
proof -
  have same: "\<exists>v. r = r\<lparr>tkVersion := v\<rparr>" for r :: task_resource by (rule exI [of _ "tkVersion r"]) simp
  show "stAttempts st' = stAttempts st" "stCancellations st' = stCancellations st"
    by (rule persistExactTaskWake_cases [OF assms], simp, simp add: bumpRevision_def)+
  show "\<exists>r v. readTask st k = Some r \<and> r' = r\<lparr>tkVersion := v\<rparr>" if "readTask st' k = Some r'"
    using assms
  proof (cases rule: persistExactTaskWake_cases)
    case (2 k' row)
    with that same [of r'] show ?thesis by (auto simp: readTask_def bumpRevision_def split: if_splits)
  qed (use that same in auto)
  show "\<exists>v. readTask st' k = Some (r\<lparr>tkVersion := v\<rparr>)" if "readTask st k = Some r"
    using assms
  proof (cases rule: persistExactTaskWake_cases)
    case (2 k' row)
    with that same [of r] show ?thesis by (auto simp: readTask_def bumpRevision_def)
  qed (use that same [of r] in auto)
qed

lemma exec_ok_versions:
  assumes "exec_ok R A" and fwd: "\<And>k r'. R' k = Some r' \<Longrightarrow> \<exists>r v. R k = Some r \<and> r' = r\<lparr>tkVersion := v\<rparr>"
    and bwd: "\<And>k r. R k = Some r \<Longrightarrow> \<exists>v. R' k = Some (r\<lparr>tkVersion := v\<rparr>)"
  shows "exec_ok R' A"
  unfolding exec_ok_def
proof (intro conjI allI impI)
  fix k r' i a assume r': "R' k = Some r'"
  then obtain r v where r: "R k = Some r" "r' = r\<lparr>tkVersion := v\<rparr>" using fwd by blast
  have "tkCurrentAttemptId r \<noteq> Some [] \<and> (tkPhase r \<noteq> PhRunning \<longrightarrow> tkCurrentAttemptId r = None)"
    using assms(1) r(1) unfolding exec_ok_def by blast
  then show "tkCurrentAttemptId r' \<noteq> Some []"
    "tkPhase r' \<noteq> PhRunning \<Longrightarrow> tkCurrentAttemptId r' = None" by (simp_all add: r(2))
  show "atTaskId a = k" if "tkCurrentAttemptId r' = Some i \<or> tkObservedAttemptId r' = Some i" "A i = Some a"
    using exec_parts(3) [OF assms(1) r(1)] that by (simp add: r(2))
next
  fix i a assume "A i = Some a" "atState a = ARunning"
  from exec_parts(2) [OF assms(1) this] obtain r where r: "R (atTaskId a) = Some r" "tkCurrentAttemptId r = Some i" by blast
  with bwd [OF r(1)] show "\<exists>r. R' (atTaskId a) = Some r \<and> tkCurrentAttemptId r = Some i" by auto
qed

lemma wake_ok:
  assumes "execution_ok st" and wake: "persistExactTaskWake event target i t st = Inr st'"
  shows "execution_ok st'"
proof -
  have same: "readAttempt st' = readAttempt st" "isCancelled st' = isCancelled st" "attempts_filed st' = attempts_filed st"
    by (simp_all add: fun_eq_iff readAttempt_def isCancelled_def attempts_filed_def wake_frame(1,2) [OF wake])
  have "exec_ok (readTask st') (readAttempt st)"
    by (rule exec_ok_versions [of "readTask st"]) (use assms(1) wake_frame(3,4) [OF wake] in \<open>auto simp: execution_ok_def\<close>)
  moreover have "tkCurrentAttemptId r' = None" if "isCancelled st k" "readTask st' k = Some r'" for k r'
    using wake_frame(3) [OF wake that(2)] assms(1) that(1) by (auto simp: execution_ok_def)
  ultimately show ?thesis
    using assms(1) store_ok_woken [OF _ wake] by (simp add: execution_ok_def same)
qed

lemma exec_step_ok: "exec_step st st' \<Longrightarrow> execution_ok st \<Longrightarrow> execution_ok st'"
proof (induction rule: exec_step.induct)
  case (indexes st now k u)
  have "readTask (snd (setRecoveryState now k u st)) = readTask st" by (rule ext) (rule recovery_frame)
  with indexes store_ok_recovery [of st now k u] show ?case
    by (simp add: execution_ok_def attempts_filed_def readAttempt_def [abs_def] isCancelled_def recovery_frame)
qed (auto simp: retains_def intro: execution_commit wake_ok)

lemma exec_steps_ok: "exec_step\<^sup>*\<^sup>* st st' \<Longrightarrow> execution_ok st \<Longrightarrow> execution_ok st'"
  by (induction rule: rtranclp_induct) (auto intro: exec_step_ok)

lemma acknowledge_exec: "exec_step\<^sup>*\<^sup>* st (acknowledgeIndexedRecoveryWait now k n t st)"
  unfolding acknowledgeIndexedRecoveryWait_def by (blast intro: exec_step.indexes)

section \<open>Fresh identifiers\<close>

definition attemptIdOf :: "claim_env \<Rightarrow> nat \<Rightarrow> string" where
  "attemptIdOf env g = ''r_'' @ show_nat g @ ''_'' @ ceUuid env"

definition fresh :: "claim_env \<Rightarrow> task_store \<Rightarrow> bool" where
  "fresh env st \<longleftrightarrow> (\<forall>g. unused st (attemptIdOf env g))"

lemma unused_commit:
  assumes retains: "retains st m" and commit: "commitTaskMutation now m st = Inr st'" and i: "unused st i"
  shows "unused st' i"
proof -
  have ex: "executes st m" using retains by (simp add: retains_def)
  have steady: "keepsTask st (twResource w) \<or> idlesTask st m (twResource w)" if "w \<in> set (muTasks m)" for w
    using retains that by (simp add: retains_def)
  have "readAttempt st' i = None"
  proof (rule ccontr)
    assume "readAttempt st' i \<noteq> None"
    then obtain a where "readAttempt st' i = Some a" by blast
    with ex commit show False
    proof (cases rule: attempt_before)
      case (2 w)
      then have w: "tkPhase (twResource w) = PhRunning" "tkCurrentAttemptId (twResource w) = Some i" by (simp_all add: startsTask_def)
      from steady [OF 2(1)] show False
      proof
        assume "keepsTask st (twResource w)"
        then obtain r where "readTask st (tkId (twResource w)) = Some r" "same_task r (twResource w)" by (auto simp: keepsTask_def)
        with i w(2) show False unfolding unused_def same_task_def by metis
      qed (use w in \<open>simp add: idlesTask_def\<close>)
    qed (use i in \<open>simp add: unused_def\<close>)
  qed
  moreover have "tkCurrentAttemptId r \<noteq> Some i \<and> tkObservedAttemptId r \<noteq> Some i" if r: "readTask st' k = Some r" for k r
  proof -
    have none: "muDeleteTasks m = []" using ex by (simp add: executes_def)
    from commit none show ?thesis
    proof (cases rule: commit_task_cases [where k = k])
      case 1
      with r i show ?thesis by (auto simp: unused_def)
    next
      case (2 w)
      with r steady [of w] have "keepsTask st r \<or> idlesTask st m r" by auto
      then show ?thesis
      proof
        assume "keepsTask st r"
        then obtain r0 where "readTask st (tkId r) = Some r0" "same_task r0 r" by (auto simp: keepsTask_def)
        with i show ?thesis by (auto simp: unused_def same_task_def)
      next
        assume idle: "idlesTask st m r"
        have "tkObservedAttemptId r \<noteq> Some i"
        proof
          assume "tkObservedAttemptId r = Some i"
          with idle consider a where "readAttempt st i = Some a" | r0 where "readTask st (tkId r) = Some r0" "tkObservedAttemptId r0 = Some i"
            by (auto simp: idlesTask_def observes_def)
          then show False by cases (use i in \<open>auto simp: unused_def\<close>)
        qed
        with idle show ?thesis by (simp add: idlesTask_def)
      qed
    qed
  qed
  ultimately show ?thesis using i by (auto simp: unused_def)
qed

lemma scoped_fresh:
  assumes "context_ok st tree" "works st tree tree'" "finishResourceMutationScope now scope tree' = Inr m"
    and "msAttemptVersions scope = versionsOf tree" "commitTaskMutation now (m\<lparr>muAdmissions := ads\<rparr>) st = Inr st'"
  shows "exec_step\<^sup>*\<^sup>* st st'" and "fresh env st \<Longrightarrow> fresh env st'"
proof -
  show "exec_step\<^sup>*\<^sup>* st st'" using assms(1-5) by (intro scoped_commit) auto
  have "retains st (m\<lparr>muAdmissions := ads\<rparr>)" using scoped_step [OF assms(1-4)] by simp
  then show "fresh env st \<Longrightarrow> fresh env st'" using assms(5) unfolding fresh_def by (blast intro: unused_commit)
qed

section \<open>Adopting an older failure record\<close>

lemma normalize_frame [simp]:
  "tkId (normalizeFailures st r0 r) = tkId r" "tkPhase (normalizeFailures st r0 r) = tkPhase r"
  "tkCurrentAttemptId (normalizeFailures st r0 r) = tkCurrentAttemptId r"
  "tkObservedAttemptId (normalizeFailures st r0 r) = tkObservedAttemptId r"
  by (simp_all add: normalizeFailures_def)

lemma context_attempt:
  assumes "context_ok st tree" "readAttempt st i = Some a"
  shows "context_ok st (tree\<lparr>trAttempts := dset (trAttempts tree) (atId a) a\<rparr>)"
proof -
  have "atId a = i" using assms by (auto simp: context_ok_def execution_ok_def attempts_filed_def)
  have "reflects st (tree\<lparr>trAttempts := dset (trAttempts tree) (atId a) a\<rparr>)"
    using assms \<open>atId a = i\<close> by (auto simp: context_ok_def reflects_def split: if_splits)
  moreover have "attemptAt (tree\<lparr>trAttempts := dset (trAttempts tree) (atId a) a\<rparr>) j = Some b"
    if "taskAt tree k = Some r" "tkCurrentAttemptId r = Some j" "readAttempt st j = Some b" for k r j b
    using that assms \<open>atId a = i\<close> by (cases "j = i") (simp_all add: context_ok_def reflects_current_def)
  ultimately show ?thesis using assms(1) by (simp add: context_ok_def reflects_current_def)
qed

lemma settlePhase_retry [simp]:
  "tkRetryExhausted (settlePhase r) = tkRetryExhausted r" "tkExecutionFailureAttemptId (settlePhase r) = tkExecutionFailureAttemptId r"
  "tkExecutionFailures (settlePhase r) = tkExecutionFailures r" "tkCurrentAttemptId (settlePhase r) = tkCurrentAttemptId r"
  by (simp_all add: settlePhase_def)

lemma exhaustedTree_works:
  assumes ctx: "context_ok st tree" and a: "attemptAt tree (atId a) = Some a"
    and r: "taskAt tree k = Some r" "tkId r = k" "tkCurrentAttemptId r = None"
    and run: "exhaustedTree cx st now r a tree = Inr (tree', writes)"
  shows "works st tree tree'" and "\<exists>r'. taskAt tree' k = Some r' \<and> tkRetryExhausted r' \<noteq> None \<and> tkExecutionFailureAttemptId r' \<noteq> None"
proof -
  define mark where "mark = \<lparr>reGeneration = atTaskGeneration a, reAttemptId = atId a,
      reFailures = countOr (fst (executionFailureSequence st r)),
      reLimit = (case failureLimit cx of Limit n \<Rightarrow> n | Unlimited \<Rightarrow> 0), reExhaustedAt = now\<rparr>"
  define a' where "a' = a\<lparr>atRetryExhausted := Some mark, atVersion := atVersion a + 1\<rparr>"
  define s where "s = ''Automatic retries exhausted under current policy; owner repair or explicit retry required. '' @
      (case atSummary a of Some s \<Rightarrow> s | None \<Rightarrow> [])"
  from run obtain keys t2 input where
    t2: "inputOutcomeAdmissions st (refOf (tkId r) a') input (KFeedback RFailure)
      (tree\<lparr>trAttempts := dset (trAttempts tree) (atId a) a'\<rparr>) = Inr (keys, writes, t2)"
    and tree': "tree' = updResource (tkId r) (touchResource now (\<lambda>r1. (normalizeFailures st r r1)\<lparr>tkPhase := PhAttention,
        tkRetryExhausted := Some mark, tkExecutionRetryAt := None, tkSummary := Some s\<rparr>)) t2"
    unfolding exhaustedTree_def Let_def mark_def [symmetric] a'_def [symmetric] s_def [symmetric]
    by (elim rbind_InrE) (simp add: case_prod_unfold prod_eq_iff, metis prod.collapse)
  have a': "same_attempt a a'" by (simp add: a'_def same_attempt_def)
  have "tree\<lparr>trAttempts := dset (trAttempts tree) (atId a) a'\<rparr> = updAttempt (atId a) (\<lambda>_. a') tree"
    using a by (simp add: updAttempt_def)
  then have "moves {k} {atId a} tree (tree\<lparr>trAttempts := dset (trAttempts tree) (atId a) a'\<rparr>)"
    using a a' by (simp only:) (rule moves_updAttempt, simp_all)
  then have m: "moves {k} {atId a} tree t2" by (rule moves_trans [OF _ moves_inputOutcome [OF t2]]) (simp add: refOf_def r(2))
  from moves_task [OF m r(1)] obtain r2 where r2: "taskAt t2 k = Some r2" "same_task r r2" .
  have cur: "tkCurrentAttemptId r2 = None" using r2(2) r(3) by (simp add: same_task_def)
  show "works st tree tree'" unfolding tree' r(2) using ctx
    by (intro works_idle [OF _ _ _ works_moves [OF context_works [OF ctx] m] r2(1)]) (simp_all add: context_ok_def cur)
  show "\<exists>r'. taskAt tree' k = Some r' \<and> tkRetryExhausted r' \<noteq> None \<and> tkExecutionFailureAttemptId r' \<noteq> None"
    using r2(1) by (simp add: tree' r(2) taskAt_updResource touchResource_def normalizeFailures_def)
qed

text \<open>A scope's Tasks are read back as they were worked on.\<close>

lemma scoped_read:
  assumes "works st tree tree'" "finishResourceMutationScope now scope tree' = Inr m" "k \<in> set (msWriteTaskIds scope)"
    and "taskAt tree' k = Some r" "commitTaskMutation now (m\<lparr>muAdmissions := ads\<rparr>) st = Inr st'"
  shows "readTask st' k = Some r"
proof -
  from assms(2) obtain W where W: "set (msWriteTaskIds scope) \<subseteq> W"
    and tasks: "twResource ` set (muTasks m) = {r. \<exists>k \<in> W. taskAt tree' k = Some r}" and none: "muDeleteTasks m = []" by (rule finishScope)
  have same: "r' = r" if "r' \<in> twResource ` set (muTasks m)" "tkId r' = k" for r'
    using that assms(1,4) by (auto simp: tasks works_def)
  have "r \<in> twResource ` set (muTasks m)" "tkId r = k" using assms(1,3,4) W by (auto simp: tasks works_def)
  then obtain w where "w \<in> set (muTasks m)" "tkId (twResource w) = k" by blast
  with none same show ?thesis by (cases rule: commit_task_cases [OF assms(5), where k = k]) auto
qed

definition adopted :: "task_context \<Rightarrow> task_resource \<Rightarrow> bool" where
  "adopted cx r \<longleftrightarrow> tkExecutionFailureAttemptId r \<noteq> None \<and> (\<forall>st. withinAllowance cx st r)"

lemma adopted_settled: "adopted cx r \<Longrightarrow> exhaustRetainedFailures cx now tree r st = Inr None"
  by (simp add: adopted_def exhaustRetainedFailures_def)

lemma sequence_adopted:
  "tkExecutionFailureAttemptId r = Some i \<Longrightarrow> executionFailureSequence st r = (tkExecutionFailures r, i)"
  by (simp add: executionFailureSequence_def)

lemma normalized_adopted:
  "withinAllowance cx st r \<Longrightarrow> adopted cx (touchResource now (normalizeFailures st r) r)"
  by (auto simp: adopted_def withinAllowance_def touchResource_def normalizeFailures_def sequence_adopted split: failure_limit.splits)

lemma failedReference_stored:
  assumes "failedReference st r = Inr a"
  obtains i where "readAttempt st i = Some a"
  using assms that by (auto simp: failedReference_def split: option.splits Option.bind_splits if_splits)

lemma scope_writes: "k \<noteq> [] \<Longrightarrow> k \<in> set (msWriteTaskIds (beginResourceMutationScopeForTasks tree [k]))"
  by (auto simp: beginResourceMutationScopeForTasks_def trackResourceMutationTask_def fenceResourceMutationTask_def Let_def split: option.splits)

lemma adopt_exec:
  assumes ctx: "context_ok st tree" and r: "taskAt tree k = Some r" and named: "k \<noteq> []"
    and run: "exhaustRetainedFailures cx now tree r st = Inr (Some st')"
  shows "exec_step\<^sup>*\<^sup>* st st' \<and> (\<forall>env. fresh env st \<longrightarrow> fresh env st') \<and> (\<exists>r'. readTask st' k = Some r' \<and> adopted cx r')"
proof -
  have k: "tkId r = k" using context_filed [OF ctx r] .
  show ?thesis
  proof (cases "withinAllowance cx st r")
    case True
    let ?t = "updResource k (touchResource now (normalizeFailures st r)) tree"
    from True run k obtain m where m: "finishResourceMutationScope now (beginResourceMutationScopeForTasks tree [k]) ?t = Inr m"
      and st': "commitTaskMutation now m st = Inr st'"
      by (auto simp: exhaustRetainedFailures_def rbind_Inr split: if_splits)
    have "moves {k} {} tree ?t" by (rule moves_updResource) (simp_all add: same_task_touch)
    from works_moves [OF context_works [OF ctx] this] have w: "works st tree ?t" .
    have "muAdmissions m = []" using m by (auto simp: finishResourceMutationScope_def Let_def rbind_Inr noMutation_def)
    then have "m\<lparr>muAdmissions := []\<rparr> = m" by simp
    with st' have st': "commitTaskMutation now (m\<lparr>muAdmissions := []\<rparr>) st = Inr st'" by simp
    have "readTask st' k = Some (touchResource now (normalizeFailures st r) r)"
      by (rule scoped_read [OF w m scope_writes [OF named] _ st']) (simp add: r taskAt_updResource)
    with scoped_fresh [OF ctx w m _ st'] normalized_adopted [OF True] show ?thesis by simp
  next
    case False
    then have cur: "tkCurrentAttemptId r = None"
      using ctx r exec_parts(4) [of "readTask st" "readAttempt st" k r]
      by (auto simp: withinAllowance_def whenText_def context_ok_def execution_ok_def reflects_def split: option.splits if_splits)
    from False run obtain a where a: "failedReference st r = Inr a" by (auto simp: exhaustRetainedFailures_def rbind_Inr)
    define t0 where "t0 = tree\<lparr>trAttempts := dset (trAttempts tree) (atId a) a\<rparr>"
    from False run a k obtain t' writes m where t': "exhaustedTree cx st now r a t0 = Inr (t', writes)"
      and m: "finishResourceMutationScope now (beginResourceMutationScopeForTasks t0 [k]) t' = Inr m"
      and st': "commitTaskMutation now (m\<lparr>muAdmissions := writes\<rparr>) st = Inr st'"
      by (auto simp: exhaustRetainedFailures_def rbind_Inr Let_def t0_def)
    from a obtain i where "readAttempt st i = Some a" by (rule failedReference_stored)
    from context_attempt [OF ctx this] have ctx0: "context_ok st t0" unfolding t0_def .
    have at: "attemptAt t0 (atId a) = Some a" "taskAt t0 k = Some r" by (simp_all add: t0_def r)
    note w = exhaustedTree_works(1) [OF ctx0 at k cur t']
    from exhaustedTree_works(2) [OF ctx0 at k cur t'] obtain r' where r': "taskAt t' k = Some r'"
      "tkRetryExhausted r' \<noteq> None" "tkExecutionFailureAttemptId r' \<noteq> None" by blast
    have "readTask st' k = Some r'" by (rule scoped_read [OF w m scope_writes [OF named] r'(1) st'])
    moreover have "adopted cx r'" using r' by (simp add: adopted_def withinAllowance_def)
    ultimately show ?thesis using scoped_fresh [OF ctx0 w m _ st'] by simp
  qed
qed

section \<open>Refused admissions\<close>

lemma interrupted_same: "same_attempt a (a\<lparr>atFailureReason := x\<rparr>)"
  by (simp add: same_attempt_def)

lemma previous_Some:
  assumes "context_ok st tree" "currentResourceAttempt tree r = Inr (Some a)"
  shows "tkCurrentAttemptId r = Some (atId a)" "attemptAt tree (atId a) = Some a"
  using assms(2) context_named [OF assms(1)]
  by (auto simp: currentResourceAttempt_def whenText_def split: if_splits option.splits)

lemma previous_None:
  assumes "context_ok st tree" "currentResourceAttempt tree r = Inr None" "tkCurrentAttemptId r = Some i" "attemptAt tree i = Some a"
  shows "atState a \<noteq> ARunning"
  using assms(2-4) context_named [OF assms(1,4)]
  by (auto simp: currentResourceAttempt_def whenText_def split: if_splits option.splits)

text \<open>The tree a claim works on: a running Task without its attempt is pending first.\<close>

definition claimTree :: "string \<Rightarrow> int \<Rightarrow> task_attempt option \<Rightarrow> task_resource \<Rightarrow> task_tree \<Rightarrow> task_tree" where
  "claimTree k now previous r tree =
     (if tkPhase r = PhRunning \<and> previous = None then requeueWithoutAttempt k now r tree else tree)"

lemma claimTree_works:
  assumes "context_ok st tree" "taskAt tree k = Some r" "currentResourceAttempt tree r = Inr previous"
  shows "works st tree (claimTree k now previous r tree)"
proof -
  have "tkId r = k" using context_filed [OF assms(1,2)] .
  then show ?thesis
    using requeue_works [OF assms(1) context_works [OF assms(1)], of r now] assms context_works [OF assms(1)]
    by (auto simp: claimTree_def dest: previous_None)
qed

lemma requeue_quiet:
  assumes "taskAt tree k = Some r"
  obtains r1 where "taskAt (requeueWithoutAttempt k now r tree) k = Some r1" "tkPhase r1 \<noteq> PhRunning"
  using assms that by (cases "whenText (tkCurrentAttemptId r)") (auto simp: requeueWithoutAttempt_def Let_def taskAt_updResource)

lemma claimTree_quiet:
  assumes "taskAt tree k = Some r"
  obtains r1 where "taskAt (claimTree k now None r tree) k = Some r1" "tkPhase r1 \<noteq> PhRunning"
proof (cases "tkPhase r = PhRunning")
  case True
  from assms obtain r1 where "taskAt (requeueWithoutAttempt k now r tree) k = Some r1" "tkPhase r1 \<noteq> PhRunning"
    by (rule requeue_quiet)
  with True that show ?thesis by (simp add: claimTree_def)
qed (use assms that in \<open>simp add: claimTree_def\<close>)

definition refuse :: "int \<Rightarrow> string \<Rightarrow> task_resource \<Rightarrow> task_resource" where
  "refuse now summary = (\<lambda>r. let failures = countOr (tkAdmissionFailures r) + 1
     in r\<lparr>tkPhase := PhPending, tkAdmissionFailures := Some failures,
          tkExecutionRetryAt := Some (num_int (now + taskAdmissionRetryDelay (int failures))),
          tkFreshHumanInput := False, tkObservedGeneration := tkGeneration r,
          tkCurrentAttemptId := None, tkSummary := Some summary\<rparr>)"

lemma refuse_frame [simp]:
  "tkId (refuse now s r) = tkId r" "tkPhase (refuse now s r) = PhPending" "tkCurrentAttemptId (refuse now s r) = None"
  "tkObservedAttemptId (refuse now s r) = tkObservedAttemptId r"
  by (simp_all add: refuse_def Let_def)

lemma releasing_refuse: "releasing i (refuse now s)"
  by (simp add: releasing_def)

lemma refused_works:
  assumes ctx: "context_ok st tree" and r: "taskAt tree k = Some r" and previous: "currentResourceAttempt tree r = Inr previous"
  shows "works st tree (updResource k (touchResource now (refuse now s))
    (case previous of Some a \<Rightarrow> interruptPrevious k s now a tree | None \<Rightarrow> claimTree k now None r tree))"
proof (cases previous)
  case None
  from r obtain r1 where r1: "taskAt (claimTree k now None r tree) k = Some r1" "tkPhase r1 \<noteq> PhRunning" by (rule claimTree_quiet)
  have "works st tree (claimTree k now None r tree)" using claimTree_works [OF ctx r] previous None by simp
  then have "works st tree (updResource k (touchResource now (refuse now s)) (claimTree k now None r tree))"
    using r1 by (intro idle_works [OF ctx _ r1]) simp_all
  then show ?thesis by (simp add: None)
next
  case (Some a)
  note p = previous_Some [OF ctx previous [unfolded Some]]
  show ?thesis unfolding Some option.case interruptPrevious_def
    by (rule task_settles [OF ctx ctx r p moves_refl _ moves_updAttempt releasing_refuse moves_refl r p(1)]) simp_all
qed

lemma failAdmission_exec:
  assumes ctx: "context_ok st tree" and r: "taskAt tree k = Some r" and previous: "currentResourceAttempt tree r = Inr previous"
    and k: "clTaskId input = k"
    and run: "failAdmission env input now s previous (beginResourceMutationScopeForTasks tree [k]) (claimTree k now previous r tree) st = Inr (res, st')"
  shows "exec_step\<^sup>*\<^sup>* st st'"
proof (cases "st' = st")
  case False
  let ?t = "updResource k (touchResource now (refuse now s))
      (case previous of Some a \<Rightarrow> interruptPrevious k s now a tree | None \<Rightarrow> claimTree k now None r tree)"
  have tree: "claimTree k now (Some a) r tree = tree" for a by (simp add: claimTree_def)
  from run False obtain m where m: "finishResourceMutationScope now (beginResourceMutationScopeForTasks tree [k]) ?t = Inr m"
    and st': "commitTaskMutation now m st = Inr st'"
    unfolding failAdmission_def Let_def k refuse_def
    by (cases previous; cases "canRecoverRuntime env input previous") (auto simp: rbind_Inr tree)
  show ?thesis using refused_works [OF ctx r previous] st' by (intro scoped_commit [OF ctx _ m]) auto
qed simp

section \<open>Starting an attempt\<close>

definition attempts_ok :: "task_tree \<Rightarrow> task_tree \<Rightarrow> bool" where
  "attempts_ok tree t \<longleftrightarrow> (\<forall>i. rel_option (\<lambda>a a'. same_attempt a a' \<or> ended a a') (attemptAt tree i) (attemptAt t i))"

lemma attempts_ok_works: "works st tree t \<Longrightarrow> attempts_ok tree t"
  by (simp add: works_def attempts_ok_def)

lemma attempts_ok_upd:
  assumes "attempts_ok tree t" "\<And>a b. same_attempt a b \<or> ended a b \<Longrightarrow> same_attempt a (f b) \<or> ended a (f b)"
  shows "attempts_ok tree (updAttempt i f t)"
  unfolding attempts_ok_def
proof
  fix j
  have "rel_option (\<lambda>a a'. same_attempt a a' \<or> ended a a') (attemptAt tree j) (attemptAt t j)" using assms(1) by (simp add: attempts_ok_def)
  then show "rel_option (\<lambda>a a'. same_attempt a a' \<or> ended a a') (attemptAt tree j) (attemptAt (updAttempt i f t) j)"
    using assms(2) by (cases "attemptAt tree j"; cases "attemptAt t j") (auto simp: attemptAt_updAttempt)
qed

lemma ended_settled: "same_attempt a b \<or> ended a b \<Longrightarrow> ended a (settledAttempt AInterrupted s now b)"
  by (auto simp: same_attempt_def ended_def settledAttempt_def)

lemma interrupt_attempts:
  assumes "attempts_ok tree t"
  shows "attempts_ok tree (interruptPrevious k s now a t)"
proof -
  have "attempts_ok tree (finishAttempt k AInterrupted s now t)"
    using assms attempts_ok_upd [OF assms, of "settledAttempt AInterrupted s now"]
    by (auto simp: finishAttempt_def attempts_ok_def ended_settled split: option.splits)
  then show ?thesis unfolding interruptPrevious_def
    by (rule attempts_ok_upd) (auto simp: same_attempt_def ended_def)
qed

text \<open>After the interruption the Task's former attempt does not run.\<close>

lemma interrupt_ends:
  assumes ctx: "context_ok st tree" and w: "works st tree t" and rt: "taskAt t k = Some rt"
    and r: "readTask st k = Some r" "tkCurrentAttemptId r = Some j" "readAttempt st j = Some a" "atState a = ARunning"
  shows "\<exists>a'. attemptAt (interruptPrevious k s now p t) j = Some a' \<and> ended a a'"
proof -
  have j: "j \<noteq> []" using ctx r(3) by (auto simp: context_ok_def execution_ok_def attempts_filed_def)
  have k: "tkId rt = k" "taskAt tree k \<noteq> None" "keepsTask st rt \<or> rests st tree t rt" using w rt by (auto simp: works_def)
  have reason: "ended a b \<Longrightarrow> ended a (b\<lparr>atFailureReason := x\<rparr>)" for b x by (simp add: ended_def)
  from k(3) show ?thesis
  proof
    assume "keepsTask st rt"
    with r k(1) have cur: "tkCurrentAttemptId rt = Some j" by (auto simp: keepsTask_def same_task_def)
    from k(2) obtain r0 where r0: "taskAt tree k = Some r0" by blast
    with ctx r(1) have "r0 = r" by (auto simp: context_ok_def reflects_def)
    with ctx r0 r(2,3) have "attemptAt tree j = Some a" unfolding context_ok_def reflects_current_def by blast
    with w obtain b where b: "attemptAt t j = Some b" "same_attempt a b \<or> ended a b"
      by (auto simp: works_def option_rel_Some1 dest!: spec [of _ j])
    show ?thesis unfolding interruptPrevious_def finishAttempt_current [OF rt cur j b(1)]
      using ended_settled [OF b(2)] b(1) by (auto simp: attemptAt_updAttempt reason)
  next
    assume "rests st tree t rt"
    with r k(1) obtain b where b: "attemptAt t j = Some b" "ended a b" by (auto simp: rests_def)
    have "\<exists>b'. attemptAt (finishAttempt k AInterrupted s now t) j = Some b' \<and> ended a b'"
      using b ended_settled [of a b] by (auto simp: finishAttempt_def attemptAt_updAttempt split: option.splits)
    then show ?thesis by (auto simp: interruptPrevious_def attemptAt_updAttempt reason)
  qed
qed

lemma interrupt_task:
  assumes "taskAt t k = Some r"
  obtains r1 where "taskAt (interruptPrevious k s now a t) k = Some r1" "tkId r1 = tkId r" "tkObservedAttemptId r1 = tkObservedAttemptId r"
proof -
  have "\<exists>r1. taskAt (interruptPrevious k s now a t) k = Some r1 \<and> tkId r1 = tkId r \<and> tkObservedAttemptId r1 = tkObservedAttemptId r"
    using assms by (auto simp: interruptPrevious_def finishAttempt_def taskAt_updResource split: option.split)
  then show ?thesis using that by blast
qed

lemma works_observes:
  assumes "works st tree t" "taskAt t k = Some r"
  shows "observes st r"
proof -
  from assms have "keepsTask st r \<or> observes st r" by (auto simp: works_def rests_def)
  then show ?thesis by (auto simp: keepsTask_def observes_def same_task_def)
qed

text \<open>
  \<open>t1\<close> is the tree the new attempt is put into. The attempt the Task had, if it still runs in the store, is
  among those the claim writes, and it does not run in \<open>t1\<close>.
\<close>

lemma start_exec:
  assumes refl: "reflects st tree" and at: "attempts_ok tree t1"
    and r1: "taskAt t1 k = Some r1" "tkId r1 = k" "observes st r1"
    and new: "atId a = i" "atTaskId a = k" "unused st i" and live: "\<not> isCancelled st k"
    and busy: "\<And>r j b. readTask st k = Some r \<Longrightarrow> tkCurrentAttemptId r = Some j \<Longrightarrow> readAttempt st j = Some b \<Longrightarrow> atState b = ARunning \<Longrightarrow>
      j \<in> set changed \<and> (\<exists>b'. attemptAt t1 j = Some b' \<and> ended b b')"
    and t2: "t2 = updResource k (startAttempt i now) (leaveEvents k agent es (t1\<lparr>trAttempts := dset (trAttempts t1) i a\<rparr>))"
    and changed: "i \<in> set changed" and running: "atState a = ARunning"
    and commit: "commitTaskMutation now (claimMutation now k plan changed t2 (the (taskAt t2 k))) st = Inr st'"
  shows "exec_step st st'"
proof -
  let ?m = "claimMutation now k plan changed t2 (the (taskAt t2 k))"
  define r' where "r' = startAttempt i now r1"
  have r': "taskAt t2 k = Some r'" by (simp add: t2 taskAt_updResource r1(1) r'_def)
  have tasks: "muTasks ?m = [resourceWrite now t2 r' False]" by (simp add: claimMutation_def Let_def r' noMutation_def)
  have none: "muDeleteTasks ?m = []" "muDeleteAttempts ?m = []" "muCancellations ?m = []"
    by (simp_all add: claimMutation_def Let_def noMutation_def)
  have atts: "set (muAttempts ?m) = {b. \<exists>c \<in> set changed. attemptAt t2 c = Some b}"
    by (force simp: claimMutation_def Let_def noMutation_def List.map_filter_def)
  have t2at: "attemptAt t2 c = (if c = i then Some a else attemptAt t1 c)" for c by (simp add: t2)
  have old: "atId b = c \<and> keepsAttempt st b \<and> c \<noteq> i" if "attemptAt t1 c = Some b" for b c
  proof -
    from at that obtain b0 where "attemptAt tree c = Some b0" "same_attempt b0 b \<or> ended b0 b"
      by (auto simp: attempts_ok_def option_rel_Some2 dest!: spec [of _ c])
    with refl new(3) show ?thesis by (auto simp: reflects_def keepsAttempt_def same_attempt_def ended_def unused_def)
  qed
  have fields: "tkId r' = k" "tkPhase r' = PhRunning" "tkCurrentAttemptId r' = Some i" "observes st r'"
    using r1 by (simp_all add: r'_def startAttempt_def observes_def)
  have written: "atTaskId b = k" if "b \<in> set (muAttempts ?m)" "atId b = i" for b
    using that old new(2) by (auto simp: atts t2at split: if_splits)
  have "frees st ?m k" unfolding frees_def
  proof (intro allI impI)
    fix r j b assume r: "readTask st k = Some r" "tkCurrentAttemptId r = Some j" "readAttempt st j = Some b" "atState b = ARunning"
    from busy [OF this] obtain b' where b': "j \<in> set changed" "attemptAt t1 j = Some b'" "ended b b'" by blast
    then have "attemptAt t2 j = Some b'" "atId b' = j" using old [OF b'(2)] by (simp_all add: t2at)
    moreover have "c = b'" if "c \<in> set (muAttempts ?m)" "atId c = j" for c
      using that old new(1) old [OF b'(2)] b'(2) by (fastforce simp: atts t2at split: if_splits)
    ultimately show "(\<exists>c\<in>set (muAttempts ?m). atId c = j) \<and> (\<forall>c\<in>set (muAttempts ?m). atId c = j \<longrightarrow> atState c \<noteq> ARunning)"
      using b' by (fastforce simp: atts ended_def)
  qed
  then have start: "startsTask st ?m r' i"
    using fields new(3) live written by (simp add: startsTask_def tasks resourceWrite_def)
  moreover have "keepsAttempt st b \<or> startsAttempt st ?m b" if "b \<in> set (muAttempts ?m)" for b
    using that old start new(1) by (auto simp: atts t2at startsAttempt_def tasks resourceWrite_def split: if_splits)
  ultimately have "executes st ?m" using none by (auto simp: executes_def tasks resourceWrite_def)
  moreover have "a \<in> set (muAttempts ?m)" using changed by (auto simp: atts t2at)
  moreover have "b = a" if "b \<in> set (muAttempts ?m)" "atId b = atId a" for b
    using that old new(1) by (auto simp: atts t2at split: if_splits)
  ultimately show ?thesis
    using start new(1) running commit by (blast intro: exec_step.starts [OF _ tasks, unfolded resourceWrite_def task_write.simps])
qed

lemma commitClaim_exec:
  assumes ctx: "context_ok st tree" and w: "works st tree t" and rt: "taskAt t k = Some rt" and k: "clTaskId input = k"
    and live: "\<not> isCancelled st k" and fresh: "fresh env st"
    and busy: "\<And>r j b. readTask st k = Some r \<Longrightarrow> tkCurrentAttemptId r = Some j \<Longrightarrow> readAttempt st j = Some b \<Longrightarrow> atState b = ARunning \<Longrightarrow>
      cpnCanRecover plan \<and> (\<exists>a. cpnPrevious plan = Some a \<and> atId a = j)"
    and run: "commitClaim cx env input now plan reviewDue rt t st = Inr (res, st')"
  shows "exec_step\<^sup>*\<^sup>* st st'"
proof (cases "st' = st")
  case False
  define t1 where "t1 = (case (cpnCanRecover plan, cpnPrevious plan) of
      (True, Some a) \<Rightarrow> interruptPrevious k ''Previous runtime attempt was superseded during recovery'' now a t | _ \<Rightarrow> t)"
  define changed where "changed i = cpnChanged plan @ (case (cpnCanRecover plan, cpnPrevious plan) of (True, Some a) \<Rightarrow> [atId a] | _ \<Rightarrow> []) @ [i]" for i :: string
  define claimed es where "claimed = claimedEvents rt (cpnPending plan)" and "es = remainingEvents rt (cpnPending plan)"
  define a where "a = newAttempt env input now plan rt claimed es (continuedTaskInputKeys t k claimed (readyConditionIds t k) now)
      (claimTrigger cx input plan claimed reviewDue)"
  let ?t2 = "updResource k (startAttempt (atId a) now) (leaveEvents k (cpnAgent plan) es (t1\<lparr>trAttempts := dset (trAttempts t1) (atId a) a\<rparr>))"
  have id: "atId a = attemptIdOf env (tkGeneration rt)" "atTaskId a = k" by (simp_all add: a_def newAttempt_def attemptIdOf_def k)
  have st': "commitTaskMutation now (claimMutation now k plan (changed (atId a)) ?t2 (the (taskAt ?t2 k))) st = Inr st'"
    using run False unfolding commitClaim_def Let_def k t1_def [symmetric] claimed_def [symmetric] es_def [symmetric] a_def [symmetric] changed_def [symmetric]
    by (elim rbind_InrE) (auto split: sum.split_asm if_split_asm)
  have at: "attempts_ok tree t1"
    using attempts_ok_works [OF w] interrupt_attempts by (auto simp: t1_def split: bool.splits option.splits)
  obtain r1 where r1: "taskAt t1 k = Some r1" "tkId r1 = tkId rt" "tkObservedAttemptId r1 = tkObservedAttemptId rt"
  proof (cases "cpnCanRecover plan \<and> cpnPrevious plan \<noteq> None")
    case True
    then obtain p where "t1 = interruptPrevious k ''Previous runtime attempt was superseded during recovery'' now p t" by (auto simp: t1_def)
    with that interrupt_task [OF rt] show ?thesis by metis
  next
    case False
    then have "t1 = t" by (auto simp: t1_def split: bool.splits option.splits)
    with that rt show ?thesis by simp
  qed
  have kt: "tkId rt = k" using w rt by (auto simp: works_def)
  have "observes st r1" using works_observes [OF w rt] r1 by (simp add: observes_def)
  have "exec_step st st'"
  proof (rule start_exec [OF _ at r1(1) _ \<open>observes st r1\<close> refl id(2) _ live])
    show "reflects st tree" using ctx by (simp add: context_ok_def)
    show "tkId r1 = k" using r1 kt by simp
    show "unused st (atId a)" using fresh id(1) by (simp add: fresh_def)
    show "atId a \<in> set (changed (atId a))" by (simp add: changed_def)
    show "commitTaskMutation now (claimMutation now k plan (changed (atId a)) ?t2 (the (taskAt ?t2 k))) st = Inr st'" by (rule st')
    fix r j b assume r: "readTask st k = Some r" "tkCurrentAttemptId r = Some j" "readAttempt st j = Some b" "atState b = ARunning"
    from busy [OF this] obtain p where p: "cpnCanRecover plan" "cpnPrevious plan = Some p" "atId p = j" by blast
    then show "j \<in> set (changed (atId a)) \<and> (\<exists>b'. attemptAt t1 j = Some b' \<and> ended b b')"
      using interrupt_ends [OF ctx w rt r] by (simp add: changed_def t1_def)
  qed (simp_all add: a_def newAttempt_def)
  then show ?thesis by (rule r_into_rtranclp)
qed simp

lemma untriggered_works:
  assumes ctx: "context_ok st tree" and r: "taskAt tree k = Some r" and previous: "currentResourceAttempt tree r = Inr (Some a)"
  shows "works st tree (releaseUntriggered k now a tree)"
proof -
  note p = previous_Some [OF ctx previous]
  let ?s = "''Previous runtime attempt had no persisted trigger; retrying from current task facts''"
  have f: "releasing (atId a) (\<lambda>r. r\<lparr>tkPhase := PhPending, tkCurrentAttemptId := None, tkSummary := Some ?s\<rparr>)" by (simp add: releasing_def)
  have m: "moves {k} {atId a} (finishAttempt k AInterrupted ?s now tree)
      (updAttempt (atId a) (\<lambda>a. a\<lparr>atVersion := atVersion a + 1\<rparr>) (interruptPrevious k ?s now a tree))"
    unfolding interruptPrevious_def
    by (rule moves_trans [OF moves_updAttempt moves_updAttempt]) (simp_all add: same_attempt_def)
  show ?thesis unfolding releaseUntriggered_def Let_def
    by (rule task_settles [OF ctx ctx r p moves_refl _ m f moves_refl r p(1)]) simp
qed

text \<open>A stored attempt that runs is the one the claim found.\<close>

lemma previous_found:
  assumes ctx: "context_ok st tree" and r: "taskAt tree k = Some r" and previous: "currentResourceAttempt tree r = Inr previous"
    and j: "readTask st k = Some r0" "tkCurrentAttemptId r0 = Some j" "readAttempt st j = Some b" "atState b = ARunning"
  shows "tkPhase r = PhRunning" "\<exists>a. previous = Some a \<and> atId a = j"
proof -
  have r0: "r0 = r" using ctx r j(1) by (auto simp: context_ok_def reflects_def)
  show "tkPhase r = PhRunning"
    using exec_parts(1) [of "readTask st" "readAttempt st" k r] ctx j(1,2) r0 by (auto simp: context_ok_def execution_ok_def)
  have b: "attemptAt tree j = Some b" using ctx r j(2,3) r0 unfolding context_ok_def reflects_current_def by blast
  then have "atId b = j" "j \<noteq> []" using context_named [OF ctx b] by simp_all
  moreover have "previous = Some b"
    using previous b j(2,4) r0 \<open>j \<noteq> []\<close>
    by (cases "atTaskId b = tkId r") (simp_all add: currentResourceAttempt_def)
  ultimately show "\<exists>a. previous = Some a \<and> atId a = j" by blast
qed

lemma claimGuarded_exec:
  assumes ctx: "context_ok st tree" and r: "taskAt tree k = Some r" and previous: "currentResourceAttempt tree r = Inr previous"
    and k: "clTaskId input = k" and live: "\<not> isCancelled st k" and fresh: "fresh env st"
    and plan: "cpnPrevious plan = previous"
    and run: "claimGuarded cx env input now plan (claimTree k now previous r tree) st = Inr (res, st')"
  shows "exec_step\<^sup>*\<^sup>* st st'"
proof -
  define pending where "pending = dget (trTriggers (claimTree k now previous r tree)) k"
  define hasTrigger where "hasTrigger \<longleftrightarrow> pending \<noteq> None \<or> Option.bind previous attemptTrigger \<noteq> None"
  define t where "t = (case previous of
      Some a \<Rightarrow> if cpnCanRecover plan \<and> \<not> hasTrigger then releaseUntriggered k now a (claimTree k now previous r tree)
        else claimTree k now previous r tree
    | None \<Rightarrow> claimTree k now previous r tree)"
  define changed where "changed = (case previous of Some a \<Rightarrow> if cpnCanRecover plan \<and> \<not> hasTrigger then [atId a] else [] | None \<Rightarrow> [])"
  let ?plan = "plan\<lparr>cpnPending := pendingClaimEvents previous pending, cpnChanged := cpnChanged plan @ changed\<rparr>"
  have same: "claimTree k now (Some a) r tree = tree" for a by (simp add: claimTree_def)
  have w: "works st tree t"
    using claimTree_works [OF ctx r previous] untriggered_works [OF ctx r] previous context_works [OF ctx]
    by (auto simp: t_def same split: option.splits)
  note unfold = claimGuarded_def Let_def k plan pending_def [symmetric] hasTrigger_def [symmetric] t_def [symmetric] changed_def [symmetric]
  show ?thesis
  proof (cases "taskAt t k")
    case (Some rt)
    consider "exec_step\<^sup>*\<^sup>* st st'"
      | due where "\<not> (tkPhase rt = PhRunning \<and> previous \<noteq> None \<and> \<not> cpnCanRecover plan)"
          "commitClaim cx env input now ?plan due rt t st = Inr (res, st')"
      using run Some unfolding unfold by (auto split: if_split_asm intro: acknowledge_exec)
    then show ?thesis
    proof cases
      case (2 due)
      have "cpnCanRecover ?plan \<and> (\<exists>a. cpnPrevious ?plan = Some a \<and> atId a = j)"
        if j: "readTask st k = Some r0" "tkCurrentAttemptId r0 = Some j" "readAttempt st j = Some b" "atState b = ARunning" for r0 j b
      proof -
        from previous_found [OF ctx r previous j] obtain a where p: "tkPhase r = PhRunning" "previous = Some a" "atId a = j" by blast
        have "cpnCanRecover plan"
        proof (rule ccontr)
          assume "\<not> cpnCanRecover plan"
          with p have "t = tree" by (simp add: t_def same)
          with Some r 2(1) p \<open>\<not> cpnCanRecover plan\<close> show False by simp
        qed
        with p plan show ?thesis by simp
      qed
      from commitClaim_exec [OF ctx w Some k live fresh this 2(2)] show ?thesis .
    qed
  next
    case None
    then have "st' = st" using run unfolding unfold by simp
    then show ?thesis by simp
  qed
qed

lemma claimUnlessBlocked_exec:
  assumes ctx: "context_ok st tree" and r: "taskAt tree k = Some r" and k: "clTaskId input = k"
    and live: "\<not> isCancelled st k" and fresh: "fresh env st"
    and run: "claimUnlessBlocked cx env input now tree r st = Inr (res, st')"
  shows "exec_step\<^sup>*\<^sup>* st st'"
proof (cases "taskExecutionRetryExhausted r \<or> pendingTaskExecutionRetryAt r now \<noteq> None")
  case True
  then show ?thesis using run
    by (auto simp: claimUnlessBlocked_def Let_def rbind_Inr split: if_splits option.splits intro: acknowledge_exec)
next
  case False
  have id: "tkId r = k" using context_filed [OF ctx r] .
  from run False obtain previous where previous: "currentResourceAttempt tree r = Inr previous"
    by (auto simp: claimUnlessBlocked_def Let_def rbind_Inr)
  have tree: "(if tkPhase r = PhRunning \<and> previous = None then requeueWithoutAttempt k now r tree else tree) = claimTree k now previous r tree"
    by (simp add: claimTree_def)
  consider s where "failAdmission env input now s previous (beginResourceMutationScopeForTasks tree [k]) (claimTree k now previous r tree) st = Inr (res, st')"
    | plan where "claimGuarded cx env input now plan (claimTree k now previous r tree) st = Inr (res, st')" "cpnPrevious plan = previous"
    using run False previous unfolding claimUnlessBlocked_def Let_def k id
    by (auto simp: tree split: sum.split_asm)
  then show ?thesis
    by cases (auto intro: failAdmission_exec [OF ctx r previous k] claimGuarded_exec [OF ctx r previous k live fresh])
qed

lemma claimRounds_exec:
  "execution_ok st \<Longrightarrow> fresh env st \<Longrightarrow> claimRounds n cx env input now st = Some (Inr (res, st')) \<Longrightarrow> exec_step\<^sup>*\<^sup>* st st'"
proof (induction n arbitrary: st)
  case (Suc n)
  let ?k = "clTaskId input"
  from Suc.prems(3) obtain tree where tree: "readTaskContext st (taskScope [?k]) True None = Inr tree" by (auto split: sum.split_asm)
  note ctx = context_okI [OF Suc.prems(1) tree]
  show ?case
  proof (cases "taskAt tree ?k")
    case (Some r)
    consider "st' = st"
      | st1 where "exhaustRetainedFailures cx now tree r st = Inr (Some st1)" "claimRounds n cx env input now st1 = Some (Inr (res, st'))"
      | "\<not> isCancelled st ?k" "claimUnlessBlocked cx env input now tree r st = Inr (res, st')"
      using Suc.prems(3) tree Some by (auto split: if_split_asm option.split_asm sum.split_asm)
    then show ?thesis
    proof cases
      case (2 st1)
      from adopt_exec [OF ctx Some context_key [OF tree Some] 2(1)] Suc.prems(2) have "exec_step\<^sup>*\<^sup>* st st1" "fresh env st1" by simp_all
      with Suc.IH [OF exec_steps_ok [OF _ Suc.prems(1)] _ 2(2)] show ?thesis by simp
    qed (auto intro: claimUnlessBlocked_exec [OF ctx Some refl _ Suc.prems(2)])
  qed (use Suc.prems(3) tree in simp)
qed simp

lemma claim_exec:
  "execution_ok st \<Longrightarrow> fresh env st \<Longrightarrow> claimObservedAppTask cx env input now st = Inr (res, st') \<Longrightarrow> exec_step\<^sup>*\<^sup>* st st'"
  unfolding claimObservedAppTask_def by (rule claimRounds_exec) (simp_all split: option.splits)

text \<open>The second round finds the record adopted.\<close>

lemma claimRounds_adopted:
  assumes "execution_ok st" "readTask st (clTaskId input) = Some r" "adopted cx r"
  shows "claimRounds (Suc n) cx env input now st \<noteq> None"
proof (cases "readTaskContext st (taskScope [clTaskId input]) True None")
  case (Inr tree)
  have "exhaustRetainedFailures cx now tree r' st = Inr None" if "taskAt tree (clTaskId input) = Some r'" for r'
    using that context_reflects [OF assms(1) Inr] assms(2,3) by (auto simp: reflects_def adopted_settled)
  with Inr show ?thesis by (auto split: option.split)
qed simp

end
