(* ===== verification/Execution_Properties.thy ===== *)
theory Execution_Properties
  imports Execution_Claims
begin

text \<open>
  Execution over whole runs of the reconciler: no Task ever runs on two attempts, and the store is a lease
  machine, which hands a Task to an attempt that was never issued before and takes it back.
\<close>

section \<open>Runs of the reconciler\<close>

text \<open>
  A step is one call of an operation of the reconciler that commits, or a wake that is persisted with
  an event while no operation is in progress. The identifier of a claimed attempt
  carries a random UUID, which the store does not hold yet (\<open>fresh\<close>).
\<close>

inductive reconcile_step :: "task_store \<Rightarrow> task_store \<Rightarrow> bool" where
  observed: "observeAppTaskIntent now input st = Inr (o_res, st') \<Longrightarrow> reconcile_step st st'"
| triggered: "recordAppTaskTrigger cx now k event st = Inr (t_res, st') \<Longrightarrow> reconcile_step st st'"
| claimed: "fresh env st \<Longrightarrow> claimObservedAppTask cx env cl now st = Inr (c_res, st') \<Longrightarrow> reconcile_step st st'"
| completed: "completeAppTask now claim si st = Inr (s_res, st') \<Longrightarrow> reconcile_step st st'"
| deferred: "deferAppTask others now claim si st = Inr (d_res, st') \<Longrightarrow> reconcile_step st st'"
| reported: "reportAppTaskFailure cx now claim ri st = Inr (r_res, st') \<Longrightarrow> reconcile_step st st'"
| failed: "failAppTaskAttempt cx now claim failure d st = Inr (f_res, st') \<Longrightarrow> reconcile_step st st'"
| staled: "releaseStaleAppTaskResult now claim summary st = Inr (sr_res, st') \<Longrightarrow> reconcile_step st st'"
| stopped: "stopAppTaskAttempt now stop st = Inr (st_res, st') \<Longrightarrow> reconcile_step st st'"
| workspace: "recordAppTaskAttemptWorkspace now claim w st = Inr (w_res, st') \<Longrightarrow> reconcile_step st st'"
| released_workspace: "recordReleasedAppTaskWorkspace now claim w st = Inr st' \<Longrightarrow> reconcile_step st st'"
| renewed: "renewAppTaskAttemptLease now l claim t st = Inr (l_res, st') \<Longrightarrow> reconcile_step st st'"
| sessioned: "recordAppTaskAttemptSession now l claim s st = Inr (se_res, st') \<Longrightarrow> reconcile_step st st'"
| associated: "associateAppTaskSession now l binding s st = Inr (a_res, st') \<Longrightarrow> reconcile_step st st'"
| changed: "applyRunningTaskChanges now claim ci st = Inr (ch_res, st') \<Longrightarrow> reconcile_step st st'"
| retried: "retryFailedAppTask now uuid rt st = Inr (re_res, st') \<Longrightarrow> reconcile_step st st'"
| closed: "closeAppTask now co after st = Inr (cl_res, st') \<Longrightarrow> reconcile_step st st'"
| cancelled: "cancelAppTask now co st = Inr (ca_res, st') \<Longrightarrow> reconcile_step st st'"
| reopened: "reopenAppTask now lastEventId ro st = Inr (ro_res, st') \<Longrightarrow> reconcile_step st st'"
| interrupted: "releaseInterruptedAppTaskAttempt runtime now recovery s st = Inr (i_res, st') \<Longrightarrow> reconcile_step st st'"
| expired: "releaseTerminalSessionExpiredAppTaskAttempt recovery sid terminal s t act st = Inr (x_res, st') \<Longrightarrow> reconcile_step st st'"
| late: "releaseLateTerminalWorkflowAppTaskAttempt now k g sid s st = Inr (la_res, st') \<Longrightarrow> reconcile_step st st'"
| attention: "repairPreviousRuntimeRecoveryAttention now ks st = Inr (ra_res, st') \<Longrightarrow> reconcile_step st st'"
| unadmitted: "repairUnadmittedAppDependencyWaits now adm ks st = Inr (ru_res, st') \<Longrightarrow> reconcile_step st st'"
| unattempted: "repairRunningAppTasksWithoutAttempt now ks st = Inr (rr_res, st') \<Longrightarrow> reconcile_step st st'"
| tracked: "trackAppTaskConditionEventForTasks now others ev ks st = Inr (tr_res, st') \<Longrightarrow> reconcile_step st st'"
| woken: "persistExactTaskWake event target i t st = Inr st' \<Longrightarrow> reconcile_step st st'"

lemma close_app_exec:
  "execution_ok st \<Longrightarrow> closeAppTask now co after st = Inr (res, st') \<Longrightarrow> exec_step\<^sup>*\<^sup>* st st'"
  "execution_ok st \<Longrightarrow> cancelAppTask now co st = Inr (res, st') \<Longrightarrow> exec_step\<^sup>*\<^sup>* st st'"
  by (auto simp: closeAppTask_def cancelAppTask_def rbind_Inr intro: close_exec)

lemma woken_exec:
  "execution_ok st \<Longrightarrow> persistExactTaskWake event target i t st = Inr st' \<Longrightarrow> exec_step\<^sup>*\<^sup>* st st'"
  by (blast intro: exec_step.wakes)

lemmas operations_exec = observe_exec trigger_exec claim_exec complete_exec defer_exec report_exec fail_exec releaseStale_exec
  stop_exec workspace_exec releasedWorkspace_exec renew_exec session_exec associate_exec changes_exec retry_exec close_app_exec
  reopen_exec release_exec repairs_exec track_exec woken_exec

lemma reconcile_exec: "reconcile_step st st' \<Longrightarrow> execution_ok st \<Longrightarrow> exec_step\<^sup>*\<^sup>* st st'"
  by (induction rule: reconcile_step.induct) (rule operations_exec; assumption)+

section \<open>The lease machine\<close>

text \<open>
  The abstract state: which attempt holds a Task, and which attempts were ever issued. The machine takes
  Tasks back and hands a Task to an attempt it never issued.
\<close>

type_synonym lease_state = "(string \<Rightarrow> string option) \<times> string set"

inductive lease_step :: "lease_state \<Rightarrow> lease_state \<Rightarrow> bool" where
  release: "lease_step (h, u) (h |` K, u)"
| acquire: "h k = None \<Longrightarrow> i \<notin> u \<Longrightarrow> lease_step (h, u) (h(k \<mapsto> i), insert i u)"

definition holder :: "task_store \<Rightarrow> string \<Rightarrow> string option" where
  "holder st k =
     (case Option.bind (readTask st k) tkCurrentAttemptId of
        None \<Rightarrow> None
      | Some i \<Rightarrow> (case readAttempt st i of Some a \<Rightarrow> if atState a = ARunning then Some i else None | None \<Rightarrow> None))"

definition leases :: "task_store \<Rightarrow> lease_state" where
  "leases st = (holder st, set (dkeys (stAttempts st)))"

lemma holder_Some:
  "holder st k = Some i \<longleftrightarrow> (\<exists>r a. readTask st k = Some r \<and> tkCurrentAttemptId r = Some i \<and> readAttempt st i = Some a \<and> atState a = ARunning)"
  by (auto simp: holder_def bind_eq_Some_conv split: option.splits)

lemma running_holds:
  assumes "execution_ok st" "readAttempt st i = Some a" "atState a = ARunning"
  shows "holder st (atTaskId a) = Some i"
  using exec_parts(2) [of "readTask st" "readAttempt st" i a] assms by (auto simp: holder_Some execution_ok_def)

lemma holder_task:
  assumes "execution_ok st" "holder st k = Some i"
  obtains a where "readAttempt st i = Some a" "atState a = ARunning" "atTaskId a = k"
  using assms exec_parts(3) [of "readTask st" "readAttempt st"] by (fastforce simp: holder_Some execution_ok_def)

lemma issued_iff: "i \<in> snd (leases st) \<longleftrightarrow> readAttempt st i \<noteq> None"
  by (simp add: leases_def readAttempt_def dget_None_iff)

text \<open>An attempt that holds a Task after a commit held it before, or was started by it.\<close>

lemma holder_before:
  assumes "execution_ok st" "executes st m" "commitTaskMutation now m st = Inr st'" "holder st' k = Some i"
  shows "holder st k = Some i \<or> (\<exists>w\<in>set (muTasks m). startsTask st m (twResource w) i \<and> tkId (twResource w) = k)"
proof -
  from holder_task [OF execution_commit [OF assms(1-3)] assms(4)] obtain a where
    a: "readAttempt st' i = Some a" "atState a = ARunning" "atTaskId a = k" .
  from assms(2,3) a(1) show ?thesis
  proof (cases rule: attempt_before)
    case (1 a0)
    with a running_holds [OF assms(1)] show ?thesis by auto
  qed (use a in auto)
qed

lemma retains_steady:
  assumes "retains st m" "w \<in> set (muTasks m)"
  shows "\<not> startsTask st m (twResource w) i"
proof
  assume start: "startsTask st m (twResource w) i"
  then have cur: "tkCurrentAttemptId (twResource w) = Some i" and new: "unused st i" by (simp_all add: startsTask_def)
  from assms have "keepsTask st (twResource w) \<or> idlesTask st m (twResource w)" by (simp add: retains_def)
  then show False
  proof
    assume "keepsTask st (twResource w)"
    then obtain r where "readTask st (tkId (twResource w)) = Some r" "same_task r (twResource w)" by (auto simp: keepsTask_def)
    with cur new show False unfolding unused_def same_task_def by metis
  qed (use cur in \<open>simp add: idlesTask_def\<close>)
qed

lemma map_le_restrict: "(\<And>k i. g k = Some i \<Longrightarrow> h k = Some i) \<Longrightarrow> g = h |` dom g"
  by (rule ext) (auto simp: restrict_map_def domIff split: option.splits)

lemma issued_kept:
  assumes "executes st m" "commitTaskMutation now m st = Inr st'" "readAttempt st i \<noteq> None"
  shows "readAttempt st' i \<noteq> None"
proof -
  have none: "muDeleteAttempts m = []" using assms(1) by (simp add: executes_def)
  from assms(2) none show ?thesis by (cases rule: commit_attempt_cases [where i = i]) (use assms(3) in auto)
qed

lemma retains_lease:
  assumes ok: "execution_ok st" and m: "retains st m" "commitTaskMutation now m st = Inr st'"
  shows "lease_step (leases st) (leases st')"
proof -
  have ex: "executes st m" using m(1) by (simp add: retains_def)
  have "holder st k = Some i" if "holder st' k = Some i" for k i
    using holder_before [OF ok ex m(2) that] retains_steady [OF m(1)] by blast
  then have "holder st' = holder st |` dom (holder st')" by (rule map_le_restrict)
  moreover have "readAttempt st' i \<noteq> None \<longleftrightarrow> readAttempt st i \<noteq> None" for i
  proof
    assume "readAttempt st' i \<noteq> None"
    then obtain a where "readAttempt st' i = Some a" by blast
    with ex m(2) show "readAttempt st i \<noteq> None" by (cases rule: attempt_before) (use retains_steady [OF m(1)] in auto)
  qed (rule issued_kept [OF ex m(2)])
  then have "snd (leases st') = snd (leases st)" by (auto simp only: issued_iff set_eq_iff)
  ultimately show ?thesis using lease_step.release [of "holder st" _ "dom (holder st')"] by (simp add: leases_def)
qed

lemma start_lease:
  assumes ok: "execution_ok st" and ex: "executes st m" and w: "muTasks m = [w]" and start: "startsTask st m (twResource w) (atId a)"
    and a: "atState a = ARunning" "a \<in> set (muAttempts m)" "\<forall>b\<in>set (muAttempts m). atId b = atId a \<longrightarrow> b = a"
    and commit: "commitTaskMutation now m st = Inr st'"
  shows "lease_step\<^sup>*\<^sup>* (leases st) (leases st')"
proof -
  let ?k = "tkId (twResource w)" and ?i = "atId a" and ?u = "snd (leases st)"
  define h where "h = holder st |` (dom (holder st') - {?k})"
  have none: "muDeleteAttempts m = []" using ex by (simp add: executes_def)
  have new: "readAttempt st' ?i = Some a"
    using commit none by (cases rule: commit_attempt_cases [where i = ?i]) (use a in auto)
  have "readTask st' ?k = Some (twResource w)" using task_started [OF ex commit _ start] w by simp
  then have here: "holder st' ?k = Some ?i" using start new a(1) by (simp add: holder_Some startsTask_def)
  have other: "holder st k = Some i" if "holder st' k = Some i" "k \<noteq> ?k" for k i
    using holder_before [OF ok ex commit that(1)] that(2) w by auto
  have "holder st' = h(?k \<mapsto> ?i)"
  proof
    fix k show "holder st' k = (h(?k \<mapsto> ?i)) k"
      using here other [of k] by (cases "holder st' k") (auto simp: h_def restrict_map_def)
  qed
  moreover have "readAttempt st' i \<noteq> None \<longleftrightarrow> i = ?i \<or> readAttempt st i \<noteq> None" for i
  proof
    assume "readAttempt st' i \<noteq> None"
    then obtain b where "readAttempt st' i = Some b" by blast
    with ex commit show "i = ?i \<or> readAttempt st i \<noteq> None"
      by (cases rule: attempt_before) (use start w in \<open>auto simp: startsTask_def\<close>)
  next
    assume "i = ?i \<or> readAttempt st i \<noteq> None"
    then show "readAttempt st' i \<noteq> None" using new issued_kept [OF ex commit] by auto
  qed
  then have "snd (leases st') = insert ?i ?u" by (auto simp only: issued_iff set_eq_iff insert_iff)
  ultimately have after: "leases st' = (h(?k \<mapsto> ?i), insert ?i ?u)" by (simp add: leases_def)
  have "lease_step (leases st) (h, ?u)" unfolding h_def leases_def snd_conv by (rule lease_step.release)
  moreover have "readAttempt st ?i = None" using start by (simp add: startsTask_def unused_def)
  then have "lease_step (h, ?u) (leases st')"
    unfolding after by (intro lease_step.acquire) (simp_all only: issued_iff, simp_all add: h_def)
  ultimately show ?thesis by (metis converse_rtranclp_into_rtranclp r_into_rtranclp)
qed

lemma exec_lease: "exec_step st st' \<Longrightarrow> execution_ok st \<Longrightarrow> lease_step\<^sup>*\<^sup>* (leases st) (leases st')"
proof (induction rule: exec_step.induct)
  case (indexes st now k u)
  have "holder (snd (setRecoveryState now k u st)) = holder st"
    by (rule ext) (simp add: holder_def readAttempt_def recovery_frame cong: option.case_cong)
  then have "leases (snd (setRecoveryState now k u st)) = leases st" by (simp add: leases_def recovery_frame)
  then show ?case by simp
next
  case (wakes event target i t st st')
  have "Option.bind (readTask st' k) tkCurrentAttemptId = Option.bind (readTask st k) tkCurrentAttemptId" for k
    using wake_frame(3,4) [OF wakes(1), of k] by (cases "readTask st k"; cases "readTask st' k") fastforce+
  moreover have "readAttempt st' = readAttempt st" by (simp add: fun_eq_iff readAttempt_def wake_frame(1) [OF wakes(1)])
  ultimately have "holder st' = holder st" by (intro ext) (simp add: holder_def cong: option.case_cong)
  then have "leases st' = leases st" by (simp add: leases_def wake_frame(1) [OF wakes(1)])
  then show ?case by simp
qed (blast intro: retains_lease start_lease)+

interpretation execution: simulation exec_step execution_ok leases lease_step
  by unfold_locales (auto intro: exec_step_ok exec_lease)

interpretation reconciler: simulation reconcile_step execution_ok leases lease_step
  by unfold_locales (blast intro: reconcile_exec exec_steps_ok execution.runs_simulate)+

section \<open>The properties\<close>

text \<open>
  C1. However the operations of the reconciler and persisted wakes follow one another, a running attempt is the current attempt
  of its Task, which is in phase \<open>running\<close> and not cancelled, and no other attempt of that Task runs: two
  runtimes never execute the same Task at once.
\<close>

theorem execution_exclusive:
  assumes "execution_ok st0" "reconcile_step\<^sup>*\<^sup>* st0 st" "readAttempt st i = Some a" "atState a = ARunning"
  shows "(\<exists>r. readTask st (atTaskId a) = Some r \<and> tkPhase r = PhRunning \<and> tkCurrentAttemptId r = Some i) \<and>
    \<not> isCancelled st (atTaskId a) \<and>
    (\<forall>j b. readAttempt st j = Some b \<longrightarrow> atState b = ARunning \<longrightarrow> atTaskId b = atTaskId a \<longrightarrow> j = i)"
proof -
  have ok: "execution_ok st" using assms(2,1) by (rule reconciler.runs_keep)
  then have exec: "exec_ok (readTask st) (readAttempt st)" by (simp add: execution_ok_def)
  from exec_parts(2) [OF exec assms(3,4)] obtain r where r: "readTask st (atTaskId a) = Some r" "tkCurrentAttemptId r = Some i" by blast
  have "tkPhase r = PhRunning" using exec_parts(1) [OF exec r(1)] r(2) by fastforce
  moreover have "\<not> isCancelled st (atTaskId a)" using ok r by (auto simp: execution_ok_def)
  moreover have "j = i" if "readAttempt st j = Some b" "atState b = ARunning" "atTaskId b = atTaskId a" for j b
    using exec_parts(2) [OF exec that(1,2)] that(3) r by auto
  ultimately show ?thesis using r by blast
qed

text \<open>
  C2. The reconciler refines the lease machine: with a Task's running current attempt as its holder and the
  stored attempts as those issued, every run of its operations is a run of the machine. A Task changes
  hands only through a release, and to an attempt that was never issued before.
\<close>

theorem reconciler_refines_leases:
  "execution_ok st \<Longrightarrow> reconcile_step\<^sup>*\<^sup>* st st' \<Longrightarrow> lease_step\<^sup>*\<^sup>* (leases st) (leases st')"
  by (rule reconciler.runs_simulate)

text \<open>
  C4. A claim settles: it adopts a failure record of an older Host at most once before it decides, so
  two rounds always return, whether with a claim, a wait, a closed Task or an error.
\<close>

theorem claim_settles_in_two_rounds:
  assumes "execution_ok st"
  shows "\<exists>y. claimRounds (Suc (Suc n)) cx env input now st = Some y"
proof (cases "readTaskContext st (taskScope [clTaskId input]) True None")
  case (Inr tree)
  note ctx = context_okI [OF assms Inr]
  have "claimRounds (Suc n) cx env input now st1 \<noteq> None"
    if "taskAt tree (clTaskId input) = Some r" "exhaustRetainedFailures cx now tree r st = Inr (Some st1)" for r st1
    using adopt_exec [OF ctx that(1) context_key [OF Inr that(1)] that(2)] assms claimRounds_adopted
    by (blast intro: exec_steps_ok)
  with Inr show ?thesis by (simp del: claimRounds.simps add: claimRounds.simps(2) [of "Suc n"] split: option.split sum.split)
qed simp

section \<open>A demonstration\<close>

definition demoContext :: task_context where
  "demoContext = \<lparr>cxAppDir = ''/app'', cxProjectDir = ''/app'', cxAgent = ''agent'', cxMaxConcurrent = num_int 1,
     cxMaxConsecutiveFailures = None\<rparr>"

definition demoEnv :: "string \<Rightarrow> claim_env" where
  "demoEnv uuid = \<lparr>ceFs = \<lparr>fsExists = (\<lambda>_. True), fsRealpath = (\<lambda>p. p)\<rparr>, ceCwd = [], ceRuntimeId = ''host-1'', ceUuid = uuid,
     ceLeaseId = ''lease-1'', ceIsAgentRunnable = None, ceRecoverPreviousSession = None, ceRecoverSessionHandoff = (\<lambda>_. None)\<rparr>"

definition demoClaim :: claim_input where
  "demoClaim = \<lparr>clTaskId = ''b'', clAppAgent = ''agent'', clHandler = ''agent'', clReason = None\<rparr>"

definition grownStore :: task_store where
  "grownStore = afterObserve 5 forestInput forestStore"

definition runningStore :: task_store where
  "runningStore = (case claimObservedAppTask demoContext (demoEnv ''u1'') demoClaim 9 grownStore of Inr (_, st) \<Rightarrow> st | Inl _ \<Rightarrow> grownStore)"

text \<open>A store without attempts, whose Tasks name none.\<close>

definition quiet :: "task_store \<Rightarrow> bool" where
  "quiet st \<longleftrightarrow> stAttempts st = [] \<and>
     list_all (\<lambda>row. tkCurrentAttemptId (rwResource row) = None \<and> tkObservedAttemptId (rwResource row) = None) (dvals (stTasks st))"

lemma quiet_task:
  assumes "quiet st" "readTask st k = Some r"
  shows "tkCurrentAttemptId r = None" "tkObservedAttemptId r = None"
proof -
  from assms(2) obtain row where row: "dget (stTasks st) k = Some row" "r = rwResource row" by (auto simp: readTask_def)
  have "row \<in> set (dvals (stTasks st))" using dget_Some_in [OF row(1)] by (force simp: dvals_def)
  with assms(1) row(2) show "tkCurrentAttemptId r = None" "tkObservedAttemptId r = None"
    by (auto simp: quiet_def list_all_iff)
qed

lemma quiet_attempt: "quiet st \<Longrightarrow> readAttempt st i = None"
  by (simp add: quiet_def readAttempt_def)

lemma quiet_ok: "store_ok st \<Longrightarrow> quiet st \<Longrightarrow> execution_ok st"
  by (auto simp: execution_ok_def attempts_filed_def exec_ok_def quiet_task quiet_attempt) (simp add: quiet_def)

lemma quiet_fresh: "quiet st \<Longrightarrow> fresh env st"
  by (auto simp: fresh_def unused_def attemptIdOf_def quiet_task quiet_attempt)

lemma forest_ok: "execution_ok forestStore"
proof (rule quiet_ok)
  show "store_ok forestStore" using forestStore_reach by (rule store_ok_reach)
  show "quiet forestStore" by code_simp
qed

lemma grown_step: "reconcile_step forestStore grownStore"
  unfolding grownStore_def by (rule reconcile_step.observed [OF forest_observes])

lemma grown_ok: "execution_ok grownStore"
  using grown_step forest_ok by (rule reconciler.keeps)

lemma demo_claims: "\<exists>res. claimObservedAppTask demoContext (demoEnv ''u1'') demoClaim 9 grownStore = Inr (res, runningStore)"
proof -
  have "(case claimObservedAppTask demoContext (demoEnv ''u1'') demoClaim 9 grownStore of Inr _ \<Rightarrow> True | Inl _ \<Rightarrow> False)" by code_simp
  then show ?thesis by (auto simp: runningStore_def split: sum.split_asm)
qed

lemma demo_runs: "reconcile_step\<^sup>*\<^sup>* forestStore runningStore"
proof -
  have "quiet grownStore" by code_simp
  with demo_claims have "reconcile_step grownStore runningStore" by (blast intro: reconcile_step.claimed quiet_fresh)
  with grown_step show ?thesis by (meson converse_rtranclp_into_rtranclp r_into_rtranclp)
qed

lemma demo_attempt: "\<exists>a. readAttempt runningStore ''r_1_u1'' = Some a \<and> atState a = ARunning \<and> atTaskId a = ''b''"
proof -
  have "map_option (\<lambda>a. (atState a, atTaskId a)) (readAttempt runningStore ''r_1_u1'') = Some (ARunning, ''b'')" by code_simp
  then show ?thesis by auto
qed

theorem execution_exclusive_witness:
  "(\<exists>r. readTask runningStore ''b'' = Some r \<and> tkPhase r = PhRunning \<and> tkCurrentAttemptId r = Some ''r_1_u1'') \<and>
   \<not> isCancelled runningStore ''b''"
proof -
  from demo_attempt obtain a where a: "readAttempt runningStore ''r_1_u1'' = Some a" "atState a = ARunning" "atTaskId a = ''b''" by blast
  show ?thesis using execution_exclusive [OF forest_ok demo_runs a(1,2)] by (simp add: a(3))
qed

theorem reconciler_refines_leases_witness:
  "lease_step\<^sup>*\<^sup>* (leases forestStore) (leases runningStore) \<and> fst (leases forestStore) ''b'' = None \<and>
   fst (leases runningStore) ''b'' = Some ''r_1_u1''"
proof -
  have "fst (leases forestStore) ''b'' = None" "fst (leases runningStore) ''b'' = Some ''r_1_u1''" by code_simp+
  with reconciler_refines_leases [OF forest_ok demo_runs] show ?thesis by simp
qed

theorem claim_settles_in_two_rounds_witness:
  "\<exists>y. claimRounds (Suc (Suc 0)) demoContext (demoEnv ''u1'') demoClaim 9 grownStore = Some y"
  by (rule claim_settles_in_two_rounds [OF grown_ok])

end
