(* ===== verification/Claim_Properties.thy ===== *)
theory Claim_Properties
  imports Execution_Properties "HOL-Library.Multiset" "HOL-Library.Sublist"
begin

text \<open>
  What a claim does with the pending events of its Task: the batch it hands to the attempt and the rest it
  leaves queued, and the events of an attempt that a refused claim interrupts.
\<close>

section \<open>The batch\<close>

lemma firstSelection_shape:
  "distinct (firstSelection es)" "set (firstSelection es) \<subseteq> {..<length es}"
  "length (firstSelection es) = min MAX_TASK_EVENTS_PER_ATTEMPT (length es)"
  by (auto simp: firstSelection_def atLeast0LessThan [symmetric] dest: in_set_takeD)

text \<open>An event left out by the first selection comes after every event it chose.\<close>

lemma firstSelection_humans:
  assumes "i \<in> set (firstSelection es)" "j < length es" "j \<notin> set (firstSelection es)" "isHumanEvent (es ! j)"
  shows "isHumanEvent (es ! i)"
proof -
  define key where "key = (\<lambda>i. if isHumanEvent (es ! i) then 0 else 1 :: nat)"
  define ranked where "ranked = sort_key key [0..<length es]"
  have first: "firstSelection es = take MAX_TASK_EVENTS_PER_ATTEMPT ranked"
    by (simp add: firstSelection_def ranked_def key_def)
  have "sorted (map key (take MAX_TASK_EVENTS_PER_ATTEMPT ranked @ drop MAX_TASK_EVENTS_PER_ATTEMPT ranked))"
    by (simp add: ranked_def)
  moreover have "j \<in> set (take MAX_TASK_EVENTS_PER_ATTEMPT ranked @ drop MAX_TASK_EVENTS_PER_ATTEMPT ranked)"
    using assms(2) by (simp add: ranked_def)
  then have "j \<in> set (drop MAX_TASK_EVENTS_PER_ATTEMPT ranked)" using assms(3) by (simp only: first set_append) blast
  ultimately have "key i \<le> key j" using assms(1) unfolding first map_append sorted_append by auto
  then show ?thesis using assms(4) by (simp add: key_def split: if_splits)
qed

lemma correctionIndex_Some:
  assumes "correctionIndex r es = Some c"
  shows "c < length es" "isCorrection (es ! c)"
proof -
  from assms have ne: "filter (\<lambda>i. isCorrection (es ! i)) [0..<length es] \<noteq> []"
    and c: "c = last (filter (\<lambda>i. isCorrection (es ! i)) [0..<length es])"
    by (auto simp: correctionIndex_def split: if_splits list.splits)
  from last_in_set [OF ne] show "c < length es" "isCorrection (es ! c)" by (auto simp: c [symmetric])
qed

lemma selectedEvents_cases:
  obtains "selectedEvents r es = firstSelection es" "\<And>c. correctionIndex r es = Some c \<Longrightarrow> c \<in> set (firstSelection es)"
  | c where "correctionIndex r es = Some c" "c \<notin> set (firstSelection es)" "selectedEvents r es = butlast (firstSelection es) @ [c]"
      "length (firstSelection es) = MAX_TASK_EVENTS_PER_ATTEMPT"
proof (cases "correctionIndex r es")
  case (Some c)
  show ?thesis
  proof (cases "c \<in> set (firstSelection es)")
    case False
    have full: "length (firstSelection es) = MAX_TASK_EVENTS_PER_ATTEMPT"
    proof (rule ccontr)
      assume "length (firstSelection es) \<noteq> MAX_TASK_EVENTS_PER_ATTEMPT"
      then have "card (set (firstSelection es)) = card {..<length es}"
        using firstSelection_shape [of es] by (simp add: distinct_card min_def split: if_splits)
      then have "set (firstSelection es) = {..<length es}" using firstSelection_shape(2) by (intro card_subset_eq) auto
      with False correctionIndex_Some(1) [OF Some] show False by simp
    qed
    with Some False that(2) show ?thesis by (simp add: selectedEvents_def)
  qed (use Some that(1) in \<open>simp add: selectedEvents_def\<close>)
qed (use that(1) in \<open>simp add: selectedEvents_def\<close>)

lemma selectedEvents_shape:
  "distinct (selectedEvents r es)" "set (selectedEvents r es) \<subseteq> {..<length es}"
  "length (selectedEvents r es) = min MAX_TASK_EVENTS_PER_ATTEMPT (length es)"
proof -
  note first = firstSelection_shape [of es]
  have "distinct (selectedEvents r es) \<and> set (selectedEvents r es) \<subseteq> {..<length es} \<and>
      length (selectedEvents r es) = min MAX_TASK_EVENTS_PER_ATTEMPT (length es)"
  proof (cases rule: selectedEvents_cases [where r = r and es = es])
    case 1
    with first show ?thesis by simp
  next
    case (2 c)
    have "length (butlast (firstSelection es) @ [c]) = MAX_TASK_EVENTS_PER_ATTEMPT"
      using 2(4) by (simp add: MAX_TASK_EVENTS_PER_ATTEMPT_def)
    with 2 first correctionIndex_Some(1) [OF 2(1)] show ?thesis
      by (auto simp: distinct_butlast dest: in_set_butlastD)
  qed
  then show "distinct (selectedEvents r es)" "set (selectedEvents r es) \<subseteq> {..<length es}"
    "length (selectedEvents r es) = min MAX_TASK_EVENTS_PER_ATTEMPT (length es)" by simp_all
qed

lemma selectedEvents_humans:
  assumes "i \<in> set (selectedEvents r es)" "j < length es" "j \<notin> set (selectedEvents r es)" "isHumanEvent (es ! j)"
  shows "isHumanEvent (es ! i)"
proof (cases rule: selectedEvents_cases [where r = r and es = es])
  case 1
  with assms show ?thesis using firstSelection_humans by simp
next
  case (2 c)
  have c: "c < length es" "isHumanEvent (es ! c)" using correctionIndex_Some [OF 2(1)] by (simp_all add: isCorrection_def)
  have "i = c \<or> i \<in> set (firstSelection es)" using assms(1) 2(3) by (auto dest: in_set_butlastD)
  then show ?thesis using c 2(2) firstSelection_humans by blast
qed

lemma nth_filter_upt: "map ((!) es) (filter P [0..<length es]) = nths es {i. P i}"
proof -
  have "nths (map ((!) es) [0..<length es]) {i. P i} = map ((!) es) (nths [0..<length es] {i. P i})" by (rule nths_map)
  moreover have "nths [0..<n] {i. P i} = filter P [0..<n]" for n by (induction n) (auto simp: nths_append)
  ultimately show ?thesis by (simp add: map_nth)
qed

text \<open>
  C3. A claim splits the pending events of its Task: the attempt's batch and the rest left for later are
  together exactly the pending events, each in their order. The batch is as large as it can be up to
  the limit of 32, takes human input before anything else, and for a Task whose retries are exhausted
  contains the latest human correction.
\<close>

theorem claim_batch_exact:
  "mset (claimedEvents r es) + mset (remainingEvents r es) = mset es \<and>
   subseq (claimedEvents r es) es \<and> subseq (remainingEvents r es) es \<and>
   length (claimedEvents r es) = min MAX_TASK_EVENTS_PER_ATTEMPT (length es) \<and>
   ((\<exists>e\<in>set (remainingEvents r es). isHumanEvent e) \<longrightarrow> (\<forall>e\<in>set (claimedEvents r es). isHumanEvent e)) \<and>
   (tkRetryExhausted r \<noteq> None \<longrightarrow> tkFreshHumanInput r \<longrightarrow> (\<exists>e\<in>set es. isCorrection e) \<longrightarrow>
     last (filter isCorrection es) \<in> set (claimedEvents r es))"
proof (intro conjI impI)
  let ?sel = "set (selectedEvents r es)"
  note shape = selectedEvents_shape [of r es]
  have c: "claimedEvents r es = nths es ?sel" "remainingEvents r es = nths es (- ?sel)"
    using nth_filter_upt [of es "\<lambda>i. i \<in> ?sel"] nth_filter_upt [of es "\<lambda>i. i \<notin> ?sel"]
    by (simp_all add: claimedEvents_def remainingEvents_def Compl_eq)
  have "mset (filter (\<lambda>i. i \<in> ?sel) [0..<length es]) + mset (filter (\<lambda>i. i \<notin> ?sel) [0..<length es]) = mset [0..<length es]"
    by (metis mset_filter multiset_partition)
  then have "image_mset ((!) es) (mset (filter (\<lambda>i. i \<in> ?sel) [0..<length es]) + mset (filter (\<lambda>i. i \<notin> ?sel) [0..<length es])) =
      mset (map ((!) es) [0..<length es])" by (simp only: mset_map)
  then show "mset (claimedEvents r es) + mset (remainingEvents r es) = mset es"
    by (simp add: claimedEvents_def remainingEvents_def map_nth)
  show "subseq (claimedEvents r es) es" "subseq (remainingEvents r es) es" unfolding c by (auto simp: subseq_conv_nths)
  have "card ({i. i < length es \<and> i \<in> ?sel}) = length (selectedEvents r es)"
    using shape by (simp add: distinct_card [symmetric]) (metis (no_types, lifting) Collect_mem_eq Collect_cong lessThan_iff subsetD)
  then show "length (claimedEvents r es) = min MAX_TASK_EVENTS_PER_ATTEMPT (length es)"
    using shape(3) by (simp add: c length_nths)
  show "\<forall>e\<in>set (claimedEvents r es). isHumanEvent e" if "\<exists>e\<in>set (remainingEvents r es). isHumanEvent e"
    using that selectedEvents_humans by (auto simp: claimedEvents_def remainingEvents_def)
  show "last (filter isCorrection es) \<in> set (claimedEvents r es)"
    if "tkRetryExhausted r \<noteq> None" "tkFreshHumanInput r" "\<exists>e\<in>set es. isCorrection e"
  proof -
    let ?is = "filter (\<lambda>i. isCorrection (es ! i)) [0..<length es]"
    have es: "filter isCorrection es = map ((!) es) ?is"
      using filter_map [of isCorrection "(!) es" "[0..<length es]"] by (simp add: map_nth comp_def)
    have ne: "?is \<noteq> []" using that(3) by (force simp: filter_empty_conv in_set_conv_nth)
    with that(1,2) have i: "correctionIndex r es = Some (last ?is)" by (auto simp: correctionIndex_def split: list.split)
    have "last ?is \<in> ?sel" by (cases rule: selectedEvents_cases [where r = r and es = es]) (use i in auto)
    with correctionIndex_Some [OF i] ne show ?thesis by (auto simp: claimedEvents_def es last_map)
  qed
qed

text \<open>Thirty-three system events and a correction, for a Task whose retries are exhausted.\<close>

definition demoBacklog :: "trigger_event list" where
  "demoBacklog = map (\<lambda>n. \<lparr>teEvent = [(''eventId'', JNum (num_int n)), (''type'', JStr ''note'')], teObservedAt = n\<rparr>) [1..33] @
     [\<lparr>teEvent = [(''eventId'', JNum (num_int 99)), (''type'', JStr ''app.task.requested''), (''source'', JStr ''human'')], teObservedAt = 99\<rparr>]"

definition demoExhausted :: task_resource where
  "demoExhausted = (blankTask ''a'')\<lparr>tkFreshHumanInput := True,
     tkRetryExhausted := Some \<lparr>reGeneration = 1, reAttemptId = ''r_1_u0'', reFailures = 3, reLimit = 3, reExhaustedAt = 5\<rparr>\<rparr>"

theorem claim_batch_exact_witness:
  "length (claimedEvents demoExhausted demoBacklog) = 32 \<and> last demoBacklog \<in> set (claimedEvents demoExhausted demoBacklog)"
proof -
  have "min MAX_TASK_EVENTS_PER_ATTEMPT (length demoBacklog) = 32" "tkRetryExhausted demoExhausted \<noteq> None" "tkFreshHumanInput demoExhausted"
    "\<exists>e\<in>set demoBacklog. isCorrection e" "last (filter isCorrection demoBacklog) = last demoBacklog" by code_simp+
  with claim_batch_exact [of demoExhausted demoBacklog] show ?thesis by simp
qed

section \<open>Events of an interrupted attempt\<close>

text \<open>
  A claim that is refused because its agent is not runnable interrupts the attempt of an earlier
  runtime without restoring its events. The Task is pending again, but the request it was created with
  is no longer queued and no attempt of it holds the request as current: a later claim starts without it.
\<close>

definition refusingEnv :: claim_env where
  "refusingEnv = (demoEnv ''u2'')\<lparr>ceRuntimeId := ''host-2'', ceIsAgentRunnable := Some (\<lambda>_. False)\<rparr>"

definition refusedStore :: task_store where
  "refusedStore = (case claimObservedAppTask demoContext refusingEnv demoClaim 11 runningStore of Inr (_, st) \<Rightarrow> st | Inl _ \<Rightarrow> runningStore)"

lemma refused_claim_drops_events:
  "map_option (length \<circ> attemptEvents) (readAttempt runningStore ''r_1_u1'') = Some 1 \<and>
   map_option atState (readAttempt refusedStore ''r_1_u1'') = Some AInterrupted \<and>
   map_option tkPhase (readTask refusedStore ''b'') = Some PhPending \<and>
   map_option tkCurrentAttemptId (readTask refusedStore ''b'') = Some None \<and>
   readTrigger refusedStore ''b'' = None"
  by code_simp

end
