(* ===== verification/Spec2Isabelle.thy ===== *)
theory Spec2Isabelle
  imports Host_Capacity Task_Queue Task_Controller Task_Recovery Task_State Task_Conditions Task_Events
    Resource_Store Store_Invariants Store_Properties Task_Projection Commit_Effects Admission_Properties Output_Paths
    Task_Claim Task_Settle Task_Attempt Task_Control Task_Release Condition_Tracking Execution_Properties Claim_Properties
begin

text \<open>
  A verification development for the scheduling and Task core of the May Host (repository \<open>may-agent\<close>).

  \<^bold>\<open>The program.\<close> The Host runs the Tasks of several Apps. Durable state lives in one store per App
  (\<open>core/state/app-task-resource-store.ts\<close>), whose Tasks are changed by mutations that carry fences on the rows
  they were computed from. Two writers carry none: the recovery index sets scheduling marks, and the event writer
  (\<open>persistExactTaskWake\<close> of \<open>lib/db-writer.ts\<close>) puts an event into the trigger of the Task it is addressed to and
  raises that Task's version. The reconciler (\<open>core/tasks/app-task-reconciler.ts\<close>) reads a context of Tasks from the
  store, works on it as a tree, and commits: it admits desired work and wakes, claims a Task for an attempt,
  settles, stops, retries, closes and reopens it, and repairs what an earlier Host left behind. Events
  reach Tasks as triggers, or through the Conditions Tasks wait for
  (\<open>core/tasks/app-task-condition-tracker.ts\<close>). In memory, a queue per App (\<open>core/tasks/queue.ts\<close>) orders the
  woken Tasks, a controller (\<open>core/tasks/controller.ts\<close>) runs them, all controllers share the slots of
  \<open>core/scheduling/host-capacity.ts\<close>, and a recovery scheduler (\<open>core/tasks/app-task-recovery.ts\<close>) wakes Tasks
  whose time has come. Paths are relative to \<open>src/src/app\<close>, those that start
  with \<open>lib\<close> to \<open>src/src\<close>, and those that start with \<open>packages\<close> to \<open>src\<close>.

  \<^bold>\<open>The theories, in the order they build on one another.\<close>
  \<^item> \<open>Prelude\<close>: ordered dictionaries and sets, strings, results, and the locales \<open>ordered_map\<close> and \<open>simulation\<close>.
    \<open>Js_Value\<close>: JavaScript numbers, values and records.
  \<^item> \<open>Host_Capacity\<close>: class \<open>HostCapacity\<close>, with its waiters, grants and cancellable waits; the locale
    \<open>slot_pool\<close> is what a client relies on. \<open>Task_Queue\<close>: class \<open>AppTaskQueue\<close>. \<open>Task_Controller\<close>: class
    \<open>AppTaskController\<close> on top of both, with other Apps as environment steps. \<open>Task_Recovery\<close>: classes
    \<open>OwnedTimer\<close> and \<open>AppTaskRecoveryScheduler\<close>; a timer turn is an explicit step.
  \<^item> \<open>Task_State\<close>: the persisted records (\<open>app-task-state.ts\<close>, \<open>packages/sdk/src/task.ts\<close>). \<open>Task_Conditions\<close>:
    matching of events and approvals and the wakes they cause (\<open>app-task-condition-tracker.ts\<close>,
    \<open>human-condition.ts\<close>, \<open>packages/sdk/src/approval.ts\<close>). \<open>Task_Events\<close>: the event batch of a trigger.
  \<^item> \<open>Resource_Store\<close>: class \<open>AppTaskResourceStore\<close>, its tables as dictionaries, \<open>commit\<close> with its fences, seeding,
    the recovery index, the persisted wake, and the reading of snapshots and contexts. \<open>Store_Invariants\<close> and \<open>Store_Properties\<close>:
    its invariant \<open>store_ok\<close> and what its clients rely on. \<open>Task_Projection\<close>: owners, readiness and integrity
    findings (\<open>app-task-store.ts\<close>). \<open>Output_Paths\<close>: \<open>app-task-output-paths.ts\<close>.
  \<^item> The reconciler, one theory per group of its operations: \<open>Task_Reconcile\<close> (shared operations and mutation scopes),
    \<open>Task_Admission\<close> (\<open>observeAppTaskIntent\<close>, \<open>recordAppTaskTrigger\<close>), \<open>Task_Claim\<close> (\<open>claimObservedAppTask\<close>),
    \<open>Task_Settle\<close> (\<open>completeAppTask\<close>, \<open>deferAppTask\<close>, \<open>reportAppTaskFailure\<close>, \<open>failAppTaskAttempt\<close>), \<open>Task_Attempt\<close>
    (leases, sessions, workspaces, \<open>stopAppTaskAttempt\<close>, \<open>applyRunningTaskChanges\<close>), \<open>Task_Control\<close> (retry, close,
    cancel, reopen), \<open>Task_Release\<close> (releases and repairs) and \<open>Condition_Tracking\<close>
    (\<open>trackAppTaskConditionEventForTasks\<close>). An operation maps a store to a result and the store it commits;
    a thrown error is \<open>Inl\<close> of its message and leaves the store as it was.
  \<^item> \<open>Commit_Effects\<close> and \<open>Admission_Properties\<close>: what a committed mutation leaves behind, and what admission promises.
    \<open>Execution_Trees\<close>, \<open>Execution_Store\<close>, \<open>Execution_Operations\<close>, \<open>Execution_Claims\<close> and \<open>Execution_Properties\<close>: who
    executes a Task, from the tree an operation works on, over its commit, to whole runs of all
    operations. \<open>Claim_Properties\<close>: the event batch of a claim.

  \<^bold>\<open>What the theorems show.\<close>
  \<^item> Execution: over every run of the reconciler and of persisted wakes the store holds at most one running attempt
    of a Task, its current one (\<open>execution_exclusive\<close>), and the store refines a lease machine that never issues an attempt twice
    (\<open>reconciler_refines_leases\<close>). A claim returns after at most one adoption (\<open>claim_settles_in_two_rounds\<close>)
    and splits the pending events exactly (\<open>claim_batch_exact\<close>).
  \<^item> Store: commits are fenced, exact and lose no update; creators and closures are durable; reachable
    stores are consistent; seeding and reading back agree, in whatever order rows are listed; recovery pages cover
    every candidate of a fixed moment; contexts are closed. Admission: the parents of Tasks stay acyclic and an input is admitted once.
  \<^item> Scheduling: capacity, queue and controller respect their limits, run a Task once at a time, and neither
    stall nor start work after closing; the queue selects the most urgent Task; recovery covers the nearest deadline.
  \<^item> Events, Conditions, projection and paths: batches lose nothing, wakes and approvals are exact, the views
    agree with their declarative meaning, and outputs stay inside their roots.

  \<^bold>\<open>Choices.\<close> Loops of the source are structural recursion, folds with early exit (\<open>rfold\<close>), or functions with a
  measure; parent chains and contexts end because every round visits a new row. The only counter is the one
  of \<open>claimRounds\<close>, which bounds the claim's call of itself: two rounds always return, by
  \<open>claim_settles_in_two_rounds\<close>. Versions and generations are unbounded naturals; JavaScript numbers
  where the code checks them are \<open>jsnum\<close>. Clocks, random identifiers, the file system, runtime
  identity, callbacks and the order in which the database lists rows are parameters; the only assumptions about them
  are that the UUID of a new attempt is not in the store yet (\<open>fresh\<close>) and that a listing has every row once. A
  stored row is identified with its JSON text. The operations are atomic, as the source runs each between its
  read and its commit without awaiting.

  \<^bold>\<open>Not modelled.\<close> The asynchronous execution of attempts (sessions, workflows, workspaces), transports, HTTP,
  conversations, the inbox, migrations, reporting and the SDK's authoring interface: they are input and
  output around the Task core, or durable state that no Task operation reads. Within the modelled files, text
  rendering, diagnostics, read caches and read-only listings are left out. The session that
  drains behind a claim and the worker protocol appear only through the results the operations receive.

  \<^bold>\<open>Observations on the code.\<close> \<open>refused_claim_drops_events\<close>: a claim refused for its agent drops the events
  of the attempt it interrupts. \<open>historical_task_never_revised\<close>: a Task stored without a creator can never be
  revised. A persisted wake marks a Task ready even while its retries are exhausted, so \<open>reachable_store_consistent\<close> excludes
  such marks only where no event waits.
\<close>

end
